(* ===== verification/Prelude.thy ===== *)
theory Prelude
  imports Complex_Main "HOL-Library.AList" "HOL-Library.Multiset"
begin

text \<open>
  Shared vocabulary of the development.  Python exceptions are values of \<open>py_exc\<close>, a
  computation that may raise is of type \<open>'a res\<close>, a Python \<open>dict\<close> is an insertion-ordered
  association list with distinct keys, and the built-ins \<open>max\<close>, \<open>min\<close> and \<open>sorted\<close> are
  written with exactly the comparisons CPython makes.  The lemmas of this theory are the
  ones several components use; they are collected in \<open>res_simps\<close> (the error monad) and
  \<open>dict_simps\<close> (dictionaries).
\<close>

named_theorems res_simps \<open>rewriting of the error monad\<close>
named_theorems dict_simps \<open>rewriting of dictionary operations\<close>

section \<open>Exceptions and fallible computations\<close>

datatype py_exc =
    ValueError
  | KeyError
  | IndexError
  | RuntimeError
  | AssertionError
  | OverflowError
  | InvalidOperation
  | DivisionByZero
  | ZeroDivisionError
  | InsufficientResource
  | InvalidResourceCombination
  | InvalidResourceArgument
  | NotMultipleOfQuantum
  | InstanceNotAvailable
  | GenericBadRequest
  | GenericForbidden
  | RejectedByHook
  | SessionNotFound
  | TooManySessionsMatched
  | TooManyKernelsFound
  | SessionAlreadyExists
  | QuotaExceeded
  | InvalidAPIParameters
  | ScalingGroupNotFound
  | ImageNotFound
  | UnknownImageReference
  | UnknownImageRegistry
  | UnboundLocalError
  | AgentError string string string
  | MultiAgentError "py_exc list"
  | InvalidIpAddressValue
  | AliasResolutionFailed
  | UnknownImageReferenceError
  | InternalServerError
  | InvalidAuthParameters
  | AuthorizationFailed
  | InvalidCredentials
  | InsufficientPrivilege
  | ObjectNotFound
  | TaskTemplateNotFound
  | VFolderNotFound
  | TooManyVFoldersFound
  | VFolderCreationFailed
  | VFolderAlreadyExists
  | VFolderOperationFailed
  | VFolderFilterStatusFailed
  | VFolderFilterStatusNotAvailable
  | StorageProxyError
  | InvalidArgument
  | BackendError
  | IntegrityError
  | TypeError
  | AttributeError
  | ImportError
  | DBAPIError
  | GroupNotFound
  | ServerMisconfiguredError
  | InvalidStateError
  | UnsupportedResource
  | ImageNotAvailable

type_synonym 'a res = "py_exc + 'a"

definition bindE :: "'e + 'a \<Rightarrow> ('a \<Rightarrow> 'e + 'b) \<Rightarrow> 'e + 'b" where
  "bindE m f = (case m of Inl e \<Rightarrow> Inl e | Inr x \<Rightarrow> f x)"

lemma bindE_Inl [simp, res_simps]: "bindE (Inl e) f = Inl e"
  by (simp add: bindE_def)

lemma bindE_Inr [simp, res_simps]: "bindE (Inr x) f = f x"
  by (simp add: bindE_def)

lemma bindE_eq_Inr_iff [res_simps]: "bindE m f = Inr y \<longleftrightarrow> (\<exists>x. m = Inr x \<and> f x = Inr y)"
  by (cases m) auto

lemma bindE_eq_Inl_iff [res_simps]:
  "bindE m f = Inl e \<longleftrightarrow> m = Inl e \<or> (\<exists>x. m = Inr x \<and> f x = Inl e)"
  by (cases m) auto

lemma bindE_assoc: "bindE (bindE m f) g = bindE m (\<lambda>x. bindE (f x) g)"
  by (cases m) auto

lemma bindE_cong [fundef_cong]:
  "m = m' \<Longrightarrow> (\<And>x. m' = Inr x \<Longrightarrow> f x = f' x) \<Longrightarrow> bindE m f = bindE m' f'"
  by (cases m') auto

text \<open>A comprehension whose element expression may raise.\<close>

fun mapE :: "('a \<Rightarrow> 'e + 'b) \<Rightarrow> 'a list \<Rightarrow> 'e + 'b list" where
  "mapE f [] = Inr []"
| "mapE f (x # xs) = bindE (f x) (\<lambda>y. bindE (mapE f xs) (\<lambda>ys. Inr (y # ys)))"

lemma mapE_Inr_iff: "mapE f xs = Inr ys \<longleftrightarrow> list_all2 (\<lambda>x y. f x = Inr y) xs ys"
  by (induction xs arbitrary: ys) (auto simp: bindE_eq_Inr_iff list_all2_Cons1)

lemma mapE_total: "(\<And>x. x \<in> set xs \<Longrightarrow> f x = Inr (g x)) \<Longrightarrow> mapE f xs = Inr (map g xs)"
  by (induction xs) auto

text \<open>An accumulating loop whose body may raise.\<close>

fun foldE :: "('s \<Rightarrow> 'a \<Rightarrow> 'e + 's) \<Rightarrow> 's \<Rightarrow> 'a list \<Rightarrow> 'e + 's" where
  "foldE f s [] = Inr s"
| "foldE f s (x # xs) = bindE (f s x) (\<lambda>s'. foldE f s' xs)"

lemma foldE_append: "foldE f s (xs @ ys) = bindE (foldE f s xs) (\<lambda>s'. foldE f s' ys)"
  by (induction xs arbitrary: s) (auto simp: bindE_assoc)

lemma foldE_invariant:
  assumes "foldE f s xs = Inr t" and "I s"
    and "\<And>s x s'. x \<in> set xs \<Longrightarrow> I s \<Longrightarrow> f s x = Inr s' \<Longrightarrow> I s'"
  shows "I t"
  using assms
proof (induction xs arbitrary: s)
  case Nil
  then show ?case by simp
next
  case (Cons x xs)
  from Cons.prems(1) obtain s' where s': "f s x = Inr s'" "foldE f s' xs = Inr t"
    by (auto simp: bindE_eq_Inr_iff)
  have "I s'"
    by (rule Cons.prems(3)[OF _ Cons.prems(2) s'(1)]) simp
  with s'(2) show ?case
  proof (rule Cons.IH)
    fix u y u'
    assume "y \<in> set xs" "I u" "f u y = Inr u'"
    then show "I u'" using Cons.prems(3)[of y u u'] by simp
  qed
qed

section \<open>Dictionaries\<close>

type_synonym ('k, 'v) dict = "('k \<times> 'v) list"

abbreviation keys :: "('k, 'v) dict \<Rightarrow> 'k list" where
  "keys d \<equiv> map fst d"

abbreviation "values" :: "('k, 'v) dict \<Rightarrow> 'v list" where
  "values d \<equiv> map snd d"

abbreviation wf_dict :: "('k, 'v) dict \<Rightarrow> bool" where
  "wf_dict d \<equiv> distinct (keys d)"

declare map_of_eq_Some_iff [simp del] Some_eq_map_of_iff [simp del]

text \<open>\<open>d[k]\<close>, \<open>d.get(k, x)\<close> and \<open>d[k] = v\<close>: an existing key keeps its position, a new one
  goes to the end.\<close>

definition dget :: "('k, 'v) dict \<Rightarrow> 'k \<Rightarrow> 'v res" where
  "dget d k = (case map_of d k of None \<Rightarrow> Inl KeyError | Some v \<Rightarrow> Inr v)"

definition dget_or :: "('k, 'v) dict \<Rightarrow> 'k \<Rightarrow> 'v \<Rightarrow> 'v" where
  "dget_or d k x = (case map_of d k of None \<Rightarrow> x | Some v \<Rightarrow> v)"

abbreviation dset :: "('k, 'v) dict \<Rightarrow> 'k \<Rightarrow> 'v \<Rightarrow> ('k, 'v) dict" where
  "dset d k v \<equiv> AList.update k v d"

lemma dget_Inr_iff [dict_simps]: "dget d k = Inr v \<longleftrightarrow> map_of d k = Some v"
  by (auto simp: dget_def split: option.splits)

lemma dget_Inl_iff [dict_simps]: "dget d k = Inl e \<longleftrightarrow> k \<notin> set (keys d) \<and> e = KeyError"
  by (cases "map_of d k") (auto simp: dget_def dest: map_of_SomeD
      intro: rev_image_eqI simp del: map_of_eq_None_iff simp: map_of_eq_None_iff[symmetric])

lemma dget_or_dset [simp, dict_simps]:
  "dget_or (dset d k v) k' x = (if k' = k then v else dget_or d k' x)"
  by (simp add: dget_or_def update_conv)

lemma dget_or_Nil [simp, dict_simps]: "dget_or [] k x = x"
  by (simp add: dget_or_def)

lemma dget_or_notin: "k \<notin> set (keys d) \<Longrightarrow> dget_or d k x = x"
  by (simp add: dget_or_def map_of_eq_None_iff[THEN iffD2] split: option.splits)

lemma dget_or_in: "wf_dict d \<Longrightarrow> (k, v) \<in> set d \<Longrightarrow> dget_or d k x = v"
  by (simp add: dget_or_def map_of_is_SomeI)

lemma in_dget_or_list: "y \<in> set (dget_or d k []) \<Longrightarrow> \<exists>v. (k, v) \<in> set d \<and> y \<in> set v"
  by (cases "map_of d k") (auto simp: dget_or_def dest: map_of_SomeD)

lemma wf_dset [simp, intro]: "wf_dict d \<Longrightarrow> wf_dict (dset d k v)"
  by (rule distinct_update)

lemma keys_dset [dict_simps]: "set (keys (dset d k v)) = insert k (set (keys d))"
  by (induction d) auto

lemma set_dset_subset: "set (dset d k v) \<subseteq> insert (k, v) (set d)"
  by (induction d) auto

lemma dset_new: "k \<notin> set (keys d) \<Longrightarrow> dset d k v = d @ [(k, v)]"
  by (induction d) auto

lemma keys_dset_existing: "k \<in> set (keys d) \<Longrightarrow> keys (dset d k v) = keys d"
  by (induction d) auto

lemma dict_eq_map: "wf_dict d \<Longrightarrow> d = map (\<lambda>k. (k, the (map_of d k))) (keys d)"
proof (induction d)
  case (Cons p d)
  obtain k v where p: "p = (k, v)" by (cases p)
  have "map (\<lambda>x. (x, the (map_of (p # d) x))) (keys d) = map (\<lambda>x. (x, the (map_of d x))) (keys d)"
    using Cons.prems p by (intro map_cong) auto
  with Cons p show ?case by simp
qed simp

section \<open>The built-ins \<open>max\<close>, \<open>min\<close> and \<open>sorted\<close>\<close>

text \<open>
  \<open>max(xs, key=...)\<close> keeps the first item and replaces it whenever a later item compares
  greater; \<open>min\<close> replaces on less.  The comparison is the one of the keys, here a predicate
  on the items, and need not be a total order.
\<close>

fun py_max_from :: "('a \<Rightarrow> 'a \<Rightarrow> bool) \<Rightarrow> 'a \<Rightarrow> 'a list \<Rightarrow> 'a" where
  "py_max_from gt m [] = m"
| "py_max_from gt m (x # xs) = py_max_from gt (if gt x m then x else m) xs"

definition py_max :: "('a \<Rightarrow> 'a \<Rightarrow> bool) \<Rightarrow> 'a list \<Rightarrow> 'a res" where
  "py_max gt xs = (case xs of [] \<Rightarrow> Inl ValueError | x # ys \<Rightarrow> Inr (py_max_from gt x ys))"

lemma py_max_from_in: "py_max_from gt m xs \<in> insert m (set xs)"
proof (induction xs arbitrary: m)
  case (Cons x xs)
  then show ?case using Cons[of "if gt x m then x else m"] by (auto split: if_splits)
qed simp

lemma py_max_in: "py_max gt xs = Inr x \<Longrightarrow> x \<in> set xs"
  using py_max_from_in[of gt] by (fastforce simp: py_max_def split: list.splits)

lemma py_max_Inr: "xs \<noteq> [] \<Longrightarrow> \<exists>x. py_max gt xs = Inr x"
  by (cases xs) (auto simp: py_max_def)

text \<open>
  The order laws a sort or maximum key has to satisfy: a strict partial order.  Under them
  \<open>max\<close> returns a maximal item, even where the order is not total.
\<close>

locale strict_pref =
  fixes gt :: "'a \<Rightarrow> 'a \<Rightarrow> bool"
  assumes gt_irrefl: "\<not> gt x x"
    and gt_trans: "gt x y \<Longrightarrow> gt y z \<Longrightarrow> gt x z"
begin

lemma max_from_ge: "py_max_from gt m xs = m \<or> gt (py_max_from gt m xs) m"
proof (induction xs arbitrary: m)
  case Nil
  then show ?case by simp
next
  case (Cons x xs)
  show ?case
  proof (cases "gt x m")
    case True
    with Cons[of x] show ?thesis by (auto intro: gt_trans)
  next
    case False
    with Cons[of m] show ?thesis by simp
  qed
qed

lemma max_from_maximal: "x \<in> insert m (set xs) \<Longrightarrow> \<not> gt x (py_max_from gt m xs)"
proof (induction xs arbitrary: m)
  case Nil
  then show ?case by (simp add: gt_irrefl)
next
  case (Cons y ys)
  let ?m = "if gt y m then y else m"
  show ?case
  proof (cases "x \<in> insert ?m (set ys)")
    case True
    then show ?thesis using Cons.IH[of ?m] by simp
  next
    case False
    with Cons.prems have x: "x = m \<and> gt y m \<or> x = y \<and> \<not> gt y m"
      by (auto split: if_splits)
    show ?thesis
    proof
      assume "gt x (py_max_from gt m (y # ys))"
      then have g: "gt x (py_max_from gt ?m ys)" by simp
      from max_from_ge[of ?m ys] show False
      proof
        assume "py_max_from gt ?m ys = ?m"
        with g x show False by (auto split: if_splits intro: gt_irrefl gt_trans dest: gt_trans simp: gt_irrefl)
      next
        assume "gt (py_max_from gt ?m ys) ?m"
        with g have "gt x ?m" by (rule gt_trans)
        with x show False by (auto split: if_splits dest: gt_trans simp: gt_irrefl)
      qed
    qed
  qed
qed

lemma max_maximal: "py_max gt xs = Inr m \<Longrightarrow> x \<in> set xs \<Longrightarrow> \<not> gt x m"
  using max_from_maximal[of x] by (auto simp: py_max_def split: list.splits)

end

text \<open>
  \<open>sorted(xs, key=..., reverse=True)\<close> on keys of a linear order: CPython keeps the original
  order of items with equal keys in both directions.
\<close>

definition sorted_desc :: "('a \<Rightarrow> rat) \<Rightarrow> 'a list \<Rightarrow> 'a list" where
  "sorted_desc key xs = sort_key (\<lambda>x. - key x) xs"

lemma mset_sorted_desc [simp]: "mset (sorted_desc key xs) = mset xs"
  by (simp add: sorted_desc_def)

lemma set_sorted_desc [simp]: "set (sorted_desc key xs) = set xs"
  by (simp add: sorted_desc_def)

lemma distinct_sorted_desc: "distinct (map f xs) \<Longrightarrow> distinct (map f (sorted_desc key xs))"
  by (metis mset_map mset_sorted_desc mset_eq_imp_distinct_iff)

lemma sorted_desc_sorted: "sorted_wrt (\<lambda>x y. key y \<le> key x) (sorted_desc key xs)"
proof -
  have "sorted (map (\<lambda>x. - key x) (sorted_desc key xs))"
    by (simp add: sorted_desc_def)
  then show ?thesis by (simp add: sorted_wrt_map)
qed

text \<open>
  \<open>sorted(xs, key=...)\<close> on keys that only offer \<open><\<close>, with the comparisons CPython makes on a
  list of fewer than 64 items: the longest ascending or strictly descending run at the front is
  kept or reversed, and every later item is inserted by binary search.  Where \<open><\<close> is a strict weak
  order on the items the result is the stable sort, whatever the length.
\<close>

function bin_pos :: "('a \<Rightarrow> 'a \<Rightarrow> bool) \<Rightarrow> 'a \<Rightarrow> 'a list \<Rightarrow> nat \<Rightarrow> nat \<Rightarrow> nat" where
  "bin_pos lt x ys l r =
     (if l < r
      then let p = l + (r - l) div 2 in if lt x (ys ! p) then bin_pos lt x ys l p else bin_pos lt x ys (p + 1) r
      else l)"
  by pat_completeness auto
termination
  by (relation "measure (\<lambda>(lt, x, ys, l, r). r - l)") auto

declare bin_pos.simps [simp del]

definition bin_insert :: "('a \<Rightarrow> 'a \<Rightarrow> bool) \<Rightarrow> 'a \<Rightarrow> 'a list \<Rightarrow> 'a list" where
  "bin_insert lt x ys = (let p = bin_pos lt x ys 0 (length ys) in take p ys @ x # drop p ys)"

fun run_while :: "('a \<Rightarrow> 'a \<Rightarrow> bool) \<Rightarrow> 'a \<Rightarrow> 'a list \<Rightarrow> 'a list \<times> 'a list" where
  "run_while P prev [] = ([], [])"
| "run_while P prev (y # ys) =
     (if P y prev then let (t, r) = run_while P y ys in (y # t, r) else ([], y # ys))"

definition first_run :: "('a \<Rightarrow> 'a \<Rightarrow> bool) \<Rightarrow> 'a list \<Rightarrow> 'a list \<times> 'a list" where
  "first_run lt xs =
     (case xs of
        x # y # ys \<Rightarrow>
          (if lt y x then (let (t, r) = run_while lt y ys in (rev (x # y # t), r))
           else (let (t, r) = run_while (\<lambda>a b. \<not> lt a b) y ys in (x # y # t, r)))
      | _ \<Rightarrow> (xs, []))"

definition py_sorted :: "('a \<Rightarrow> 'a \<Rightarrow> bool) \<Rightarrow> 'a list \<Rightarrow> 'a list" where
  "py_sorted lt xs = (let (run, rest) = first_run lt xs in fold (bin_insert lt) rest run)"

lemma mset_bin_insert [simp]: "mset (bin_insert lt x ys) = add_mset x (mset ys)"
proof -
  have "mset (take n ys) + mset (drop n ys) = mset ys" for n by (metis append_take_drop_id mset_append)
  then show ?thesis by (simp add: bin_insert_def Let_def)
qed

lemma set_bin_insert: "set (bin_insert lt x ys) = insert x (set ys)"
  by (metis mset_bin_insert set_mset_add_mset_insert set_mset_mset)

lemma run_while_append: "run_while P x ys = (t, r) \<Longrightarrow> ys = t @ r"
  by (induction P x ys arbitrary: t r rule: run_while.induct) (auto split: if_splits prod.splits)

lemma run_while_successively: "run_while P x ys = (t, r) \<Longrightarrow> successively (\<lambda>a b. P b a) (x # t)"
  by (induction P x ys arbitrary: t r rule: run_while.induct) (auto split: if_splits prod.splits)

lemma mset_first_run: "first_run lt xs = (run, rest) \<Longrightarrow> mset run + mset rest = mset xs"
  by (auto simp: first_run_def split: list.splits if_splits prod.splits dest!: run_while_append)

lemma mset_fold_bin_insert: "mset (fold (bin_insert lt) xs ys) = mset xs + mset ys"
  by (induction xs arbitrary: ys) auto

lemma mset_py_sorted [simp]: "mset (py_sorted lt xs) = mset xs"
  using mset_first_run[of lt xs] by (auto simp: py_sorted_def mset_fold_bin_insert add.commute split: prod.splits)

lemma set_py_sorted [simp]: "set (py_sorted lt xs) = set xs"
  by (metis mset_py_sorted set_mset_mset)

lemma py_sorted_Nil_iff [simp]: "py_sorted lt xs = [] \<longleftrightarrow> xs = []"
  by (metis set_py_sorted set_empty)

text \<open>A strict weak order on the items to sort.\<close>

locale weak_order_on =
  fixes lt :: "'a \<Rightarrow> 'a \<Rightarrow> bool" and A :: "'a set"
  assumes asym: "x \<in> A \<Longrightarrow> y \<in> A \<Longrightarrow> lt x y \<Longrightarrow> \<not> lt y x"
    and neg_trans: "x \<in> A \<Longrightarrow> y \<in> A \<Longrightarrow> z \<in> A \<Longrightarrow> \<not> lt x y \<Longrightarrow> \<not> lt y z \<Longrightarrow> \<not> lt x z"
begin

abbreviation ordered :: "'a list \<Rightarrow> bool" where
  "ordered \<equiv> sorted_wrt (\<lambda>x y. \<not> lt y x)"

lemma bin_pos_spec:
  assumes "ordered ys" and "set ys \<subseteq> A" and "x \<in> A" and "l \<le> r" and "r \<le> length ys"
    and "\<forall>i<l. \<not> lt x (ys ! i)" and "\<forall>i. r \<le> i \<longrightarrow> i < length ys \<longrightarrow> lt x (ys ! i)"
  shows "bin_pos lt x ys l r \<le> length ys \<and> (\<forall>i<bin_pos lt x ys l r. \<not> lt x (ys ! i)) \<and>
    (\<forall>i. bin_pos lt x ys l r \<le> i \<longrightarrow> i < length ys \<longrightarrow> lt x (ys ! i))"
  using assms(4-7)
proof (induction "r - l" arbitrary: l r rule: less_induct)
  case less
  have mem: "ys ! i \<in> A" if "i < length ys" for i using assms(2) that by (meson nth_mem subsetD)
  have ord: "\<not> lt (ys ! j) (ys ! i)" if "i \<le> j" "j < length ys" for i j
  proof (cases "i = j")
    case True
    then show ?thesis using asym mem that by blast
  next
    case False
    with that show ?thesis using sorted_wrt_nth_less[OF assms(1)] by simp
  qed
  show ?case
  proof (cases "l < r")
    case True
    define p where "p = l + (r - l) div 2"
    have p: "l \<le> p" "p < r" "p < length ys" using True less.prems(2) by (auto simp: p_def)
    have step: "bin_pos lt x ys l r = (if lt x (ys ! p) then bin_pos lt x ys l p else bin_pos lt x ys (p + 1) r)"
      using True unfolding p_def by (subst bin_pos.simps) (simp add: Let_def)
    show ?thesis
    proof (cases "lt x (ys ! p)")
      case lt: True
      have hi: "\<forall>i. p \<le> i \<longrightarrow> i < length ys \<longrightarrow> lt x (ys ! i)"
      proof (intro allI impI, rule ccontr)
        fix i assume i: "p \<le> i" "i < length ys" "\<not> lt x (ys ! i)"
        from neg_trans[OF assms(3) mem[OF i(2)] mem[OF p(3)] i(3) ord[OF i(1,2)]] lt show False by blast
      qed
      have "p - l < r - l" "l \<le> p" "p \<le> length ys" using p by auto
      from less.hyps[OF this less.prems(3) hi] show ?thesis unfolding step if_P[OF lt] .
    next
      case nlt: False
      have lo: "\<forall>i<p + 1. \<not> lt x (ys ! i)"
      proof (intro allI impI)
        fix i assume "i < p + 1"
        then have i: "i \<le> p" "i < length ys" using p(3) by auto
        from neg_trans[OF assms(3) mem[OF p(3)] mem[OF i(2)] nlt ord[OF i(1) p(3)]] show "\<not> lt x (ys ! i)" .
      qed
      have "r - (p + 1) < r - l" "p + 1 \<le> r" using p by auto
      from less.hyps[OF this less.prems(2) lo less.prems(4)] show ?thesis
        unfolding step if_not_P[OF nlt] .
    qed
  next
    case False
    then have "bin_pos lt x ys l r = l" by (subst bin_pos.simps) simp
    then show ?thesis using less.prems False by auto
  qed
qed

lemma bin_insert_ordered:
  assumes "ordered ys" and "set ys \<subseteq> A" and "x \<in> A"
  shows "ordered (bin_insert lt x ys)"
proof -
  let ?p = "bin_pos lt x ys 0 (length ys)"
  have sp: "?p \<le> length ys \<and> (\<forall>i<?p. \<not> lt x (ys ! i)) \<and> (\<forall>i. ?p \<le> i \<longrightarrow> i < length ys \<longrightarrow> lt x (ys ! i))"
    using bin_pos_spec[OF assms, of 0 "length ys"] by simp
  have 1: "\<not> lt x y" if "y \<in> set (take ?p ys)" for y
    using that sp by (auto simp: in_set_conv_nth)
  have "lt x y" if "y \<in> set (drop ?p ys)" for y using that sp by (auto simp: in_set_conv_nth)
  then have 2: "lt x y \<and> y \<in> A" if "y \<in> set (drop ?p ys)" for y
    using that assms(2) set_drop_subset[of ?p ys] by blast
  have "ordered (take ?p ys @ drop ?p ys)" using assms(1) by simp
  then show ?thesis
    unfolding bin_insert_def Let_def sorted_wrt_append using 1 2 asym[OF assms(3)] by auto
qed

lemma first_run_ordered:
  assumes "set xs \<subseteq> A" and "first_run lt xs = (run, rest)"
  shows "ordered run"
proof -
  have trans: "lt x z" if "lt x y" "lt y z" "x \<in> A" "y \<in> A" "z \<in> A" for x y z
    using neg_trans[of x z y] asym[of y z] that by blast
  consider "length xs < 2" "run = xs"
    | x y ys t where "xs = x # y # ys" "lt y x" "run_while lt y ys = (t, rest)" "run = rev (x # y # t)"
    | x y ys t where "xs = x # y # ys" "\<not> lt y x" "run_while (\<lambda>a b. \<not> lt a b) y ys = (t, rest)" "run = x # y # t"
    using assms(2) by (auto simp: first_run_def split: list.splits if_splits prod.splits)
  then show ?thesis
  proof cases
    case 1
    then show ?thesis by (cases xs) auto
  next
    case (2 x y ys t)
    have "successively (\<lambda>a b. lt b a) (x # y # t)" using 2(2) run_while_successively[OF 2(3)] by simp
    moreover have "set (x # y # t) \<subseteq> A" using assms(1) 2(1) run_while_append[OF 2(3)] by auto
    ultimately have "sorted_wrt (\<lambda>a b. lt b a) (x # y # t)"
      by (subst (asm) successively_iff_sorted_wrt_strong) (use trans in blast)+
    then have "sorted_wrt (\<lambda>a b. lt a b) run" unfolding 2(4) sorted_wrt_rev .
    then show ?thesis
      using \<open>set (x # y # t) \<subseteq> A\<close> asym unfolding 2(4) by (elim sorted_wrt_mono_rel[rotated]) auto
  next
    case (3 x y ys t)
    have "successively (\<lambda>a b. \<not> lt b a) (x # y # t)" using 3(2) run_while_successively[OF 3(3)] by simp
    moreover have "set (x # y # t) \<subseteq> A" using assms(1) 3(1) run_while_append[OF 3(3)] by auto
    ultimately have "ordered (x # y # t)"
      by (subst (asm) successively_iff_sorted_wrt_strong) (use neg_trans in blast)+
    then show ?thesis unfolding 3(4) .
  qed
qed

lemma py_sorted_ordered:
  assumes "set xs \<subseteq> A"
  shows "ordered (py_sorted lt xs)"
proof -
  obtain run rest where r: "first_run lt xs = (run, rest)" by (cases "first_run lt xs")
  have "ordered (fold (bin_insert lt) zs ys)" if "ordered ys" "set ys \<subseteq> A" "set zs \<subseteq> A" for zs ys
    using that
  proof (induction zs arbitrary: ys)
    case (Cons z zs)
    have "set (bin_insert lt z ys) \<subseteq> A"
      using Cons.prems(2,3) set_bin_insert[of lt z ys] by simp
    with Cons bin_insert_ordered[of ys z] show ?case by simp
  qed simp
  moreover have "set run \<union> set rest = set xs" using mset_first_run[OF r] by (metis set_mset_mset set_mset_union)
  ultimately show ?thesis
    using first_run_ordered[OF assms r] assms r by (auto simp: py_sorted_def)
qed

end

lemma find_SomeD: "find P xs = Some x \<Longrightarrow> x \<in> set xs \<and> P x"
  by (induction xs) (auto split: if_splits)

section \<open>Sums over lists\<close>

lemma sum_list_update_add:
  fixes f :: "'a \<Rightarrow> 'b::ab_group_add"
  assumes "distinct xs" and "x \<in> set xs"
  shows "sum_list (map (f(x := f x + c)) xs) = sum_list (map f xs) + c"
  using assms
proof (induction xs)
  case (Cons y ys)
  show ?case
  proof (cases "y = x")
    case True
    with Cons.prems have "map (f(x := f x + c)) ys = map f ys" by auto
    then have "sum_list (map (f(x := f x + c)) ys) = sum_list (map f ys)" by (simp only:)
    with True show ?thesis by (simp del: fun_upd_apply add: fun_upd_same)
  next
    case False
    with Cons show ?thesis by (simp add: algebra_simps)
  qed
qed simp

lemma sum_list_nonneg_map:
  fixes f :: "'a \<Rightarrow> rat"
  shows "(\<And>x. x \<in> set xs \<Longrightarrow> 0 \<le> f x) \<Longrightarrow> 0 \<le> sum_list (map f xs)"
  by (induction xs) auto

lemma sum_map_zero_all:
  fixes f :: "'a \<Rightarrow> 'b::ordered_comm_monoid_add"
  assumes "\<And>x. x \<in> set xs \<Longrightarrow> 0 \<le> f x" and "sum_list (map f xs) = 0"
  shows "\<forall>x\<in>set xs. f x = 0"
  using assms sum_list_nonneg_eq_0_iff[of "map f xs"] by auto

lemma of_int_sum_list_map: "of_int (sum_list (map f xs)) = sum_list (map (\<lambda>x. of_int (f x)) xs)"
  by (induction xs) auto

lemma sum_dget_or:
  fixes p :: "('k, 'v::comm_monoid_add) dict"
  assumes "wf_dict p" and "distinct ks" and "set (keys p) \<subseteq> set ks"
  shows "sum_list (map (\<lambda>k. dget_or p k 0) ks) = sum_list (values p)"
proof -
  have "sum_list (map (\<lambda>k. dget_or p k 0) ks) = (\<Sum>k\<in>set ks. dget_or p k 0)"
    using assms(2) by (simp add: sum_list_distinct_conv_sum_set)
  also have "\<dots> = (\<Sum>k\<in>set (keys p). dget_or p k 0)"
    using assms(3) by (intro sum.mono_neutral_right) (auto intro: dget_or_notin)
  also have "\<dots> = sum_list (map (\<lambda>k. dget_or p k 0) (keys p))"
    by (simp only: sum_list_distinct_conv_sum_set[OF assms(1)])
  also have "map (\<lambda>k. dget_or p k 0) (keys p) = values p"
    by (auto simp: dget_or_def map_of_is_SomeI[OF assms(1)])
  finally show ?thesis .
qed

lemma dget_or_filter_pos:
  fixes p :: "('k, rat) dict"
  assumes "wf_dict p" and "\<forall>v\<in>set (values p). 0 \<le> v"
  shows "dget_or (filter (\<lambda>(k, v). v > 0) p) k 0 = dget_or p k 0"
  using assms
proof (induction p)
  case (Cons q p)
  obtain k' v where q: "q = (k', v)" by (cases q)
  then have "k' \<notin> set (keys (filter (\<lambda>(k, v). v > 0) p))" using Cons.prems by auto
  then have "dget_or (filter (\<lambda>(k, v). v > 0) p) k' 0 = 0" by (rule dget_or_notin)
  with Cons q show ?case by (auto simp: dget_or_def)
qed simp

lemma sum_filter_pos:
  fixes p :: "('k, rat) dict"
  assumes "\<forall>v\<in>set (values p). 0 \<le> v"
  shows "sum_list (values (filter (\<lambda>(k, v). v > 0) p)) = sum_list (values p)"
  using assms by (induction p) force+

lemma wf_filter: "wf_dict p \<Longrightarrow> wf_dict (filter P p)"
  by (induction p) auto

end
