(* ===== verification/Decimals.thy ===== *)
theory Decimals
  imports Prelude
begin

text \<open>
  Python's \<open>decimal.Decimal\<close> as the sources use it.  A value is a finite rational or one of
  the two infinities; the order is the numeric one, so the type is a \<open>linorder\<close>.  Arithmetic
  is exact: the default context keeps 28 significant digits, and the slot amounts the program
  computes with (counts, bytes, and device shares with two or three decimal places) stay far
  below that, so no operation of the modelled code rounds except where it calls
  \<open>quantize\<close>.  The representation of a number (exponent, sign of zero) and \<open>NaN\<close> are not
  modelled.  \<open>InvalidOperation\<close> and \<open>DivisionByZero\<close>, which the default context traps, are
  error values.
\<close>

datatype decimal = NInf | Fin rat | PInf

fun dec_le :: "decimal \<Rightarrow> decimal \<Rightarrow> bool" where
  "dec_le NInf _ = True"
| "dec_le _ PInf = True"
| "dec_le (Fin a) (Fin b) = (a \<le> b)"
| "dec_le _ _ = False"

instantiation decimal :: linorder
begin

definition less_eq_decimal :: "decimal \<Rightarrow> decimal \<Rightarrow> bool" where
  "less_eq_decimal a b = dec_le a b"

definition less_decimal :: "decimal \<Rightarrow> decimal \<Rightarrow> bool" where
  "less_decimal a b = (dec_le a b \<and> \<not> dec_le b a)"

instance
proof
  fix x y z :: decimal
  show "(x < y) = (x \<le> y \<and> \<not> y \<le> x)"
    by (simp add: less_eq_decimal_def less_decimal_def)
  show "x \<le> x" by (cases x) (auto simp: less_eq_decimal_def)
  show "x \<le> y \<Longrightarrow> y \<le> z \<Longrightarrow> x \<le> z"
    by (cases x; cases y; cases z) (auto simp: less_eq_decimal_def)
  show "x \<le> y \<Longrightarrow> y \<le> x \<Longrightarrow> x = y"
    by (cases x; cases y) (auto simp: less_eq_decimal_def)
  show "x \<le> y \<or> y \<le> x"
    by (cases x; cases y) (auto simp: less_eq_decimal_def)
qed

end

instantiation decimal :: zero
begin

definition zero_decimal :: decimal where
  "zero_decimal = Fin 0"

instance ..

end

lemma dec_le_simps [simp]:
  "Fin a \<le> Fin b \<longleftrightarrow> a \<le> b"
  "NInf \<le> x" "x \<le> PInf"
  "\<not> Fin a \<le> NInf" "\<not> PInf \<le> Fin a" "\<not> PInf \<le> NInf"
  by (cases x; simp add: less_eq_decimal_def)+

lemma dec_less_simps [simp]:
  "Fin a < Fin b \<longleftrightarrow> a < b"
  "Fin a < PInf" "NInf < Fin a" "NInf < PInf"
  "\<not> x < NInf" "\<not> PInf < x"
  by (cases x; auto simp: less_decimal_def)+

fun is_finite :: "decimal \<Rightarrow> bool" where
  "is_finite (Fin _) = True"
| "is_finite _ = False"

lemma is_finite_iff: "is_finite d \<longleftrightarrow> (\<exists>r. d = Fin r)"
  by (cases d) auto

lemma is_finite_zero [simp]: "is_finite 0"
  by (simp add: zero_decimal_def)

fun the_fin :: "decimal \<Rightarrow> rat" where
  "the_fin (Fin r) = r"
| "the_fin _ = 0"

fun dec_add :: "decimal \<Rightarrow> decimal \<Rightarrow> decimal res" where
  "dec_add (Fin a) (Fin b) = Inr (Fin (a + b))"
| "dec_add PInf NInf = Inl InvalidOperation"
| "dec_add NInf PInf = Inl InvalidOperation"
| "dec_add PInf _ = Inr PInf"
| "dec_add NInf _ = Inr NInf"
| "dec_add (Fin _) d = Inr d"

fun dec_neg :: "decimal \<Rightarrow> decimal" where
  "dec_neg (Fin a) = Fin (- a)"
| "dec_neg PInf = NInf"
| "dec_neg NInf = PInf"

definition dec_sub :: "decimal \<Rightarrow> decimal \<Rightarrow> decimal res" where
  "dec_sub a b = dec_add a (dec_neg b)"

fun dec_div :: "decimal \<Rightarrow> decimal \<Rightarrow> decimal res" where
  "dec_div (Fin a) (Fin b) =
     (if b = 0 then if a = 0 then Inl InvalidOperation else Inl DivisionByZero
      else Inr (Fin (a / b)))"
| "dec_div (Fin _) _ = Inr (Fin 0)"
| "dec_div d (Fin b) = Inr (if b < 0 then dec_neg d else d)"
| "dec_div _ _ = Inl InvalidOperation"

lemma dec_add_zero_right [simp]: "dec_add d 0 = Inr d"
  by (cases d) (auto simp: zero_decimal_def)

lemma dec_add_zero_left [simp]: "dec_add 0 d = Inr d"
  by (cases d) (auto simp: zero_decimal_def)

lemma dec_sub_zero_right [simp]: "dec_sub d 0 = Inr d"
  by (cases d) (auto simp: dec_sub_def zero_decimal_def)

lemma dec_add_comm: "dec_add a b = dec_add b a"
  by (cases a; cases b) auto

lemma dec_add_finite: "is_finite a \<Longrightarrow> is_finite b \<Longrightarrow> dec_add a b = Inr (Fin (the_fin a + the_fin b))"
  by (cases a; cases b) auto

lemma dec_sub_finite: "is_finite a \<Longrightarrow> is_finite b \<Longrightarrow> dec_sub a b = Inr (Fin (the_fin a - the_fin b))"
  by (cases a; cases b) (auto simp: dec_sub_def)

section \<open>Rounding\<close>

text \<open>
  \<open>quantize\<close> with the default rounding \<open>ROUND_HALF_EVEN\<close> and with \<open>ROUND_DOWN\<close>
  (towards zero), \<open>int()\<close> (towards zero), and \<open>remainder_near\<close>: the dividend less the divisor
  times the integer nearest to the exact quotient, a tie going to the even integer.
\<close>

definition round_half_even :: "rat \<Rightarrow> int" where
  "round_half_even x =
     (let f = \<lfloor>x\<rfloor>; r = x - of_int f
      in if r < 1 / 2 then f else if 1 / 2 < r then f + 1 else if even f then f else f + 1)"

definition trunc_int :: "rat \<Rightarrow> int" where
  "trunc_int x = (if x < 0 then \<lceil>x\<rceil> else \<lfloor>x\<rfloor>)"

definition quantize :: "rat \<Rightarrow> rat \<Rightarrow> rat" where
  "quantize x q = q * of_int (round_half_even (x / q))"

definition quantize_down :: "rat \<Rightarrow> rat \<Rightarrow> rat" where
  "quantize_down x q = q * of_int (trunc_int (x / q))"

definition remainder_near :: "rat \<Rightarrow> rat \<Rightarrow> rat" where
  "remainder_near x y = x - y * of_int (round_half_even (x / y))"

lemma round_half_even_of_int [simp]: "round_half_even (of_int n) = n"
  by (simp add: round_half_even_def)

lemma trunc_int_of_int [simp]: "trunc_int (of_int n) = n"
  by (simp add: trunc_int_def)

lemma trunc_int_nonneg: "0 \<le> x \<Longrightarrow> trunc_int x = \<lfloor>x\<rfloor>"
  by (simp add: trunc_int_def)

lemma round_half_even_cases:
  "round_half_even x = \<lfloor>x\<rfloor> \<or> round_half_even x = \<lfloor>x\<rfloor> + 1"
  by (auto simp: round_half_even_def Let_def)

lemma round_half_even_floor: "\<lfloor>x\<rfloor> \<le> round_half_even x"
  using round_half_even_cases[of x] by auto

lemma round_half_even_near: "\<bar>of_int (round_half_even x) - x\<bar> \<le> 1 / 2"
proof -
  have "of_int \<lfloor>x\<rfloor> \<le> x" "x < of_int \<lfloor>x\<rfloor> + 1" using floor_correct[of x] by simp_all
  then show ?thesis
    unfolding round_half_even_def Let_def abs_le_iff
    by (simp del: of_int_floor_le split: if_splits)
qed

text \<open>The amounts that are whole multiples of a quantum.\<close>

definition multiple_of :: "rat \<Rightarrow> rat \<Rightarrow> bool" where
  "multiple_of q x \<longleftrightarrow> (\<exists>n::int. x = q * of_int n)"

lemma multiple_ofI: "x = q * of_int n \<Longrightarrow> multiple_of q x"
  by (auto simp: multiple_of_def)

lemma multiple_of_zero [simp, intro]: "multiple_of q 0"
  by (rule multiple_ofI[of _ _ 0]) simp

lemma multiple_of_self [simp, intro]: "multiple_of q q"
  by (rule multiple_ofI[of _ _ 1]) simp

lemma multiple_of_add [intro]: "multiple_of q x \<Longrightarrow> multiple_of q y \<Longrightarrow> multiple_of q (x + y)"
  unfolding multiple_of_def by (metis of_int_add distrib_left)

lemma multiple_of_diff [intro]: "multiple_of q x \<Longrightarrow> multiple_of q y \<Longrightarrow> multiple_of q (x - y)"
  unfolding multiple_of_def by (metis of_int_diff right_diff_distrib)

lemma multiple_of_sum_list:
  "(\<And>x. x \<in> set xs \<Longrightarrow> multiple_of q x) \<Longrightarrow> multiple_of q (sum_list xs)"
  by (induction xs) auto

lemma quantize_multiple [simp]: "q \<noteq> 0 \<Longrightarrow> multiple_of q x \<Longrightarrow> quantize x q = x"
  by (auto simp: multiple_of_def quantize_def)

lemma quantize_down_multiple [simp]: "q \<noteq> 0 \<Longrightarrow> multiple_of q x \<Longrightarrow> quantize_down x q = x"
  by (auto simp: multiple_of_def quantize_down_def)

lemma multiple_of_quantize [simp, intro]: "multiple_of q (quantize x q)"
  by (auto simp: multiple_of_def quantize_def)

lemma multiple_of_quantize_down [simp, intro]: "multiple_of q (quantize_down x q)"
  by (auto simp: multiple_of_def quantize_down_def)

lemma quantize_down_floor: "0 < q \<Longrightarrow> 0 \<le> x \<Longrightarrow> quantize_down x q = q * of_int \<lfloor>x / q\<rfloor>"
  by (simp add: quantize_down_def trunc_int_nonneg)

lemma quantize_down_bounds:
  assumes "0 < q" and "0 \<le> x"
  shows "0 \<le> quantize_down x q" and "quantize_down x q \<le> x" and "x < quantize_down x q + q"
proof -
  have "of_int \<lfloor>x / q\<rfloor> \<le> x / q" "x / q < of_int \<lfloor>x / q\<rfloor> + 1"
    using floor_correct[of "x / q"] by simp_all
  with assms(1) have "q * of_int \<lfloor>x / q\<rfloor> \<le> x" "x < q * of_int \<lfloor>x / q\<rfloor> + q"
    by (simp_all del: of_int_floor_le add: field_simps)
  with assms show "quantize_down x q \<le> x" "x < quantize_down x q + q"
    by (simp_all add: quantize_down_floor)
  show "0 \<le> quantize_down x q" using assms by (simp add: quantize_down_floor)
qed

text \<open>Two multiples of a positive quantum differ by at least the quantum.\<close>

lemma multiple_of_less:
  assumes "0 < q" "multiple_of q x" "multiple_of q y" "x < y"
  shows "x + q \<le> y"
proof -
  obtain m n where mn: "x = q * of_int m" "y = q * of_int n"
    using assms by (auto simp: multiple_of_def)
  with assms have "m < n" by (simp add: mult_less_cancel_left_pos)
  then have "of_int (m + 1) \<le> (of_int n :: rat)" by (subst of_int_le_iff) simp
  with mn assms(1) show ?thesis
    by (metis mult_le_cancel_left_pos of_int_add of_int_1 distrib_left mult.right_neutral)
qed

text \<open>Whole numbers.\<close>

abbreviation whole :: "rat \<Rightarrow> bool" where
  "whole \<equiv> multiple_of 1"

lemma whole_iff: "whole x \<longleftrightarrow> (\<exists>n. x = of_int n)"
  by (simp add: multiple_of_def)

lemma whole_of_int [simp, intro]: "whole (of_int n)"
  by (auto simp: whole_iff)

lemma trunc_int_whole: "whole x \<Longrightarrow> of_int (trunc_int x) = x"
  by (auto simp: whole_iff)

end
