(* ===== verification/AllocMaps.thy ===== *)
theory AllocMaps
  imports Decimals
begin

text \<open>
  The device allocation maps of \<open>agent/resources.py\<close>: the state and the operations that
  \<open>AbstractAllocMap\<close> gives every map, and the contract of one slot's allocation from which the
  properties of a whole \<open>allocate()\<close> call follow.  \<open>allocations\<close> is a dictionary of dictionaries;
  both levels are \<open>defaultdict\<close>s, so reading a missing slot creates an empty entry, which
  \<open>touch_slot\<close> writes out.  Amounts are finite decimals, hence rationals.
\<close>

datatype slot_types = COUNT | BYTES | UNIQUE

datatype allocation_strategy = FILL | EVENLY

record device_slot_info =
  dsi_slot_type :: slot_types
  dsi_slot_name :: string
  dsi_amount :: rat

type_synonym dev_alloc = "(string, rat) dict"
type_synonym slot_alloc = "(string, dev_alloc) dict"

record alloc_map =
  device_slots :: "(string, device_slot_info) dict"
  device_mask :: "string set"
  exclusive_slot_types :: "string list"
  am_slot_types :: "(string, slot_types) dict"
  allocations :: slot_alloc

section \<open>Construction and reset\<close>

definition touch_slot :: "slot_alloc \<Rightarrow> string \<Rightarrow> slot_alloc" where
  "touch_slot al s = (if s \<in> set (keys al) then al else al @ [(s, [])])"

definition set_alloc :: "slot_alloc \<Rightarrow> string \<Rightarrow> string \<Rightarrow> rat \<Rightarrow> slot_alloc" where
  "set_alloc al s d v = dset al s (dset (dget_or al s []) d v)"

definition zero_allocations :: "(string, device_slot_info) dict \<Rightarrow> slot_alloc" where
  "zero_allocations devs = fold (\<lambda>(d, info) al. set_alloc al (dsi_slot_name info) d 0) devs []"

definition alloc_map_init ::
  "(string, device_slot_info) dict \<Rightarrow> string set \<Rightarrow> string list \<Rightarrow> alloc_map" where
  "alloc_map_init devs dmask excl =
     \<lparr> device_slots = devs, device_mask = dmask, exclusive_slot_types = excl,
       am_slot_types = fold (\<lambda>(d, info) t. dset t (dsi_slot_name info) (dsi_slot_type info)) devs [],
       allocations = zero_allocations devs \<rparr>"

definition alloc_map_clear :: "alloc_map \<Rightarrow> alloc_map" where
  "alloc_map_clear m = m\<lparr>allocations := zero_allocations (device_slots m)\<rparr>"

section \<open>Mutually exclusive slot types\<close>

text \<open>
  \<open>fnmatch.fnmatchcase\<close>: \<open>*\<close> matches any string, \<open>?\<close> any character, \<open>[seq]\<close> and \<open>[!seq]\<close> a
  character in or not in the class (with ranges), every other character itself; a bracket without
  its closing one is an ordinary character.
\<close>

fun class_chars :: "string \<Rightarrow> string \<Rightarrow> (string \<times> string) option" where
  "class_chars acc [] = None"
| "class_chars acc (c # p) =
     (if c = CHR '']'' \<and> acc \<noteq> [] then Some (rev acc, p) else class_chars (c # acc) p)"

fun in_class :: "char \<Rightarrow> string \<Rightarrow> bool" where
  "in_class x (a # b # c # p) =
     (if b = CHR ''-'' then (of_char a \<le> (of_char x :: nat) \<and> of_char x \<le> (of_char c :: nat)) \<or> in_class x p
      else x = a \<or> in_class x (b # c # p))"
| "in_class x (a # p) = (x = a \<or> in_class x p)"
| "in_class x [] = False"

definition bracket :: "string \<Rightarrow> (bool \<times> string \<times> string) option" where
  "bracket p =
     (case p of
        CHR ''!'' # p' \<Rightarrow> map_option (\<lambda>(cs, q). (False, cs, q)) (class_chars [] p')
      | _ \<Rightarrow> map_option (\<lambda>(cs, q). (True, cs, q)) (class_chars [] p))"

lemma class_chars_length: "class_chars acc p = Some (cs, q) \<Longrightarrow> length q < length p"
  by (induction acc p rule: class_chars.induct) (auto split: if_splits)

lemma bracket_length: "bracket p = Some (b, cs, q) \<Longrightarrow> length q < length p"
  by (auto simp: bracket_def split: list.splits char.splits bool.splits dest!: class_chars_length)

function fnmatchcase :: "string \<Rightarrow> string \<Rightarrow> bool" where
  "fnmatchcase s [] = (s = [])"
| "fnmatchcase s (c # p) =
     (if c = CHR ''*'' then fnmatchcase s p \<or> (case s of [] \<Rightarrow> False | _ # s' \<Rightarrow> fnmatchcase s' (c # p))
      else case s of
        [] \<Rightarrow> False
      | x # s' \<Rightarrow>
          (if c = CHR ''?'' then fnmatchcase s' p
           else if c = CHR ''['' then
             (case bracket p of
                None \<Rightarrow> x = c \<and> fnmatchcase s' p
              | Some (pos, cs, q) \<Rightarrow> in_class x cs = pos \<and> fnmatchcase s' q)
           else x = c \<and> fnmatchcase s' p))"
  by pat_completeness auto
termination
  by (relation "measure (\<lambda>(s, p). length s + length p)") (auto dest!: bracket_length)

definition check_exclusive :: "alloc_map \<Rightarrow> string \<Rightarrow> string \<Rightarrow> bool" where
  "check_exclusive m a b =
     (let ex = exclusive_slot_types m; a_in = a \<in> set ex; b_in = b \<in> set ex;
          globs = filter (\<lambda>t. CHR ''*'' \<in> set t) ex
      in if ex = [] then False
         else if a = b then False
         else if a_in \<and> b_in then True
         else (a_in \<or> list_ex (fnmatchcase a) globs) \<and> (b_in \<or> list_ex (fnmatchcase b) globs))"

text \<open>The two loops over the requested slots that \<open>allocate()\<close> runs before it allocates.\<close>

definition exclusive_conflict :: "alloc_map \<Rightarrow> (string, rat) dict \<Rightarrow> bool" where
  "exclusive_conflict m req = list_ex (\<lambda>a. list_ex (\<lambda>b. check_exclusive m a b) (keys req)) (keys req)"

definition unique_violation :: "alloc_map \<Rightarrow> (string, rat) dict \<Rightarrow> bool" where
  "unique_violation m req =
     list_ex (\<lambda>(s, a). dget_or (am_slot_types m) s COUNT = UNIQUE \<and> a \<noteq> 1) req"

section \<open>Applying and freeing allocations\<close>

text \<open>
  \<open>apply_allocation\<close> and \<open>free\<close> are the same two nested loops in both maps, adding or
  subtracting each amount.  The outer \<open>defaultdict\<close> entry is only created when the inner loop
  has an item.
\<close>

definition alloc_of :: "slot_alloc \<Rightarrow> string \<Rightarrow> string \<Rightarrow> rat" where
  "alloc_of al s d = dget_or (dget_or al s []) d 0"

definition add_dev_allocs :: "string \<Rightarrow> dev_alloc \<Rightarrow> slot_alloc \<Rightarrow> slot_alloc" where
  "add_dev_allocs s per al = fold (\<lambda>(d, v) al. set_alloc al s d (alloc_of al s d + v)) per al"

definition sub_dev_allocs :: "string \<Rightarrow> dev_alloc \<Rightarrow> slot_alloc \<Rightarrow> slot_alloc" where
  "sub_dev_allocs s per al = fold (\<lambda>(d, v) al. set_alloc al s d (alloc_of al s d - v)) per al"

definition apply_allocation :: "alloc_map \<Rightarrow> slot_alloc \<Rightarrow> alloc_map" where
  "apply_allocation m existing =
     m\<lparr>allocations := fold (\<lambda>(s, per) al. add_dev_allocs s per al) existing (allocations m)\<rparr>"

definition alloc_free :: "alloc_map \<Rightarrow> slot_alloc \<Rightarrow> alloc_map" where
  "alloc_free m existing =
     m\<lparr>allocations := fold (\<lambda>(s, per) al. sub_dev_allocs s per al) existing (allocations m)\<rparr>"

section \<open>Allocating the requested slots one after the other\<close>

text \<open>
  The result of one slot's allocation is an exception or the amount per device, with the map as
  the call leaves it; \<open>None\<close> is a call that does not return.  A failing slot leaves the earlier
  ones allocated, as the loops of the source do.
\<close>

type_synonym 'a alloc_result = "('a res \<times> alloc_map) option"

type_synonym slot_allocator = "alloc_map \<Rightarrow> string \<Rightarrow> rat \<Rightarrow> dev_alloc alloc_result"

fun allocate_slots :: "slot_allocator \<Rightarrow> alloc_map \<Rightarrow> (string, rat) dict \<Rightarrow> slot_alloc alloc_result" where
  "allocate_slots f m [] = Some (Inr [], m)"
| "allocate_slots f m ((s, a) # req) =
     Option.bind (f m s a) (\<lambda>(r, m').
       case r of
         Inl e \<Rightarrow> Some (Inl e, m')
       | Inr per \<Rightarrow>
           Option.bind (allocate_slots f m' req) (\<lambda>(r', m'').
             Some (bindE r' (\<lambda>rest. Inr ((s, per) # rest)), m'')))"

text \<open>
  The devices of a slot with their descriptions and current allocations; a device that is not in
  \<open>device_slots\<close> raises \<open>KeyError\<close> where the sort key is computed.
\<close>

type_synonym dev_item = "string \<times> device_slot_info \<times> rat"

definition slot_items :: "alloc_map \<Rightarrow> string \<Rightarrow> dev_item list res" where
  "slot_items m s =
     mapE (\<lambda>(d, cur). bindE (dget (device_slots m) d) (\<lambda>info. Inr (d, info, cur)))
       (dget_or (allocations m) s [])"

definition item_free :: "dev_item \<Rightarrow> rat" where
  "item_free it = (case it of (d, info, cur) \<Rightarrow> dsi_amount info - cur)"

section \<open>Well-formed maps and the contract of a slot allocator\<close>

text \<open>
  The invariant of a map: both dictionary levels have distinct keys, every allocated device is a
  known device of the slot it is allocated under, and its allocation lies between zero and its
  capacity.
\<close>

definition alloc_inv :: "alloc_map \<Rightarrow> bool" where
  "alloc_inv m \<longleftrightarrow>
     wf_dict (device_slots m) \<and> wf_dict (allocations m) \<and>
     (\<forall>(s, per)\<in>set (allocations m). wf_dict per \<and>
        (\<forall>(d, v)\<in>set per. \<exists>info. map_of (device_slots m) d = Some info \<and>
           dsi_slot_name info = s \<and> 0 \<le> v \<and> v \<le> dsi_amount info))"

abbreviation granted :: "slot_alloc \<Rightarrow> string \<Rightarrow> string \<Rightarrow> rat" where
  "granted \<equiv> alloc_of"

definition same_config :: "alloc_map \<Rightarrow> alloc_map \<Rightarrow> bool" where
  "same_config m m' \<longleftrightarrow> (\<exists>al. m' = m\<lparr>allocations := al\<rparr>)"

lemma same_config_refl [simp, intro]: "same_config m m"
  unfolding same_config_def by (rule exI[of _ "allocations m"]) simp

lemma same_config_trans [trans]: "same_config m m' \<Longrightarrow> same_config m' m'' \<Longrightarrow> same_config m m''"
  unfolding same_config_def by auto

lemma same_config_allocations [simp, intro]: "same_config m (m\<lparr>allocations := al\<rparr>)"
  unfolding same_config_def by blast

lemma same_config_fields:
  "same_config m m' \<Longrightarrow> device_slots m' = device_slots m \<and> am_slot_types m' = am_slot_types m \<and>
     exclusive_slot_types m' = exclusive_slot_types m \<and> device_mask m' = device_mask m"
  unfolding same_config_def by auto

section \<open>Reading an updated map\<close>

lemma alloc_of_set_alloc [simp]:
  "alloc_of (set_alloc al s d v) s' d' = (if s' = s \<and> d' = d then v else alloc_of al s' d')"
  by (simp add: alloc_of_def set_alloc_def)

lemma alloc_of_touch_slot [simp]: "alloc_of (touch_slot al s) s' d = alloc_of al s' d"
  by (auto simp: alloc_of_def touch_slot_def dget_or_def map_add_def split: option.splits)

lemma dget_or_touch_slot [simp]: "dget_or (touch_slot al s) s' [] = dget_or al s' []"
  by (auto simp: touch_slot_def dget_or_def map_add_def split: option.splits)

lemma alloc_of_Nil [simp]: "alloc_of [] s d = 0"
  by (simp add: alloc_of_def)

lemma alloc_of_Cons: "alloc_of ((s, per) # al) s' d = (if s' = s then dget_or per d 0 else alloc_of al s' d)"
  by (simp add: alloc_of_def dget_or_def)

lemma dget_or_Cons: "dget_or ((k, v) # d) k' x = (if k' = k then v else dget_or d k' x)"
  by (simp add: dget_or_def)

lemma alloc_of_add_dev_allocs:
  "wf_dict per \<Longrightarrow> alloc_of (add_dev_allocs s per al) s' d =
     alloc_of al s' d + (if s' = s then dget_or per d 0 else 0)"
proof (induction per arbitrary: al)
  case (Cons p per)
  obtain d0 v where p: "p = (d0, v)" by (cases p)
  have notin: "dget_or per d0 0 = 0" using Cons.prems p by (intro dget_or_notin) auto
  show ?case
    using Cons.IH[of "set_alloc al s d0 (alloc_of al s d0 + v)"] Cons.prems notin p
    by (auto simp: add_dev_allocs_def dget_or_Cons)
qed (simp add: add_dev_allocs_def)

lemma alloc_of_sub_dev_allocs:
  "wf_dict per \<Longrightarrow> alloc_of (sub_dev_allocs s per al) s' d =
     alloc_of al s' d - (if s' = s then dget_or per d 0 else 0)"
proof (induction per arbitrary: al)
  case (Cons p per)
  obtain d0 v where p: "p = (d0, v)" by (cases p)
  have notin: "dget_or per d0 0 = 0" using Cons.prems p by (intro dget_or_notin) auto
  show ?case
    using Cons.IH[of "set_alloc al s d0 (alloc_of al s d0 - v)"] Cons.prems notin p
    by (auto simp: sub_dev_allocs_def dget_or_Cons)
qed (simp add: sub_dev_allocs_def)

definition wf_alloc :: "slot_alloc \<Rightarrow> bool" where
  "wf_alloc al \<longleftrightarrow> wf_dict al \<and> (\<forall>(s, per)\<in>set al. wf_dict per)"

lemma alloc_of_notin: "s \<notin> set (keys al) \<Longrightarrow> alloc_of al s d = 0"
  by (simp add: alloc_of_def dget_or_notin)

lemma alloc_of_fold_add:
  "wf_alloc ex \<Longrightarrow> alloc_of (fold (\<lambda>(s, per) al. add_dev_allocs s per al) ex al) s d =
     alloc_of al s d + alloc_of ex s d"
proof (induction ex arbitrary: al)
  case (Cons p ex)
  obtain s0 per where p: "p = (s0, per)" by (cases p)
  have "alloc_of ex s0 d = 0" using Cons.prems p by (intro alloc_of_notin) (auto simp: wf_alloc_def)
  with Cons.IH[of "add_dev_allocs s0 per al"] Cons.prems p show ?case
    by (auto simp: wf_alloc_def alloc_of_Cons alloc_of_add_dev_allocs)
qed simp

lemma alloc_of_fold_sub:
  "wf_alloc ex \<Longrightarrow> alloc_of (fold (\<lambda>(s, per) al. sub_dev_allocs s per al) ex al) s d =
     alloc_of al s d - alloc_of ex s d"
proof (induction ex arbitrary: al)
  case (Cons p ex)
  obtain s0 per where p: "p = (s0, per)" by (cases p)
  have "alloc_of ex s0 d = 0" using Cons.prems p by (intro alloc_of_notin) (auto simp: wf_alloc_def)
  with Cons.IH[of "sub_dev_allocs s0 per al"] Cons.prems p show ?case
    by (auto simp: wf_alloc_def alloc_of_Cons alloc_of_sub_dev_allocs)
qed simp

lemma apply_allocation_of:
  "wf_alloc ex \<Longrightarrow> alloc_of (allocations (apply_allocation m ex)) s d =
     alloc_of (allocations m) s d + alloc_of ex s d"
  by (simp add: apply_allocation_def alloc_of_fold_add)

lemma alloc_free_of:
  "wf_alloc ex \<Longrightarrow> alloc_of (allocations (alloc_free m ex)) s d =
     alloc_of (allocations m) s d - alloc_of ex s d"
  by (simp add: alloc_free_def alloc_of_fold_sub)

section \<open>The invariant\<close>

lemma alloc_inv_alt:
  "alloc_inv m \<longleftrightarrow> wf_dict (device_slots m) \<and> wf_alloc (allocations m) \<and>
     (\<forall>s d v. map_of (dget_or (allocations m) s []) d = Some v \<longrightarrow>
        (\<exists>info. map_of (device_slots m) d = Some info \<and> dsi_slot_name info = s \<and>
           0 \<le> v \<and> v \<le> dsi_amount info))"
proof -
  let ?B = "\<lambda>s d v. \<exists>info. map_of (device_slots m) d = Some info \<and> dsi_slot_name info = s \<and>
           0 \<le> v \<and> v \<le> dsi_amount info"
  have "(\<forall>(s, per)\<in>set (allocations m). \<forall>(d, v)\<in>set per. ?B s d v) \<longleftrightarrow>
        (\<forall>s d v. map_of (dget_or (allocations m) s []) d = Some v \<longrightarrow> ?B s d v)"
    if "wf_alloc (allocations m)"
  proof (intro iffI allI impI ballI)
    fix s d v
    assume all: "\<forall>(s, per)\<in>set (allocations m). \<forall>(d, v)\<in>set per. ?B s d v"
      and "map_of (dget_or (allocations m) s []) d = Some v"
    then obtain per where "map_of (allocations m) s = Some per" "map_of per d = Some v"
      by (auto simp: dget_or_def split: option.splits)
    then have "(s, per) \<in> set (allocations m)" "(d, v) \<in> set per" by (auto dest: map_of_SomeD)
    with all show "?B s d v" by blast
  next
    fix p
    assume B: "\<forall>s d v. map_of (dget_or (allocations m) s []) d = Some v \<longrightarrow> ?B s d v"
      and p: "p \<in> set (allocations m)"
    obtain s per where sp: "p = (s, per)" by (cases p)
    with p that have "map_of (allocations m) s = Some per" "wf_dict per"
      by (auto simp: wf_alloc_def)
    then have "?B s d v" if "(d, v) \<in> set per" for d v
      using that B by (auto simp: dget_or_def)
    with sp show "case p of (s, per) \<Rightarrow> \<forall>(d, v)\<in>set per. ?B s d v" by blast
  qed
  moreover have "alloc_inv m \<longleftrightarrow> wf_dict (device_slots m) \<and> wf_alloc (allocations m) \<and>
      (\<forall>(s, per)\<in>set (allocations m). \<forall>(d, v)\<in>set per. ?B s d v)"
    unfolding alloc_inv_def wf_alloc_def by blast
  ultimately show ?thesis by blast
qed

lemma alloc_inv_wf: "alloc_inv m \<Longrightarrow> wf_alloc (allocations m)"
  by (simp add: alloc_inv_alt)

lemma wf_alloc_set_alloc: "wf_alloc al \<Longrightarrow> wf_alloc (set_alloc al s d v)"
proof -
  assume wf: "wf_alloc al"
  then have "wf_dict (dget_or al s [])"
    by (auto simp: wf_alloc_def dget_or_def split: option.splits dest!: map_of_SomeD)
  then have "wf_dict (dset (dget_or al s []) d v)" by simp
  moreover have "set (dset al s (dset (dget_or al s []) d v)) \<subseteq>
      insert (s, dset (dget_or al s []) d v) (set al)"
    by (rule set_dset_subset)
  ultimately show ?thesis using wf by (auto simp: wf_alloc_def set_alloc_def)
qed

lemma wf_alloc_touch_slot: "wf_alloc al \<Longrightarrow> wf_alloc (touch_slot al s)"
  by (auto simp: wf_alloc_def touch_slot_def)

lemma wf_alloc_add_dev_allocs: "wf_alloc al \<Longrightarrow> wf_alloc (add_dev_allocs s per al)"
  unfolding add_dev_allocs_def
  by (induction per arbitrary: al) (auto simp: wf_alloc_set_alloc)

lemma map_of_set_alloc:
  "map_of (dget_or (set_alloc al s d v) s' []) d' =
     (if s' = s \<and> d' = d then Some v else map_of (dget_or al s' []) d')"
  by (simp add: set_alloc_def update_conv)

lemma alloc_of_Some: "map_of (dget_or al s []) d = Some v \<Longrightarrow> alloc_of al s d = v"
  by (simp add: alloc_of_def dget_or_def)

lemma alloc_inv_touch: "alloc_inv m \<Longrightarrow> alloc_inv (m\<lparr>allocations := touch_slot (allocations m) s\<rparr>)"
  unfolding alloc_inv_alt using wf_alloc_touch_slot by simp

lemma alloc_inv_set_alloc:
  assumes "alloc_inv m" and "map_of (device_slots m) d = Some info" and "dsi_slot_name info = s"
    and "0 \<le> v" and "v \<le> dsi_amount info"
  shows "alloc_inv (m\<lparr>allocations := set_alloc (allocations m) s d v\<rparr>)"
  using assms by (auto simp: alloc_inv_alt wf_alloc_set_alloc map_of_set_alloc split: if_splits)

text \<open>A grant adds to devices of the slot amounts that fit into their free capacity.\<close>

definition fits :: "alloc_map \<Rightarrow> string \<Rightarrow> dev_alloc \<Rightarrow> bool" where
  "fits m s per \<longleftrightarrow> wf_dict per \<and>
     (\<forall>(d, v)\<in>set per. \<exists>info. map_of (device_slots m) d = Some info \<and> dsi_slot_name info = s \<and>
        0 \<le> v \<and> alloc_of (allocations m) s d + v \<le> dsi_amount info)"

lemma alloc_of_nonneg: "alloc_inv m \<Longrightarrow> 0 \<le> alloc_of (allocations m) s d"
  unfolding alloc_inv_alt alloc_of_def dget_or_def by (auto split: option.splits)

lemma alloc_inv_add_dev_allocs:
  "alloc_inv m \<Longrightarrow> fits m s per \<Longrightarrow> alloc_inv (m\<lparr>allocations := add_dev_allocs s per (allocations m)\<rparr>)"
proof (induction per arbitrary: m)
  case (Cons p per)
  obtain d v where p: "p = (d, v)" by (cases p)
  let ?m = "m\<lparr>allocations := set_alloc (allocations m) s d (alloc_of (allocations m) s d + v)\<rparr>"
  from Cons.prems p obtain info where info: "map_of (device_slots m) d = Some info"
    "dsi_slot_name info = s" "0 \<le> v" "alloc_of (allocations m) s d + v \<le> dsi_amount info"
    by (auto simp: fits_def)
  have "alloc_inv ?m"
    using Cons.prems(1) info alloc_of_nonneg[OF Cons.prems(1), of s d]
    by (intro alloc_inv_set_alloc) auto
  moreover have "fits ?m s per"
    unfolding fits_def
  proof (intro conjI ballI)
    show "wf_dict per" using Cons.prems(2) p by (simp add: fits_def)
    fix q assume q: "q \<in> set per"
    obtain d' v' where q': "q = (d', v')" by (cases q)
    from q q' Cons.prems(2) p have "d' \<noteq> d" by (auto simp: fits_def rev_image_eqI)
    with q q' Cons.prems(2) p show "case q of (d, v) \<Rightarrow> \<exists>info. map_of (device_slots ?m) d = Some info \<and>
        dsi_slot_name info = s \<and> 0 \<le> v \<and> alloc_of (allocations ?m) s d + v \<le> dsi_amount info"
      by (fastforce simp: fits_def)
  qed
  ultimately show ?case using Cons.IH[of ?m] p by (simp add: add_dev_allocs_def)
qed (simp add: add_dev_allocs_def)

text \<open>The devices of an allocation belong to its slot and have a capacity.\<close>

definition known_devs :: "alloc_map \<Rightarrow> string \<Rightarrow> dev_alloc \<Rightarrow> bool" where
  "known_devs m s per \<longleftrightarrow>
     (\<forall>d\<in>set (keys per). \<exists>info. map_of (device_slots m) d = Some info \<and> dsi_slot_name info = s \<and>
        0 \<le> dsi_amount info)"

lemma known_devs_config: "same_config m m' \<Longrightarrow> known_devs m' s per \<longleftrightarrow> known_devs m s per"
  by (simp add: known_devs_def same_config_fields)

lemma fits_known: "alloc_inv m \<Longrightarrow> fits m s per \<Longrightarrow> known_devs m s per"
  unfolding fits_def known_devs_def
proof
  fix d assume inv: "alloc_inv m" and fits: "wf_dict per \<and> (\<forall>(d, v)\<in>set per. \<exists>info. map_of (device_slots m) d = Some info \<and>
    dsi_slot_name info = s \<and> 0 \<le> v \<and> alloc_of (allocations m) s d + v \<le> dsi_amount info)" and "d \<in> set (keys per)"
  then obtain v info where "map_of (device_slots m) d = Some info" "dsi_slot_name info = s"
    "0 \<le> v" "alloc_of (allocations m) s d + v \<le> dsi_amount info" by auto
  moreover from this have "0 \<le> dsi_amount info" using alloc_of_nonneg[OF inv, of s d] by linarith
  ultimately show "\<exists>info. map_of (device_slots m) d = Some info \<and> dsi_slot_name info = s \<and> 0 \<le> dsi_amount info"
    by blast
qed

text \<open>Reading a slot's entry before allocating from it.\<close>

definition touched :: "alloc_map \<Rightarrow> string \<Rightarrow> alloc_map" where
  "touched m s = m\<lparr>allocations := touch_slot (allocations m) s\<rparr>"

lemma touched_simps [simp]:
  "alloc_of (allocations (touched m s)) = alloc_of (allocations m)"
  "device_slots (touched m s) = device_slots m"
  "same_config m (touched m s)"
  by (simp_all add: touched_def fun_eq_iff)

lemma alloc_inv_touched [intro]: "alloc_inv m \<Longrightarrow> alloc_inv (touched m s)"
  unfolding touched_def by (rule alloc_inv_touch)

section \<open>The contract of a slot allocator\<close>

text \<open>
  What an allocator of one slot promises: from a well-formed map and an admissible positive
  request it returns, keeps the map well-formed, changes nothing when it raises, and otherwise
  adds to the map exactly what it returns, which sums up to the request.  \<open>okm\<close> and \<open>okr\<close> are
  the maps and the requests the allocator is meant for.
\<close>

locale slot_alloc_contract =
  fixes f :: slot_allocator and okm :: "alloc_map \<Rightarrow> bool" and okr :: "rat \<Rightarrow> bool"
  assumes returns: "alloc_inv m \<Longrightarrow> okm m \<Longrightarrow> 0 < a \<Longrightarrow> okr a \<Longrightarrow> \<exists>r m'. f m s a = Some (r, m')"
    and keeps: "alloc_inv m \<Longrightarrow> okm m \<Longrightarrow> 0 < a \<Longrightarrow> okr a \<Longrightarrow> f m s a = Some (r, m') \<Longrightarrow>
      alloc_inv m' \<and> okm m' \<and> same_config m m'"
    and fails: "alloc_inv m \<Longrightarrow> okm m \<Longrightarrow> 0 < a \<Longrightarrow> okr a \<Longrightarrow> f m s a = Some (Inl e, m') \<Longrightarrow>
      alloc_of (allocations m') = alloc_of (allocations m)"
    and grants: "alloc_inv m \<Longrightarrow> okm m \<Longrightarrow> 0 < a \<Longrightarrow> okr a \<Longrightarrow> f m s a = Some (Inr per, m') \<Longrightarrow>
      wf_dict per \<and> known_devs m s per \<and> (\<forall>v\<in>set (values per). 0 \<le> v) \<and> sum_list (values per) = a \<and>
      (\<forall>s' d. alloc_of (allocations m') s' d =
         alloc_of (allocations m) s' d + (if s' = s then dget_or per d 0 else 0))"
begin

lemma slots_return:
  "alloc_inv m \<Longrightarrow> okm m \<Longrightarrow> (\<forall>(s, a)\<in>set req. 0 < a \<and> okr a) \<Longrightarrow>
     \<exists>r m'. allocate_slots f m req = Some (r, m')"
proof (induction req arbitrary: m)
  case (Cons p req)
  obtain s a where p: "p = (s, a)" by (cases p)
  with Cons.prems obtain r m' where r: "f m s a = Some (r, m')"
    using returns[of m a s] by auto
  with Cons.prems p have "alloc_inv m'" "okm m'" using keeps[of m a s r m'] by auto
  with Cons.IH[of m'] Cons.prems(3) obtain r' m'' where "allocate_slots f m' req = Some (r', m'')"
    by auto
  with p r show ?case by (cases r) auto
qed simp

lemma slots_keep:
  "alloc_inv m \<Longrightarrow> okm m \<Longrightarrow> (\<forall>(s, a)\<in>set req. 0 < a \<and> okr a) \<Longrightarrow>
     allocate_slots f m req = Some (r, m') \<Longrightarrow> alloc_inv m' \<and> okm m' \<and> same_config m m'"
proof (induction req arbitrary: m r)
  case (Cons p req)
  obtain s a where p: "p = (s, a)" by (cases p)
  with Cons.prems obtain r1 m1 where r1: "f m s a = Some (r1, m1)"
    using returns[of m a s] by auto
  with Cons.prems p have k: "alloc_inv m1" "okm m1" "same_config m m1"
    using keeps[of m a s r1 m1] by auto
  show ?case
  proof (cases r1)
    case (Inl e)
    with Cons.prems(4) p r1 k show ?thesis by simp
  next
    case (Inr per)
    with Cons.prems(4) p r1 obtain r2 where "allocate_slots f m1 req = Some (r2, m')"
      by (auto split: bind_splits)
    with Cons.IH[of m1 r2] Cons.prems(3) k show ?thesis by (auto intro: same_config_trans)
  qed
qed simp

lemma slots_grant:
  "alloc_inv m \<Longrightarrow> okm m \<Longrightarrow> (\<forall>(s, a)\<in>set req. 0 < a \<and> okr a) \<Longrightarrow> wf_dict req \<Longrightarrow>
     allocate_slots f m req = Some (Inr r, m') \<Longrightarrow>
     keys r = keys req \<and> wf_alloc r \<and> (\<forall>(s, per)\<in>set r. known_devs m s per) \<and>
     (\<forall>(s, a)\<in>set req. sum_list (values (dget_or r s [])) = a) \<and>
     (\<forall>(s, per)\<in>set r. \<forall>v\<in>set (values per). 0 \<le> v) \<and>
     (\<forall>s d. alloc_of (allocations m') s d = alloc_of (allocations m) s d + alloc_of r s d)"
proof (induction req arbitrary: m r)
  case Nil
  then show ?case by (auto simp: wf_alloc_def)
next
  case (Cons p req)
  obtain s a where p: "p = (s, a)" by (cases p)
  with Cons.prems(5) obtain per m1 rest where st: "f m s a = Some (Inr per, m1)"
    "allocate_slots f m1 req = Some (Inr rest, m')" "r = (s, per) # rest"
    by (auto split: bind_splits sum.splits prod.splits simp: bindE_eq_Inr_iff)
  have k: "alloc_inv m1" "okm m1" using keeps[OF _ _ _ _ st(1)] Cons.prems p by auto
  note g = grants[OF Cons.prems(1,2) _ _ st(1)]
  have sc: "same_config m m1" using keeps[OF _ _ _ _ st(1)] Cons.prems p by auto
  have IH: "keys rest = keys req \<and> wf_alloc rest \<and> (\<forall>(s, per)\<in>set rest. known_devs m s per) \<and>
     (\<forall>(s, a)\<in>set req. sum_list (values (dget_or rest s [])) = a) \<and>
     (\<forall>(s, per)\<in>set rest. \<forall>v\<in>set (values per). 0 \<le> v) \<and>
     (\<forall>s d. alloc_of (allocations m') s d = alloc_of (allocations m1) s d + alloc_of rest s d)"
    using Cons.IH[OF k _ _ st(2)] Cons.prems p known_devs_config[OF sc] by auto
  have s: "s \<notin> set (keys rest)" using IH Cons.prems(4) p by auto
  then have "alloc_of rest s d = 0" for d by (rule alloc_of_notin)
  moreover have "sum_list (values (dget_or r s' [])) = a'" if "(s', a') \<in> set req" for s' a'
  proof -
    from that s IH have "s' \<noteq> s" by (metis (no_types, lifting) fst_conv image_eqI set_map)
    with that IH st(3) show ?thesis by (auto simp: dget_or_Cons)
  qed
  ultimately show ?case
    using IH g s Cons.prems p st(3) by (auto simp: wf_alloc_def alloc_of_Cons dget_or_Cons)
qed

text \<open>A call that raises keeps what it allocated for the slots before the failing one.\<close>

lemma slots_fail:
  "alloc_inv m \<Longrightarrow> okm m \<Longrightarrow> (\<forall>(s, a)\<in>set req. 0 < a \<and> okr a) \<Longrightarrow> wf_dict req \<Longrightarrow>
     allocate_slots f m req = Some (Inl e, m') \<Longrightarrow>
     \<exists>n r m0. n < length req \<and> allocate_slots f m (take n req) = Some (Inr r, m0) \<and>
       alloc_of (allocations m') = alloc_of (allocations m0)"
proof (induction req arbitrary: m)
  case (Cons p req)
  obtain s a where p: "p = (s, a)" by (cases p)
  with Cons.prems obtain r1 m1 where r1: "f m s a = Some (r1, m1)"
    using returns[of m a s] by auto
  with Cons.prems p have k: "alloc_inv m1" "okm m1" using keeps[of m a s r1 m1] by auto
  show ?case
  proof (cases r1)
    case (Inl e')
    with Cons.prems p r1 have "alloc_of (allocations m') = alloc_of (allocations m)"
      using fails[of m a s e' m1] by auto
    then have "0 < length (p # req) \<and> allocate_slots f m (take 0 (p # req)) = Some (Inr [], m) \<and>
        alloc_of (allocations m') = alloc_of (allocations m)" by simp
    then show ?thesis by blast
  next
    case (Inr per)
    with Cons.prems(5) p r1 have "allocate_slots f m1 req = Some (Inl e, m')"
      by (auto split: bind_splits simp: bindE_eq_Inl_iff)
    with Cons.IH[OF k] Cons.prems obtain n r m0 where n: "n < length req"
      "allocate_slots f m1 (take n req) = Some (Inr r, m0)"
      "alloc_of (allocations m') = alloc_of (allocations m0)" by auto
    then have "allocate_slots f m (take (Suc n) (p # req)) = Some (Inr ((s, per) # r), m0)"
      using p r1 Inr by simp
    with n show ?thesis by (metis Suc_less_eq length_Cons)
  qed
qed simp

end

text \<open>
  The allocators of the source all work the same way: they look the devices up, and either raise
  or add an amount per device that fits, returning those amounts (possibly without the zero ones).
  That is enough for the contract.
\<close>

definition grant_step :: "alloc_map \<Rightarrow> string \<Rightarrow> rat \<Rightarrow> dev_alloc \<Rightarrow> dev_alloc \<Rightarrow> bool" where
  "grant_step m s a per new \<longleftrightarrow>
     fits (touched m s) s new \<and> wf_dict per \<and> set (keys per) \<subseteq> set (keys new) \<and> (\<forall>v\<in>set (values per). 0 \<le> v) \<and>
     (\<forall>d. dget_or per d 0 = dget_or new d 0) \<and> sum_list (values per) = a"

abbreviation add_grant :: "alloc_map \<Rightarrow> string \<Rightarrow> dev_alloc \<Rightarrow> alloc_map" where
  "add_grant m s new \<equiv> (touched m s)\<lparr>allocations := add_dev_allocs s new (allocations (touched m s))\<rparr>"

locale slot_granter =
  fixes f :: slot_allocator and okm :: "alloc_map \<Rightarrow> bool" and okr :: "rat \<Rightarrow> bool"
  assumes step: "alloc_inv m \<Longrightarrow> okm m \<Longrightarrow> 0 < a \<Longrightarrow> okr a \<Longrightarrow>
      (\<exists>e. f m s a = Some (Inl e, touched m s) \<and> okm (touched m s)) \<or>
      (\<exists>per new. f m s a = Some (Inr per, add_grant m s new) \<and> grant_step m s a per new \<and>
         okm (add_grant m s new))"

sublocale slot_granter \<subseteq> slot_alloc_contract f okm okr
proof
  fix m a s
  assume pre: "alloc_inv m" "okm m" "0 < a" "okr a"
  note st = step[OF pre, of s]
  show "\<exists>r m'. f m s a = Some (r, m')" using st by blast
  show "alloc_inv m' \<and> okm m' \<and> same_config m m'" if "f m s a = Some (r, m')" for r m'
  proof -
    have "alloc_inv (add_grant m s new)" if "grant_step m s a per new" for per new
      using that pre(1) by (intro alloc_inv_add_dev_allocs alloc_inv_touched) (auto simp: grant_step_def)
    moreover have "same_config m (add_grant m s new)" for new
      by (rule same_config_trans[of m "touched m s"]) auto
    ultimately show ?thesis using st that pre(1) by auto
  qed
  show "alloc_of (allocations m') = alloc_of (allocations m)" if "f m s a = Some (Inl e, m')" for e m'
    using st that by auto
  show "wf_dict per \<and> known_devs m s per \<and> (\<forall>v\<in>set (values per). 0 \<le> v) \<and> sum_list (values per) = a \<and>
      (\<forall>s' d. alloc_of (allocations m') s' d =
         alloc_of (allocations m) s' d + (if s' = s then dget_or per d 0 else 0))"
    if "f m s a = Some (Inr per, m')" for per m'
  proof -
    from st that obtain new where new: "m' = add_grant m s new" "grant_step m s a per new" by auto
    then have "known_devs m s new"
      using fits_known[OF alloc_inv_touched[OF pre(1)], of s s new] known_devs_config[of m "touched m s"]
      by (simp add: grant_step_def)
    with new have "known_devs m s per" unfolding known_devs_def grant_step_def by blast
    with new show ?thesis by (auto simp: grant_step_def fits_def alloc_of_add_dev_allocs)
  qed
qed

end
