(* ===== verification/DiscreteAlloc.thy ===== *)
theory DiscreteAlloc
  imports AllocMaps
begin

text \<open>
  \<open>DiscretePropertyAllocMap\<close> of \<open>agent/resources.py\<close> with its two strategies.  \<open>FILL\<close> serves a
  request from the most free device on; \<open>EVENLY\<close> spreads it over all devices, in rounds.  The
  round loop of \<open>EVENLY\<close> is a partial function: on devices with fractional free capacity it can
  run forever, on whole-numbered devices it always returns.
\<close>

section \<open>Helpers of the module\<close>

function bitmask_bits :: "int \<Rightarrow> int \<Rightarrow> int list" where
  "bitmask_bits m bpos =
     (if m > 0 then (if m mod 2 = 1 then [bpos] else []) @ bitmask_bits (m div 2) (bpos + 1) else [])"
  by pat_completeness auto
termination
  by (relation "measure (\<lambda>(m, bpos). nat m)") auto

declare bitmask_bits.simps [simp del]

definition bitmask2set :: "int \<Rightarrow> int set" where
  "bitmask2set m = set (bitmask_bits m 0)"

definition distribute :: "int \<Rightarrow> string list \<Rightarrow> ((string, int) dict) res" where
  "distribute n groups =
     (if groups = [] then Inl ZeroDivisionError
      else let len = int (length groups); base = n div len; extra = n mod len
           in Inr (zip groups (map (\<lambda>i. base + (if int i < extra then 1 else 0)) [0..<length groups])))"

section \<open>The FILL strategy\<close>

text \<open>
  The loop over the sorted devices, common to both maps; they differ in the test that ends it.
  It builds the result dictionary and updates the map as it goes.
\<close>

fun fill_devs :: "(rat \<Rightarrow> bool) \<Rightarrow> string \<Rightarrow> dev_item list \<Rightarrow> rat \<Rightarrow> dev_alloc \<Rightarrow> slot_alloc \<Rightarrow>
    dev_alloc \<times> slot_alloc" where
  "fill_devs stop s [] rm sa al = (sa, al)"
| "fill_devs stop s ((d, info, _) # its) rm sa al =
     (let cur = alloc_of al s d; allocatable = dsi_amount info - cur; allocated = min rm allocatable;
          (rm', sa', al') =
            (if allocatable > 0
             then (rm - allocated, dset sa d allocated, set_alloc al s d (cur + allocated))
             else (rm, sa, al))
      in if stop rm' then (sa', al') else fill_devs stop s its rm' sa' al')"

definition discrete_fill :: slot_allocator where
  "discrete_fill m s a = Some (
     let m1 = touched m s
     in case slot_items m1 s of
          Inl e \<Rightarrow> (Inl e, m1)
        | Inr its \<Rightarrow>
            (let devs = sorted_desc item_free its;
                 total = sum_list (map (\<lambda>it. trunc_int (item_free it)) devs)
             in if list_ex (\<lambda>(d, info, _). dsi_slot_name info \<noteq> s) devs then (Inl AssertionError, m1)
                else if of_int total < a then (Inl InsufficientResource, m1)
                else let (sa, al) = fill_devs (\<lambda>r. r = 0) s devs a [] (allocations m1)
                     in (Inr sa, m1\<lparr>allocations := al\<rparr>)))"

section \<open>The EVENLY strategy\<close>

text \<open>
  One round: what every device could still take, the share \<open>distribute\<close> gives it, and the loop
  that hands the shares out until nothing remains.  Reading \<open>new_alloc\<close> creates its entries in the
  order of the devices.
\<close>

definition even_free :: "dev_alloc \<Rightarrow> dev_item \<Rightarrow> rat" where
  "even_free new it = (case it of (d, info, cur) \<Rightarrow> dsi_amount info - cur - dget_or new d 0)"

fun even_hand_out :: "(string, int) dict \<Rightarrow> dev_item list \<Rightarrow> dev_alloc \<Rightarrow> int \<Rightarrow> dev_alloc \<times> int" where
  "even_hand_out dfs [] new rm = (new, rm)"
| "even_hand_out dfs ((d, info, cur) # its) new rm =
     (let diff = dget_or dfs d 0; new' = dset new d (dget_or new d 0 + of_int diff); rm' = rm - diff
      in if rm' = 0 then (new', rm') else even_hand_out dfs its new' rm')"

definition even_diffs :: "(string, int) dict \<Rightarrow> dev_alloc \<Rightarrow> dev_item list \<Rightarrow> (string, int) dict" where
  "even_diffs initial new its =
     map (\<lambda>it. (fst it, min (trunc_int (even_free new it)) (dget_or initial (fst it) 0))) its"

definition even_round :: "dev_item list \<Rightarrow> dev_alloc \<Rightarrow> int \<Rightarrow> (dev_alloc \<times> int) res" where
  "even_round its new0 rm =
     (let new = map (\<lambda>it. (fst it, dget_or new0 (fst it) 0)) its;
          total = trunc_int (sum_list (map (even_free new) its))
      in if total < rm then Inl InsufficientResource
         else bindE (distribute rm (map fst (filter (\<lambda>it. even_free new it > 0) its))) (\<lambda>initial.
           Inr (even_hand_out (even_diffs initial new its) (sorted_desc item_free its) new rm)))"

partial_function (option) even_loop :: "dev_item list \<Rightarrow> dev_alloc \<Rightarrow> int \<Rightarrow> dev_alloc res option" where
  "even_loop its new rm =
     (if rm > 0
      then (case even_round its new rm of
              Inl e \<Rightarrow> Some (Inl e)
            | Inr p \<Rightarrow> even_loop its (fst p) (snd p))
      else Some (Inr new))"

definition discrete_evenly :: slot_allocator where
  "discrete_evenly m s a =
     (let m1 = touched m s
      in if trunc_int a > 0 then
           (case slot_items m1 s of
              Inl e \<Rightarrow> Some (Inl e, m1)
            | Inr its \<Rightarrow>
                map_option (\<lambda>r. case r of
                    Inl e \<Rightarrow> (Inl e, m1)
                  | Inr new \<Rightarrow> (Inr (filter (\<lambda>(d, v). v > 0) new),
                      m1\<lparr>allocations := add_dev_allocs s new (allocations m1)\<rparr>))
                  (even_loop its [] (trunc_int a)))
         else Some (Inr [], m))"

section \<open>The public operation\<close>

definition discrete_allocate ::
  "allocation_strategy \<Rightarrow> alloc_map \<Rightarrow> (string, rat) dict \<Rightarrow> slot_alloc alloc_result" where
  "discrete_allocate strategy m slots =
     (let req = filter (\<lambda>(s, v). v > 0) slots
      in if exclusive_conflict m req then Some (Inl InvalidResourceCombination, m)
         else if unique_violation m req then Some (Inl InvalidResourceArgument, m)
         else allocate_slots (case strategy of FILL \<Rightarrow> discrete_fill | EVENLY \<Rightarrow> discrete_evenly) m req)"

declare even_loop.simps [code]

section \<open>FILL grants exactly the request\<close>

text \<open>The grants of the loop, without the map it updates.\<close>

fun fill_grants :: "(rat \<Rightarrow> bool) \<Rightarrow> dev_item list \<Rightarrow> rat \<Rightarrow> dev_alloc" where
  "fill_grants stop [] rm = []"
| "fill_grants stop (it # its) rm =
     (if item_free it > 0
      then (fst it, min rm (item_free it)) #
        (if stop (rm - min rm (item_free it)) then [] else fill_grants stop its (rm - min rm (item_free it)))
      else if stop rm then [] else fill_grants stop its rm)"

lemma fill_grants_keys: "set (keys (fill_grants stop its rm)) \<subseteq> set (map fst its)"
  by (induction its arbitrary: rm) auto

lemma fill_grants_wf: "distinct (map fst its) \<Longrightarrow> wf_dict (fill_grants stop its rm)"
proof (induction its arbitrary: rm)
  case (Cons it its)
  have "fst it \<notin> set (keys (fill_grants stop its r))" for r
    using Cons.prems fill_grants_keys[of stop its r] by auto
  with Cons show ?case by simp
qed simp

lemma fill_grants_bounds:
  "0 \<le> rm \<Longrightarrow> distinct (map fst its) \<Longrightarrow> (d, v) \<in> set (fill_grants stop its rm) \<Longrightarrow>
     \<exists>it\<in>set its. fst it = d \<and> 0 \<le> v \<and> v \<le> item_free it"
proof (induction its arbitrary: rm)
  case (Cons it its)
  show ?case
  proof (cases "(d, v) = (fst it, min rm (item_free it)) \<and> item_free it > 0")
    case True
    with Cons.prems(1) show ?thesis by auto
  next
    case False
    let ?r = "if item_free it > 0 then rm - min rm (item_free it) else rm"
    from False Cons.prems(3) have "(d, v) \<in> set (fill_grants stop its ?r)"
      by (auto split: if_splits)
    moreover have "0 \<le> ?r" using Cons.prems(1) by auto
    ultimately show ?thesis using Cons.IH[of ?r] Cons.prems(2) by auto
  qed
qed simp

lemma fill_grants_sum:
  assumes stop0: "\<And>r. 0 \<le> r \<Longrightarrow> stop r \<longleftrightarrow> r = 0"
  shows "0 < rm \<Longrightarrow> rm \<le> sum_list (map (\<lambda>it. max 0 (item_free it)) its) \<Longrightarrow>
    sum_list (values (fill_grants stop its rm)) = rm"
proof (induction its arbitrary: rm)
  case (Cons it its)
  show ?case
  proof (cases "item_free it > 0")
    case True
    then show ?thesis using Cons stop0[of "rm - min rm (item_free it)"]
      by (cases "rm \<le> item_free it") (auto simp: min_def)
  next
    case False
    then show ?thesis using Cons stop0[of rm] by auto
  qed
qed simp

lemma fill_devs_eq:
  "distinct (map fst its) \<Longrightarrow> \<forall>it\<in>set its. alloc_of al s (fst it) = snd (snd it) \<Longrightarrow>
   set (map fst its) \<inter> set (keys sa) = {} \<Longrightarrow>
   fill_devs stop s its rm sa al =
     (sa @ fill_grants stop its rm, add_dev_allocs s (fill_grants stop its rm) al)"
proof (induction its arbitrary: rm sa al)
  case Nil
  then show ?case by (simp add: add_dev_allocs_def)
next
  case (Cons it its)
  obtain d info cur where it: "it = (d, info, cur)" by (cases it)
  have cur: "alloc_of al s d = cur" using Cons.prems(2) it by simp
  have "d \<notin> set (keys sa)" using Cons.prems(3) it by auto
  then have upd: "dset sa d v = sa @ [(d, v)]" for v
    by (rule dset_new)
  have free: "item_free it = dsi_amount info - cur" using it by (simp add: item_free_def)
  have fr: "\<forall>x\<in>set its. alloc_of (set_alloc al s d v) s (fst x) = snd (snd x)" for v
    using Cons.prems(1,2) it by auto
  show ?case
  proof (cases "item_free it > 0")
    case True
    let ?g = "min rm (item_free it)"
    have "fill_devs stop s its (rm - ?g) (sa @ [(d, ?g)]) (set_alloc al s d (cur + ?g)) =
      ((sa @ [(d, ?g)]) @ fill_grants stop its (rm - ?g),
       add_dev_allocs s (fill_grants stop its (rm - ?g)) (set_alloc al s d (cur + ?g)))"
      using Cons.prems(1,3) it fr by (intro Cons.IH) auto
    with True it cur free upd show ?thesis by (simp add: Let_def add_dev_allocs_def)
  next
    case False
    have "fill_devs stop s its rm sa al =
      (sa @ fill_grants stop its rm, add_dev_allocs s (fill_grants stop its rm) al)"
      using Cons.prems it by (intro Cons.IH) auto
    with False it cur free show ?thesis by (simp add: Let_def add_dev_allocs_def)
  qed
qed

text \<open>The devices of a slot of a well-formed map.\<close>

lemma slot_items_inv:
  assumes "alloc_inv m" and "slot_items m s = r"
  obtains its where "r = Inr its" "distinct (map fst its)" "map fst its = keys (dget_or (allocations m) s [])"
    "\<And>d info cur. (d, info, cur) \<in> set its \<Longrightarrow>
       map_of (device_slots m) d = Some info \<and> dsi_slot_name info = s \<and>
       alloc_of (allocations m) s d = cur \<and> 0 \<le> cur \<and> cur \<le> dsi_amount info"
proof -
  let ?per = "dget_or (allocations m) s []"
  let ?it = "\<lambda>(d, cur). (d, the (map_of (device_slots m) d), cur)"
  have wf: "wf_dict ?per"
    using alloc_inv_wf[OF assms(1)]
    by (auto simp: wf_alloc_def dget_or_def split: option.splits dest!: map_of_SomeD)
  have B: "\<exists>info. map_of (device_slots m) d = Some info \<and> dsi_slot_name info = s \<and> 0 \<le> v \<and> v \<le> dsi_amount info"
    and A: "alloc_of (allocations m) s d = v" if "(d, v) \<in> set ?per" for d v
  proof -
    have *: "map_of ?per d = Some v" using wf that by (simp add: map_of_eq_Some_iff)
    then show "alloc_of (allocations m) s d = v" by (rule alloc_of_Some)
    from * assms(1) show "\<exists>info. map_of (device_slots m) d = Some info \<and> dsi_slot_name info = s \<and> 0 \<le> v \<and> v \<le> dsi_amount info"
      unfolding alloc_inv_alt by blast
  qed
  have 1: "slot_items m s = Inr (map ?it ?per)"
    unfolding slot_items_def by (rule mapE_total) (use B in \<open>force simp: dget_def\<close>)
  have 2: "map fst (map ?it ?per) = keys ?per" by (simp add: comp_def case_prod_beta)
  show thesis
  proof (rule that)
    show "r = Inr (map ?it ?per)" using assms(2) 1 by simp
    show "map fst (map ?it ?per) = keys ?per" by (rule 2)
    show "distinct (map fst (map ?it ?per))" using wf unfolding 2 .
    fix d info cur
    assume "(d, info, cur) \<in> set (map ?it ?per)"
    then have dc: "(d, cur) \<in> set ?per" and i: "info = the (map_of (device_slots m) d)" by auto
    from B[OF dc] i A[OF dc] show "map_of (device_slots m) d = Some info \<and> dsi_slot_name info = s \<and>
       alloc_of (allocations m) s d = cur \<and> 0 \<le> cur \<and> cur \<le> dsi_amount info" by auto
  qed
qed

lemma slot_items_props:
  assumes "alloc_inv m" and "slot_items m s = Inr its"
  shows "distinct (map fst its)"
    and "(d, info, cur) \<in> set its \<Longrightarrow>
       map_of (device_slots m) d = Some info \<and> dsi_slot_name info = s \<and>
       alloc_of (allocations m) s d = cur \<and> 0 \<le> cur \<and> cur \<le> dsi_amount info"
    and "map fst its = keys (dget_or (allocations m) s [])"
  by (rule slot_items_inv[OF assms], simp)+

lemma slot_items_ok: "alloc_inv m \<Longrightarrow> \<exists>its. slot_items m s = Inr its"
  by (rule slot_items_inv[OF _ refl]) blast+

lemma sum_list_sorted_desc:
  fixes f :: "'a \<Rightarrow> 'b::comm_monoid_add"
  shows "sum_list (map f (sorted_desc key xs)) = sum_list (map f xs)"
  by (metis mset_map mset_sorted_desc sum_mset_sum_list)

lemma fill_grant_step:
  assumes inv: "alloc_inv m" and items: "slot_items (touched m s) s = Inr its" and a: "0 < a"
    and total: "a \<le> sum_list (map item_free its)" and stop0: "\<And>r. 0 \<le> r \<Longrightarrow> stop r \<longleftrightarrow> r = 0"
    and per: "per = fill_grants stop (sorted_desc item_free its) a"
  shows "grant_step m s a per per"
    and "fill_devs stop s (sorted_desc item_free its) a [] (allocations (touched m s)) =
      (per, add_dev_allocs s per (allocations (touched m s)))"
proof -
  note it = slot_items_props(2)[OF alloc_inv_touched[OF inv] items, unfolded touched_simps]
  let ?devs = "sorted_desc item_free its"
  have dist: "distinct (map fst ?devs)" 
    using slot_items_props(1)[OF alloc_inv_touched[OF inv] items] by (rule distinct_sorted_desc)
  have nonneg: "0 \<le> item_free x" if "x \<in> set its" for x
    using it that by (cases x) (auto simp: item_free_def)
  have "map (\<lambda>x. max 0 (item_free x)) its = map item_free its"
    using nonneg by (intro map_cong) auto
  then have "a \<le> sum_list (map (\<lambda>x. max 0 (item_free x)) ?devs)"
    unfolding sum_list_sorted_desc using total by (simp only:)
  then have sum: "sum_list (values per) = a" using fill_grants_sum[OF stop0 a] per by simp
  have wf: "wf_dict per" using fill_grants_wf[OF dist] per by simp
  have bnd: "\<exists>info. map_of (device_slots m) d = Some info \<and> dsi_slot_name info = s \<and>
      0 \<le> v \<and> alloc_of (allocations m) s d + v \<le> dsi_amount info" if dv: "(d, v) \<in> set per" for d v
  proof -
    obtain x where x: "x \<in> set its" "fst x = d" "0 \<le> v" "v \<le> item_free x"
      using fill_grants_bounds[of a ?devs d v stop] dv per a dist by auto
    obtain d' info cur where "x = (d', info, cur)" by (cases x)
    with x it[of d info cur] show ?thesis by (auto simp: item_free_def)
  qed
  then show "grant_step m s a per per"
    using wf sum by (fastforce simp: grant_step_def fits_def)
  show "fill_devs stop s ?devs a [] (allocations (touched m s)) =
      (per, add_dev_allocs s per (allocations (touched m s)))"
  proof -
    have "\<forall>x\<in>set ?devs. alloc_of (allocations (touched m s)) s (fst x) = snd (snd x)"
      using it by (intro ballI, case_tac x) auto
    from fill_devs_eq[OF dist this, of "[]" stop a] per show ?thesis by simp
  qed
qed

lemma sum_trunc_le:
  "(\<And>x. x \<in> set xs \<Longrightarrow> 0 \<le> f x) \<Longrightarrow> of_int (sum_list (map (\<lambda>x. trunc_int (f x)) xs)) \<le> sum_list (map f xs)"
  by (induction xs) (auto simp: trunc_int_nonneg add_mono)

lemma discrete_fill_step:
  assumes inv: "alloc_inv m" and a: "0 < a"
  shows "discrete_fill m s a = Some (Inl InsufficientResource, touched m s) \<or>
    (\<exists>per. discrete_fill m s a = Some (Inr per, add_grant m s per) \<and> grant_step m s a per per)"
proof -
  obtain its where items: "slot_items (touched m s) s = Inr its"
    using slot_items_ok[OF alloc_inv_touched[OF inv]] by blast
  note it = slot_items_props(2)[OF alloc_inv_touched[OF inv] items, unfolded touched_simps]
  let ?devs = "sorted_desc item_free its"
  have named: "\<not> list_ex (\<lambda>(d, info, _). dsi_slot_name info \<noteq> s) ?devs"
    using it by (auto simp: list_ex_iff)
  have "0 \<le> item_free x" if "x \<in> set its" for x
    using it that by (cases x) (auto simp: item_free_def)
  then have le: "of_int (sum_list (map (\<lambda>x. trunc_int (item_free x)) ?devs)) \<le> sum_list (map item_free its)"
    using sum_trunc_le[of ?devs item_free] by (simp add: sum_list_sorted_desc)
  show ?thesis
  proof (cases "of_int (sum_list (map (\<lambda>x. trunc_int (item_free x)) ?devs)) < a")
    case True
    with items named show ?thesis by (simp add: discrete_fill_def Let_def)
  next
    case False
    with le have total: "a \<le> sum_list (map item_free its)" by simp
    let ?per = "fill_grants (\<lambda>r. r = 0) ?devs a"
    note st = fill_grant_step[OF inv items a total, of "\<lambda>r. r = 0" ?per]
    have "discrete_fill m s a = Some (Inr ?per, add_grant m s ?per)"
      using items named False st(2) by (simp add: discrete_fill_def Let_def)
    with st(1) show ?thesis by blast
  qed
qed

interpretation fill_alloc: slot_granter discrete_fill "\<lambda>_. True" "\<lambda>_. True"
  by unfold_locales (use discrete_fill_step in blast)

section \<open>EVENLY returns and grants exactly the request\<close>

lemma sum_upto_extra: "0 \<le> e \<Longrightarrow> e \<le> int n \<Longrightarrow>
  sum_list (map (\<lambda>i. b + (if int i < e then 1 else 0)) [0..<n]) = int n * b + e"
proof (induction n arbitrary: e)
  case (Suc n)
  show ?case
  proof (cases "e \<le> int n")
    case True
    with Suc show ?thesis by (simp add: algebra_simps)
  next
    case False
    with Suc.prems have e: "e = int n + 1" by simp
    then have "map (\<lambda>i. b + (if int i < e then 1 else 0)) [0..<n] =
        map (\<lambda>i. b + (if int i < int n then 1 else 0)) [0..<n]"
      by (intro map_cong) auto
    with e Suc.IH[of "int n"] show ?thesis by (simp add: algebra_simps del: map_eq_conv)
  qed
qed simp

lemma distribute_props:
  assumes "distribute n groups = Inr p" and "0 < n"
  shows "keys p = groups" and "sum_list (values p) = n" and "\<forall>v\<in>set (values p). 0 \<le> v"
    and "snd (hd p) > 0"
proof -
  let ?len = "int (length groups)"
  from assms(1) have ne: "groups \<noteq> []"
    and p: "p = zip groups (map (\<lambda>i. n div ?len + (if int i < n mod ?len then 1 else 0)) [0..<length groups])"
    by (auto simp: distribute_def Let_def split: if_splits)
  then have len: "0 < ?len" by simp
  show "keys p = groups" using p by simp
  have vals: "values p = map (\<lambda>i. n div ?len + (if int i < n mod ?len then 1 else 0)) [0..<length groups]"
    using p by simp
  have "n mod ?len \<le> ?len" using pos_mod_bound[OF len, of n] by (rule less_imp_le)
  then show "sum_list (values p) = n"
    unfolding vals using len by (subst sum_upto_extra) auto
  have nn: "0 \<le> n div ?len" using assms(2) len by (simp add: pos_imp_zdiv_nonneg_iff)
  then show "\<forall>v\<in>set (values p). 0 \<le> v" unfolding vals by auto
  have "snd (hd p) = n div ?len + (if 0 < n mod ?len then 1 else 0)"
    using p ne by (cases groups) (auto simp: upt_conv_Cons simp del: upt_Suc)
  moreover have "n = n div ?len * ?len + n mod ?len" by simp
  moreover have "0 \<le> n mod ?len" using len by simp
  ultimately show "snd (hd p) > 0"
    using nn assms(2) by (cases "n div ?len = 0") auto
qed

lemma distribute_ok: "groups \<noteq> [] \<Longrightarrow> \<exists>p. distribute n groups = Inr p"
  by (simp add: distribute_def Let_def)

text \<open>Handing out non-negative shares that do not exceed what remains hands out all of them.\<close>

lemma even_hand_out_all:
  assumes "distinct (map fst devs)" and "\<forall>v\<in>set (values dfs). 0 \<le> v"
    and "sum_list (map (\<lambda>it. dget_or dfs (fst it) 0) devs) \<le> rm"
    and "even_hand_out dfs devs new rm = (new', rm')"
  shows "rm' = rm - sum_list (map (\<lambda>it. dget_or dfs (fst it) 0) devs) \<and>
    (\<forall>d. dget_or new' d 0 = dget_or new d 0 + (if d \<in> set (map fst devs) then of_int (dget_or dfs d 0) else 0)) \<and>
    set (keys new') \<subseteq> set (keys new) \<union> set (map fst devs) \<and> (wf_dict new \<longrightarrow> wf_dict new')"
  using assms
proof (induction devs arbitrary: new rm)
  case (Cons it devs)
  obtain d info cur where it: "it = (d, info, cur)" by (cases it)
  let ?diff = "dget_or dfs d 0" let ?new = "dset new d (dget_or new d 0 + of_int ?diff)"
  have nn: "0 \<le> dget_or dfs x 0" for x
    using Cons.prems(2) by (auto simp: dget_or_def split: option.splits dest!: map_of_SomeD)
  have k: "set (keys ?new) = insert d (set (keys new))" by (rule keys_dset)
  show ?case
  proof (cases "rm - ?diff = 0")
    case True
    then have "sum_list (map (\<lambda>it. dget_or dfs (fst it) 0) devs) \<le> 0"
      using Cons.prems(3) it by simp
    moreover have "0 \<le> sum_list (map (\<lambda>it. dget_or dfs (fst it) 0) devs)"
      using nn by (intro sum_list_nonneg) auto
    ultimately have z: "sum_list (map (\<lambda>it. dget_or dfs (fst it) 0) devs) = 0" by simp
    then have "\<forall>x\<in>set devs. dget_or dfs (fst x) 0 = 0"
      using nn by (intro sum_map_zero_all) auto
    with True z Cons.prems(4) it k show ?thesis by (auto simp: Let_def)
  next
    case False
    with Cons.prems(4) it have "even_hand_out dfs devs ?new (rm - ?diff) = (new', rm')"
      by (simp add: Let_def)
    from Cons.IH[OF _ Cons.prems(2) _ this] Cons.prems(1,3) it k show ?thesis by auto
  qed
qed simp

text \<open>The state between two rounds of a request \<open>R\<close>, of which \<open>rm\<close> is still to be placed.\<close>

definition even_inv :: "dev_item list \<Rightarrow> rat \<Rightarrow> dev_alloc \<Rightarrow> int \<Rightarrow> bool" where
  "even_inv its R new rm \<longleftrightarrow> 0 \<le> rm \<and> wf_dict new \<and> set (keys new) \<subseteq> set (map fst its) \<and>
     (\<forall>it\<in>set its. 0 \<le> dget_or new (fst it) 0 \<and> dget_or new (fst it) 0 \<le> item_free it \<and>
        whole (dget_or new (fst it) 0)) \<and>
     sum_list (map (\<lambda>it. dget_or new (fst it) 0) its) = R - of_int rm"

definition whole_items :: "dev_item list \<Rightarrow> bool" where
  "whole_items its \<longleftrightarrow> distinct (map fst its) \<and> (\<forall>it\<in>set its. 0 \<le> item_free it \<and> whole (item_free it))"

lemma even_free_eq: "even_free new it = item_free it - dget_or new (fst it) 0"
  by (cases it) (simp add: even_free_def item_free_def)

lemma dget_or_map_items: "dget_or (map (\<lambda>it. (fst it, f (fst it))) its) d x =
    (if d \<in> set (map fst its) then f d else x)"
  by (induction its) (auto simp: dget_or_Cons)

lemma dget_or_diffs:
  "distinct (map fst its) \<Longrightarrow> it \<in> set its \<Longrightarrow>
     dget_or (even_diffs initial new its) (fst it) 0 =
     min (trunc_int (even_free new it)) (dget_or initial (fst it) 0)"
  unfolding even_diffs_def by (induction its) (auto simp: dget_or_Cons)

lemma even_sum_free:
  "even_inv its R new rm \<Longrightarrow> sum_list (map (even_free new) its) = sum_list (map item_free its) - R + of_int rm"
  unfolding even_inv_def even_free_eq[abs_def] by (simp add: sum_list_subtractf)

lemma even_round_step:
  assumes wi: "whole_items its" and inv: "even_inv its R new rm" and rm: "0 < rm"
  shows "if R \<le> sum_list (map item_free its)
    then \<exists>new' rm'. even_round its new rm = Inr (new', rm') \<and> even_inv its R new' rm' \<and> rm' < rm
    else even_round its new rm = Inl InsufficientResource"
proof -
  let ?new = "map (\<lambda>it. (fst it, dget_or new (fst it) 0)) its"
  let ?free = "even_free ?new"
  have dist: "distinct (map fst its)" using wi by (simp add: whole_items_def)
  have new: "dget_or ?new d 0 = dget_or new d 0" for d
  proof (cases "d \<in> set (map fst its)")
    case True
    then show ?thesis by (simp add: dget_or_map_items[where f = "\<lambda>d. dget_or new d 0"])
  next
    case False
    with inv have "dget_or new d 0 = 0" unfolding even_inv_def by (blast intro: dget_or_notin)
    with False show ?thesis
      by (simp only: dget_or_map_items[where f = "\<lambda>d. dget_or new d 0"] if_False)
  qed
  have inv1: "even_inv its R ?new rm"
    using inv dist by (simp add: even_inv_def new comp_def)
  have free: "0 \<le> ?free it \<and> whole (?free it)" if "it \<in> set its" for it
    using that wi inv1 by (auto simp: even_free_eq whole_items_def even_inv_def)
  have ws: "whole (sum_list (map ?free its))" using free by (intro multiple_of_sum_list) auto
  have lt: "trunc_int (sum_list (map ?free its)) < rm \<longleftrightarrow> \<not> R \<le> sum_list (map item_free its)"
  proof -
    obtain n where n: "sum_list (map ?free its) = of_int n"
      using ws by (auto simp only: whole_iff)
    have "trunc_int (sum_list (map ?free its)) < rm \<longleftrightarrow> sum_list (map ?free its) < of_int rm"
      unfolding n by simp
    then show ?thesis unfolding even_sum_free[OF inv1] by auto
  qed
  show ?thesis
  proof (cases "R \<le> sum_list (map item_free its)")
    case False
    then show ?thesis using lt by (simp add: even_round_def Let_def)
  next
    case True
    let ?nz = "map fst (filter (\<lambda>it. ?free it > 0) its)"
    have "?nz \<noteq> []"
    proof
      assume "?nz = []"
      then have "\<forall>it\<in>set its. ?free it \<le> 0" by (auto simp: filter_empty_conv not_less)
      then have "sum_list (map ?free its) \<le> 0" by (intro sum_list_nonpos) auto
      with even_sum_free[OF inv1] True have "of_int rm \<le> (0 :: rat)" by linarith
      with rm show False by simp
    qed
    then obtain initial where ini: "distribute rm ?nz = Inr initial" using distribute_ok by blast
    note ip = distribute_props[OF ini rm]
    let ?dfs = "even_diffs initial ?new its" let ?devs = "sorted_desc item_free its"
    obtain new' rm' where ho: "even_hand_out ?dfs ?devs ?new rm = (new', rm')"
      by (cases "even_hand_out ?dfs ?devs ?new rm")
    have diff: "dget_or ?dfs (fst it) 0 = min (trunc_int (?free it)) (dget_or initial (fst it) 0)"
      if "it \<in> set its" for it using dget_or_diffs[OF dist that] .
    have ini0: "0 \<le> dget_or initial d 0" for d
      using ip(3) by (auto simp: dget_or_def split: option.splits dest!: map_of_SomeD)
    have tr: "0 \<le> trunc_int (?free it)" "of_int (trunc_int (?free it)) = ?free it" if "it \<in> set its" for it
      using free[OF that] by (simp add: trunc_int_nonneg, blast intro: trunc_int_whole)
    let ?D = "sum_list (map (\<lambda>it. dget_or ?dfs (fst it) 0) its)"
    have nn: "0 \<le> dget_or ?dfs (fst it) 0" if "it \<in> set its" for it
      using diff[OF that] tr(1)[OF that] ini0 by simp
    have "?D \<le> sum_list (map (\<lambda>it. dget_or initial (fst it) 0) its)"
      using diff by (intro sum_list_mono) auto
    also have "\<dots> = sum_list (map (\<lambda>d. dget_or initial d 0) (map fst its))" by (simp add: comp_def)
    also have "\<dots> = rm"
      using ip(1,2) dist by (subst sum_dget_or) (auto simp: distinct_map_filter)
    finally have D: "?D \<le> rm" .
    have "?D \<noteq> 0"
    proof
      assume "?D = 0"
      then have z: "\<forall>it\<in>set its. dget_or ?dfs (fst it) 0 = 0"
        using nn by (intro sum_map_zero_all) auto
      obtain it0 where it0: "it0 \<in> set its" "?free it0 > 0" "fst it0 = hd ?nz"
        using \<open>?nz \<noteq> []\<close> hd_in_set[of ?nz] by auto
      have "keys initial \<noteq> []" unfolding ip(1) by (rule \<open>?nz \<noteq> []\<close>)
      then obtain k v rest where kv: "initial = (k, v) # rest" by (cases initial) auto
      have "k = fst it0" unfolding it0(3) ip(1)[symmetric] kv by simp
      then have "dget_or initial (fst it0) 0 = snd (hd initial)" using kv by (simp add: dget_or_def)
      moreover have "(0 :: rat) < of_int (trunc_int (?free it0))"
        unfolding tr(2)[OF it0(1)] by (rule it0(2))
      ultimately show False using z diff[OF it0(1)] it0(1) ip(4) by auto
    qed
    moreover have "0 \<le> ?D" using nn by (intro sum_list_nonneg) auto
    ultimately have D1: "0 < ?D" by simp
    have vals: "\<forall>v\<in>set (values ?dfs). 0 \<le> v"
      using tr(1) ini0 by (auto simp: even_diffs_def)
    have ho': "rm' = rm - ?D \<and>
      (\<forall>d. dget_or new' d 0 = dget_or ?new d 0 + (if d \<in> set (map fst its) then of_int (dget_or ?dfs d 0) else 0)) \<and>
      set (keys new') \<subseteq> set (map fst its) \<and> wf_dict new'"
      using even_hand_out_all[OF distinct_sorted_desc[OF dist] vals _ ho] D dist
      by (auto simp: sum_list_sorted_desc comp_def)
    have bnd: "0 \<le> dget_or new' (fst it) 0 \<and> dget_or new' (fst it) 0 \<le> item_free it \<and>
        whole (dget_or new' (fst it) 0)" if it: "it \<in> set its" for it
    proof -
      have e: "dget_or new' (fst it) 0 = dget_or ?new (fst it) 0 + of_int (dget_or ?dfs (fst it) 0)"
        using ho' it by simp
      have "dget_or ?dfs (fst it) 0 \<le> trunc_int (?free it)" unfolding diff[OF it] by simp
      then have "of_int (dget_or ?dfs (fst it) 0) \<le> (of_int (trunc_int (?free it)) :: rat)"
        by (rule of_int_le_iff[THEN iffD2])
      then have "of_int (dget_or ?dfs (fst it) 0) \<le> ?free it" unfolding tr(2)[OF it] .
      with e nn[OF it] inv1 it show ?thesis by (auto simp: even_inv_def even_free_eq)
    qed
    have "sum_list (map (\<lambda>it. dget_or new' (fst it) 0) its) =
        sum_list (map (\<lambda>it. dget_or ?new (fst it) 0 + of_int (dget_or ?dfs (fst it) 0)) its)"
      using ho' by (intro arg_cong[of _ _ sum_list] map_cong) auto
    also have "\<dots> = sum_list (map (\<lambda>it. dget_or ?new (fst it) 0) its) + of_int ?D"
      by (simp add: sum_list_addf of_int_sum_list_map)
    finally have "even_inv its R new' rm'"
      using ho' bnd inv1 D unfolding even_inv_def by auto
    moreover have "even_round its new rm = Inr (new', rm')"
      using lt True ini ho by (simp add: even_round_def Let_def)
    ultimately show ?thesis using True ho' D1 by auto
  qed
qed

lemma even_loop_returns:
  "whole_items its \<Longrightarrow> even_inv its R new rm \<Longrightarrow>
     (R \<le> sum_list (map item_free its) \<longrightarrow> (\<exists>new'. even_loop its new rm = Some (Inr new') \<and> even_inv its R new' 0)) \<and>
     (\<not> R \<le> sum_list (map item_free its) \<longrightarrow> 0 < rm \<longrightarrow> even_loop its new rm = Some (Inl InsufficientResource))"
proof (induction "nat rm" arbitrary: new rm rule: less_induct)
  case less
  show ?case
  proof (cases "0 < rm")
    case False
    with less.prems(2) have "rm = 0" by (simp add: even_inv_def)
    with less.prems(2) show ?thesis by (simp add: even_loop.simps)
  next
    case True
    note st = even_round_step[OF less.prems True]
    show ?thesis
    proof (cases "R \<le> sum_list (map item_free its)")
      case R: True
      with st obtain new' rm' where r: "even_round its new rm = Inr (new', rm')"
        "even_inv its R new' rm'" "rm' < rm" by auto
      have "nat rm' < nat rm" using r(3) True by simp
      from less.hyps[OF this less.prems(1) r(2)] R r(1) True
      show ?thesis by (subst (1 2) even_loop.simps) simp
    next
      case R: False
      with st True show ?thesis by (subst (1 2) even_loop.simps) simp
    qed
  qed
qed

text \<open>
  The maps whose capacities and allocations are all multiples of a quantum; EVENLY is meant for
  whole numbers.
\<close>

definition multiple_map :: "rat \<Rightarrow> alloc_map \<Rightarrow> bool" where
  "multiple_map q m \<longleftrightarrow> (\<forall>(d, info)\<in>set (device_slots m). multiple_of q (dsi_amount info)) \<and>
     (\<forall>(s, per)\<in>set (allocations m). \<forall>(d, v)\<in>set per. multiple_of q v)"

abbreviation whole_map :: "alloc_map \<Rightarrow> bool" where
  "whole_map \<equiv> multiple_map 1"

lemma multiple_map_alloc_of: "multiple_map q m \<Longrightarrow> multiple_of q (alloc_of (allocations m) s d)"
  by (auto simp: multiple_map_def alloc_of_def dget_or_def split: option.splits dest!: map_of_SomeD)

lemma multiple_set_alloc:
  "(\<forall>(s, per)\<in>set al. \<forall>(d, v)\<in>set per. multiple_of q v) \<Longrightarrow> multiple_of q v \<Longrightarrow>
     (\<forall>(s, per)\<in>set (set_alloc al s d v). \<forall>(d, v)\<in>set per. multiple_of q v)"
proof -
  assume al: "\<forall>(s, per)\<in>set al. \<forall>(d, v)\<in>set per. multiple_of q v" and v: "multiple_of q v"
  have "\<forall>(d, v)\<in>set (dget_or al s []). multiple_of q v"
    using al by (fast dest: in_dget_or_list)
  with v have "\<forall>(d, v)\<in>set (dset (dget_or al s []) d v). multiple_of q v"
    using set_dset_subset[of d v "dget_or al s []"] by auto
  with al show ?thesis
    using set_dset_subset[of s "dset (dget_or al s []) d v" al] unfolding set_alloc_def by blast
qed

lemma multiple_add_dev_allocs:
  "multiple_map q m \<Longrightarrow> \<forall>v\<in>set (values per). multiple_of q v \<Longrightarrow>
     multiple_map q (m\<lparr>allocations := add_dev_allocs s per (allocations m)\<rparr>)"
proof (induction per arbitrary: m)
  case (Cons p per)
  obtain d v where p: "p = (d, v)" by (cases p)
  let ?m = "m\<lparr>allocations := set_alloc (allocations m) s d (alloc_of (allocations m) s d + v)\<rparr>"
  have "multiple_of q (alloc_of (allocations m) s d + v)"
    using multiple_map_alloc_of[OF Cons.prems(1)] Cons.prems(2) p by auto
  then have "multiple_map q ?m"
    using Cons.prems(1) multiple_set_alloc[of "allocations m"] by (auto simp: multiple_map_def)
  from Cons.IH[OF this] Cons.prems(2) p show ?case by (simp add: add_dev_allocs_def)
qed (simp add: add_dev_allocs_def)

lemma multiple_touched: "multiple_map q m \<Longrightarrow> multiple_map q (touched m s)"
  by (auto simp: multiple_map_def touched_def touch_slot_def)

lemma whole_items_of:
  assumes inv: "alloc_inv m" and wm: "whole_map m" and items: "slot_items (touched m s) s = Inr its"
  shows "whole_items its"
proof -
  note it = slot_items_props(2)[OF alloc_inv_touched[OF inv] items, unfolded touched_simps]
  have "0 \<le> item_free x \<and> whole (item_free x)" if x: "x \<in> set its" for x
  proof -
    obtain d info cur where "x = (d, info, cur)" by (cases x)
    with it[of d info cur] x wm multiple_map_alloc_of[OF wm, of s d] show ?thesis
      by (auto simp: item_free_def multiple_map_def dest!: map_of_SomeD)
  qed
  with slot_items_props(1)[OF alloc_inv_touched[OF inv] items] show ?thesis by (simp add: whole_items_def)
qed

lemma discrete_evenly_step:
  assumes inv: "alloc_inv m" and wm: "whole_map m" and a: "0 < a" "whole a"
  shows "discrete_evenly m s a = Some (Inl InsufficientResource, touched m s) \<or>
    (\<exists>per new. discrete_evenly m s a = Some (Inr per, add_grant m s new) \<and> grant_step m s a per new \<and>
       whole_map (add_grant m s new))"
proof -
  obtain its where items: "slot_items (touched m s) s = Inr its"
    using slot_items_ok[OF alloc_inv_touched[OF inv]] by blast
  note it = slot_items_props(2)[OF alloc_inv_touched[OF inv] items, unfolded touched_simps]
  note dist = slot_items_props(1)[OF alloc_inv_touched[OF inv] items]
  note wi = whole_items_of[OF inv wm items]
  have tr: "of_int (trunc_int a) = a" "0 < trunc_int a"
    using a by (auto simp: trunc_int_whole whole_iff)
  have "even_inv its a [] (trunc_int a)"
    using wi tr by (simp add: even_inv_def whole_items_def)
  note lp = even_loop_returns[OF wi this]
  show ?thesis
  proof (cases "a \<le> sum_list (map item_free its)")
    case False
    with lp tr items show ?thesis by (simp add: discrete_evenly_def Let_def)
  next
    case True
    with lp obtain new where new: "even_loop its [] (trunc_int a) = Some (Inr new)" "even_inv its a new 0"
      by auto
    let ?per = "filter (\<lambda>(d, v). v > 0) new"
    have ev: "discrete_evenly m s a = Some (Inr ?per, add_grant m s new)"
      using items tr new(1) by (simp add: discrete_evenly_def Let_def)
    have wfn: "wf_dict new" using new(2) by (simp add: even_inv_def)
    have nv: "0 \<le> v \<and> whole v \<and> (\<exists>info. map_of (device_slots m) d = Some info \<and> dsi_slot_name info = s \<and>
        alloc_of (allocations m) s d + v \<le> dsi_amount info)" if dv: "(d, v) \<in> set new" for d v
    proof -
      have "d \<in> set (keys new)" using dv by (metis fst_conv image_eqI set_map)
      with new(2) obtain x where x: "x \<in> set its" "fst x = d" unfolding even_inv_def by auto
      obtain info cur where "x = (d, info, cur)" using x(2) by (cases x) auto
      with x new(2) it[of d info cur] dget_or_in[OF wfn dv, of 0] show ?thesis
        by (auto simp: even_inv_def item_free_def)
    qed
    have "sum_list (values new) = sum_list (map (\<lambda>d. dget_or new d 0) (map fst its))"
      using new(2) dist by (intro sum_dget_or[symmetric]) (auto simp: even_inv_def)
    also have "\<dots> = a" using new(2) by (simp add: even_inv_def comp_def)
    finally have sum: "sum_list (values new) = a" .
    have nn: "\<forall>v\<in>set (values new). 0 \<le> v" using nv by auto
    have "fits (touched m s) s new" using wfn nv unfolding fits_def by fastforce
    then have "grant_step m s a ?per new"
      using filter_is_subset[of "\<lambda>(d, v). v > 0" new] wf_filter[OF wfn] dget_or_filter_pos[OF wfn nn] sum_filter_pos[OF nn] sum
      by (auto simp: grant_step_def)
    moreover have "whole_map (add_grant m s new)"
      using nv by (intro multiple_add_dev_allocs multiple_touched wm) auto
    ultimately show ?thesis using ev by blast
  qed
qed

interpretation even_alloc: slot_granter discrete_evenly whole_map whole
  by unfold_locales (use discrete_evenly_step multiple_touched in blast)

section \<open>Properties of the discrete map\<close>

lemma discrete_allocate_cases:
  assumes "wf_dict slots"
  obtains (refused) e where "discrete_allocate st m slots = Some (Inl e, m)"
  | (slots) "discrete_allocate st m slots =
      allocate_slots (case st of FILL \<Rightarrow> discrete_fill | EVENLY \<Rightarrow> discrete_evenly) m
        (filter (\<lambda>(s, v). v > 0) slots)"
    "wf_dict (filter (\<lambda>(s, v). v > 0) slots)"
  using wf_filter[OF assms] unfolding discrete_allocate_def Let_def by (metis (no_types, lifting))

text \<open>A map with two devices of slot \<open>cpu\<close>, one of them partly in use, for the witnesses.\<close>

definition demo_map :: alloc_map where
  "demo_map = \<lparr> device_slots = [(''0'', \<lparr>dsi_slot_type = COUNT, dsi_slot_name = ''cpu'', dsi_amount = 4\<rparr>),
      (''1'', \<lparr>dsi_slot_type = COUNT, dsi_slot_name = ''cpu'', dsi_amount = 2\<rparr>)],
     device_mask = {}, exclusive_slot_types = [], am_slot_types = [(''cpu'', COUNT)],
     allocations = [(''cpu'', [(''0'', 1), (''1'', 0)])] \<rparr>"

lemma demo_map_inv: "alloc_inv demo_map"
  by (simp add: alloc_inv_def demo_map_def)

lemma demo_map_whole: "whole_map demo_map"
  using whole_of_int[of 4] whole_of_int[of 2] whole_of_int[of 1] by (simp add: multiple_map_def demo_map_def)

text \<open>
  C28: \<open>allocate()\<close> with the FILL strategy on a well-formed map always returns and leaves a
  well-formed map (every device between zero and its capacity) with the same devices, whether it
  succeeds or raises.  When it succeeds, the amounts returned for each requested slot add up to the
  request, no amount is negative, and the map has grown by exactly the returned amounts.
\<close>
theorem discrete_fill_allocates:
  assumes "alloc_inv m" and "wf_dict slots"
  shows "\<exists>r m'. discrete_allocate FILL m slots = Some (r, m') \<and> alloc_inv m' \<and> same_config m m' \<and>
    (\<forall>g. r = Inr g \<longrightarrow>
       (\<forall>(s, a)\<in>set slots. 0 < a \<longrightarrow> sum_list (values (dget_or g s [])) = a) \<and>
       (\<forall>(s, per)\<in>set g. \<forall>v\<in>set (values per). 0 \<le> v) \<and>
       (\<forall>s d. alloc_of (allocations m') s d = alloc_of (allocations m) s d + granted g s d))"
  using assms(2)
proof (cases rule: discrete_allocate_cases[where st = FILL and m = m])
  case (refused e)
  with assms(1) show ?thesis by auto
next
  case slots
  let ?req = "filter (\<lambda>(s, v). v > 0) slots"
  have req: "\<forall>(s, a)\<in>set ?req. 0 < a \<and> True" by auto
  obtain r m' where r: "allocate_slots discrete_fill m ?req = Some (r, m')"
    using fill_alloc.slots_return[OF assms(1) _ req] by auto
  have k: "alloc_inv m' \<and> same_config m m'"
    using fill_alloc.slots_keep[OF assms(1) _ req r] by auto
  note g = fill_alloc.slots_grant[OF assms(1) _ req slots(2)]
  have gr: "(\<forall>(s, a)\<in>set slots. 0 < a \<longrightarrow> sum_list (values (dget_or g s [])) = a) \<and>
       (\<forall>(s, per)\<in>set g. \<forall>v\<in>set (values per). 0 \<le> v) \<and>
       (\<forall>s d. alloc_of (allocations m') s d = alloc_of (allocations m) s d + granted g s d)"
    if "r = Inr g" for g
    using g[of g m'] r that by force
  show ?thesis using slots(1) r k gr by auto
qed

theorem discrete_fill_allocates_witness:
  "\<exists>r m'. discrete_allocate FILL demo_map [(''cpu'', 4)] = Some (r, m') \<and> alloc_inv m' \<and>
    same_config demo_map m' \<and> r = Inr [(''cpu'', [(''0'', 3), (''1'', 1)])]"
proof -
  have "map_option fst (discrete_allocate FILL demo_map [(''cpu'', 4)]) =
      Some (Inr [(''cpu'', [(''0'', 3), (''1'', 1)])])"
    by code_simp
  then show ?thesis
    using discrete_fill_allocates[OF demo_map_inv, of "[(''cpu'', 4)]"] by auto
qed

text \<open>
  C29: \<open>allocate()\<close> with the EVENLY strategy, on a well-formed map of whole-numbered devices and
  a request of whole numbers: its rounds always come to an end, and the same guarantees hold as for
  FILL.
\<close>
theorem discrete_evenly_allocates:
  assumes "alloc_inv m" and "whole_map m" and "wf_dict slots" and "\<forall>(s, a)\<in>set slots. whole a"
  shows "\<exists>r m'. discrete_allocate EVENLY m slots = Some (r, m') \<and>
    alloc_inv m' \<and> whole_map m' \<and> same_config m m' \<and>
    (\<forall>g. r = Inr g \<longrightarrow>
       (\<forall>(s, a)\<in>set slots. 0 < a \<longrightarrow> sum_list (values (dget_or g s [])) = a) \<and>
       (\<forall>(s, per)\<in>set g. \<forall>v\<in>set (values per). 0 \<le> v) \<and>
       (\<forall>s d. alloc_of (allocations m') s d = alloc_of (allocations m) s d + granted g s d))"
  using assms(3)
proof (cases rule: discrete_allocate_cases[where st = EVENLY and m = m])
  case (refused e)
  with assms(1,2) show ?thesis by auto
next
  case slots
  let ?req = "filter (\<lambda>(s, v). v > 0) slots"
  have req: "\<forall>(s, a)\<in>set ?req. 0 < a \<and> whole a" using assms(4) by auto
  obtain r m' where r: "allocate_slots discrete_evenly m ?req = Some (r, m')"
    using even_alloc.slots_return[OF assms(1,2) req] by auto
  have k: "alloc_inv m' \<and> whole_map m' \<and> same_config m m'"
    using even_alloc.slots_keep[OF assms(1,2) req r] by auto
  note g = even_alloc.slots_grant[OF assms(1,2) req slots(2)]
  have gr: "(\<forall>(s, a)\<in>set slots. 0 < a \<longrightarrow> sum_list (values (dget_or g s [])) = a) \<and>
       (\<forall>(s, per)\<in>set g. \<forall>v\<in>set (values per). 0 \<le> v) \<and>
       (\<forall>s d. alloc_of (allocations m') s d = alloc_of (allocations m) s d + granted g s d)"
    if "r = Inr g" for g
    using g[of g m'] r that by force
  show ?thesis using slots(1) r k gr by auto
qed

theorem discrete_evenly_allocates_witness:
  "\<exists>r m'. discrete_allocate EVENLY demo_map [(''cpu'', 4)] = Some (r, m') \<and> alloc_inv m' \<and>
    whole_map m' \<and> r = Inr [(''cpu'', [(''0'', 2), (''1'', 2)])]"
proof -
  have "whole 4" using whole_of_int[of 4] by simp
  moreover have "map_option fst (discrete_allocate EVENLY demo_map [(''cpu'', 4)]) =
      Some (Inr [(''cpu'', [(''0'', 2), (''1'', 2)])])"
    by code_simp
  ultimately show ?thesis
    using discrete_evenly_allocates[OF demo_map_inv demo_map_whole, of "[(''cpu'', 4)]"] by auto
qed

text \<open>
  Freeing what an EVENLY or FILL allocation returned gives every device back the allocation it
  had before the call.
\<close>
theorem discrete_free_after_allocate:
  assumes "alloc_inv m" and "wf_dict slots"
    and "st = EVENLY \<longrightarrow> whole_map m \<and> (\<forall>(s, a)\<in>set slots. whole a)"
    and "discrete_allocate st m slots = Some (Inr g, m')"
  shows "alloc_of (allocations (alloc_free m' g)) = alloc_of (allocations m)"
  using assms(2)
proof (cases rule: discrete_allocate_cases[where st = st and m = m])
  case (refused e)
  with assms(4) show ?thesis by simp
next
  case slots
  let ?req = "filter (\<lambda>(s, v). v > 0) slots"
  have "wf_alloc g \<and> (\<forall>s d. alloc_of (allocations m') s d = alloc_of (allocations m) s d + alloc_of g s d)"
  proof (cases st)
    case FILL
    then show ?thesis
      using fill_alloc.slots_grant[OF assms(1) _ _ slots(2), of g m'] assms(4) slots(1) by auto
  next
    case EVENLY
    with assms(3) have "\<forall>(s, a)\<in>set ?req. 0 < a \<and> whole a" by auto
    with EVENLY assms(3) show ?thesis
      using even_alloc.slots_grant[OF assms(1) _ _ slots(2), of g m'] assms(4) slots(1) by auto
  qed
  then show ?thesis by (auto simp: fun_eq_iff alloc_free_of)
qed

theorem discrete_free_after_allocate_witness:
  "\<exists>g m'. discrete_allocate FILL demo_map [(''cpu'', 4)] = Some (Inr g, m') \<and>
    alloc_of (allocations (alloc_free m' g)) = alloc_of (allocations demo_map)"
proof -
  have "map_option fst (discrete_allocate FILL demo_map [(''cpu'', 4)]) =
      Some (Inr [(''cpu'', [(''0'', 3), (''1'', 1)])])"
    by code_simp
  then obtain m' where "discrete_allocate FILL demo_map [(''cpu'', 4)] =
      Some (Inr [(''cpu'', [(''0'', 3), (''1'', 1)])], m')" by auto
  then show ?thesis
    using discrete_free_after_allocate[OF demo_map_inv, of "[(''cpu'', 4)]" FILL] by auto
qed

text \<open>Two devices with half a unit left each, and a request for one unit.\<close>

definition half_map :: alloc_map where
  "half_map = alloc_map_init
     [(''0'', \<lparr>dsi_slot_type = COUNT, dsi_slot_name = ''x'', dsi_amount = 1 / 2\<rparr>),
      (''1'', \<lparr>dsi_slot_type = COUNT, dsi_slot_name = ''x'', dsi_amount = 1 / 2\<rparr>)] {} []"

definition half_items :: "dev_item list" where
  "half_items =
     [(''0'', \<lparr>dsi_slot_type = COUNT, dsi_slot_name = ''x'', dsi_amount = 1 / 2\<rparr>, 0),
      (''1'', \<lparr>dsi_slot_type = COUNT, dsi_slot_name = ''x'', dsi_amount = 1 / 2\<rparr>, 0)]"

lemma half_round:
  "new = [] \<or> new = [(''0'', 0), (''1'', 0)] \<Longrightarrow>
     even_round half_items new 1 = Inr ([(''0'', 0), (''1'', 0)], 1)"
proof (elim disjE)
  have "even_round half_items [] 1 = Inr ([(''0'', 0), (''1'', 0)], 1)"
    "even_round half_items [(''0'', 0), (''1'', 0)] 1 = Inr ([(''0'', 0), (''1'', 0)], 1)"
    by code_simp+
  then show "new = [] \<Longrightarrow> even_round half_items new 1 = Inr ([(''0'', 0), (''1'', 0)], 1)"
    "new = [(''0'', 0), (''1'', 0)] \<Longrightarrow> even_round half_items new 1 = Inr ([(''0'', 0), (''1'', 0)], 1)"
    by simp_all
qed

lemma half_loop: "even_loop half_items [] 1 = None"
proof (rule ccontr)
  assume "even_loop half_items [] 1 \<noteq> None"
  then obtain r where r: "even_loop half_items [] 1 = Some r" by auto
  have "half_items = half_items \<and> ([] = ([] :: dev_alloc) \<or> [] = [(''0'', 0 :: rat), (''1'', 0)]) \<and> (1 :: int) = 1 \<longrightarrow> False"
  proof (rule even_loop.raw_induct
      [where P = "\<lambda>its new rm r. its = half_items \<and> (new = [] \<or> new = [(''0'', 0), (''1'', 0)]) \<and> rm = 1 \<longrightarrow> False", OF _ r])
    fix f :: "dev_item list \<Rightarrow> dev_alloc \<Rightarrow> int \<Rightarrow> dev_alloc res option" and its new rm r
    assume IH: "\<And>its new rm r. f its new rm = Some r \<Longrightarrow>
        its = half_items \<and> (new = [] \<or> new = [(''0'', 0), (''1'', 0)]) \<and> rm = 1 \<longrightarrow> False"
      and st: "(if 0 < rm then case even_round its new rm of Inl e \<Rightarrow> Some (Inl e)
          | Inr p \<Rightarrow> f its (fst p) (snd p) else Some (Inr new)) = Some r"
    show "its = half_items \<and> (new = [] \<or> new = [(''0'', 0), (''1'', 0)]) \<and> rm = 1 \<longrightarrow> False"
    proof
      assume a: "its = half_items \<and> (new = [] \<or> new = [(''0'', 0), (''1'', 0)]) \<and> rm = 1"
      with st half_round[of new] have "f half_items [(''0'', 0), (''1'', 0)] 1 = Some r" by simp
      from IH[OF this] show False by simp
    qed
  qed
  then show False by simp
qed

text \<open>
  On two devices with half a unit of free capacity each, an EVENLY request for one unit never
  returns: the sum of the free capacities passes the check, but no device can take a whole unit, so
  every round hands out nothing.
\<close>
theorem discrete_evenly_diverges: "discrete_allocate EVENLY half_map [(''x'', 1)] = None"
proof -
  have "slot_items (touched half_map ''x'') ''x'' = Inr half_items"
    by code_simp
  moreover have "\<not> exclusive_conflict half_map [(''x'', 1)]" "\<not> unique_violation half_map [(''x'', 1)]"
    by code_simp+
  ultimately show ?thesis
    using half_loop by (simp add: discrete_allocate_def discrete_evenly_def Let_def trunc_int_def)
qed

text \<open>
  \<open>distribute\<close> splits the items over the groups in order: the shares add up to the number of
  items and any two of them differ by at most one.
\<close>
theorem distribute_balanced:
  assumes "groups \<noteq> []" and "0 < n"
  shows "\<exists>p. distribute n groups = Inr p \<and> keys p = groups \<and> sum_list (values p) = n \<and>
    (\<forall>v\<in>set (values p). \<forall>w\<in>set (values p). v \<le> w + 1)"
proof -
  obtain p where p: "distribute n groups = Inr p" using distribute_ok[OF assms(1)] by blast
  then have "\<forall>v\<in>set (values p). \<forall>w\<in>set (values p). v \<le> w + 1"
    by (auto simp: distribute_def Let_def split: if_splits dest!: set_zip_rightD)
  with p distribute_props(1,2)[OF p assms(2)] show ?thesis by blast
qed

theorem distribute_balanced_witness:
  "\<exists>p. distribute 7 [''a'', ''b'', ''c''] = Inr p \<and> keys p = [''a'', ''b'', ''c''] \<and>
    sum_list (values p) = 7 \<and> (\<forall>v\<in>set (values p). \<forall>w\<in>set (values p). v \<le> w + 1)"
  using distribute_balanced[of "[''a'', ''b'', ''c'']" 7] by simp

section \<open>When an allocation succeeds\<close>

text \<open>The capacity a slot's devices have left.\<close>

definition free_capacity :: "alloc_map \<Rightarrow> string \<Rightarrow> rat" where
  "free_capacity m s =
     sum_list (map (\<lambda>(d, v). dsi_amount (the (map_of (device_slots m) d)) - v) (dget_or (allocations m) s []))"

lemma free_capacity_items:
  assumes inv: "alloc_inv m" and items: "slot_items (touched m s) s = Inr its"
  shows "sum_list (map item_free its) = free_capacity m s"
proof -
  let ?m = "touched m s" let ?per = "dget_or (allocations m) s []"
  note p = slot_items_props[OF alloc_inv_touched[OF inv] items, unfolded touched_simps]
  have per: "dget_or (allocations ?m) s [] = ?per" by (simp add: touched_def)
  have nth: "its ! i = (fst (?per ! i), the (map_of (device_slots m) (fst (?per ! i))), snd (?per ! i))"
    if i: "i < length its" for i
  proof -
    obtain d info cur where x: "its ! i = (d, info, cur)" by (cases "its ! i")
    have len: "length its = length ?per" using arg_cong[OF p(3), of length] per by simp
    have "d = fst (?per ! i)" using arg_cong[OF p(3), of "\<lambda>xs. xs ! i"] i x len per by simp
    moreover have "map_of (device_slots m) d = Some info" "alloc_of (allocations m) s d = cur"
      using p(2)[of d info cur] i x nth_mem by metis+
    moreover have "(d, snd (?per ! i)) \<in> set ?per" using calculation(1) i len by (metis nth_mem prod.collapse)
    moreover have "wf_dict ?per" using p(1) unfolding p(3) per .
    ultimately show ?thesis using x dget_or_in by (fastforce simp: alloc_of_def)
  qed
  have len: "length its = length ?per" using arg_cong[OF p(3), of length] per by simp
  have "map item_free its = map (\<lambda>(d, v). dsi_amount (the (map_of (device_slots m) d)) - v) ?per"
    by (rule nth_equalityI) (auto simp: len nth item_free_def case_prod_beta)
  then show ?thesis by (simp only: free_capacity_def)
qed

lemma discrete_fill_succeeds:
  assumes inv: "alloc_inv m" and wm: "whole_map m"
  shows "(\<exists>per m'. discrete_fill m s a = Some (Inr per, m')) \<longleftrightarrow> a \<le> free_capacity m s"
proof -
  obtain its where items: "slot_items (touched m s) s = Inr its"
    using slot_items_ok[OF alloc_inv_touched[OF inv]] by blast
  let ?devs = "sorted_desc item_free its"
  have named: "\<not> list_ex (\<lambda>(d, info, _). dsi_slot_name info \<noteq> s) ?devs"
    using slot_items_props(2)[OF alloc_inv_touched[OF inv] items] by (auto simp: list_ex_iff)
  have "of_int (trunc_int (item_free x)) = item_free x" if "x \<in> set its" for x
    using whole_items_of[OF inv wm items] that by (auto simp: whole_items_def trunc_int_whole)
  then have "map (\<lambda>x. of_int (trunc_int (item_free x))) its = map item_free its" by (intro map_cong) auto
  then have "of_int (sum_list (map (\<lambda>x. trunc_int (item_free x)) ?devs)) = free_capacity m s"
    unfolding sum_list_sorted_desc of_int_sum_list_map free_capacity_items[OF inv items, symmetric] by (simp only:)
  with items named show ?thesis by (auto simp: discrete_fill_def Let_def split: prod.splits)
qed

lemma discrete_evenly_succeeds:
  assumes inv: "alloc_inv m" and wm: "whole_map m" and a: "0 < a" "whole a"
  shows "(\<exists>per m'. discrete_evenly m s a = Some (Inr per, m')) \<longleftrightarrow> a \<le> free_capacity m s"
proof -
  obtain its where items: "slot_items (touched m s) s = Inr its"
    using slot_items_ok[OF alloc_inv_touched[OF inv]] by blast
  note wi = whole_items_of[OF inv wm items]
  have tr: "of_int (trunc_int a) = a" "0 < trunc_int a"
    using a by (auto simp: trunc_int_whole whole_iff)
  have "even_inv its a [] (trunc_int a)"
    using wi tr by (simp add: even_inv_def whole_items_def)
  note lp = even_loop_returns[OF wi this, unfolded free_capacity_items[OF inv items]]
  with items tr show ?thesis
    by (cases "a \<le> free_capacity m s") (auto simp: discrete_evenly_def Let_def)
qed

text \<open>
  C30: A request for one slot succeeds exactly when the free capacity of the slot's devices
  suffices (and a unique-type slot is asked for one unit): on whole-numbered devices neither
  strategy refuses a request it could serve, and neither serves one it could not.
\<close>
theorem discrete_allocate_complete:
  assumes "alloc_inv m" and "whole_map m" and "0 < a" and "whole a"
  shows "(\<exists>g m'. discrete_allocate st m [(s, a)] = Some (Inr g, m')) \<longleftrightarrow>
    \<not> unique_violation m [(s, a)] \<and> a \<le> free_capacity m s"
proof -
  have "\<not> exclusive_conflict m [(s, a)]" by (simp add: exclusive_conflict_def check_exclusive_def)
  moreover have "(\<exists>g m'. allocate_slots f m [(s, a)] = Some (Inr g, m')) \<longleftrightarrow> (\<exists>per m'. f m s a = Some (Inr per, m'))" for f
    by (auto split: bind_splits sum.splits)
  ultimately show ?thesis
    using discrete_fill_succeeds[OF assms(1,2)] discrete_evenly_succeeds[OF assms] assms(3)
    by (cases st) (simp_all add: discrete_allocate_def Let_def del: allocate_slots.simps)
qed

theorem discrete_allocate_complete_witness:
  "free_capacity demo_map ''cpu'' = 5 \<and>
   (\<exists>g m'. discrete_allocate EVENLY demo_map [(''cpu'', 5)] = Some (Inr g, m')) \<and>
   \<not> (\<exists>g m'. discrete_allocate EVENLY demo_map [(''cpu'', 6)] = Some (Inr g, m'))"
proof -
  have "free_capacity demo_map ''cpu'' = 5" "\<not> unique_violation demo_map [(''cpu'', 5)]" by code_simp+
  moreover have "whole 5" "whole 6" using whole_of_int[of 5] whole_of_int[of 6] by simp_all
  ultimately show ?thesis
    using discrete_allocate_complete[OF demo_map_inv demo_map_whole] by auto
qed

text \<open>
  A call that raises is not undone: the map it leaves is the one a successful allocation of
  some initial part of the requested slots leaves.  The error path gives the caller no token for
  that part, so it stays allocated (the witness: four cores remain allocated after a request that
  fails on its second slot).
\<close>
theorem discrete_fill_partial_failure:
  assumes "alloc_inv m" and "wf_dict slots" and "discrete_allocate FILL m slots = Some (Inl e, m')"
    and "m' \<noteq> m"
  shows "\<exists>n g m0. n < length (filter (\<lambda>(s, v). v > 0) slots) \<and>
    allocate_slots discrete_fill m (take n (filter (\<lambda>(s, v). v > 0) slots)) = Some (Inr g, m0) \<and>
    alloc_of (allocations m') = alloc_of (allocations m0)"
  using assms(2)
proof (cases rule: discrete_allocate_cases[where st = FILL and m = m])
  case (refused e')
  with assms(3,4) show ?thesis by simp
next
  case slots
  let ?req = "filter (\<lambda>(s, v). v > 0) slots"
  have "\<forall>(s, a)\<in>set ?req. 0 < a \<and> True" by auto
  from fill_alloc.slots_fail[OF assms(1) _ this slots(2), of e m'] slots(1) assms(3) show ?thesis by simp
qed

theorem discrete_fill_partial_failure_witness:
  "\<exists>e m' n g m0. discrete_allocate FILL demo_map [(''cpu'', 4), (''mem'', 1)] = Some (Inl e, m') \<and>
    allocate_slots discrete_fill demo_map (take n [(''cpu'', 4), (''mem'', 1)]) = Some (Inr g, m0) \<and>
    alloc_of (allocations m') = alloc_of (allocations m0) \<and> alloc_of (allocations m') ''cpu'' ''0'' = 4"
proof -
  have ev: "map_option (\<lambda>(r, m). (r, alloc_of (allocations m) ''cpu'' ''0''))
      (discrete_allocate FILL demo_map [(''cpu'', 4), (''mem'', 1)]) = Some (Inl InsufficientResource, 4)"
    by code_simp
  then obtain m' where m': "discrete_allocate FILL demo_map [(''cpu'', 4), (''mem'', 1)] = Some (Inl InsufficientResource, m')"
    "alloc_of (allocations m') ''cpu'' ''0'' = 4" by auto
  have "alloc_of (allocations demo_map) ''cpu'' ''0'' = 1" by code_simp
  with m'(2) have "m' \<noteq> demo_map" by auto
  with m' show ?thesis
    using discrete_fill_partial_failure[OF demo_map_inv _ m'(1)] by auto
qed

end
