(* ===== verification/FractionAlloc.thy ===== *)
theory FractionAlloc
  imports DiscreteAlloc "HOL-Library.Product_Lexorder"
begin

text \<open>
  \<open>FractionAllocMap\<close> of \<open>agent/resources.py\<close>: devices that are shared in fractions.  \<open>FILL\<close> works
  as in the discrete map, with exact sums.  \<open>EVENLY\<close> looks for the window of devices, in the order
  of their free capacity, over which the request can be spread most evenly.  After either strategy
  \<open>allocate()\<close> rounds the touched devices and the returned amounts down to the quantum.
\<close>

section \<open>Rounding down to the quantum\<close>

definition round_down :: "rat \<Rightarrow> rat \<Rightarrow> rat" where
  "round_down from_dec with_dec =
     (let r = remainder_near from_dec with_dec
      in from_dec - (if r < 0 then r + with_dec else r))"

definition digits :: rat where
  "digits = 1 / 100"

definition powers :: rat where
  "powers = 100"

section \<open>The FILL strategy\<close>

definition fraction_fill :: slot_allocator where
  "fraction_fill m s a = Some (
     let m1 = touched m s
     in case slot_items m1 s of
          Inl e \<Rightarrow> (Inl e, m1)
        | Inr its \<Rightarrow>
            (let devs = sorted_desc item_free its; total = sum_list (map item_free devs)
             in if dget_or (am_slot_types m) s COUNT = UNIQUE \<and> a \<noteq> 1 then (Inl InvalidResourceArgument, m1)
                else if list_ex (\<lambda>(d, info, _). dsi_slot_name info \<noteq> s) devs then (Inl AssertionError, m1)
                else if total < a then (Inl InsufficientResource, m1)
                else let (sa, al) = fill_devs (\<lambda>r. r \<le> 0) s devs a [] (allocations m1)
                     in (Inr sa, m1\<lparr>allocations := al\<rparr>)))"

section \<open>The EVENLY strategy\<close>

definition measure_evenness :: "dev_alloc \<Rightarrow> rat" where
  "measure_evenness al =
     (let arr = sort (values al)
      in - sum_list (map (\<lambda>i. \<bar>arr ! (i + 1) - arr ! i\<bar>) [0..<length arr - 1]))"

definition measure_fragmentation :: "(string \<Rightarrow> rat) \<Rightarrow> dev_alloc \<Rightarrow> rat \<Rightarrow> int" where
  "measure_fragmentation amt al min_memory =
     sum_list (map (\<lambda>(d, v). if digits < quantize (amt d - v) digits \<and>
         quantize (amt d - v) digits < quantize min_memory digits then 1 else 0) al)"

text \<open>
  The extra hundredths go to the first devices; \<open>remainder\<close> never exceeds the number of devices
  (\<open>even_remainder_le\<close> below), so the indexing of the source stays in range.
\<close>

definition even_remainder :: "rat \<Rightarrow> nat \<Rightarrow> int" where
  "even_remainder rm n =
     round_half_even (rm * powers - quantize_down (rm / of_nat n) digits * of_nat n * powers)"

definition distribute_evenly :: "(string \<times> rat) list \<Rightarrow> rat \<Rightarrow> dev_alloc \<Rightarrow> dev_alloc" where
  "distribute_evenly devs rm al =
     (let n = length devs;
          dev_allocation = quantize_down (rm / of_nat n) digits;
          al1 = fold (\<lambda>(d, _) al. dset al d dev_allocation) devs al
      in fold (\<lambda>(d, _) al. dset al d (dget_or al d 0 + digits)) (take (nat (even_remainder rm n)) devs) al1)"

fun across_loop :: "(string \<Rightarrow> rat) \<Rightarrow> (string \<times> rat) list \<Rightarrow> nat \<Rightarrow> rat \<Rightarrow> dev_alloc \<Rightarrow> nat \<times> rat \<times> dev_alloc" where
  "across_loop amt devs 0 rm sa = (0, rm, sa)"
| "across_loop amt devs (Suc n) rm sa =
     (let (d, cur) = devs ! n; allocatable = amt d - cur
      in if allocatable \<ge> rm / of_nat (Suc n) then (Suc n, rm, sa)
         else across_loop amt devs n (rm - allocatable) (dset sa d (quantize allocatable digits)))"

definition allocate_across_devices :: "(string \<Rightarrow> rat) \<Rightarrow> (string \<times> rat) list \<Rightarrow> rat \<Rightarrow> dev_alloc" where
  "allocate_across_devices amt devs rm =
     (let (n, rm', sa) = across_loop amt devs (length devs) rm []
      in if n > 0 then distribute_evenly (take n devs) rm' sa else sa)"

text \<open>The least number of devices, from the most free one on, that can hold the request.\<close>

fun min_devices :: "(string \<Rightarrow> rat) \<Rightarrow> rat \<Rightarrow> (string \<times> rat) list \<Rightarrow> nat \<Rightarrow> rat \<Rightarrow> nat" where
  "min_devices amt rm [] n allocated = n"
| "min_devices amt rm ((d, cur) # devs) n allocated =
     (let allocated' = allocated + (amt d - cur)
      in if quantize allocated' digits \<ge> quantize rm digits then n + 1
         else min_devices amt rm devs (n + 1) allocated')"

text \<open>A candidate: allocation, evenness, negated number of devices, negated fragmentation.\<close>

type_synonym cand = "dev_alloc \<times> rat \<times> int \<times> int"

definition mk_cand :: "(string \<Rightarrow> rat) \<Rightarrow> rat \<Rightarrow> dev_alloc \<Rightarrow> cand" where
  "mk_cand amt min_memory al =
     (al, measure_evenness al, - int (length al), - measure_fragmentation amt al min_memory)"

text \<open>
  The windows of \<open>n_dev\<close> devices that start at \<open>idx\<close> and beyond, until one cannot hold the request
  or is less even than the first; \<open>k\<close> counts the windows left.
\<close>

fun window_cands :: "(string \<Rightarrow> rat) \<Rightarrow> rat \<Rightarrow> rat \<Rightarrow> (string \<times> rat) list \<Rightarrow> nat \<Rightarrow> rat \<Rightarrow> nat \<Rightarrow> nat \<Rightarrow> rat \<Rightarrow> cand list" where
  "window_cands amt min_memory rm devs n_dev max_evenness 0 idx allocatable = []"
| "window_cands amt min_memory rm devs n_dev max_evenness (Suc k) idx allocatable =
     (let free = (\<lambda>i. amt (fst (devs ! i)) - snd (devs ! i));
          allocatable' = allocatable - free (idx - 1) + free (idx + n_dev - 1)
      in if quantize allocatable' digits < quantize rm digits then []
         else let c = allocate_across_devices amt (take n_dev (drop idx devs)) rm
              in if measure_evenness c < max_evenness then []
                 else mk_cand amt min_memory c #
                   window_cands amt min_memory rm devs n_dev max_evenness k (idx + 1) allocatable')"

text \<open>The best candidate for each number of devices from \<open>n_dev\<close> on; \<open>k\<close> counts those left.\<close>

fun best_cands :: "(string \<Rightarrow> rat) \<Rightarrow> rat \<Rightarrow> rat \<Rightarrow> (string \<times> rat) list \<Rightarrow> nat \<Rightarrow> nat \<Rightarrow> cand list \<Rightarrow> cand list" where
  "best_cands amt min_memory rm devs 0 n_dev best = best"
| "best_cands amt min_memory rm devs (Suc k) n_dev best =
     (let allocatable = sum_list (map (\<lambda>(d, cur). amt d - cur) (take n_dev devs));
          c = allocate_across_devices amt (take n_dev devs) rm;
          max_evenness = measure_evenness c;
          arr = mk_cand amt min_memory c #
            window_cands amt min_memory rm devs n_dev max_evenness (length devs - n_dev) 1 allocatable;
          best' = best @ [last (sort_key (\<lambda>(al, e, n, fr). n) arr)]
      in if quantize max_evenness digits = digits then [last best']
         else best_cands amt min_memory rm devs k (n_dev + 1) best')"

definition evenly_slot :: "(string \<Rightarrow> rat) \<Rightarrow> rat \<Rightarrow> rat \<Rightarrow> (string \<times> rat) list \<Rightarrow> dev_alloc res" where
  "evenly_slot amt min_memory rm devs0 =
     (let devs = filter (\<lambda>(d, cur). amt d - cur \<ge> min_memory) devs0;
          total = sum_list (map (\<lambda>(d, cur). amt d - cur) devs)
      in if quantize total digits < quantize rm digits then Inl InsufficientResource
         else case devs of
           [] \<Rightarrow> Inl IndexError
         | (d0, cur0) # _ \<Rightarrow>
             (if rm \<le> amt d0 - cur0
              then Inr (case find (\<lambda>(d, cur). rm \<le> amt d - cur) (rev devs) of
                          None \<Rightarrow> []
                        | Some (d, cur) \<Rightarrow> [(d, quantize rm digits)])
              else
                (let n_devices = min_devices amt rm devs 0 0;
                     best = best_cands amt min_memory rm devs (length devs + 1 - n_devices) n_devices []
                 in case best of
                      [] \<Rightarrow> Inl IndexError
                    | _ \<Rightarrow> Inr (fst (last (sort_key (\<lambda>(al, e, n, fr). (e, n, fr)) best))))))"

definition fraction_evenly :: "rat \<Rightarrow> slot_allocator" where
  "fraction_evenly min_memory m s a = Some (
     let m1 = touched m s
     in case slot_items m1 s of
          Inl e \<Rightarrow> (Inl e, m1)
        | Inr its \<Rightarrow>
            (let amt = (\<lambda>d. case map_of (device_slots m) d of Some info \<Rightarrow> dsi_amount info | None \<Rightarrow> 0);
                 devs = map (\<lambda>(d, info, cur). (d, cur)) (sorted_desc item_free its)
             in case evenly_slot amt (quantize min_memory digits) a devs of
                  Inl e \<Rightarrow> (Inl e, m1)
                | Inr per \<Rightarrow> (Inr per, m1\<lparr>allocations := add_dev_allocs s per (allocations m1)\<rparr>)))"

section \<open>The public operation\<close>

text \<open>The final loop over the calculated allocations, rounding map and result.\<close>

definition round_devs :: "rat \<Rightarrow> string \<Rightarrow> dev_alloc \<Rightarrow> slot_alloc \<Rightarrow> slot_alloc" where
  "round_devs q s per al = fold (\<lambda>(d, v) al. set_alloc al s d (round_down (alloc_of al s d) q)) per al"

fun round_slots :: "rat \<Rightarrow> slot_alloc \<Rightarrow> slot_alloc \<Rightarrow> slot_alloc res \<times> slot_alloc" where
  "round_slots q [] al = (Inr [], al)"
| "round_slots q ((s, per) # g) al =
     (let al' = round_devs q s per al; actual = map (\<lambda>(d, v). (d, round_down v q)) per
      in if sum_list (values actual) = 0 then (Inl NotMultipleOfQuantum, al')
         else let (r, al'') = round_slots q g al' in (bindE r (\<lambda>rest. Inr ((s, actual) # rest)), al''))"

definition fraction_allocate ::
  "allocation_strategy \<Rightarrow> rat \<Rightarrow> rat \<Rightarrow> alloc_map \<Rightarrow> (string, rat) dict \<Rightarrow> slot_alloc alloc_result" where
  "fraction_allocate strategy quantum_size min_memory m slots =
     (let req = filter (\<lambda>(s, v). v > 0) slots
      in if exclusive_conflict m req then Some (Inl InvalidResourceCombination, m)
         else Option.bind
           (allocate_slots (case strategy of FILL \<Rightarrow> fraction_fill | EVENLY \<Rightarrow> fraction_evenly min_memory) m req)
           (\<lambda>(r, m'). case r of
                Inl e \<Rightarrow> Some (Inl e, m')
              | Inr g \<Rightarrow> let (r', al) = round_slots quantum_size g (allocations m')
                         in Some (r', m'\<lparr>allocations := al\<rparr>)))"

section \<open>Rounding is rounding down\<close>

lemma round_down_floor:
  assumes "0 < q"
  shows "round_down x q = q * of_int \<lfloor>x / q\<rfloor>"
proof -
  let ?y = "x / q"
  have x: "x = q * ?y" using assms by simp
  have f: "of_int \<lfloor>?y\<rfloor> \<le> ?y" "?y < of_int \<lfloor>?y\<rfloor> + 1" using floor_correct[of ?y] by simp_all
  consider "round_half_even ?y = \<lfloor>?y\<rfloor>" | "round_half_even ?y = \<lfloor>?y\<rfloor> + 1"
    using round_half_even_cases by blast
  then show ?thesis
  proof cases
    case 1
    then have "remainder_near x q = q * (?y - of_int \<lfloor>?y\<rfloor>)"
      using x by (simp add: remainder_near_def right_diff_distrib)
    moreover have "0 \<le> q * (?y - of_int \<lfloor>?y\<rfloor>)"
      using assms f(1) by (intro mult_nonneg_nonneg) simp_all
    ultimately show ?thesis using x by (simp add: round_down_def Let_def right_diff_distrib)
  next
    case 2
    then have r: "remainder_near x q = q * (?y - of_int \<lfloor>?y\<rfloor> - 1)"
      using x by (simp add: remainder_near_def algebra_simps)
    moreover have "q * (?y - of_int \<lfloor>?y\<rfloor> - 1) < 0"
      using assms f(2) by (intro mult_pos_neg) simp_all
    ultimately show ?thesis using x by (simp add: round_down_def Let_def algebra_simps)
  qed
qed

lemma round_down_bounds:
  assumes "0 < q"
  shows "round_down x q \<le> x" "x < round_down x q + q" "0 \<le> x \<Longrightarrow> 0 \<le> round_down x q"
proof -
  have f: "of_int \<lfloor>x / q\<rfloor> \<le> x / q" "x / q < of_int \<lfloor>x / q\<rfloor> + 1"
    using floor_correct[of "x / q"] by simp_all
  have "q * of_int \<lfloor>x / q\<rfloor> \<le> q * (x / q)" using f(1) assms by (intro mult_left_mono) auto
  then show "round_down x q \<le> x" using assms by (simp add: round_down_floor)
  have "q * (x / q) < q * (of_int \<lfloor>x / q\<rfloor> + 1)" using f(2) assms by (intro mult_strict_left_mono)
  then show "x < round_down x q + q" using assms by (simp add: round_down_floor algebra_simps)
  show "0 \<le> x \<Longrightarrow> 0 \<le> round_down x q" using assms by (simp add: round_down_floor)
qed

lemma round_down_add_multiple:
  assumes "0 < q" and "multiple_of q x"
  shows "round_down (x + y) q = x + round_down y q"
proof -
  obtain n where n: "x = q * of_int n" using assms(2) by (auto simp: multiple_of_def)
  have "(x + y) / q = y / q + of_int n" using assms(1) n by (simp add: add_divide_distrib)
  then have "\<lfloor>(x + y) / q\<rfloor> = \<lfloor>y / q\<rfloor> + n" by (simp only: floor_add_int)
  then show ?thesis using assms(1) n by (simp add: round_down_floor algebra_simps)
qed

lemma round_down_multiple [simp]: "0 < q \<Longrightarrow> multiple_of q (round_down x q)"
  by (rule multiple_ofI) (simp add: round_down_floor)

lemma round_down_id: "0 < q \<Longrightarrow> multiple_of q x \<Longrightarrow> round_down x q = x"
  using round_down_add_multiple[of q x 0] by (simp add: round_down_floor)

section \<open>EVENLY splits a request exactly\<close>

lemma digits_pos [simp]: "0 < digits" "digits \<noteq> 0" "0 \<le> digits"
  by (simp_all add: digits_def)

lemma powers_digits: "x * powers = x / digits"
  by (simp add: powers_def digits_def)

lemma even_remainder_le:
  assumes "0 \<le> rm" and "0 < n"
  shows "0 \<le> even_remainder rm n" and "even_remainder rm n \<le> int n"
proof -
  let ?b = "quantize_down (rm / of_nat n) digits"
  have b: "?b \<le> rm / of_nat n" "rm / of_nat n < ?b + digits"
    using quantize_down_bounds[of digits "rm / of_nat n"] assms by auto
  have n: "(0::rat) < of_nat n" using assms(2) by simp
  have e: "rm * powers - ?b * of_nat n * powers = (rm - ?b * of_nat n) / digits"
    by (simp add: powers_def digits_def)
  have lo: "0 \<le> rm - ?b * of_nat n" using b(1) n by (simp add: pos_le_divide_eq)
  have hi: "rm - ?b * of_nat n < digits * of_nat n" using b(2) n by (simp add: pos_divide_less_eq algebra_simps)
  let ?x = "(rm - ?b * of_nat n) / digits"
  have x0: "0 \<le> ?x" using lo by (simp add: divide_nonneg_pos)
  have xn: "?x < of_nat n" using hi by (simp add: pos_divide_less_eq mult.commute)
  have "0 \<le> \<lfloor>?x\<rfloor>" using x0 by simp
  then show "0 \<le> even_remainder rm n"
    using round_half_even_floor[of ?x] unfolding even_remainder_def e by linarith
  have "\<lfloor>?x\<rfloor> < int n" using xn by (simp add: floor_less_iff)
  then show "even_remainder rm n \<le> int n"
    using round_half_even_cases[of ?x] unfolding even_remainder_def e by linarith
qed

lemma even_remainder_exact:
  assumes "multiple_of digits rm" and "0 < n"
  shows "digits * of_int (even_remainder rm n) = rm - quantize_down (rm / of_nat n) digits * of_nat n"
proof -
  let ?b = "quantize_down (rm / of_nat n) digits"
  obtain k where k: "rm = digits * of_int k" using assms(1) by (auto simp: multiple_of_def)
  obtain j where j: "?b = digits * of_int j"
    using multiple_of_quantize_down[of digits "rm / of_nat n"] by (auto simp: multiple_of_def)
  have "rm * powers - ?b * of_nat n * powers = (rm - ?b * of_nat n) / digits"
    by (simp add: powers_def digits_def)
  also have "\<dots> = of_int (k - j * int n)" unfolding j by (simp add: k algebra_simps diff_divide_distrib)
  finally have "even_remainder rm n = k - j * int n"
    unfolding even_remainder_def by (simp only: round_half_even_of_int)
  then have "digits * of_int (even_remainder rm n) = digits * of_int k - digits * of_int j * of_nat n"
    by (simp only: of_int_diff of_int_mult of_int_of_nat_eq right_diff_distrib mult.assoc)
  then show ?thesis unfolding j using k by simp
qed

lemma fold_dset_const:
  "dget_or (fold (\<lambda>(d, _) al. dset al d v) devs al) x 0 =
     (if x \<in> set (map fst devs) then v else dget_or al x 0)"
  by (induction devs arbitrary: al) auto

lemma fold_dset_add:
  "distinct (map fst devs) \<Longrightarrow>
   dget_or (fold (\<lambda>(d, _) al. dset al d (dget_or al d 0 + v)) devs al) x 0 =
     dget_or al x (0 :: rat) + (if x \<in> set (map fst devs) then v else 0)"
proof (induction devs arbitrary: al)
  case (Cons p devs)
  obtain d y where p: "p = (d, y)" by (cases p)
  with Cons.prems have "x = d \<Longrightarrow> x \<notin> set (map fst devs)" by auto
  with Cons p show ?case by auto
qed simp

lemma fold_dset_keys:
  "set (keys (fold (\<lambda>(d, y) al. dset al d (h al d)) devs al)) = set (keys al) \<union> set (map fst devs)"
proof (induction devs arbitrary: al)
  case (Cons p devs)
  obtain d y where p: "p = (d, y)" by (cases p)
  show ?case unfolding p using Cons[of "dset al d (h al d)"] keys_dset[of d "h al d" al] by auto
qed simp

lemma fold_dset_wf: "wf_dict al \<Longrightarrow> wf_dict (fold (\<lambda>(d, y) al. dset al d (h al d)) devs al)"
  by (induction devs arbitrary: al) auto

lemma distribute_evenly_props:
  assumes "distinct (map fst devs)" and "devs \<noteq> []" and "0 \<le> rm" and "multiple_of digits rm" and "wf_dict al"
    and r: "r = distribute_evenly devs rm al"
  shows "wf_dict r" and "set (keys r) = set (keys al) \<union> set (map fst devs)"
    and "\<And>d. d \<notin> set (map fst devs) \<Longrightarrow> dget_or r d 0 = dget_or al d 0"
    and "sum_list (map (\<lambda>d. dget_or r d 0) (map fst devs)) = rm"
    and "\<And>d f. d \<in> set (map fst devs) \<Longrightarrow> multiple_of digits f \<Longrightarrow> rm / of_nat (length devs) \<le> f \<Longrightarrow>
      0 \<le> dget_or r d 0 \<and> dget_or r d 0 \<le> f \<and> multiple_of digits (dget_or r d 0)"
proof -
  let ?n = "length devs" let ?b = "quantize_down (rm / of_nat ?n) digits"
  let ?k = "nat (even_remainder rm ?n)" let ?D = "map fst devs"
  have n: "0 < ?n" using assms(2) by simp
  have k: "?k \<le> ?n" "int ?k = even_remainder rm ?n"
    using even_remainder_le[OF assms(3) n] by auto
  have ex: "digits * of_nat ?k = rm - ?b * of_nat ?n"
    using even_remainder_exact[OF assms(4) n] k(2) by (metis of_int_of_nat_eq)
  have dk: "distinct (map fst (take ?k devs))" using assms(1) by (simp add: distinct_take flip: take_map)
  have val: "dget_or r d 0 = (if d \<in> set ?D then ?b + (if d \<in> set (take ?k ?D) then digits else 0) else dget_or al d 0)" for d
  proof -
    have "set (take ?k ?D) \<subseteq> set ?D" by (rule set_take_subset)
    then show ?thesis
      unfolding r distribute_evenly_def Let_def fold_dset_add[OF dk] fold_dset_const
      by (auto simp: take_map)
  qed
  show "wf_dict r" unfolding r distribute_evenly_def Let_def by (intro fold_dset_wf assms(5))
  have "set (map fst (take ?k devs)) \<subseteq> set ?D" by (auto dest: in_set_takeD)
  then show "set (keys r) = set (keys al) \<union> set ?D"
    unfolding r distribute_evenly_def Let_def by (auto simp: fold_dset_keys simp del: set_map)
  show "dget_or r d 0 = dget_or al d 0" if "d \<notin> set ?D" for d using that by (simp only: val if_False)
  have "sum_list (map (\<lambda>d. dget_or r d 0) ?D) = sum_list (map (\<lambda>d. ?b + (if d \<in> set (take ?k ?D) then digits else 0)) ?D)"
    by (intro arg_cong[of _ _ sum_list] map_cong refl) (simp only: val if_True)
  also have "\<dots> = ?b * of_nat ?n + sum_list (map (\<lambda>d. if d \<in> set (take ?k ?D) then digits else 0) ?D)"
    by (simp add: sum_list_addf sum_list_triv mult.commute comp_def)
  also have "sum_list (map (\<lambda>d. if d \<in> set (take ?k ?D) then digits else 0) ?D) = digits * of_nat ?k"
  proof -
    have "sum_list (map (\<lambda>d. if d \<in> set (take ?k ?D) then digits else 0) ?D) = (\<Sum>d\<in>set ?D. if d \<in> set (take ?k ?D) then digits else 0)"
      using assms(1) by (rule sum_list_distinct_conv_sum_set)
    also have "\<dots> = digits * of_nat (card (set ?D \<inter> set (take ?k ?D)))"
      by (simp add: sum.If_cases mult.commute del: set_map)
    also have "set ?D \<inter> set (take ?k ?D) = set (take ?k ?D)" using set_take_subset by fastforce
    also have "card (set (take ?k ?D)) = ?k"
      using assms(1) k(1) by (simp add: distinct_card[OF distinct_take] del: set_map)
    finally show ?thesis .
  qed
  finally show "sum_list (map (\<lambda>d. dget_or r d 0) ?D) = rm" using ex by simp
  fix d f assume d: "d \<in> set ?D" and f: "multiple_of digits f" "rm / of_nat ?n \<le> f"
  have b0: "0 \<le> ?b" "?b \<le> rm / of_nat ?n"
    using quantize_down_bounds[of digits "rm / of_nat ?n"] assms(3) n by auto
  have "?b + digits \<le> f" if "d \<in> set (take ?k ?D)"
  proof -
    from that have "0 < ?k" by (cases ?k) auto
    then have "0 < digits * of_nat ?k" by (intro mult_pos_pos) auto
    then have "?b < rm / of_nat ?n" using ex n by (simp add: pos_less_divide_eq)
    with f show ?thesis by (intro multiple_of_less) auto
  qed
  with d b0 f show "0 \<le> dget_or r d 0 \<and> dget_or r d 0 \<le> f \<and> multiple_of digits (dget_or r d 0)"
    unfolding val by auto
qed

text \<open>The devices of a window in the order of their free capacity, all free amounts in hundredths.\<close>

definition dev_free :: "(string \<Rightarrow> rat) \<Rightarrow> string \<times> rat \<Rightarrow> rat" where
  "dev_free amt p = amt (fst p) - snd p"

definition window_ok :: "(string \<Rightarrow> rat) \<Rightarrow> (string \<times> rat) list \<Rightarrow> bool" where
  "window_ok amt devs \<longleftrightarrow> distinct (map fst devs) \<and>
     sorted_wrt (\<lambda>p q. dev_free amt q \<le> dev_free amt p) devs \<and>
     (\<forall>p\<in>set devs. 0 \<le> dev_free amt p \<and> multiple_of digits (dev_free amt p))"

text \<open>An exact split of a request over some of the devices, within their free capacity.\<close>

definition exact_split :: "(string \<Rightarrow> rat) \<Rightarrow> (string \<times> rat) list \<Rightarrow> rat \<Rightarrow> dev_alloc \<Rightarrow> bool" where
  "exact_split amt devs rm al \<longleftrightarrow> wf_dict al \<and> sum_list (values al) = rm \<and>
     (\<forall>(d, v)\<in>set al. \<exists>p\<in>set devs. fst p = d \<and> 0 \<le> v \<and> v \<le> dev_free amt p \<and> multiple_of digits v)"

lemma window_ok_take: "window_ok amt devs \<Longrightarrow> window_ok amt (take n devs)"
  by (auto simp: window_ok_def distinct_take sorted_wrt_take take_map[symmetric] dest: in_set_takeD)

lemma window_ok_drop: "window_ok amt devs \<Longrightarrow> window_ok amt (drop n devs)"
  by (auto simp: window_ok_def distinct_drop sorted_wrt_drop drop_map[symmetric] dest: in_set_dropD)

lemma exact_split_mono: "exact_split amt devs rm al \<Longrightarrow> set devs \<subseteq> set devs' \<Longrightarrow> exact_split amt devs' rm al"
  unfolding exact_split_def by fastforce

text \<open>Taking devices off the end keeps a request that the rest can hold.\<close>

lemma across_loop_props:
  assumes "window_ok amt devs" and "across_loop amt devs n rm sa = (n', rm', sa')" and "n \<le> length devs"
    and "0 < n" and "0 < rm" and "multiple_of digits rm" and "rm \<le> sum_list (map (dev_free amt) (take n devs))"
    and "wf_dict sa" and "set (keys sa) \<inter> set (map fst (take n devs)) = {}"
    and "\<forall>(d, v)\<in>set sa. \<exists>p\<in>set devs. fst p = d \<and> 0 \<le> v \<and> v \<le> dev_free amt p \<and> multiple_of digits v"
  shows "0 < n' \<and> n' \<le> n \<and> 0 < rm' \<and> multiple_of digits rm' \<and>
    rm' / of_nat n' \<le> dev_free amt (devs ! (n' - 1)) \<and>
    wf_dict sa' \<and> set (keys sa') \<inter> set (map fst (take n' devs)) = {} \<and>
    sum_list (values sa') + rm' = sum_list (values sa) + rm \<and>
    (\<forall>(d, v)\<in>set sa'. \<exists>p\<in>set devs. fst p = d \<and> 0 \<le> v \<and> v \<le> dev_free amt p \<and> multiple_of digits v)"
  using assms
proof (induction n arbitrary: rm sa)
  case (Suc n)
  obtain d cur where dc: "devs ! n = (d, cur)" by (cases "devs ! n")
  let ?a = "amt d - cur"
  have a: "?a = dev_free amt (devs ! n)" using dc by (simp add: dev_free_def)
  have n: "n < length devs" using Suc.prems(3) by simp
  have mem: "(d, cur) \<in> set devs" using n dc by (metis nth_mem)
  have fa: "0 \<le> ?a" "multiple_of digits ?a"
    using Suc.prems(1) mem a dc unfolding window_ok_def by (metis (no_types, lifting))+
  have tk: "take (Suc n) devs = take n devs @ [(d, cur)]" using n dc by (simp add: take_Suc_conv_app_nth)
  show ?case
  proof (cases "?a \<ge> rm / of_nat (Suc n)")
    case True
    then have "(n', rm', sa') = (Suc n, rm, sa)" using Suc.prems(2) dc by (simp add: Let_def)
    then show ?thesis using Suc.prems True a by simp
  next
    case False
    have lp: "across_loop amt devs n (rm - ?a) (dset sa d ?a) = (n', rm', sa')"
      using Suc.prems(2) dc False fa by (simp add: Let_def)
    have sum: "rm - ?a \<le> sum_list (map (dev_free amt) (take n devs))"
      using Suc.prems(7) by (simp add: tk dev_free_def[of amt "(d, cur)"])
    have lt: "?a * of_nat (Suc n) < rm" using False by (simp add: pos_less_divide_eq not_le)
    have n0: "0 < n"
    proof (rule ccontr)
      assume "\<not> 0 < n"
      then have "n = 0" by simp
      with sum lt show False by simp
    qed
    have "?a * 1 \<le> ?a * of_nat (Suc n)" using fa(1) by (intro mult_left_mono) auto
    from order.strict_trans1[OF this lt] have rm0: "0 < rm - ?a" by simp
    have dn: "d \<notin> set (keys sa)" using Suc.prems(9) by (auto simp: tk)
    then have app: "dset sa d ?a = sa @ [(d, ?a)]" by (rule dset_new)
    have "d \<notin> set (map fst (take n devs))"
    proof -
      have "distinct (map fst (take (Suc n) devs))"
        using window_ok_take[OF Suc.prems(1), of "Suc n"] by (simp add: window_ok_def)
      then show ?thesis unfolding tk by simp
    qed
    then have dis: "set (keys (dset sa d ?a)) \<inter> set (map fst (take n devs)) = {}"
      using Suc.prems(9) by (auto simp: app tk)
    have all: "\<forall>(d, v)\<in>set (dset sa d ?a). \<exists>p\<in>set devs. fst p = d \<and> 0 \<le> v \<and> v \<le> dev_free amt p \<and> multiple_of digits v"
      using Suc.prems(10) mem fa by (force simp: app dev_free_def)
    have mul: "multiple_of digits (rm - ?a)" using Suc.prems(6) fa(2) by blast
    from Suc.IH[OF Suc.prems(1) lp _ n0 rm0 mul sum wf_dset[OF Suc.prems(8)] dis all] n
    show ?thesis by (auto simp: app)
  qed
qed simp

lemma allocate_across_devices_split:
  assumes ok: "window_ok amt devs" and ne: "devs \<noteq> []" and rm: "0 < rm" "multiple_of digits rm"
    and sum: "rm \<le> sum_list (map (dev_free amt) devs)"
  shows "exact_split amt devs rm (allocate_across_devices amt devs rm)"
proof -
  obtain n rm' sa where lp: "across_loop amt devs (length devs) rm [] = (n, rm', sa)"
    by (metis prod.exhaust)
  have "0 < length devs" "rm \<le> sum_list (map (dev_free amt) (take (length devs) devs))"
    using ne sum by auto
  from across_loop_props[OF ok lp _ this(1) rm this(2)]
  have l: "0 < n" "n \<le> length devs" "0 < rm'" "multiple_of digits rm'"
    "rm' / of_nat n \<le> dev_free amt (devs ! (n - 1))" "wf_dict sa"
    "set (keys sa) \<inter> set (map fst (take n devs)) = {}" "sum_list (values sa) + rm' = rm"
    "\<forall>(d, v)\<in>set sa. \<exists>p\<in>set devs. fst p = d \<and> 0 \<le> v \<and> v \<le> dev_free amt p \<and> multiple_of digits v"
    by auto
  let ?W = "take n devs" let ?r = "distribute_evenly ?W rm' sa"
  have W: "window_ok amt ?W" "?W \<noteq> []" "length ?W = n" "distinct (map fst ?W)"
    using window_ok_take[OF ok, of n] l(1,2) ne by (auto simp: window_ok_def)
  note dp = distribute_evenly_props[OF W(4,2) _ l(4,6) refl]
  have eq: "allocate_across_devices amt devs rm = ?r"
    using lp l(1) by (simp add: allocate_across_devices_def)
  have free: "rm' / of_nat n \<le> dev_free amt p" if "p \<in> set ?W" for p
  proof -
    obtain i where i: "i < n" "p = ?W ! i" using \<open>p \<in> set ?W\<close> W(3) by (auto simp: in_set_conv_nth)
    have "dev_free amt (devs ! (n - 1)) \<le> dev_free amt (devs ! i)"
    proof (cases "i = n - 1")
      case False
      with i l(1,2) have "i < n - 1" "n - 1 < length devs" by auto
      with ok show ?thesis unfolding window_ok_def by (auto dest: sorted_wrt_nth_less)
    qed simp
    with l(5) i show ?thesis by simp
  qed
  have vals: "\<exists>p\<in>set devs. fst p = d \<and> 0 \<le> v \<and> v \<le> dev_free amt p \<and> multiple_of digits v"
    if dv: "(d, v) \<in> set ?r" for d v
  proof -
    have v: "dget_or ?r d 0 = v" using dget_or_in[OF dp(1) dv] l(3) by simp
    show ?thesis
    proof (cases "d \<in> set (map fst ?W)")
      case True
      then obtain p where p: "p \<in> set ?W" "fst p = d" by auto
      then have "multiple_of digits (dev_free amt p)" using W(1) by (auto simp: window_ok_def)
      with dp(5)[OF _ True this] free[OF p(1)] W(3) l(3) v p show ?thesis
        by (auto dest: in_set_takeD)
    next
      case False
      then have "dget_or sa d 0 = v" using dp(3) v l(3) by simp
      moreover have "d \<in> set (keys sa)"
      proof -
        have "d \<in> set (keys ?r)" using dv by (metis fst_conv image_eqI set_map)
        then show ?thesis using dp(2) False l(3) by (metis UnE less_imp_le)
      qed
      ultimately have "(d, v) \<in> set sa"
        using l(6) by (auto simp: dget_or_def map_of_is_SomeI dest: map_of_SomeD split: option.splits)
      with l(9) show ?thesis by blast
    qed
  qed
  have "sum_list (values ?r) = sum_list (map (\<lambda>d. dget_or ?r d 0) (keys sa @ map fst ?W))"
    using dp(1,2) l(3,6,7) W(4) by (intro sum_dget_or[symmetric]) auto
  also have "\<dots> = sum_list (map (\<lambda>d. dget_or ?r d 0) (keys sa)) + rm'"
    using dp(4) l(3) by simp
  also have "map (\<lambda>d. dget_or ?r d 0) (keys sa) = map (\<lambda>d. dget_or sa d 0) (keys sa)"
  proof (intro map_cong refl)
    fix d assume "d \<in> set (keys sa)"
    with l(7) have "d \<notin> set (map fst ?W)" by auto
    with dp(3) l(3) show "dget_or ?r d 0 = dget_or sa d 0" by simp
  qed
  also have "sum_list (map (\<lambda>d. dget_or sa d 0) (keys sa)) = sum_list (values sa)"
    using l(6) by (intro sum_dget_or) auto
  finally have "sum_list (values ?r) = rm" using l(8) by simp
  with dp(1) vals l(3) show ?thesis unfolding eq exact_split_def by auto
qed

section \<open>The chosen candidate\<close>

text \<open>Every candidate of the search is an exact split over some devices.\<close>

definition good_cand :: "(string \<Rightarrow> rat) \<Rightarrow> (string \<times> rat) list \<Rightarrow> rat \<Rightarrow> cand \<Rightarrow> bool" where
  "good_cand amt devs rm c \<longleftrightarrow> exact_split amt devs rm (fst c)"

lemma good_mk_cand [simp]: "good_cand amt devs rm (mk_cand amt mm al) \<longleftrightarrow> exact_split amt devs rm al"
  by (simp add: good_cand_def mk_cand_def)

lemma sum_window_shift:
  assumes "0 < idx" and "0 < n" and "idx + n \<le> length devs"
  shows "sum_list (map f (take n (drop idx devs))) =
    sum_list (map f (take n (drop (idx - 1) devs))) - f (devs ! (idx - 1)) + (f (devs ! (idx + n - 1)) :: rat)"
proof -
  obtain i where i: "idx = Suc i" using assms(1) by (cases idx) auto
  obtain k where k: "n = Suc k" using assms(2) by (cases n) auto
  have 1: "drop i devs = devs ! i # drop (Suc i) devs" using assms(3) i by (simp add: Cons_nth_drop_Suc)
  have 2: "take (Suc k) (drop (Suc i) devs) = take k (drop (Suc i) devs) @ [devs ! (Suc i + k)]"
    using assms(3) i k by (simp add: take_Suc_conv_app_nth)
  show ?thesis unfolding i k by (simp add: 1 2 del: take_Suc_Cons add: take_Suc_Cons)
qed

lemma quantize_less_multiples:
  "multiple_of digits x \<Longrightarrow> multiple_of digits y \<Longrightarrow> quantize x digits < quantize y digits \<longleftrightarrow> x < y"
  by simp

lemma window_sum_multiple:
  "window_ok amt devs \<Longrightarrow> multiple_of digits (sum_list (map (dev_free amt) devs))"
  by (intro multiple_of_sum_list) (auto simp: window_ok_def)

lemma window_cands_good:
  assumes "window_ok amt devs" and "0 < rm" and "multiple_of digits rm" and "0 < n"
    and "0 < idx" and "idx + k + n = Suc (length devs)"
    and "allocatable = sum_list (map (dev_free amt) (take n (drop (idx - 1) devs)))"
    and "c \<in> set (window_cands amt mm rm devs n e k idx allocatable)"
  shows "good_cand amt devs rm c"
  using assms
proof (induction k arbitrary: idx allocatable)
  case (Suc k)
  let ?W = "take n (drop idx devs)" let ?al = "sum_list (map (dev_free amt) ?W)"
  let ?c = "allocate_across_devices amt ?W rm"
  have al: "allocatable - (amt (fst (devs ! (idx - 1))) - snd (devs ! (idx - 1))) +
      (amt (fst (devs ! (idx + n - 1))) - snd (devs ! (idx + n - 1))) = ?al"
    using sum_window_shift[of idx n devs "dev_free amt"] Suc.prems(4,5,6,7)
    by (simp add: dev_free_def[symmetric])
  have W: "window_ok amt ?W" using Suc.prems(1) by (intro window_ok_take window_ok_drop)
  note mem = Suc.prems(8)[unfolded window_cands.simps Let_def al]
  from mem have q: "\<not> quantize ?al digits < quantize rm digits"
    and c: "c = mk_cand amt mm ?c \<or> c \<in> set (window_cands amt mm rm devs n e k (idx + 1) ?al)"
    by (auto split: if_splits)
  have "rm \<le> ?al" using q window_sum_multiple[OF W] Suc.prems(3) by simp
  moreover have "?W \<noteq> []" using Suc.prems(4,6) by auto
  ultimately have "exact_split amt devs rm ?c"
    using allocate_across_devices_split[OF W _ Suc.prems(2,3)]
    by (rule_tac exact_split_mono[of _ ?W]) (auto dest: in_set_takeD in_set_dropD)
  moreover have "good_cand amt devs rm c" if "c \<in> set (window_cands amt mm rm devs n e k (idx + 1) ?al)"
    using Suc.IH[OF Suc.prems(1-4) _ _ _ that] Suc.prems(5,6) by simp
  ultimately show ?case using c by auto
qed simp

lemma in_sort_key_last: "xs \<noteq> [] \<Longrightarrow> last (sort_key f xs) \<in> set xs"
  by (metis last_in_set set_sort sort_key_simps(1) length_0_conv length_sort)

lemma best_cands_good:
  assumes "window_ok amt devs" and "0 < rm" and "multiple_of digits rm" and "0 < n"
    and "k = 0 \<or> n + k = Suc (length devs)"
    and "rm \<le> sum_list (map (dev_free amt) (take n devs))" and "\<forall>c\<in>set best. good_cand amt devs rm c"
  shows "(\<forall>c\<in>set (best_cands amt mm rm devs k n best). good_cand amt devs rm c) \<and>
    (best_cands amt mm rm devs k n best = [] \<longrightarrow> k = 0 \<and> best = [])"
  using assms
proof (induction k arbitrary: n best)
  case (Suc k)
  let ?W = "take n devs" let ?c = "allocate_across_devices amt ?W rm"
  let ?al = "sum_list (map (\<lambda>(d, cur). amt d - cur) ?W)"
  let ?arr = "mk_cand amt mm ?c # window_cands amt mm rm devs n (measure_evenness ?c) (length devs - n) 1 ?al"
  let ?best = "best @ [last (sort_key (\<lambda>(al, e, n, fr). n) ?arr)]"
  have al: "?al = sum_list (map (dev_free amt) ?W)"
    by (intro arg_cong[of _ _ sum_list] map_cong refl) (auto simp: dev_free_def)
  have W: "window_ok amt ?W" "?W \<noteq> []" using window_ok_take[OF Suc.prems(1)] Suc.prems(4,5) by auto
  have "exact_split amt devs rm ?c"
    using allocate_across_devices_split[OF W Suc.prems(2,3,6)]
    by (rule exact_split_mono) (auto dest: in_set_takeD)
  moreover have "good_cand amt devs rm x"
    if "x \<in> set (window_cands amt mm rm devs n (measure_evenness ?c) (length devs - n) 1 ?al)" for x
    using window_cands_good[OF Suc.prems(1-4) _ _ _ that] Suc.prems(5) al by simp
  ultimately have "\<forall>x\<in>set ?arr. good_cand amt devs rm x" by auto
  then have "good_cand amt devs rm (last (sort_key (\<lambda>(al, e, n, fr). n) ?arr))"
    using in_sort_key_last[of ?arr] by blast
  with Suc.prems(7) have b: "\<forall>c\<in>set ?best. good_cand amt devs rm c" by auto
  have "set (take n devs) \<subseteq> set devs" by (rule set_take_subset)
  have "0 \<le> dev_free amt p" if "p \<in> set devs" for p using Suc.prems(1) that by (auto simp: window_ok_def)
  then have "0 \<le> sum_list (map (dev_free amt) (take 1 (drop n devs)))"
    by (intro sum_list_nonneg) (auto dest!: in_set_takeD in_set_dropD)
  then have "sum_list (map (dev_free amt) (take n devs)) \<le> sum_list (map (dev_free amt) (take (n + 1) devs))"
    unfolding take_add map_append sum_list_append by linarith
  then have nxt: "rm \<le> sum_list (map (dev_free amt) (take (n + 1) devs))" using Suc.prems(6) by simp
  have "k = 0 \<or> n + 1 + k = Suc (length devs)" using Suc.prems(5) by auto
  note IH = Suc.IH[OF Suc.prems(1-3) _ this nxt b]
  show ?case
  proof (cases "quantize (measure_evenness ?c) digits = digits")
    case True
    then have "best_cands amt mm rm devs (Suc k) n best = [last ?best]" by (simp add: Let_def)
    moreover have "good_cand amt devs rm (last ?best)" using b by (metis last_in_set snoc_eq_iff_butlast)
    ultimately show ?thesis by simp
  next
    case False
    then have "best_cands amt mm rm devs (Suc k) n best = best_cands amt mm rm devs k (n + 1) ?best"
      by (simp add: Let_def)
    with IH show ?thesis by simp
  qed
qed simp

lemma min_devices_props:
  "n \<le> min_devices amt rm devs n acc \<and> min_devices amt rm devs n acc \<le> n + length devs \<and>
   (devs \<noteq> [] \<longrightarrow> n < min_devices amt rm devs n acc) \<and>
   (window_ok amt devs \<longrightarrow> multiple_of digits rm \<longrightarrow> multiple_of digits acc \<longrightarrow>
    rm \<le> acc + sum_list (map (dev_free amt) devs) \<longrightarrow>
    rm \<le> acc + sum_list (map (dev_free amt) (take (min_devices amt rm devs n acc - n) devs)))"
proof (induction devs arbitrary: n acc)
  case (Cons p devs)
  obtain d cur where p: "p = (d, cur)" by (cases p)
  have f: "dev_free amt p = amt d - cur" using p by (simp add: dev_free_def)
  let ?acc = "acc + (amt d - cur)"
  show ?case
  proof (cases "quantize ?acc digits \<ge> quantize rm digits")
    case True
    then have m: "min_devices amt rm (p # devs) n acc = n + 1" using p by simp
    have "rm \<le> ?acc" if "window_ok amt (p # devs)" "multiple_of digits rm" "multiple_of digits acc"
    proof -
      have "multiple_of digits ?acc" using that f by (auto simp: window_ok_def)
      with True that show ?thesis by simp
    qed
    then show ?thesis using f unfolding m by simp
  next
    case False
    then have m: "min_devices amt rm (p # devs) n acc = min_devices amt rm devs (n + 1) ?acc" using p by simp
    note IH = Cons[of "n + 1" ?acc]
    have w: "window_ok amt (p # devs) \<Longrightarrow> window_ok amt devs \<and> multiple_of digits (amt d - cur)"
      using f by (auto simp: window_ok_def)
    have tk: "take (min_devices amt rm devs (n + 1) ?acc - n) (p # devs) =
        p # take (min_devices amt rm devs (n + 1) ?acc - (n + 1)) devs"
    proof -
      have "min_devices amt rm devs (n + 1) ?acc - n = Suc (min_devices amt rm devs (n + 1) ?acc - (n + 1))"
        using conjunct1[OF IH] by simp
      then show ?thesis by (simp only: take_Suc_Cons)
    qed
    have "rm \<le> acc + sum_list (map (dev_free amt) (p # take (min_devices amt rm devs (n + 1) ?acc - (n + 1)) devs))"
      if h: "window_ok amt (p # devs)" "multiple_of digits rm" "multiple_of digits acc"
        "rm \<le> acc + sum_list (map (dev_free amt) (p # devs))"
    proof -
      have "multiple_of digits ?acc" using w h by blast
      moreover have "rm \<le> ?acc + sum_list (map (dev_free amt) devs)" using h(4) f by simp
      ultimately show ?thesis using IH w h(1,2) f by simp
    qed
    then show ?thesis unfolding m tk using IH by auto
  qed
qed simp

lemma window_ok_filter: "window_ok amt devs \<Longrightarrow> window_ok amt (filter P devs)"
  by (auto simp: window_ok_def distinct_map_filter sorted_wrt_filter)

lemma evenly_slot_split:
  assumes ok: "window_ok amt devs0" and rm: "0 < rm" "multiple_of digits rm"
  shows "evenly_slot amt mm rm devs0 = Inl InsufficientResource \<or>
    (\<exists>per. evenly_slot amt mm rm devs0 = Inr per \<and> exact_split amt devs0 rm per)"
proof -
  let ?devs = "filter (\<lambda>(d, cur). amt d - cur \<ge> mm) devs0"
  let ?total = "sum_list (map (\<lambda>(d, cur). amt d - cur) ?devs)"
  have W: "window_ok amt ?devs" using ok by (rule window_ok_filter)
  have tot: "?total = sum_list (map (dev_free amt) ?devs)"
    by (intro arg_cong[of _ _ sum_list] map_cong refl) (auto simp: dev_free_def)
  have sub: "set ?devs \<subseteq> set devs0" by auto
  show ?thesis
  proof (cases "quantize ?total digits < quantize rm digits")
    case True
    then show ?thesis by (simp add: evenly_slot_def Let_def)
  next
    case False
    then have le: "rm \<le> ?total" using window_sum_multiple[OF W] rm(2) tot by simp
    then have "?devs \<noteq> []" using rm(1) by auto
    then obtain d0 cur0 rest where dv: "?devs = (d0, cur0) # rest" by (metis neq_Nil_conv prod.exhaust)
    show ?thesis
    proof (cases "rm \<le> amt d0 - cur0")
      case True
      have "find (\<lambda>(d, cur). rm \<le> amt d - cur) (rev ?devs) \<noteq> None"
        using True dv by (auto simp: find_None_iff)
      then obtain d cur where f: "find (\<lambda>(d, cur). rm \<le> amt d - cur) (rev ?devs) = Some (d, cur)" by auto
      then have m: "(d, cur) \<in> set ?devs" "rm \<le> amt d - cur"
        by (auto dest!: find_SomeD)
      have ev: "evenly_slot amt mm rm devs0 = Inr [(d, rm)]"
        using False True f dv rm(2) by (simp add: evenly_slot_def Let_def)
      have "exact_split amt devs0 rm [(d, rm)]"
        using m sub rm by (force simp: exact_split_def dev_free_def)
      with ev show ?thesis by blast
    next
      case big: False
      let ?n = "min_devices amt rm ?devs 0 0"
      let ?best = "best_cands amt mm rm ?devs (length ?devs + 1 - ?n) ?n []"
      note mp = min_devices_props[of 0 amt rm ?devs 0]
      have n: "0 < ?n" "?n \<le> length ?devs" "rm \<le> sum_list (map (dev_free amt) (take ?n ?devs))"
        using mp \<open>?devs \<noteq> []\<close> W rm(2) le tot by auto
      have "(\<forall>c\<in>set ?best. good_cand amt ?devs rm c) \<and> ?best \<noteq> []"
        using best_cands_good[OF W rm n(1) _ n(3), of "length ?devs + 1 - ?n" "[]" mm] n(2) by auto
      then have b: "\<forall>c\<in>set ?best. good_cand amt ?devs rm c" "?best \<noteq> []" by auto
      let ?c = "last (sort_key (\<lambda>(al, e, n, fr). (e, n, fr)) ?best)"
      have "good_cand amt ?devs rm ?c" using in_sort_key_last[OF b(2)] b(1) by blast
      then have "exact_split amt devs0 rm (fst ?c)"
        unfolding good_cand_def using sub by (rule exact_split_mono)
      moreover have "evenly_slot amt mm rm devs0 = Inr (fst ?c)"
      proof -
        obtain c cs where bc: "?best = c # cs" using b(2) by (cases ?best) auto
        show ?thesis
          unfolding evenly_slot_def Let_def dv list.case prod.case bc[unfolded dv]
          using False[unfolded dv] big by (simp only: if_False)
      qed
      ultimately show ?thesis by blast
    qed
  qed
qed

section \<open>Both strategies meet the contract of a slot allocator\<close>

lemma fill_grants_multiple:
  "multiple_of q rm \<Longrightarrow> \<forall>it\<in>set its. multiple_of q (item_free it) \<Longrightarrow>
     \<forall>v\<in>set (values (fill_grants stop its rm)). multiple_of q v"
proof (induction its arbitrary: rm)
  case (Cons it its)
  have "multiple_of q (min rm (item_free it))" "multiple_of q (rm - min rm (item_free it))"
    using Cons.prems by (auto simp: min_def)
  with Cons show ?case by auto
qed simp

lemma item_free_multiple:
  assumes "alloc_inv m" and "multiple_map q m" and "slot_items (touched m s) s = Inr its"
  shows "\<forall>it\<in>set its. multiple_of q (item_free it)"
proof
  fix it assume "it \<in> set its"
  moreover obtain d info cur where "it = (d, info, cur)" by (cases it)
  ultimately show "multiple_of q (item_free it)"
    using slot_items_props(2)[OF alloc_inv_touched[OF assms(1)] assms(3), of d info cur]
      assms(2) multiple_map_alloc_of[OF assms(2), of s d]
    by (auto simp: item_free_def multiple_map_def dest!: map_of_SomeD)
qed

lemma fraction_fill_step:
  assumes inv: "alloc_inv m" and a: "0 < a"
  shows "(\<exists>e. fraction_fill m s a = Some (Inl e, touched m s)) \<or>
    (\<exists>per. fraction_fill m s a = Some (Inr per, add_grant m s per) \<and> grant_step m s a per per \<and>
       (\<forall>q. multiple_map q m \<longrightarrow> multiple_of q a \<longrightarrow> multiple_map q (add_grant m s per)))"
proof -
  obtain its where items: "slot_items (touched m s) s = Inr its"
    using slot_items_ok[OF alloc_inv_touched[OF inv]] by blast
  note it = slot_items_props(2)[OF alloc_inv_touched[OF inv] items, unfolded touched_simps]
  let ?devs = "sorted_desc item_free its"
  have named: "\<not> list_ex (\<lambda>(d, info, _). dsi_slot_name info \<noteq> s) ?devs"
    using it by (auto simp: list_ex_iff)
  consider (unique) "dget_or (am_slot_types m) s COUNT = UNIQUE \<and> a \<noteq> 1"
    | (less) "\<not> (dget_or (am_slot_types m) s COUNT = UNIQUE \<and> a \<noteq> 1)" "sum_list (map item_free ?devs) < a"
    | (fill) "\<not> (dget_or (am_slot_types m) s COUNT = UNIQUE \<and> a \<noteq> 1)" "a \<le> sum_list (map item_free its)"
    using sum_list_sorted_desc[of item_free item_free its] by fastforce
  then show ?thesis
  proof cases
    case unique
    with items named show ?thesis by (simp add: fraction_fill_def Let_def)
  next
    case less
    with items named show ?thesis by (simp add: fraction_fill_def Let_def)
  next
    case fill
    let ?per = "fill_grants (\<lambda>r. r \<le> 0) ?devs a"
    have "(r \<le> 0) = (r = 0)" if "0 \<le> r" for r :: rat using that by auto
    note st = fill_grant_step[OF inv items a fill(2) this refl]
    have "fraction_fill m s a = Some (Inr ?per, add_grant m s ?per)"
      using items named fill st(2) by (auto simp: fraction_fill_def Let_def sum_list_sorted_desc)
    moreover have "multiple_map q (add_grant m s ?per)" if "multiple_map q m" "multiple_of q a" for q
      using fill_grants_multiple[of q a ?devs] item_free_multiple[OF inv that(1) items] that
      by (intro multiple_add_dev_allocs multiple_touched) auto
    ultimately show ?thesis using st(1) by blast
  qed
qed

interpretation ffill_alloc: slot_granter fraction_fill "\<lambda>_. True" "\<lambda>_. True"
  by unfold_locales (use fraction_fill_step in blast)

interpretation ffill_exact: slot_granter fraction_fill "multiple_map q" "multiple_of q" for q
  by unfold_locales (use fraction_fill_step multiple_touched in blast)

lemma sorted_desc_window:
  assumes inv: "alloc_inv m" and wm: "multiple_map digits m" and items: "slot_items (touched m s) s = Inr its"
    and amt: "amt = (\<lambda>d. case map_of (device_slots m) d of Some info \<Rightarrow> dsi_amount info | None \<Rightarrow> 0)"
  shows "window_ok amt (map (\<lambda>(d, info, cur). (d, cur)) (sorted_desc item_free its))"
proof -
  let ?h = "\<lambda>(d, info, cur). (d, cur)" let ?devs = "sorted_desc item_free its"
  note it = slot_items_props(2)[OF alloc_inv_touched[OF inv] items, unfolded touched_simps]
  have fr: "dev_free amt (?h x) = item_free x \<and> 0 \<le> item_free x" if "x \<in> set its" for x
    using it that by (cases x) (force simp: amt dev_free_def item_free_def)
  have "map fst (map ?h ?devs) = map fst ?devs" by (simp add: comp_def case_prod_beta)
  then have "distinct (map fst (map ?h ?devs))"
    using distinct_sorted_desc[OF slot_items_props(1)[OF alloc_inv_touched[OF inv] items], of item_free]
    by (simp only:)
  moreover have "sorted_wrt (\<lambda>p q. dev_free amt q \<le> dev_free amt p) (map ?h ?devs)"
    unfolding sorted_wrt_map
    by (rule sorted_wrt_mono_rel[OF _ sorted_desc_sorted[of item_free its]]) (simp add: fr)
  moreover have "\<forall>p\<in>set (map ?h ?devs). 0 \<le> dev_free amt p \<and> multiple_of digits (dev_free amt p)"
    using fr item_free_multiple[OF inv wm items] by (auto simp del: split_paired_All)
  ultimately show ?thesis unfolding window_ok_def by blast
qed

lemma fraction_evenly_step:
  assumes inv: "alloc_inv m" and wm: "multiple_map digits m" and a: "0 < a" "multiple_of digits a"
  shows "(\<exists>e. fraction_evenly mm m s a = Some (Inl e, touched m s)) \<or>
    (\<exists>per. fraction_evenly mm m s a = Some (Inr per, add_grant m s per) \<and> grant_step m s a per per \<and>
       multiple_map digits (add_grant m s per))"
proof -
  obtain its where items: "slot_items (touched m s) s = Inr its"
    using slot_items_ok[OF alloc_inv_touched[OF inv]] by blast
  note it = slot_items_props(2)[OF alloc_inv_touched[OF inv] items, unfolded touched_simps]
  define amt where "amt = (\<lambda>d. case map_of (device_slots m) d of Some info \<Rightarrow> dsi_amount info | None \<Rightarrow> 0)"
  let ?devs = "map (\<lambda>(d, info, cur). (d, cur)) (sorted_desc item_free its)"
  consider "evenly_slot amt (quantize mm digits) a ?devs = Inl InsufficientResource"
    | per where "evenly_slot amt (quantize mm digits) a ?devs = Inr per" "exact_split amt ?devs a per"
    using evenly_slot_split[OF sorted_desc_window[OF inv wm items amt_def] a] by blast
  then show ?thesis
  proof cases
    case 1
    with items show ?thesis by (simp add: fraction_evenly_def amt_def Let_def)
  next
    case (2 per)
    have ev: "fraction_evenly mm m s a = Some (Inr per, add_grant m s per)"
      using items 2(1) by (simp add: fraction_evenly_def amt_def Let_def)
    have dv: "(\<exists>info. map_of (device_slots m) d = Some info \<and> dsi_slot_name info = s \<and>
        alloc_of (allocations m) s d + v \<le> dsi_amount info) \<and> 0 \<le> v \<and> multiple_of digits v"
      if "(d, v) \<in> set per" for d v
    proof -
      from 2(2) that obtain p where p: "p \<in> set ?devs" "fst p = d" "0 \<le> v" "v \<le> dev_free amt p"
        "multiple_of digits v" unfolding exact_split_def by blast
      then obtain info cur where x: "(d, info, cur) \<in> set its" "p = (d, cur)" by auto
      with p it[OF x(1)] show ?thesis by (auto simp: dev_free_def amt_def)
    qed
    then have "grant_step m s a per per"
      using 2(2) by (fastforce simp: grant_step_def fits_def exact_split_def)
    moreover have "multiple_map digits (add_grant m s per)"
      using dv by (intro multiple_add_dev_allocs multiple_touched wm) auto
    ultimately show ?thesis using ev by blast
  qed
qed

interpretation feven_alloc: slot_granter "fraction_evenly mm" "multiple_map digits" "multiple_of digits" for mm
  by unfold_locales (use fraction_evenly_step multiple_touched in blast)


section \<open>The rounding phase\<close>

lemma alloc_of_round_devs:
  "wf_dict per \<Longrightarrow> alloc_of (round_devs q s per al) s' d =
     (if s' = s \<and> d \<in> set (keys per) then round_down (alloc_of al s d) q else alloc_of al s' d)"
proof (induction per arbitrary: al)
  case (Cons p per)
  obtain d0 v where p: "p = (d0, v)" by (cases p)
  have "d0 \<notin> set (keys per)" using Cons.prems p by simp
  with Cons.IH[of "set_alloc al s d0 (round_down (alloc_of al s d0) q)"] Cons.prems p show ?case
    by (auto simp: round_devs_def)
qed (simp add: round_devs_def)

lemma alloc_inv_le_amount:
  assumes "alloc_inv m" and "map_of (device_slots m) d = Some info" and "0 \<le> dsi_amount info"
  shows "alloc_of (allocations m) s d \<le> dsi_amount info"
proof (cases "map_of (dget_or (allocations m) s []) d")
  case (Some v)
  with assms(1,2) show ?thesis unfolding alloc_of_Some[OF Some] alloc_inv_alt by fastforce
qed (simp add: assms(3) alloc_of_def dget_or_def)

lemma alloc_inv_round_devs:
  assumes "0 < q"
  shows "alloc_inv m \<Longrightarrow> known_devs m s per \<Longrightarrow> alloc_inv (m\<lparr>allocations := round_devs q s per (allocations m)\<rparr>)"
proof (induction per arbitrary: m)
  case (Cons p per)
  obtain d v where p: "p = (d, v)" by (cases p)
  let ?cur = "alloc_of (allocations m) s d"
  let ?m = "m\<lparr>allocations := set_alloc (allocations m) s d (round_down ?cur q)\<rparr>"
  obtain info where info: "map_of (device_slots m) d = Some info" "dsi_slot_name info = s" "0 \<le> dsi_amount info"
    using Cons.prems(2) p by (auto simp: known_devs_def)
  have "0 \<le> round_down ?cur q" "round_down ?cur q \<le> ?cur"
    using round_down_bounds[OF assms, of ?cur] alloc_of_nonneg[OF Cons.prems(1)] by auto
  then have "alloc_inv ?m"
    using Cons.prems(1) info alloc_inv_le_amount[OF Cons.prems(1) info(1,3), of s]
    by (intro alloc_inv_set_alloc) auto
  moreover have "known_devs ?m s per" using Cons.prems(2) p by (simp add: known_devs_def)
  ultimately show ?case using Cons.IH[of ?m] p by (simp add: round_devs_def)
qed (simp add: round_devs_def)

text \<open>What the rounding returns for a slot, and what it leaves in the map.\<close>

abbreviation rounded :: "rat \<Rightarrow> slot_alloc \<Rightarrow> slot_alloc" where
  "rounded q g \<equiv> map (\<lambda>(s, per). (s, map (\<lambda>(d, v). (d, round_down v q)) per)) g"

lemma round_slots_ConsE:
  assumes "round_slots q ((s, per) # g) al = (Inr g', al')"
  obtains rest where "g' = (s, map (\<lambda>(d, v). (d, round_down v q)) per) # rest"
    "sum_list (values (map (\<lambda>(d, v). (d, round_down v q)) per)) \<noteq> 0"
    "round_slots q g (round_devs q s per al) = (Inr rest, al')"
  using assms by (auto simp: Let_def bindE_eq_Inr_iff simp del: map_map split: if_splits prod.splits)

lemma round_slots_Inr: "round_slots q g al = (Inr g', al') \<Longrightarrow>
    g' = rounded q g \<and> (\<forall>(s, per)\<in>set g'. sum_list (values per) \<noteq> 0)"
proof (induction g arbitrary: al g')
  case (Cons p g)
  obtain s per where p: "p = (s, per)" by (cases p)
  from Cons.prems[unfolded p] show ?case
  proof (cases rule: round_slots_ConsE)
    case (1 rest)
    with Cons.IH[OF 1(3)] p show ?thesis by (simp del: map_map)
  qed
qed simp

lemma round_slots_inv:
  assumes "0 < q"
  shows "alloc_inv m \<Longrightarrow> \<forall>(s, per)\<in>set g. known_devs m s per \<Longrightarrow>
    alloc_inv (m\<lparr>allocations := snd (round_slots q g (allocations m))\<rparr>)"
proof (induction g arbitrary: m)
  case (Cons p g)
  obtain s per where p: "p = (s, per)" by (cases p)
  let ?m = "m\<lparr>allocations := round_devs q s per (allocations m)\<rparr>"
  have "alloc_inv ?m" using alloc_inv_round_devs[OF assms] Cons.prems p by auto
  moreover from this have "alloc_inv (?m\<lparr>allocations := snd (round_slots q g (allocations ?m))\<rparr>)"
    using Cons.prems(2) p by (intro Cons.IH) (auto simp: known_devs_def)
  ultimately show ?case using p by (simp add: Let_def case_prod_beta)
qed simp

lemma round_slots_alloc:
  "wf_alloc g \<Longrightarrow> round_slots q g al = (Inr g', al') \<Longrightarrow>
    alloc_of al' s d = (if d \<in> set (keys (dget_or g s [])) then round_down (alloc_of al s d) q else alloc_of al s d)"
proof (induction g arbitrary: al g')
  case (Cons p g)
  obtain s0 per where p: "p = (s0, per)" by (cases p)
  have wf: "wf_dict per" "wf_alloc g" "s0 \<notin> set (keys g)" using Cons.prems(1) p by (auto simp: wf_alloc_def)
  have n: "dget_or g s0 [] = []" using wf(3) by (rule dget_or_notin)
  from Cons.prems(2)[unfolded p] show ?case
  proof (cases rule: round_slots_ConsE)
    case (1 rest)
    from Cons.IH[OF wf(2) 1(3)] alloc_of_round_devs[OF wf(1), of q s0 al s d] n p show ?thesis
      by (auto simp: dget_or_Cons)
  qed
qed simp

text \<open>A map whose allocations are multiples of the quantum.\<close>

definition mult_allocs :: "rat \<Rightarrow> alloc_map \<Rightarrow> bool" where
  "mult_allocs q m \<longleftrightarrow> (\<forall>s d. multiple_of q (alloc_of (allocations m) s d))"

lemma dget_or_rounded: "dget_or (rounded q g) s [] = map (\<lambda>(d, v). (d, round_down v q)) (dget_or g s [])"
  by (induction g) (auto simp: dget_or_Cons)

lemma dget_or_map_round:
  "0 < q \<Longrightarrow> dget_or (map (\<lambda>(d, v). (d, round_down v q)) per) d 0 = round_down (dget_or per d 0) q"
  by (induction per) (auto simp: dget_or_Cons round_down_floor)

lemma alloc_of_rounded: "0 < q \<Longrightarrow> alloc_of (rounded q g) s d = round_down (alloc_of g s d) q"
  by (simp add: alloc_of_def dget_or_rounded dget_or_map_round)

lemma sum_round_le:
  assumes "0 < q" and "\<forall>v\<in>set (values per). 0 \<le> v"
  shows "sum_list (values (map (\<lambda>(d, v). (d, round_down v q)) per)) \<le> sum_list (values per)"
    and "0 \<le> sum_list (values (map (\<lambda>(d, v). (d, round_down v q)) per))"
proof -
  have "sum_list (values (map (\<lambda>(d, v). (d, round_down v q)) per)) \<le> sum_list (values per) \<and>
    0 \<le> sum_list (values (map (\<lambda>(d, v). (d, round_down v q)) per))"
    using assms(2)
  proof (induction per)
    case (Cons p per)
    then show ?case using round_down_bounds[OF assms(1), of "snd p"]
      by (cases p) (simp add: add_mono del: map_map)
  qed simp
  then show "sum_list (values (map (\<lambda>(d, v). (d, round_down v q)) per)) \<le> sum_list (values per)"
    and "0 \<le> sum_list (values (map (\<lambda>(d, v). (d, round_down v q)) per))" by auto
qed

context slot_alloc_contract
begin

text \<open>Allocating the slots and then rounding them, on a map whose allocations are rounded.\<close>

lemma slots_round:
  assumes pre: "alloc_inv m" "okm m" "\<forall>(s, a)\<in>set req. 0 < a \<and> okr a" "wf_dict req"
    and q: "0 < q" "mult_allocs q m" and g: "allocate_slots f m req = Some (Inr g, m1)"
    and r: "round_slots q g (allocations m1) = (r, al)"
  shows "alloc_inv (m1\<lparr>allocations := al\<rparr>) \<and> same_config m (m1\<lparr>allocations := al\<rparr>)"
    and "r = Inr g' \<Longrightarrow> (\<forall>(s, a)\<in>set req. 0 < sum_list (values (dget_or g' s [])) \<and> sum_list (values (dget_or g' s [])) \<le> a) \<and>
      (\<forall>s d. alloc_of al s d = alloc_of (allocations m) s d + alloc_of g' s d) \<and> mult_allocs q (m1\<lparr>allocations := al\<rparr>)"
proof -
  note k = slots_keep[OF pre(1-3) g] and gr = slots_grant[OF pre g]
  have "\<forall>(s, per)\<in>set g. known_devs m1 s per" using gr known_devs_config[of m m1] k by auto
  then show "alloc_inv (m1\<lparr>allocations := al\<rparr>) \<and> same_config m (m1\<lparr>allocations := al\<rparr>)"
    using round_slots_inv[OF q(1), of m1 g] k r same_config_trans[of m m1] by auto
  assume "r = Inr g'"
  with r have r': "round_slots q g (allocations m1) = (Inr g', al)" by simp
  note rr = round_slots_Inr[OF r']
  have sums: "0 < sum_list (values (dget_or g' s [])) \<and> sum_list (values (dget_or g' s [])) \<le> a"
    if "(s, a) \<in> set req" for s a
  proof -
    have "s \<in> set (keys req)" using that by (metis fst_conv image_eqI list.set_map)
    then have "s \<in> set (keys g)" using conjunct1[OF gr] by simp
    then obtain per where m: "(s, per) \<in> set g" by auto
    moreover have "wf_dict g" using gr unfolding wf_alloc_def by blast
    ultimately have per: "(s, per) \<in> set g" "dget_or g s [] = per" by (auto intro: dget_or_in)
    let ?rp = "map (\<lambda>(d, v). (d, round_down v q)) per"
    have "(s, ?rp) \<in> set g'" using rr per(1) by force
    then have "sum_list (values ?rp) \<noteq> 0" using rr by blast
    moreover have "\<forall>v\<in>set (values per). 0 \<le> v" using gr per(1) by blast
    moreover have "sum_list (values per) = a"
      using bspec[OF conjunct1[OF conjunct2[OF conjunct2[OF conjunct2[OF gr]]]] that] per(2) by simp
    ultimately show ?thesis
      using sum_round_le[OF q(1), of per] per(2) rr dget_or_rounded[of q g s] by (simp del: map_map)
  qed
  have alloc: "alloc_of al s d = alloc_of (allocations m) s d + alloc_of g' s d" for s d
  proof -
    have "alloc_of g s d = 0" if "d \<notin> set (keys (dget_or g s []))"
      using that by (simp add: alloc_of_def dget_or_notin)
    moreover have "alloc_of (allocations m1) s d = alloc_of (allocations m) s d + alloc_of g s d" using gr by blast
    moreover have "wf_alloc g" using gr by blast
    ultimately show ?thesis
      using round_slots_alloc[OF _ r', of s d] q(2) rr round_down_id[OF q(1), of 0]
      by (auto simp: alloc_of_rounded[OF q(1)] mult_allocs_def round_down_add_multiple[OF q(1)])
  qed
  have "mult_allocs q (m1\<lparr>allocations := al\<rparr>)"
    using alloc q rr by (auto simp: mult_allocs_def alloc_of_rounded[OF q(1)])
  with sums alloc show "(\<forall>(s, a)\<in>set req. 0 < sum_list (values (dget_or g' s [])) \<and> sum_list (values (dget_or g' s [])) \<le> a) \<and>
      (\<forall>s d. alloc_of al s d = alloc_of (allocations m) s d + alloc_of g' s d) \<and> mult_allocs q (m1\<lparr>allocations := al\<rparr>)"
    by auto
qed

end

section \<open>Properties of the fraction map\<close>

lemma fraction_allocate_eq:
  "fraction_allocate st q mm m slots =
    (let req = filter (\<lambda>(s, v). v > 0) slots; f = (case st of FILL \<Rightarrow> fraction_fill | EVENLY \<Rightarrow> fraction_evenly mm)
     in if exclusive_conflict m req then Some (Inl InvalidResourceCombination, m)
        else case allocate_slots f m req of
          None \<Rightarrow> None
        | Some (Inl e, m') \<Rightarrow> Some (Inl e, m')
        | Some (Inr g, m') \<Rightarrow> Some (fst (round_slots q g (allocations m')),
            m'\<lparr>allocations := snd (round_slots q g (allocations m'))\<rparr>))"
  by (auto simp: fraction_allocate_def Let_def case_prod_beta split: sum.splits option.splits bind_splits)

text \<open>The guarantee of one call, given the contract of the strategy's slot allocator.\<close>

definition round_guarantee :: "rat \<Rightarrow> alloc_map \<Rightarrow> (string, rat) dict \<Rightarrow> slot_alloc res \<Rightarrow> alloc_map \<Rightarrow> bool" where
  "round_guarantee q m slots r m' \<longleftrightarrow> alloc_inv m' \<and> same_config m m' \<and>
    (\<forall>g. r = Inr g \<longrightarrow>
       (\<forall>(s, a)\<in>set slots. 0 < a \<longrightarrow> 0 < sum_list (values (dget_or g s [])) \<and> sum_list (values (dget_or g s [])) \<le> a) \<and>
       (\<forall>s d. alloc_of (allocations m') s d = alloc_of (allocations m) s d + alloc_of g s d) \<and>
       mult_allocs q m')"

lemma round_slots_multiples:
  assumes "0 < q"
  shows "\<forall>(s, per)\<in>set g. 0 < sum_list (values per) \<and> (\<forall>v\<in>set (values per). multiple_of q v) \<Longrightarrow>
    fst (round_slots q g al) = Inr g"
proof (induction g arbitrary: al)
  case (Cons p g)
  obtain s per where p: "p = (s, per)" by (cases p)
  have "map (\<lambda>(d, v). (d, round_down v q)) per = per"
    using Cons.prems p by (intro map_idI) (auto simp: round_down_id[OF assms])
  with Cons p show ?case by (auto simp: Let_def case_prod_beta)
qed simp

context slot_alloc_contract
begin

lemma fraction_allocates:
  assumes "f = (case st of FILL \<Rightarrow> fraction_fill | EVENLY \<Rightarrow> fraction_evenly mm)"
    and "alloc_inv m" and "okm m" and "wf_dict slots" and "\<forall>(s, a)\<in>set slots. 0 < a \<longrightarrow> okr a"
    and "0 < q" and "mult_allocs q m"
  shows "\<exists>r m'. fraction_allocate st q mm m slots = Some (r, m') \<and> round_guarantee q m slots r m'"
proof -
  let ?req = "filter (\<lambda>(s, v). v > 0) slots"
  have req: "\<forall>(s, a)\<in>set ?req. 0 < a \<and> okr a" "wf_dict ?req" using assms(4,5) by (auto simp: wf_filter)
  obtain r m1 where r: "allocate_slots f m ?req = Some (r, m1)" using slots_return[OF assms(2,3) req(1)] by auto
  note k = slots_keep[OF assms(2,3) req(1) r]
  show ?thesis
  proof (cases "exclusive_conflict m ?req")
    case True
    with assms(2) show ?thesis by (simp add: fraction_allocate_eq round_guarantee_def)
  next
    case F: False
    show ?thesis
    proof (cases r)
      case (Inl e)
      with F r k assms(1) show ?thesis by (simp add: fraction_allocate_eq round_guarantee_def)
    next
      case (Inr g)
      obtain r' al where ra: "round_slots q g (allocations m1) = (r', al)" by (cases "round_slots q g (allocations m1)")
      note sr = slots_round[OF assms(2,3) req assms(6,7) r[unfolded Inr] ra]
      have "fraction_allocate st q mm m slots = Some (r', m1\<lparr>allocations := al\<rparr>)"
        using F r Inr ra assms(1) by (simp add: fraction_allocate_eq)
      moreover have "round_guarantee q m slots r' (m1\<lparr>allocations := al\<rparr>)"
        unfolding round_guarantee_def using sr by fastforce
      ultimately show ?thesis by blast
    qed
  qed
qed


lemma fraction_exact:
  assumes "f = (case st of FILL \<Rightarrow> fraction_fill | EVENLY \<Rightarrow> fraction_evenly mm)"
    and "alloc_inv m" and "okm m" and "wf_dict slots" and "\<forall>(s, a)\<in>set slots. 0 < a \<longrightarrow> okr a"
    and "0 < q" and okm: "\<And>m. okm m \<Longrightarrow> multiple_map q m"
    and "fraction_allocate st q mm m slots = Some (r, m')"
  shows "r = Inr g \<Longrightarrow> (s, a) \<in> set slots \<Longrightarrow> 0 < a \<Longrightarrow> sum_list (values (dget_or g s [])) = a"
proof -
  let ?req = "filter (\<lambda>(s, v). v > 0) slots"
  have req: "\<forall>(s, a)\<in>set ?req. 0 < a \<and> okr a" "wf_dict ?req" using assms(4,5) by (auto simp: wf_filter)
  have main: "(\<exists>e. r = Inl e) \<or>
      (\<exists>g. r = Inr g \<and> (\<forall>(s, a)\<in>set ?req. sum_list (values (dget_or g s [])) = a))"
  proof (cases "exclusive_conflict m ?req")
    case True
    with assms(8) show ?thesis by (auto simp: fraction_allocate_eq)
  next
    case F: False
    obtain r1 m1 where r1: "allocate_slots f m ?req = Some (r1, m1)" using slots_return[OF assms(2,3) req(1)] by auto
    show ?thesis
    proof (cases r1)
      case (Inl e)
      with F r1 assms(1,8) show ?thesis by (auto simp: fraction_allocate_eq)
    next
      case (Inr g)
      note gr = slots_grant[OF assms(2,3) req r1[unfolded Inr]]
      have mult: "multiple_of q (alloc_of g s d)" for s d
      proof -
        have "multiple_map q m1" using slots_keep[OF assms(2,3) req(1) r1] okm by blast
        then have "multiple_of q (alloc_of (allocations m1) s d - alloc_of (allocations m) s d)"
          using okm[OF assms(3)] by (intro multiple_of_diff multiple_map_alloc_of)
        moreover have "alloc_of (allocations m1) s d = alloc_of (allocations m) s d + alloc_of g s d" using gr by blast
        ultimately show ?thesis by simp
      qed
      have vals: "multiple_of q v" if "(s, per) \<in> set g" "(d, v) \<in> set per" for s per d v
      proof -
        have w: "wf_dict g" "wf_dict per" using gr that(1) unfolding wf_alloc_def by blast+
        have "alloc_of g s d = v"
          using dget_or_in[OF w(1) that(1)] dget_or_in[OF w(2) that(2)] by (simp add: alloc_of_def)
        with mult[of s d] show ?thesis by simp
      qed
      have "0 < sum_list (values per)" if "(s, per) \<in> set g" for s per
      proof -
        have "s \<in> set (keys g)" using that by (metis fst_conv image_eqI list.set_map)
        then obtain a where a: "(s, a) \<in> set ?req" using conjunct1[OF gr] by auto
        have "dget_or g s [] = per" using gr that unfolding wf_alloc_def by (intro dget_or_in) blast
        then show ?thesis
          using bspec[OF conjunct1[OF conjunct2[OF conjunct2[OF conjunct2[OF gr]]]] a] a by simp
      qed
      then have "fst (round_slots q g (allocations m1)) = Inr g"
        using vals by (intro round_slots_multiples[OF assms(6)]) auto
      then have "r = Inr g" using F r1 Inr assms(1,8) by (simp add: fraction_allocate_eq)
      with gr show ?thesis by blast
    qed
  qed
  show "sum_list (values (dget_or g s [])) = a" if "r = Inr g" "(s, a) \<in> set slots" "0 < a" 
  proof -
    have "\<forall>(s, a)\<in>set ?req. sum_list (values (dget_or g s [])) = a" using main that(1) by auto
    with that show ?thesis by auto
  qed
qed

end

text \<open>A GPU map with two devices, one of them in use by 0.3, for the witnesses.\<close>

definition gpu_map :: alloc_map where
  "gpu_map = \<lparr> device_slots = [(''0'', \<lparr>dsi_slot_type = COUNT, dsi_slot_name = ''cuda.shares'', dsi_amount = 1\<rparr>),
      (''1'', \<lparr>dsi_slot_type = COUNT, dsi_slot_name = ''cuda.shares'', dsi_amount = 1\<rparr>)],
     device_mask = {}, exclusive_slot_types = [], am_slot_types = [(''cuda.shares'', COUNT)],
     allocations = [(''cuda.shares'', [(''0'', 3 / 10), (''1'', 0)])] \<rparr>"

lemma gpu_map_inv: "alloc_inv gpu_map"
  by (simp add: alloc_inv_def gpu_map_def)

lemma multiple_hundredths: "multiple_of digits (of_int n / 100)"
  by (auto simp: multiple_of_def digits_def)

lemma gpu_map_multiple: "multiple_map digits gpu_map"
  using multiple_hundredths[of 100] multiple_hundredths[of 30]
  by (simp add: multiple_map_def gpu_map_def)

text \<open>
  C31: \<open>FractionAllocMap.allocate()\<close> on a well-formed map whose allocations are multiples of the
  quantum, with either strategy (EVENLY for devices and requests in hundredths, its supported
  precision): the call returns and the map stays well-formed.  When it succeeds, every requested
  slot is granted a positive amount that does not exceed the request, the map has grown by exactly
  the returned (rounded) amounts, and all its allocations are multiples of the quantum again.
\<close>
theorem fraction_allocate_rounds:
  assumes "alloc_inv m" and "wf_dict slots" and "0 < q" and "mult_allocs q m"
    and "st = EVENLY \<longrightarrow> multiple_map digits m \<and> (\<forall>(s, a)\<in>set slots. multiple_of digits a)"
  shows "\<exists>r m'. fraction_allocate st q mm m slots = Some (r, m') \<and> alloc_inv m' \<and> same_config m m' \<and>
    (\<forall>g. r = Inr g \<longrightarrow>
       (\<forall>(s, a)\<in>set slots. 0 < a \<longrightarrow>
          0 < sum_list (values (dget_or g s [])) \<and> sum_list (values (dget_or g s [])) \<le> a) \<and>
       (\<forall>s d. alloc_of (allocations m') s d = alloc_of (allocations m) s d + alloc_of g s d) \<and>
       mult_allocs q m')"
  unfolding round_guarantee_def[symmetric]
proof (cases st)
  case FILL
  then show "\<exists>r m'. fraction_allocate st q mm m slots = Some (r, m') \<and> round_guarantee q m slots r m'"
    using assms by (intro ffill_alloc.fraction_allocates) auto
next
  case EVENLY
  then show "\<exists>r m'. fraction_allocate st q mm m slots = Some (r, m') \<and> round_guarantee q m slots r m'"
    using assms by (intro feven_alloc.fraction_allocates) auto
qed

theorem fraction_allocate_rounds_witness:
  "\<exists>r m'. fraction_allocate EVENLY digits digits gpu_map [(''cuda.shares'', 3 / 2)] = Some (r, m') \<and> alloc_inv m' \<and>
    r = Inr [(''cuda.shares'', [(''0'', 7 / 10), (''1'', 8 / 10)])]"
proof -
  have "map_option fst (fraction_allocate EVENLY digits digits gpu_map [(''cuda.shares'', 3 / 2)]) =
      Some (Inr [(''cuda.shares'', [(''0'', 7 / 10), (''1'', 8 / 10)])])"
    by code_simp
  moreover have "multiple_of digits (3 / 2)" using multiple_hundredths[of 150] by simp
  moreover have "mult_allocs digits gpu_map"
    using multiple_map_alloc_of[OF gpu_map_multiple] by (simp add: mult_allocs_def)
  ultimately show ?thesis
    using fraction_allocate_rounds[OF gpu_map_inv, of "[(''cuda.shares'', 3 / 2)]" digits EVENLY digits]
      gpu_map_multiple by auto
qed

text \<open>
  When devices, allocations and requests are all multiples of the quantum, the rounding takes
  nothing away: a successful call grants exactly what was requested.  With EVENLY this is the
  default quantum, 0.01.
\<close>
theorem fraction_allocate_exact:
  assumes "alloc_inv m" and "wf_dict slots" and "0 < q" and "multiple_map q m"
    and "\<forall>(s, a)\<in>set slots. multiple_of q a" and "st = EVENLY \<longrightarrow> q = digits"
    and "fraction_allocate st q mm m slots = Some (Inr g, m')"
  shows "\<forall>(s, a)\<in>set slots. 0 < a \<longrightarrow> sum_list (values (dget_or g s [])) = a"
proof -
  have "sum_list (values (dget_or g s [])) = a" if "(s, a) \<in> set slots" "0 < a" for s a
  proof (cases st)
    case FILL
    then show ?thesis
      using ffill_exact.fraction_exact[OF _ assms(1,4,2) _ assms(3) _ assms(7) refl that] assms(5) by auto
  next
    case EVENLY
    then show ?thesis
      using feven_alloc.fraction_exact[OF _ assms(1) _ assms(2) _ assms(3) _ assms(7) refl that] assms(4-6) by auto
  qed
  then show ?thesis by auto
qed

theorem fraction_allocate_exact_witness:
  "\<exists>g m'. fraction_allocate FILL digits digits gpu_map [(''cuda.shares'', 3 / 2)] = Some (Inr g, m') \<and>
    sum_list (values (dget_or g ''cuda.shares'' [])) = 3 / 2"
proof -
  have "map_option fst (fraction_allocate FILL digits digits gpu_map [(''cuda.shares'', 3 / 2)]) =
      Some (Inr [(''cuda.shares'', [(''1'', 1), (''0'', 1 / 2)])])"
    by code_simp
  then obtain m' where "fraction_allocate FILL digits digits gpu_map [(''cuda.shares'', 3 / 2)] =
      Some (Inr [(''cuda.shares'', [(''1'', 1), (''0'', 1 / 2)])], m')" by auto
  moreover have "multiple_of digits (3 / 2)" using multiple_hundredths[of 150] by simp
  ultimately show ?thesis
    using fraction_allocate_exact[OF gpu_map_inv _ _ gpu_map_multiple, of "[(''cuda.shares'', 3 / 2)]" FILL digits] by auto
qed

lemma measure_evenness_le: "measure_evenness al \<le> 0"
  unfolding measure_evenness_def Let_def neg_le_0_iff_le by (rule sum_list_nonneg) auto

text \<open>
  The evenness of an allocation is never positive, so the test
  \<open>max_evenness.quantize(self.digits) == self.digits\<close>, meant to end the search early, never holds:
  the search always examines every number of devices.
\<close>
theorem evenness_exit_unreachable:
  "measure_evenness al \<le> 0 \<and> quantize (measure_evenness al) digits \<noteq> digits"
proof -
  let ?x = "measure_evenness al / digits"
  have "?x \<le> 0" using measure_evenness_le by (simp add: divide_nonpos_pos)
  then have "of_int (round_half_even ?x) < (1 :: rat)" using round_half_even_near[of ?x] by linarith
  then have "quantize (measure_evenness al) digits \<noteq> digits"
    by (auto simp: quantize_def)
  then show ?thesis using measure_evenness_le by blast
qed

end
