(* ===== verification/ResourceSlots.thy ===== *)
theory ResourceSlots
  imports Decimals "HOL-Library.List_Lexorder" "HOL-Library.Char_ord"
begin

text \<open>
  \<open>ResourceSlot\<close> of \<open>common/types.py\<close>: a dictionary from slot names to decimals.  Every binary
  operator first calls \<open>sync_keys\<close>, which writes a zero for each key that only the other operand
  has, into \<^emph>\<open>both\<close> operands.  The operators of the model therefore return the two operands as the
  call leaves them beside its result, and the callers of other theories thread them through.
  The sources iterate over set differences and unions, whose order Python does not fix; the model
  takes the insertion order of the operand the keys come from, and the characterisations below,
  all in terms of \<open>slot_val\<close>, show that no result depends on that choice.
\<close>

type_synonym slots = "(string, decimal) dict"

definition slot_val :: "slots \<Rightarrow> string \<Rightarrow> decimal" where
  "slot_val a k = dget_or a k 0"

definition zero_keys :: "slots \<Rightarrow> slots \<Rightarrow> slots" where
  "zero_keys a b = map (\<lambda>k. (k, 0)) (filter (\<lambda>k. k \<notin> set (keys a)) (keys b))"

definition sync_keys :: "slots \<Rightarrow> slots \<Rightarrow> slots \<times> slots" where
  "sync_keys a b = (a @ zero_keys a b, b @ zero_keys b a)"

text \<open>\<open>__add__\<close> and \<open>__sub__\<close>: result, left operand, right operand.\<close>

definition rs_add :: "slots \<Rightarrow> slots \<Rightarrow> (slots \<times> slots \<times> slots) res" where
  "rs_add a b =
     (let (a', b') = sync_keys a b
      in bindE (mapE (\<lambda>k. bindE (dec_add (slot_val a' k) (slot_val b' k)) (\<lambda>v. Inr (k, v))) (keys a'))
           (\<lambda>r. Inr (r, a', b')))"

definition rs_sub :: "slots \<Rightarrow> slots \<Rightarrow> (slots \<times> slots \<times> slots) res" where
  "rs_sub a b =
     (let (a', b') = sync_keys a b
      in bindE (mapE (\<lambda>k. bindE (dec_sub (slot_val a' k) (slot_val b' k)) (\<lambda>v. Inr (k, v))) (keys a'))
           (\<lambda>r. Inr (r, a', b')))"

text \<open>\<open>__eq__\<close>, \<open>__ne__\<close> (on two distinct objects) and the four order operators.\<close>

definition rs_eq :: "slots \<Rightarrow> slots \<Rightarrow> bool \<times> slots \<times> slots" where
  "rs_eq a b =
     (let (a', b') = sync_keys a b
      in (map (slot_val a') (sort (keys a')) = map (slot_val b') (sort (keys b')), a', b'))"

definition rs_ne :: "slots \<Rightarrow> slots \<Rightarrow> bool \<times> slots \<times> slots" where
  "rs_ne a b = (let (a', b') = sync_keys a b; (e, a'', b'') = rs_eq a' b' in (\<not> e, a'', b''))"

definition rs_le :: "slots \<Rightarrow> slots \<Rightarrow> bool \<times> slots \<times> slots" where
  "rs_le a b =
     (let (a', b') = sync_keys a b; xs = map (slot_val a') (keys a'); ys = map (slot_val b') (keys a')
      in (\<not> list_ex (\<lambda>(s, t). s > t) (zip xs ys), a', b'))"

definition rs_lt :: "slots \<Rightarrow> slots \<Rightarrow> bool \<times> slots \<times> slots" where
  "rs_lt a b =
     (let (a', b') = sync_keys a b; xs = map (slot_val a') (keys a'); ys = map (slot_val b') (keys a')
      in (\<not> list_ex (\<lambda>(s, t). s > t) (zip xs ys) \<and> \<not> xs = ys, a', b'))"

definition rs_ge :: "slots \<Rightarrow> slots \<Rightarrow> bool \<times> slots \<times> slots" where
  "rs_ge a b =
     (let (a', b') = sync_keys a b; xs = map (slot_val a') (keys b'); ys = map (slot_val b') (keys b')
      in (\<not> list_ex (\<lambda>(s, t). s < t) (zip xs ys), a', b'))"

definition rs_gt :: "slots \<Rightarrow> slots \<Rightarrow> bool \<times> slots \<times> slots" where
  "rs_gt a b =
     (let (a', b') = sync_keys a b; xs = map (slot_val a') (keys b'); ys = map (slot_val b') (keys b')
      in (\<not> list_ex (\<lambda>(s, t). s < t) (zip xs ys) \<and> \<not> xs = ys, a', b'))"

text \<open>\<open>eq_contains\<close> and \<open>eq_contained\<close> do not write to their operands.\<close>

definition eq_contains :: "slots \<Rightarrow> slots \<Rightarrow> bool" where
  "eq_contains a b =
     (let common = sort (filter (\<lambda>k. k \<in> set (keys a)) (keys b));
          only_other = filter (\<lambda>k. k \<notin> set (keys a)) (keys b)
      in map (slot_val a) common = map (slot_val b) common \<and>
         list_all (\<lambda>k. slot_val b k = 0) only_other)"

definition eq_contained :: "slots \<Rightarrow> slots \<Rightarrow> bool" where
  "eq_contained a b =
     (let common = sort (filter (\<lambda>k. k \<in> set (keys a)) (keys b));
          only_self = filter (\<lambda>k. k \<notin> set (keys b)) (keys a)
      in map (slot_val a) common = map (slot_val b) common \<and>
         list_all (\<lambda>k. slot_val a k = 0) only_self)"

text \<open>\<open>normalize_slots\<close>; the known slot types come from the context variable.\<close>

definition normalize_slots :: "(string, 't) dict \<Rightarrow> bool \<Rightarrow> slots \<Rightarrow> slots res" where
  "normalize_slots known ignore_unknown a =
     (if \<not> ignore_unknown \<and> list_ex (\<lambda>k. k \<notin> set (keys known)) (keys a) then Inl ValueError
      else Inr (fold (\<lambda>k d. dset d k 0) (filter (\<lambda>k. k \<notin> set (keys a)) (keys known))
                 (filter (\<lambda>(k, v). k \<in> set (keys known)) a)))"

section \<open>What the operators compute\<close>

named_theorems slot_simps \<open>values of slots after an operation\<close>

lemma slot_val_append_zero_keys [slot_simps, simp]: "slot_val (a @ zero_keys a' b) k = slot_val a k"
  by (auto simp: slot_val_def dget_or_def zero_keys_def map_add_def map_of_map_restrict restrict_map_def
      split: option.splits)

lemma sync_keys_val [slot_simps]: "sync_keys a b = (a', b') \<Longrightarrow> slot_val a' = slot_val a \<and> slot_val b' = slot_val b"
  by (auto simp: sync_keys_def fun_eq_iff)

lemma set_keys_zero_keys: "set (keys (zero_keys a b)) = set (keys b) - set (keys a)"
  by (auto simp: zero_keys_def image_image)

lemma sync_keys_set:
  "sync_keys a b = (a', b') \<Longrightarrow>
     set (keys a') = set (keys a) \<union> set (keys b) \<and> set (keys b') = set (keys a) \<union> set (keys b)"
  using set_keys_zero_keys[of a b] set_keys_zero_keys[of b a]
  by (clarsimp simp: sync_keys_def image_Un Un_commute)

lemma wf_zero_keys: "wf_dict b \<Longrightarrow> wf_dict (zero_keys a b)"
  by (simp add: zero_keys_def comp_def)

lemma sync_keys_wf:
  "wf_dict a \<Longrightarrow> wf_dict b \<Longrightarrow> sync_keys a b = (a', b') \<Longrightarrow> wf_dict a' \<and> wf_dict b'"
  using wf_zero_keys[of a b] wf_zero_keys[of b a] set_keys_zero_keys[of a b] set_keys_zero_keys[of b a]
  by (auto simp: sync_keys_def)

lemma slot_val_notin: "k \<notin> set (keys a) \<Longrightarrow> slot_val a k = 0"
  by (simp add: slot_val_def dget_or_notin)

lemma slot_val_Nil [simp]: "slot_val [] k = 0"
  by (simp add: slot_val_def)

lemma slot_val_Cons: "slot_val ((k', v) # a) k = (if k = k' then v else slot_val a k)"
  by (simp add: slot_val_def dget_or_def)

lemma slot_val_map_keys: "k \<in> set ks \<Longrightarrow> slot_val (map (\<lambda>k. (k, f k)) ks) k = f k"
  by (induction ks) (auto simp: slot_val_Cons)

lemma list_ex_zip_map: "list_ex (\<lambda>(s, t). P s t) (zip (map f xs) (map g xs)) \<longleftrightarrow> (\<exists>x\<in>set xs. P (f x) (g x))"
  by (induction xs) auto

lemma all_keys_iff:
  assumes "set (keys a) \<union> set (keys b) \<subseteq> K" and "P 0 0"
  shows "(\<forall>k\<in>K. P (slot_val a k) (slot_val b k)) \<longleftrightarrow> (\<forall>k. P (slot_val a k) (slot_val b k))"
proof -
  have "P (slot_val a k) (slot_val b k)" if "k \<notin> K" for k
  proof -
    from that assms(1) have "k \<notin> set (keys a)" "k \<notin> set (keys b)" by auto
    then have "slot_val a k = 0" "slot_val b k = 0" by (auto intro: slot_val_notin)
    with assms(2) show ?thesis by simp
  qed
  then show ?thesis by blast
qed

lemma map_slot_val_eq_iff:
  "map f ks = map g ks \<longleftrightarrow> (\<forall>k\<in>set ks. f k = g k)"
  by (induction ks) auto

lemma rs_le_val: "rs_le a b = (r, a', b') \<Longrightarrow> r \<longleftrightarrow> (\<forall>k. slot_val a k \<le> slot_val b k)"
proof -
  assume "rs_le a b = (r, a', b')"
  then have s: "sync_keys a b = (a', b')"
    and r: "r \<longleftrightarrow> \<not> (\<exists>k\<in>set (keys a'). slot_val a' k > slot_val b' k)"
    by (auto simp: rs_le_def Let_def list_ex_zip_map split: prod.splits)
  have "r \<longleftrightarrow> (\<forall>k\<in>set (keys a'). slot_val a k \<le> slot_val b k)"
    using r sync_keys_val[OF s] by (auto simp: not_less)
  also have "\<dots> \<longleftrightarrow> (\<forall>k. slot_val a k \<le> slot_val b k)"
    using sync_keys_set[OF s] by (intro all_keys_iff) auto
  finally show ?thesis .
qed

lemma rs_ge_val: "rs_ge a b = (r, a', b') \<Longrightarrow> r \<longleftrightarrow> (\<forall>k. slot_val b k \<le> slot_val a k)"
proof -
  assume "rs_ge a b = (r, a', b')"
  then have s: "sync_keys a b = (a', b')"
    and r: "r \<longleftrightarrow> \<not> (\<exists>k\<in>set (keys b'). slot_val a' k < slot_val b' k)"
    by (auto simp: rs_ge_def Let_def list_ex_zip_map split: prod.splits)
  have "r \<longleftrightarrow> (\<forall>k\<in>set (keys b'). slot_val b k \<le> slot_val a k)"
    using r sync_keys_val[OF s] by (auto simp: not_less)
  also have "\<dots> \<longleftrightarrow> (\<forall>k. slot_val b k \<le> slot_val a k)"
    using sync_keys_set[OF s] by (intro all_keys_iff) auto
  finally show ?thesis .
qed

lemma values_eq_iff:
  assumes "sync_keys a b = (a', b')" and "set ks = set (keys a) \<union> set (keys b)"
  shows "map (slot_val a') ks = map (slot_val b') ks \<longleftrightarrow> slot_val a = slot_val b"
proof -
  have "map (slot_val a') ks = map (slot_val b') ks \<longleftrightarrow> (\<forall>k\<in>set ks. slot_val a k = slot_val b k)"
    using sync_keys_val[OF assms(1)] by (simp add: map_slot_val_eq_iff)
  also have "\<dots> \<longleftrightarrow> (\<forall>k. slot_val a k = slot_val b k)"
    using assms(2) by (intro all_keys_iff) auto
  finally show ?thesis by (simp add: fun_eq_iff)
qed

lemma rs_lt_split:
  "rs_lt a b = (fst (rs_le a b) \<and> slot_val a \<noteq> slot_val b, sync_keys a b)"
proof -
  obtain a' b' where s: "sync_keys a b = (a', b')" by (cases "sync_keys a b")
  have "map (slot_val a') (keys a') = map (slot_val b') (keys a') \<longleftrightarrow> slot_val a = slot_val b"
    using sync_keys_set[OF s] by (intro values_eq_iff[OF s]) blast
  then show ?thesis unfolding rs_lt_def rs_le_def s Let_def prod.case fst_conv by (simp only: not_not)
qed

lemma rs_gt_split:
  "rs_gt a b = (fst (rs_ge a b) \<and> slot_val a \<noteq> slot_val b, sync_keys a b)"
proof -
  obtain a' b' where s: "sync_keys a b = (a', b')" by (cases "sync_keys a b")
  have "map (slot_val a') (keys b') = map (slot_val b') (keys b') \<longleftrightarrow> slot_val a = slot_val b"
    using sync_keys_set[OF s] by (intro values_eq_iff[OF s]) blast
  then show ?thesis unfolding rs_gt_def rs_ge_def s Let_def prod.case fst_conv by (simp only: not_not)
qed

lemma rs_order_operands:
  "snd (rs_le a b) = sync_keys a b" "snd (rs_ge a b) = sync_keys a b"
  "snd (rs_eq a b) = sync_keys a b"
  by (auto simp: rs_le_def rs_ge_def rs_eq_def Let_def split: prod.splits)

text \<open>The boolean results alone, for callers that drop the operands afterwards.\<close>

abbreviation slots_le :: "slots \<Rightarrow> slots \<Rightarrow> bool" where
  "slots_le a b \<equiv> fst (rs_le a b)"

abbreviation slots_ge :: "slots \<Rightarrow> slots \<Rightarrow> bool" where
  "slots_ge a b \<equiv> fst (rs_ge a b)"

abbreviation slots_lt :: "slots \<Rightarrow> slots \<Rightarrow> bool" where
  "slots_lt a b \<equiv> fst (rs_lt a b)"

abbreviation slots_gt :: "slots \<Rightarrow> slots \<Rightarrow> bool" where
  "slots_gt a b \<equiv> fst (rs_gt a b)"

abbreviation slots_eq :: "slots \<Rightarrow> slots \<Rightarrow> bool" where
  "slots_eq a b \<equiv> fst (rs_eq a b)"

lemma slots_le_iff: "slots_le a b \<longleftrightarrow> (\<forall>k. slot_val a k \<le> slot_val b k)"
  by (metis prod.collapse rs_le_val)

lemma slots_ge_iff: "slots_ge a b \<longleftrightarrow> (\<forall>k. slot_val b k \<le> slot_val a k)"
  by (metis prod.collapse rs_ge_val)

lemma slots_lt_iff:
  "slots_lt a b \<longleftrightarrow> (\<forall>k. slot_val a k \<le> slot_val b k) \<and> slot_val a \<noteq> slot_val b"
  by (simp add: rs_lt_split slots_le_iff)

lemma slots_gt_iff:
  "slots_gt a b \<longleftrightarrow> (\<forall>k. slot_val b k \<le> slot_val a k) \<and> slot_val a \<noteq> slot_val b"
  by (simp add: rs_gt_split slots_ge_iff)

lemma slots_eq_iff:
  assumes "wf_dict a" and "wf_dict b"
  shows "slots_eq a b \<longleftrightarrow> slot_val a = slot_val b"
proof -
  obtain a' b' where s: "sync_keys a b = (a', b')" by (cases "sync_keys a b")
  have "sort (keys a') = sort (keys b')"
    using sync_keys_wf[OF assms s] sync_keys_set[OF s]
    by (metis sorted_list_of_set_sort_remdups distinct_remdups_id)
  then show ?thesis
    using values_eq_iff[OF s, of "sort (keys a')"] sync_keys_set[OF s] s
    by (simp add: rs_eq_def Let_def)
qed

lemma slots_ne_iff:
  assumes "wf_dict a" and "wf_dict b"
  shows "fst (rs_ne a b) \<longleftrightarrow> slot_val a \<noteq> slot_val b"
proof -
  obtain a' b' where s: "sync_keys a b = (a', b')" by (cases "sync_keys a b")
  have "slots_eq a' b' \<longleftrightarrow> slot_val a' = slot_val b'"
    using sync_keys_wf[OF assms s] by (intro slots_eq_iff) auto
  then show ?thesis
    using sync_keys_val[OF s] s by (auto simp: rs_ne_def Let_def split: prod.splits)
qed

interpretation slots_pref: strict_pref slots_gt
proof
  show "\<not> slots_gt x x" for x by (simp add: slots_gt_iff)
  show "slots_gt x z" if "slots_gt x y" "slots_gt y z" for x y z
    using that unfolding slots_gt_iff by (metis antisym order_trans ext)
qed

lemma slots_lt_gt: "slots_lt a b \<longleftrightarrow> slots_gt b a"
  by (auto simp: slots_lt_iff slots_gt_iff)

text \<open>Arithmetic: an operation on finite slots cannot fail and works per key.\<close>

definition fin_slots :: "slots \<Rightarrow> bool" where
  "fin_slots a \<longleftrightarrow> list_all (\<lambda>(k, v). is_finite v) a"

definition slot_amt :: "slots \<Rightarrow> string \<Rightarrow> rat" where
  "slot_amt a k = the_fin (slot_val a k)"

lemma fin_slots_val: "fin_slots a \<Longrightarrow> is_finite (slot_val a k)"
  by (induction a) (auto simp: fin_slots_def slot_val_Cons)

lemma fin_slots_amt: "fin_slots a \<Longrightarrow> slot_val a k = Fin (slot_amt a k)"
  using fin_slots_val[of a k] by (cases "slot_val a k") (auto simp: slot_amt_def)

lemma fin_slots_Nil [simp]: "fin_slots []"
  by (simp add: fin_slots_def)

lemma fin_slots_append [simp]: "fin_slots (a @ b) \<longleftrightarrow> fin_slots a \<and> fin_slots b"
  by (simp add: fin_slots_def)

lemma fin_slots_zero_keys [simp]: "fin_slots (zero_keys a b)"
  by (simp add: fin_slots_def zero_keys_def list_all_iff)

lemma sync_keys_fin: "fin_slots a \<Longrightarrow> fin_slots b \<Longrightarrow> sync_keys a b = (a', b') \<Longrightarrow> fin_slots a' \<and> fin_slots b'"
  by (auto simp: sync_keys_def)

lemma binop_val:
  assumes s: "sync_keys a b = (a', b')"
    and op0: "\<And>k. k \<notin> set (keys a') \<Longrightarrow> op (slot_val a k) (slot_val b k) = (Inr 0 :: decimal res)"
    and r: "mapE (\<lambda>k. bindE (op (slot_val a' k) (slot_val b' k)) (\<lambda>v. Inr (k, v))) (keys a') = Inr r"
  shows "op (slot_val a k) (slot_val b k) = Inr (slot_val r k)" and "keys r = keys a'"
proof -
  have all: "list_all2 (\<lambda>k p. fst p = k \<and> op (slot_val a k) (slot_val b k) = Inr (snd p)) (keys a') r"
    using r sync_keys_val[OF s] unfolding mapE_Inr_iff
    by (elim list_all2_mono) (auto simp: bindE_eq_Inr_iff)
  have ks: "keys r = ks \<and> (\<forall>k\<in>set ks. op (slot_val a k) (slot_val b k) = Inr (slot_val r k))"
    if "list_all2 (\<lambda>k p. fst p = k \<and> op (slot_val a k) (slot_val b k) = Inr (snd p)) ks r" for ks r
    using that
  proof (induction ks r rule: list_all2_induct)
    case (Cons k ks p r)
    then show ?case by (cases p) (auto simp: slot_val_Cons)
  qed simp
  show "keys r = keys a'" using ks[OF all] by blast
  show "op (slot_val a k) (slot_val b k) = Inr (slot_val r k)"
  proof (cases "k \<in> set (keys a')")
    case True
    then show ?thesis using ks[OF all] by blast
  next
    case False
    then have "slot_val r k = 0" using ks[OF all] by (metis slot_val_notin)
    with op0[OF False] show ?thesis by simp
  qed
qed

lemma sync_keys_out:
  "sync_keys a b = (a', b') \<Longrightarrow> k \<notin> set (keys a') \<Longrightarrow> slot_val a k = 0 \<and> slot_val b k = 0"
  using sync_keys_set[of a b a' b'] by (auto intro: slot_val_notin)

lemma rs_add_val:
  assumes "rs_add a b = Inr (r, a', b')"
  shows "sync_keys a b = (a', b')" and "dec_add (slot_val a k) (slot_val b k) = Inr (slot_val r k)"
    and "keys r = keys a'"
proof -
  show s: "sync_keys a b = (a', b')"
    using assms by (auto simp: rs_add_def bindE_eq_Inr_iff split: prod.splits)
  have m: "mapE (\<lambda>k. bindE (dec_add (slot_val a' k) (slot_val b' k)) (\<lambda>v. Inr (k, v))) (keys a') = Inr r"
    using assms s by (auto simp: rs_add_def bindE_eq_Inr_iff)
  show "dec_add (slot_val a k) (slot_val b k) = Inr (slot_val r k)" "keys r = keys a'"
    using binop_val[OF s _ m] sync_keys_out[OF s] by auto
qed

lemma rs_sub_val:
  assumes "rs_sub a b = Inr (r, a', b')"
  shows "sync_keys a b = (a', b')" and "dec_sub (slot_val a k) (slot_val b k) = Inr (slot_val r k)"
    and "keys r = keys a'"
proof -
  show s: "sync_keys a b = (a', b')"
    using assms by (auto simp: rs_sub_def bindE_eq_Inr_iff split: prod.splits)
  have m: "mapE (\<lambda>k. bindE (dec_sub (slot_val a' k) (slot_val b' k)) (\<lambda>v. Inr (k, v))) (keys a') = Inr r"
    using assms s by (auto simp: rs_sub_def bindE_eq_Inr_iff)
  show "dec_sub (slot_val a k) (slot_val b k) = Inr (slot_val r k)" "keys r = keys a'"
    using binop_val[OF s _ m] sync_keys_out[OF s] by auto
qed

lemma rs_add_total:
  assumes "fin_slots a" and "fin_slots b"
  obtains r a' b' where "rs_add a b = Inr (r, a', b')" "fin_slots r"
    "\<And>k. slot_amt r k = slot_amt a k + slot_amt b k"
proof -
  obtain a' b' where s: "sync_keys a b = (a', b')" by (cases "sync_keys a b")
  let ?r = "map (\<lambda>k. (k, Fin (slot_amt a k + slot_amt b k))) (keys a')"
  have m: "mapE (\<lambda>k. bindE (dec_add (slot_val a' k) (slot_val b' k)) (\<lambda>v. Inr (k, v))) (keys a') = Inr ?r"
    using sync_keys_val[OF s] assms
    by (intro mapE_total) (simp add: dec_add_finite fin_slots_val slot_amt_def)
  have eq: "rs_add a b = Inr (?r, a', b')"
    unfolding rs_add_def s Let_def prod.case m by simp
  have "slot_amt ?r k = slot_amt a k + slot_amt b k" for k
    using rs_add_val(2)[OF eq, of k] assms
    by (simp add: slot_amt_def dec_add_finite fin_slots_val) (metis the_fin.simps(1))
  moreover have "fin_slots ?r" by (simp add: fin_slots_def list_all_iff)
  ultimately show thesis using eq that by blast
qed

lemma rs_sub_total:
  assumes "fin_slots a" and "fin_slots b"
  obtains r a' b' where "rs_sub a b = Inr (r, a', b')" "fin_slots r"
    "\<And>k. slot_amt r k = slot_amt a k - slot_amt b k"
proof -
  obtain a' b' where s: "sync_keys a b = (a', b')" by (cases "sync_keys a b")
  let ?r = "map (\<lambda>k. (k, Fin (slot_amt a k - slot_amt b k))) (keys a')"
  have m: "mapE (\<lambda>k. bindE (dec_sub (slot_val a' k) (slot_val b' k)) (\<lambda>v. Inr (k, v))) (keys a') = Inr ?r"
    using sync_keys_val[OF s] assms
    by (intro mapE_total) (simp add: dec_sub_finite fin_slots_val slot_amt_def)
  have eq: "rs_sub a b = Inr (?r, a', b')"
    unfolding rs_sub_def s Let_def prod.case m by simp
  have "slot_amt ?r k = slot_amt a k - slot_amt b k" for k
    using rs_sub_val(2)[OF eq, of k] assms
    by (simp add: slot_amt_def dec_sub_finite fin_slots_val) (metis the_fin.simps(1))
  moreover have "fin_slots ?r" by (simp add: fin_slots_def list_all_iff)
  ultimately show thesis using eq that by blast
qed

lemma slots_le_amt:
  "fin_slots a \<Longrightarrow> fin_slots b \<Longrightarrow> slots_le a b \<longleftrightarrow> (\<forall>k. slot_amt a k \<le> slot_amt b k)"
  by (simp add: slots_le_iff fin_slots_amt)

lemma slots_ge_amt:
  "fin_slots a \<Longrightarrow> fin_slots b \<Longrightarrow> slots_ge a b \<longleftrightarrow> (\<forall>k. slot_amt b k \<le> slot_amt a k)"
  by (simp add: slots_ge_iff fin_slots_amt)

section \<open>Properties of resource slots\<close>

text \<open>
  The comparison operators of \<open>ResourceSlot\<close> are the pointwise order of the slot values, a
  missing slot counting as zero.  In particular neither \<open>a <= b\<close> nor \<open>b <= a\<close> may hold, so
  \<open>not (a <= b)\<close> does not mean \<open>a > b\<close>.
\<close>
theorem slots_order_pointwise:
  assumes "wf_dict a" and "wf_dict b"
  shows "(fst (rs_le a b) \<longleftrightarrow> (\<forall>k. slot_val a k \<le> slot_val b k)) \<and>
    (fst (rs_ge a b) \<longleftrightarrow> fst (rs_le b a)) \<and>
    (fst (rs_eq a b) \<longleftrightarrow> fst (rs_le a b) \<and> fst (rs_le b a)) \<and>
    (fst (rs_ne a b) \<longleftrightarrow> \<not> fst (rs_eq a b)) \<and>
    (fst (rs_lt a b) \<longleftrightarrow> fst (rs_le a b) \<and> \<not> fst (rs_le b a)) \<and>
    (fst (rs_gt a b) \<longleftrightarrow> fst (rs_lt b a))"
proof -
  have e: "slot_val a = slot_val b \<longleftrightarrow> (\<forall>k. slot_val a k \<le> slot_val b k) \<and> (\<forall>k. slot_val b k \<le> slot_val a k)"
    by (auto simp: fun_eq_iff intro: antisym)
  show ?thesis
    unfolding slots_le_iff slots_ge_iff slots_eq_iff[OF assms] slots_ne_iff[OF assms] slots_lt_iff slots_gt_iff
    using e by metis
qed

theorem slots_order_pointwise_witness:
  "\<not> fst (rs_le [(''cpu'', Fin 1)] [(''mem'', Fin 1)]) \<and> \<not> fst (rs_gt [(''cpu'', Fin 1)] [(''mem'', Fin 1)])"
proof -
  have "\<not> fst (rs_le [(''cpu'', Fin 1)] [(''mem'', Fin 1)])" "\<not> fst (rs_le [(''mem'', Fin 1)] [(''cpu'', Fin 1)])"
    by code_simp+
  then show ?thesis
    using slots_order_pointwise[of "[(''cpu'', Fin 1)]" "[(''mem'', Fin 1)]"]
      slots_order_pointwise[of "[(''mem'', Fin 1)]" "[(''cpu'', Fin 1)]"] by simp
qed

text \<open>
  The admission test of the scheduler, remaining capacity against request, is the test that
  the occupied slots plus the request stay within the available slots.  None of the operations on
  finite slots can raise.
\<close>
theorem remaining_fits_iff:
  assumes "fin_slots avail" and "fin_slots occ" and "fin_slots req"
  shows "\<exists>rm occ' x1 x2 y1 y2. rs_sub avail occ = Inr (rm, x1, x2) \<and> rs_add occ req = Inr (occ', y1, y2) \<and>
    (fst (rs_ge rm req) \<longleftrightarrow> fst (rs_le occ' avail)) \<and> fin_slots rm \<and> fin_slots occ'"
proof -
  obtain rm x1 x2 where r: "rs_sub avail occ = Inr (rm, x1, x2)" "fin_slots rm"
    "\<And>k. slot_amt rm k = slot_amt avail k - slot_amt occ k"
    using rs_sub_total[OF assms(1,2)] by blast
  obtain o' y1 y2 where o: "rs_add occ req = Inr (o', y1, y2)" "fin_slots o'"
    "\<And>k. slot_amt o' k = slot_amt occ k + slot_amt req k"
    using rs_add_total[OF assms(2,3)] by blast
  have "slots_ge rm req \<longleftrightarrow> slots_le o' avail"
    unfolding slots_ge_amt[OF r(2) assms(3)] slots_le_amt[OF o(2) assms(1)] r(3) o(3)
    by (simp add: algebra_simps)
  with r(1,2) o(1,2) show ?thesis by blast
qed

theorem remaining_fits_iff_witness:
  "\<exists>rm occ' x1 x2 y1 y2. rs_sub [(''cpu'', Fin 4)] [(''cpu'', Fin 1)] = Inr (rm, x1, x2) \<and>
    rs_add [(''cpu'', Fin 1)] [(''cpu'', Fin 3)] = Inr (occ', y1, y2) \<and>
    (fst (rs_ge rm [(''cpu'', Fin 3)]) \<longleftrightarrow> fst (rs_le occ' [(''cpu'', Fin 4)]))"
  using remaining_fits_iff[of "[(''cpu'', Fin 4)]" "[(''cpu'', Fin 1)]" "[(''cpu'', Fin 3)]"]
  by (auto simp: fin_slots_def)

lemma fold_dset_zero:
  "wf_dict d \<Longrightarrow> wf_dict (fold (\<lambda>k d. dset d k 0) ks d) \<and>
     set (keys (fold (\<lambda>k d. dset d k 0) ks d)) = set ks \<union> set (keys d) \<and>
     (\<forall>k. slot_val (fold (\<lambda>k d. dset d k 0) ks d) k = (if k \<in> set ks then 0 else slot_val d k))"
proof (induction ks arbitrary: d)
  case (Cons k ks)
  have "slot_val (dset d k 0) k' = (if k' = k then 0 else slot_val d k')" for k'
    by (simp add: slot_val_def update_conv)
  with Cons.IH[of "dset d k 0"] Cons.prems keys_dset[of k "0 :: decimal" d] show ?case by auto
qed simp

lemma slot_val_filter_known: "P k \<Longrightarrow> slot_val (filter (\<lambda>(k, v). P k) a) k = slot_val a k"
  by (induction a) (auto simp: slot_val_Cons)

text \<open>
  \<open>normalize_slots\<close> returns exactly the known slots, each with its value or zero, and raises
  \<open>ValueError\<close> exactly when it must not ignore a slot it does not know.
\<close>
theorem normalize_slots_spec:
  assumes "wf_dict known" and "wf_dict a"
  shows "(normalize_slots known ign a = Inl ValueError \<longleftrightarrow> \<not> ign \<and> \<not> set (keys a) \<subseteq> set (keys known)) \<and>
    (normalize_slots known ign a \<noteq> Inl ValueError \<longrightarrow>
      (\<exists>r. normalize_slots known ign a = Inr r \<and> wf_dict r \<and> set (keys r) = set (keys known) \<and>
        (\<forall>k\<in>set (keys known). slot_val r k = slot_val a k)))"
proof (cases "\<not> ign \<and> list_ex (\<lambda>k. k \<notin> set (keys known)) (keys a)")
  case True
  then show ?thesis by (auto simp: normalize_slots_def list_ex_iff)
next
  case False
  let ?d = "filter (\<lambda>(k, v). k \<in> set (keys known)) a"
  let ?r = "fold (\<lambda>k d. dset d k 0) (filter (\<lambda>k. k \<notin> set (keys a)) (keys known)) ?d"
  have r: "normalize_slots known ign a = Inr ?r" using False by (auto simp: normalize_slots_def)
  have f: "wf_dict ?r" "set (keys ?r) = set (filter (\<lambda>k. k \<notin> set (keys a)) (keys known)) \<union> set (keys ?d)"
    "\<And>k. slot_val ?r k = (if k \<in> set (filter (\<lambda>k. k \<notin> set (keys a)) (keys known)) then 0 else slot_val ?d k)"
    using fold_dset_zero[OF wf_filter[OF assms(2)]] by blast+
  have "set (keys ?d) = set (keys a) \<inter> set (keys known)" by force
  then have "set (keys ?r) = set (keys known)" unfolding f(2) by auto
  moreover have "slot_val ?r k = slot_val a k" if "k \<in> set (keys known)" for k
    unfolding f(3) slot_val_filter_known[of "\<lambda>k. k \<in> set (keys known)", OF that]
    using slot_val_notin[of k a] by simp
  ultimately have "wf_dict ?r \<and> set (keys ?r) = set (keys known) \<and> (\<forall>k\<in>set (keys known). slot_val ?r k = slot_val a k)"
    using f(1) by blast
  moreover have "\<not> (\<not> ign \<and> \<not> set (keys a) \<subseteq> set (keys known))" using False by (auto simp: list_ex_iff)
  ultimately show ?thesis unfolding r by auto
qed

theorem normalize_slots_spec_witness:
  "normalize_slots [(''cpu'', ()), (''mem'', ())] True [(''mem'', Fin 5), (''tpu'', Fin 1)] = Inr [(''mem'', Fin 5), (''cpu'', 0)] \<and>
   normalize_slots [(''cpu'', ()), (''mem'', ())] False [(''mem'', Fin 5), (''tpu'', Fin 1)] = Inl ValueError"
proof -
  have "normalize_slots [(''cpu'', ()), (''mem'', ())] True [(''mem'', Fin 5), (''tpu'', Fin 1)] = Inr [(''mem'', Fin 5), (''cpu'', 0)]"
    by code_simp
  then show ?thesis
    using normalize_slots_spec[of "[(''cpu'', ()), (''mem'', ())]" "[(''mem'', Fin 5), (''tpu'', Fin 1)]" False] by simp
qed

end
