(* ===== verification/Json.thy ===== *)
theory Json
  imports Prelude
begin

text \<open>
  JSON values as the manager keeps them in JSONB columns, PostgreSQL's concatenation and path
  operators as far as the manager uses them, and the two update expressions of
  \<open>manager/models/utils.py\<close>, \<open>sql_json_merge\<close> and \<open>sql_json_increment\<close>.  A column that may
  be NULL is an \<open>option\<close>.  \<open>JTime\<close> stands for the string \<open>isoformat()\<close> gives for a time stamp.
\<close>

datatype json =
    JNull
  | JBool bool
  | JInt int
  | JStr string
  | JTime int
  | JArr "json list"
  | JObj "(string \<times> json) list"

section \<open>The operators of PostgreSQL\<close>

text \<open>
  \<open>a || b\<close>: two objects are merged, the right one winning; everything else is concatenated as
  arrays, a value that is not an array counting as an array of one element.
\<close>

definition json_elems :: "json \<Rightarrow> json list" where
  "json_elems j = (case j of JArr xs \<Rightarrow> xs | _ \<Rightarrow> [j])"

definition dict_merge :: "('k, 'v) dict \<Rightarrow> ('k, 'v) dict \<Rightarrow> ('k, 'v) dict" where
  "dict_merge a b = fold (\<lambda>(k, v) d. dset d k v) b a"

fun jsonb_concat :: "json \<Rightarrow> json \<Rightarrow> json" where
  "jsonb_concat (JObj a) (JObj b) = JObj (dict_merge a b)"
| "jsonb_concat a b = JArr (json_elems a @ json_elems b)"

text \<open>\<open>col #> path\<close> for paths of object keys; a missing step is NULL.\<close>

fun json_path :: "json \<Rightarrow> string list \<Rightarrow> json option" where
  "json_path j [] = Some j"
| "json_path (JObj ob) (k # ks) = Option.bind (map_of ob k) (\<lambda>j. json_path j ks)"
| "json_path j (k # ks) = None"

definition col_path :: "json option \<Rightarrow> string list \<Rightarrow> json option" where
  "col_path col ks = Option.bind col (\<lambda>j. json_path j ks)"

definition coalesce_obj :: "json option \<Rightarrow> json" where
  "coalesce_obj j = (case j of None \<Rightarrow> JObj [] | Some j \<Rightarrow> j)"

text \<open>\<open>coalesce(col[key].as_integer(), 0)\<close>: the text form of a JSON null is NULL, and a value that
  is no integer makes the cast fail.\<close>

definition coalesce_int :: "json option \<Rightarrow> int res" where
  "coalesce_int j = (case j of None \<Rightarrow> Inr 0 | Some JNull \<Rightarrow> Inr 0 | Some (JInt n) \<Rightarrow> Inr n | Some _ \<Rightarrow> Inl DBAPIError)"

section \<open>The update expressions\<close>

text \<open>\<open>pre\<close> is the part of the key above the current depth.\<close>

fun json_merge_at :: "json option \<Rightarrow> string list \<Rightarrow> string list \<Rightarrow> json \<Rightarrow> json" where
  "json_merge_at col pre [] obj = jsonb_concat (coalesce_obj (col_path col pre)) obj"
| "json_merge_at col pre (k # ks) obj =
     jsonb_concat (coalesce_obj (col_path col pre)) (JObj [(k, json_merge_at col (pre @ [k]) ks obj)])"

definition sql_json_merge :: "json option \<Rightarrow> string list \<Rightarrow> json \<Rightarrow> json" where
  "sql_json_merge col key obj = json_merge_at col [] key obj"

fun json_increment_at :: "json option \<Rightarrow> string list \<Rightarrow> string list \<Rightarrow> json option \<Rightarrow> json res" where
  "json_increment_at col pre [] upd = Inl IndexError"
| "json_increment_at col pre [k] upd =
     bindE (coalesce_int (col_path col (pre @ [k]))) (\<lambda>n.
       let e = jsonb_concat (coalesce_obj (col_path col pre)) (JObj [(k, JInt (n + 1))])
       in Inr (case upd of None \<Rightarrow> e | Some u \<Rightarrow> jsonb_concat e u))"
| "json_increment_at col pre (k # k' # ks) upd =
     bindE (json_increment_at col (pre @ [k]) (k' # ks) upd) (\<lambda>v.
       Inr (jsonb_concat (coalesce_obj (col_path col pre)) (JObj [(k, v)])))"

definition sql_json_increment :: "json option \<Rightarrow> string list \<Rightarrow> json option \<Rightarrow> json res" where
  "sql_json_increment col key upd = json_increment_at col [] key upd"

section \<open>Reading back what was written\<close>

lemma map_of_dict_merge: "wf_dict b \<Longrightarrow> map_of (dict_merge a b) k = (case map_of b k of Some v \<Rightarrow> Some v | None \<Rightarrow> map_of a k)"
proof (induction b arbitrary: a)
  case (Cons p b)
  obtain k0 v where p: "p = (k0, v)" by (cases p)
  then have "map_of b k0 = None" using Cons.prems by (auto simp: map_of_eq_None_iff)
  with Cons p show ?case
    by (auto simp: dict_merge_def update_conv split: option.splits)
qed (simp add: dict_merge_def)

text \<open>
  What the documentation of the two functions demands of the existing value: the column and the
  parent of the key are NULL (missing) or objects.
\<close>

definition obj_or_null :: "json option \<Rightarrow> bool" where
  "obj_or_null j = (case j of None \<Rightarrow> True | Some (JObj _) \<Rightarrow> True | Some _ \<Rightarrow> False)"

lemma obj_or_null_coalesce: "obj_or_null j \<Longrightarrow> \<exists>ob. coalesce_obj j = JObj ob \<and> (\<forall>k. map_of ob k = Option.bind j (\<lambda>j. json_path j [k]))"
  by (cases j rule: option.exhaust, simp add: coalesce_obj_def)
    (auto simp: obj_or_null_def coalesce_obj_def split: json.splits)

lemma col_path_Cons: "obj_or_null col \<Longrightarrow> coalesce_obj col = JObj ob \<Longrightarrow> col_path col (k # ks) = Option.bind (map_of ob k) (\<lambda>j. json_path j ks)"
  by (auto simp: obj_or_null_def coalesce_obj_def col_path_def split: option.splits json.splits)

lemma col_path_bind: "col_path col (ks @ ks') = col_path (col_path col ks) ks'"
proof -
  have "json_path j (ks @ ks') = Option.bind (json_path j ks) (\<lambda>j. json_path j ks')" for j
    by (induction j ks rule: json_path.induct) (auto split: bind_splits)
  then show ?thesis by (cases col) (simp_all add: col_path_def)
qed

lemma json_path_concat_single:
  assumes "obj_or_null j" and "coalesce_obj j = JObj ob"
  shows "json_path (jsonb_concat (JObj ob) (JObj [(k, v)])) (k' # ks) =
    (if k' = k then json_path v ks else col_path j (k' # ks))"
  using col_path_Cons[OF assms] by (simp add: map_of_dict_merge)

text \<open>
  The retry counter of a session: on a status column that is NULL or an object,
  \<open>sql_json_increment\<close> at a key of two parts counts up by one (from zero where the key was
  missing), writes the parent's updates, and keeps everything else, at both levels.
\<close>
theorem sql_json_increment_counts:
  assumes col: "obj_or_null col" "obj_or_null (col_path col [a])"
    and n: "coalesce_int (col_path col [a, b]) = Inr n" and u: "wf_dict u" "b \<notin> set (keys u)"
  shows "\<exists>r. sql_json_increment col [a, b] (Some (JObj u)) = Inr r \<and>
    json_path r [a, b] = Some (JInt (n + 1)) \<and>
    (\<forall>k\<in>set (keys u). json_path r [a, k] = map_of u k) \<and>
    (\<forall>k ks. k \<notin> set (keys u) \<longrightarrow> k \<noteq> b \<longrightarrow> json_path r (a # k # ks) = col_path col (a # k # ks)) \<and>
    (\<forall>k ks. k \<noteq> a \<longrightarrow> json_path r (k # ks) = col_path col (k # ks))"
proof -
  obtain top where top: "coalesce_obj col = JObj top" using obj_or_null_coalesce[OF col(1)] by blast
  obtain par where par: "coalesce_obj (col_path col [a]) = JObj par" using obj_or_null_coalesce[OF col(2)] by blast
  let ?par = "dict_merge (dict_merge par [(b, JInt (n + 1))]) u"
  let ?r = "jsonb_concat (JObj top) (JObj [(a, JObj ?par)])"
  have ev: "sql_json_increment col [a, b] (Some (JObj u)) = Inr ?r"
    using n top par by (cases col) (simp_all add: sql_json_increment_def Let_def col_path_def)
  note rd = json_path_concat_single[OF col(1) top, of a "JObj ?par"]
  have pm: "map_of ?par k = (case map_of u k of Some v \<Rightarrow> Some v | None \<Rightarrow> if k = b then Some (JInt (n + 1)) else map_of par k)" for k
    using u(1) by (auto simp: map_of_dict_merge split: option.splits)
  have nu: "map_of u k = None" if "k \<notin> set (keys u)" for k using that by (simp add: map_of_eq_None_iff)
  have pk: "json_path (JObj ?par) (k # ks) = col_path col (a # k # ks)" if "k \<notin> set (keys u)" "k \<noteq> b" for k ks
    using pm[of k] nu that col_path_bind[of col "[a]" "k # ks"] col_path_Cons[OF col(2) par] by simp
  have "json_path ?r [a, b] = Some (JInt (n + 1))" using rd pm[of b] nu[OF u(2)] by simp
  moreover have "json_path ?r [a, k] = map_of u k" if "k \<in> set (keys u)" for k
  proof -
    obtain v where "map_of u k = Some v"
      using weak_map_of_SomeI[of k _ u] \<open>k \<in> set (keys u)\<close> by (auto, blast)
    with rd pm[of k] show ?thesis by simp
  qed
  moreover have "json_path ?r (a # k # ks) = col_path col (a # k # ks)" if "k \<notin> set (keys u)" "k \<noteq> b" for k ks
    using rd pk[OF that] by simp
  moreover have "json_path ?r (k # ks) = col_path col (k # ks)" if "k \<noteq> a" for k ks
    using rd that by simp
  ultimately show ?thesis using ev by blast
qed

theorem sql_json_increment_counts_witness:
  "\<exists>r. sql_json_increment None [''scheduler'', ''retries''] (Some (JObj [(''msg'', JStr ''full'')])) = Inr r \<and>
    json_path r [''scheduler'', ''retries''] = Some (JInt 1)"
proof -
  have "obj_or_null None" "obj_or_null (col_path None [''scheduler''])"
    "coalesce_int (col_path None [''scheduler'', ''retries'']) = Inr 0" by code_simp+
  from sql_json_increment_counts[OF this, of "[(''msg'', JStr ''full'')]"] show ?thesis by auto
qed

end
