(* ===== verification/PyStrings.thy ===== *)
theory PyStrings
  imports Decimals "HOL-Library.Char_ord"
begin

text \<open>
  Numbers as text: \<open>str(int)\<close>, \<open>int(str)\<close>, the decimal floats of \<open>decimal.Decimal\<close> with their sign,
  coefficient and exponent, how they are printed (\<open>str\<close> and the format code \<open>f\<close>) and how
  \<open>Decimal(str)\<close> reads them.  Strings are ASCII.
\<close>

section \<open>Characters and digits\<close>

definition digit_val :: "char \<Rightarrow> nat option" where
  "digit_val c = (let n = of_char c in if 48 \<le> n \<and> n \<le> 57 then Some (n - 48) else None)"

definition digit_char :: "nat \<Rightarrow> char" where
  "digit_char n = char_of (48 + n)"

definition is_digit :: "char \<Rightarrow> bool" where
  "is_digit c = (digit_val c \<noteq> None)"

definition is_space :: "char \<Rightarrow> bool" where
  "is_space c = (let n = (of_char c :: nat) in n = 32 \<or> (9 \<le> n \<and> n \<le> 13) \<or> (28 \<le> n \<and> n \<le> 31))"

definition char_lower :: "char \<Rightarrow> char" where
  "char_lower c = (let n = (of_char c :: nat) in if 65 \<le> n \<and> n \<le> 90 then char_of (n + 32) else c)"

definition str_lower :: "string \<Rightarrow> string" where
  "str_lower s = map char_lower s"

definition str_strip :: "string \<Rightarrow> string" where
  "str_strip s = rev (dropWhile is_space (rev (dropWhile is_space s)))"

definition ends_with :: "string \<Rightarrow> string \<Rightarrow> bool" where
  "ends_with s e = (length e \<le> length s \<and> drop (length s - length e) s = e)"

text \<open>\<open>sep.join(xs)\<close>.\<close>

fun join :: "string \<Rightarrow> string list \<Rightarrow> string" where
  "join sep [] = []"
| "join sep [x] = x"
| "join sep (x # y # xs) = x @ sep @ join sep (y # xs)"

text \<open>\<open>s.split(c, maxsplit=1)\<close> and \<open>s.rsplit(c, maxsplit=1)\<close>: the second part is absent without separator.\<close>

definition split_first :: "char \<Rightarrow> string \<Rightarrow> string \<times> string option" where
  "split_first c s = (if c \<in> set s then (takeWhile (\<lambda>x. x \<noteq> c) s, Some (tl (dropWhile (\<lambda>x. x \<noteq> c) s))) else (s, None))"

definition split_last :: "char \<Rightarrow> string \<Rightarrow> string \<times> string option" where
  "split_last c s =
     (if c \<in> set s then (rev (tl (dropWhile (\<lambda>x. x \<noteq> c) (rev s))), Some (rev (takeWhile (\<lambda>x. x \<noteq> c) (rev s)))) else (s, None))"

text \<open>\<open>s.split(c)\<close>.\<close>

fun split_on :: "char \<Rightarrow> string \<Rightarrow> string list" where
  "split_on c [] = [[]]"
| "split_on c (x # xs) = (if x = c then [] # split_on c xs else (case split_on c xs of [] \<Rightarrow> [[x]] | y # ys \<Rightarrow> (x # y) # ys))"

lemma split_first_append: "c \<notin> set a \<Longrightarrow> split_first c (a @ c # b) = (a, Some b)"
  by (induction a) (auto simp: split_first_def split: if_splits)

lemma split_on_join:
  assumes "ps \<noteq> []" and "\<forall>p\<in>set ps. c \<notin> set p"
  shows "split_on c (join [c] ps) = ps"
proof -
  have pre: "split_on c (p @ c # r) = p # split_on c r" if "c \<notin> set p" for p r using that by (induction p) auto
  have one: "split_on c p = [p]" if "c \<notin> set p" for p using that by (induction p) auto
  show ?thesis using assms by (induction "[c]" ps rule: join.induct) (auto simp: one pre)
qed

lemma map_join: "map f (join sep ps) = join (map f sep) (map (map f) ps)"
  by (induction sep ps rule: join.induct) auto

lemma set_join: "set (join sep ps) \<subseteq> set sep \<union> \<Union> (set ` set ps)"
  by (induction sep ps rule: join.induct) auto

lemma parts_in_join: "p \<in> set ps \<Longrightarrow> set p \<subseteq> set (join sep ps)"
  by (induction sep ps rule: join.induct) auto

section \<open>Natural numbers and integers\<close>

fun show_nat :: "nat \<Rightarrow> string" where
  "show_nat n = (if n < 10 then [digit_char n] else show_nat (n div 10) @ [digit_char (n mod 10)])"

declare show_nat.simps [simp del]

definition show_int :: "int \<Rightarrow> string" where
  "show_int n = (if n < 0 then ''-'' @ show_nat (nat (- n)) else show_nat (nat n))"

text \<open>The value of a string of digits, \<open>acc\<close> being the value of the digits before.\<close>

fun digits_val :: "nat \<Rightarrow> string \<Rightarrow> nat option" where
  "digits_val acc [] = Some acc"
| "digits_val acc (c # cs) = Option.bind (digit_val c) (\<lambda>d. digits_val (10 * acc + d) cs)"

definition parse_nat :: "string \<Rightarrow> nat option" where
  "parse_nat s = (if s = [] then None else digits_val 0 s)"

definition strip_sign :: "string \<Rightarrow> bool \<times> string" where
  "strip_sign s = (case s of c # cs \<Rightarrow> if c = CHR ''-'' then (True, cs) else if c = CHR ''+'' then (False, cs) else (False, s)
     | [] \<Rightarrow> (False, []))"

text \<open>\<open>int(s)\<close> for a string without digit separators.\<close>

definition parse_int :: "string \<Rightarrow> int res" where
  "parse_int s =
     (let (neg, ds) = strip_sign (str_strip s)
      in case parse_nat ds of None \<Rightarrow> Inl ValueError | Some n \<Rightarrow> Inr (if neg then - int n else int n))"

section \<open>Decimal floats\<close>

text \<open>Sign, coefficient and exponent, or an infinity with its sign.\<close>

datatype drepr = DFin bool nat int | DInf bool

fun dvalue :: "drepr \<Rightarrow> decimal" where
  "dvalue (DFin neg c e) = Fin ((if neg then -1 else 1) * of_nat c * 10 powi e)"
| "dvalue (DInf neg) = (if neg then NInf else PInf)"

definition repl_zeros :: "nat \<Rightarrow> string" where
  "repl_zeros n = replicate n CHR ''0''"

definition sign_str :: "bool \<Rightarrow> string" where
  "sign_str neg = (if neg then ''-'' else [])"

text \<open>The coefficient with the decimal point \<open>k\<close> digits before its end.\<close>

definition with_point :: "string \<Rightarrow> nat \<Rightarrow> string" where
  "with_point ds k =
     (let padded = (if length ds \<le> k then repl_zeros (k + 1 - length ds) @ ds else ds); n = length padded - k
      in take n padded @ (if k = 0 then [] else ''.'' @ drop n padded))"

text \<open>The format code \<open>f\<close>: never scientific; a zero with a positive exponent is printed as one digit.\<close>

fun format_f :: "drepr \<Rightarrow> string" where
  "format_f (DFin neg c e) =
     sign_str neg @ (if 0 \<le> e then show_nat c @ (if c = 0 then [] else repl_zeros (nat e)) else with_point (show_nat c) (nat (- e)))"
| "format_f (DInf neg) = sign_str neg @ ''Infinity''"

text \<open>\<open>str(Decimal)\<close>: scientific notation for a positive exponent or a very small number.\<close>

fun dec_str :: "drepr \<Rightarrow> string" where
  "dec_str (DFin neg c e) =
     (let ds = show_nat c; leftdigits = e + int (length ds)
      in sign_str neg @
         (if e \<le> 0 \<and> leftdigits > -6 then with_point ds (nat (- e))
          else with_point ds (length ds - 1) @
            (let x = leftdigits - 1 in ''E'' @ (if x < 0 then [] else ''+'') @ show_int x)))"
| "dec_str (DInf neg) = sign_str neg @ ''Infinity''"

text \<open>\<open>normalize()\<close> strips the trailing zeros of the coefficient.\<close>

function strip_zeros :: "nat \<Rightarrow> int \<Rightarrow> nat \<times> int" where
  "strip_zeros c e = (if c \<noteq> 0 \<and> 10 dvd c then strip_zeros (c div 10) (e + 1) else (c, e))"
  by pat_completeness auto
termination
  by (relation "measure (\<lambda>(c, e). c)") auto

declare strip_zeros.simps [simp del]

fun dec_normalize :: "drepr \<Rightarrow> drepr" where
  "dec_normalize (DFin neg c e) = (if c = 0 then DFin neg 0 0 else (let (c', e') = strip_zeros c e in DFin neg c' e'))"
| "dec_normalize (DInf neg) = DInf neg"

text \<open>\<open>Decimal(str)\<close>: an optional sign, digits with at most one point, an optional exponent; the words
  for infinity and the two kinds of NaN.\<close>

datatype num = Num drepr | QNaN | SNaN

definition parse_exp :: "string \<Rightarrow> int option" where
  "parse_exp s = (let (neg, ds) = strip_sign s in map_option (\<lambda>n. if neg then - int n else int n) (parse_nat ds))"

definition parse_mantissa :: "string \<Rightarrow> (nat \<times> int) option" where
  "parse_mantissa s =
     (let ip = takeWhile (\<lambda>c. c \<noteq> CHR ''.'') s; fp = drop 1 (dropWhile (\<lambda>c. c \<noteq> CHR ''.'') s)
      in if ip @ fp = [] then None else map_option (\<lambda>c. (c, - int (length fp))) (parse_nat (ip @ fp)))"

definition parse_finite :: "bool \<Rightarrow> string \<Rightarrow> num res" where
  "parse_finite neg s =
     (let is_e = (\<lambda>c. c = CHR ''e'' \<or> c = CHR ''E''); m = takeWhile (\<lambda>c. \<not> is_e c) s; x = dropWhile (\<lambda>c. \<not> is_e c) s
      in case parse_mantissa m of
           None \<Rightarrow> Inl InvalidOperation
         | Some (c, e) \<Rightarrow>
             (case x of
                [] \<Rightarrow> Inr (Num (DFin neg c e))
              | _ # xs \<Rightarrow> (case parse_exp xs of None \<Rightarrow> Inl InvalidOperation | Some k \<Rightarrow> Inr (Num (DFin neg c (e + k))))))"

definition parse_decimal :: "string \<Rightarrow> num res" where
  "parse_decimal s0 =
     (let (neg, s) = strip_sign (filter (\<lambda>c. c \<noteq> CHR ''_'') (str_strip s0)); l = str_lower s
      in if l = ''inf'' \<or> l = ''infinity'' then Inr (Num (DInf neg))
         else if take 3 l = ''nan'' \<and> list_all is_digit (drop 3 l) then Inr QNaN
         else if take 4 l = ''snan'' \<and> list_all is_digit (drop 4 l) then Inr SNaN
         else parse_finite neg s)"

section \<open>Reading back printed numbers\<close>

lemma digit_char_val: "n < 10 \<Longrightarrow> digit_val (digit_char n) = Some n"
  by (simp add: digit_val_def digit_char_def)

lemma digits_val_append: "digits_val acc (a @ b) = Option.bind (digits_val acc a) (\<lambda>n. digits_val n b)"
  by (induction a arbitrary: acc) (auto split: bind_splits)

lemma digits_val_show_nat: "digits_val 0 (show_nat n) = Some n"
proof (induction n rule: show_nat.induct)
  case (1 n)
  then show ?case
    by (subst show_nat.simps) (auto simp: digits_val_append digit_char_val)
qed

lemma show_nat_not_Nil [simp]: "show_nat n \<noteq> []"
  by (subst show_nat.simps) simp

lemma show_nat_digits: "c \<in> set (show_nat n) \<Longrightarrow> \<exists>d<10. c = digit_char d"
proof (induction n rule: show_nat.induct)
  case (1 n)
  show ?case
  proof (cases "n < 10")
    case True
    with 1(2) show ?thesis by (subst (asm) show_nat.simps) auto
  next
    case False
    with 1 show ?thesis by (subst (asm) (2) show_nat.simps) (auto intro: exI[of _ "n mod 10"])
  qed
qed

lemma parse_nat_show_nat [simp]: "parse_nat (show_nat n) = Some n"
  by (simp add: parse_nat_def digits_val_show_nat)

definition plain_digit :: "char \<Rightarrow> bool" where
  "plain_digit c \<longleftrightarrow> \<not> is_space c \<and> c \<notin> set ''-+.eE_'' \<and> is_digit c \<and> char_lower c = c"

lemma digit_char_plain: "d < 10 \<Longrightarrow> plain_digit (digit_char d)"
proof -
  have "list_all (\<lambda>d. plain_digit (digit_char d)) [0..<10]" by code_simp
  then show "d < 10 \<Longrightarrow> plain_digit (digit_char d)" by (simp add: list_all_iff)
qed

lemma show_nat_plain: "list_all plain_digit (show_nat n)"
  using show_nat_digits digit_char_plain by (fastforce simp: list_all_iff)

lemma repl_zeros_plain: "list_all plain_digit (repl_zeros n)"
proof -
  have "plain_digit CHR ''0''" by code_simp
  then show ?thesis by (simp add: repl_zeros_def list_all_iff)
qed

text \<open>A string of digits, with or without a sign or a point, is not changed by stripping.\<close>

lemma str_strip_id: "s \<noteq> [] \<Longrightarrow> \<not> is_space (hd s) \<Longrightarrow> \<not> is_space (last s) \<Longrightarrow> str_strip s = s"
proof -
  assume s: "s \<noteq> []" "\<not> is_space (hd s)" "\<not> is_space (last s)"
  have 1: "dropWhile is_space xs = xs" if "xs \<noteq> []" "\<not> is_space (hd xs)" for xs using that by (cases xs) auto
  have "dropWhile is_space (rev s) = rev s" using s by (intro 1) (simp_all add: hd_rev)
  then show ?thesis using s 1[of s] by (simp add: str_strip_def)
qed

lemma parse_int_show_int: "parse_int (show_int n) = Inr n"
proof -
  have sp: "\<not> is_space CHR ''-''" by code_simp
  have p: "plain_digit (hd (show_nat m)) \<and> plain_digit (last (show_nat m))" for m
    using show_nat_plain[of m] by (simp add: list_all_iff)
  show ?thesis
  proof (cases "n < 0")
    case True
    then have "str_strip (show_int n) = show_int n"
      using p[of "nat (- n)"] sp by (intro str_strip_id) (auto simp: show_int_def plain_digit_def)
    with True show ?thesis by (simp add: parse_int_def show_int_def strip_sign_def)
  next
    case False
    obtain c cs where c: "show_nat (nat n) = c # cs" by (cases "show_nat (nat n)") auto
    have "str_strip (show_int n) = show_int n"
      using False p[of "nat n"] by (intro str_strip_id) (auto simp: show_int_def plain_digit_def)
    moreover have "c \<noteq> CHR ''-''" "c \<noteq> CHR ''+''" using p[of "nat n"] c by (auto simp: plain_digit_def)
    ultimately show ?thesis
      using False c parse_nat_show_nat[of "nat n"] by (simp add: parse_int_def show_int_def strip_sign_def)
  qed
qed

lemma digits_val_zeros: "digits_val acc (repl_zeros k) = Some (acc * 10 ^ k)"
proof -
  have z: "digit_val CHR ''0'' = Some 0" by code_simp
  show ?thesis
    unfolding repl_zeros_def by (induction k arbitrary: acc) (simp_all add: z)
qed

lemma parse_nat_zeros_show: "parse_nat (repl_zeros k @ show_nat n) = Some n"
  by (simp add: parse_nat_def digits_val_append digits_val_zeros digits_val_show_nat)

lemma parse_nat_show_zeros: "parse_nat (show_nat n @ repl_zeros k) = Some (n * 10 ^ k)"
  by (simp add: parse_nat_def digits_val_append digits_val_zeros digits_val_show_nat)

text \<open>Digits with at most a point inside, as both printers produce them for finite numbers.\<close>

definition num_body :: "string \<Rightarrow> bool" where
  "num_body s \<longleftrightarrow> s \<noteq> [] \<and> plain_digit (hd s) \<and> plain_digit (last s) \<and> list_all (\<lambda>c. plain_digit c \<or> c = CHR ''.'') s"

lemma parse_decimal_signed:
  assumes s: "s \<noteq> []" "plain_digit (hd s)" "plain_digit (last s)" "CHR ''_'' \<notin> set s"
  shows "parse_decimal (sign_str neg @ s) = parse_finite neg s"
proof -
  obtain c cs where cs: "s = c # cs" using s(1) by (cases s) auto
  have c: "plain_digit c" using s(2) cs by simp
  have sp: "\<not> is_space CHR ''-''" by code_simp
  have str: "str_strip (sign_str neg @ s) = sign_str neg @ s"
    using s sp by (intro str_strip_id) (auto simp: sign_str_def plain_digit_def)
  have "filter (\<lambda>c. c \<noteq> CHR ''_'') s = s" using s(4) by (intro filter_True) auto
  then have fil: "filter (\<lambda>c. c \<noteq> CHR ''_'') (sign_str neg @ s) = sign_str neg @ s" by (simp add: sign_str_def)
  have sgn: "strip_sign (sign_str neg @ s) = (neg, s)"
    using c cs by (auto simp: strip_sign_def sign_str_def plain_digit_def)
  have low: "str_lower s = c # str_lower cs" using c cs by (simp add: str_lower_def plain_digit_def)
  have "is_digit c" using c by (simp add: plain_digit_def)
  moreover have "\<not> is_digit CHR ''i''" "\<not> is_digit CHR ''n''" "\<not> is_digit CHR ''s''" by code_simp+
  ultimately have "c \<noteq> CHR ''i''" "c \<noteq> CHR ''n''" "c \<noteq> CHR ''s''" by auto
  then show ?thesis unfolding parse_decimal_def str fil sgn Let_def prod.case low by simp
qed

lemma parse_decimal_body: "num_body s \<Longrightarrow> parse_decimal (sign_str neg @ s) = parse_finite neg s"
  by (rule parse_decimal_signed) (auto simp: num_body_def plain_digit_def list_all_iff)

lemma parse_finite_body:
  assumes "num_body s"
  shows "parse_finite neg s = (case parse_mantissa s of None \<Rightarrow> Inl InvalidOperation | Some (c, e) \<Rightarrow> Inr (Num (DFin neg c e)))"
proof -
  have "\<forall>c\<in>set s. \<not> (c = CHR ''e'' \<or> c = CHR ''E'')"
    using assms by (auto simp: num_body_def plain_digit_def list_all_iff)
  then have w: "takeWhile (\<lambda>c. \<not> (c = CHR ''e'' \<or> c = CHR ''E'')) s = s" "dropWhile (\<lambda>c. \<not> (c = CHR ''e'' \<or> c = CHR ''E'')) s = []"
    by (simp_all add: takeWhile_eq_all_conv dropWhile_eq_Nil_conv)
  show ?thesis unfolding parse_finite_def Let_def w list.case ..
qed

lemma plain_no_point: "list_all plain_digit s \<Longrightarrow> takeWhile (\<lambda>c. c \<noteq> CHR ''.'') (s @ t) = s @ takeWhile (\<lambda>c. c \<noteq> CHR ''.'') t \<and>
    dropWhile (\<lambda>c. c \<noteq> CHR ''.'') (s @ t) = dropWhile (\<lambda>c. c \<noteq> CHR ''.'') t"
  by (induction s) (auto simp: plain_digit_def)

lemma parse_mantissa_int:
  assumes "list_all plain_digit s" and "s \<noteq> []"
  shows "parse_mantissa s = map_option (\<lambda>c. (c, 0)) (parse_nat s)"
proof -
  have w: "takeWhile (\<lambda>c. c \<noteq> CHR ''.'') s = s" "dropWhile (\<lambda>c. c \<noteq> CHR ''.'') s = []"
    using plain_no_point[OF assms(1), of "[]"] by simp_all
  show ?thesis unfolding parse_mantissa_def Let_def w using assms(2) by simp
qed

lemma parse_mantissa_point:
  assumes "list_all plain_digit a"
  shows "parse_mantissa (a @ ''.'' @ b) = (if a @ b = [] then None else map_option (\<lambda>c. (c, - int (length b))) (parse_nat (a @ b)))"
  using plain_no_point[OF assms, of "''.'' @ b"] by (simp add: parse_mantissa_def Let_def)

lemma num_body_digits: "list_all plain_digit s \<Longrightarrow> s \<noteq> [] \<Longrightarrow> num_body s"
  by (auto simp: num_body_def list_all_iff)

lemma num_body_point:
  "list_all plain_digit a \<Longrightarrow> list_all plain_digit b \<Longrightarrow> a \<noteq> [] \<Longrightarrow> b \<noteq> [] \<Longrightarrow> num_body (a @ ''.'' @ b)"
  by (auto simp: num_body_def list_all_iff)

lemma with_point_parse:
  assumes "list_all plain_digit ds" and "ds \<noteq> []" and "parse_nat ds = Some c"
    and zeros: "\<And>k. parse_nat (repl_zeros k @ ds) = Some c"
  shows "num_body (with_point ds k) \<and> parse_mantissa (with_point ds k) = Some (c, - int k)"
proof (cases "k = 0")
  case True
  then show ?thesis
    using assms(1-3) num_body_digits[OF assms(1,2)] parse_mantissa_int[OF assms(1,2)] by (simp add: with_point_def)
next
  case False
  define padded where "padded = (if length ds \<le> k then repl_zeros (k + 1 - length ds) @ ds else ds)"
  let ?n = "length padded - k"
  have len: "k < length padded" by (simp add: padded_def repl_zeros_def)
  have dig: "list_all plain_digit padded" using assms(1) repl_zeros_plain by (simp add: padded_def)
  then have d: "list_all plain_digit (take ?n padded)" "list_all plain_digit (drop ?n padded)"
    by (auto simp: list_all_iff dest: in_set_takeD in_set_dropD)
  have wp: "with_point ds k = take ?n padded @ ''.'' @ drop ?n padded"
    using False by (simp add: with_point_def padded_def Let_def)
  have "parse_nat padded = Some c" using assms(3) zeros by (simp add: padded_def)
  then have "parse_mantissa (with_point ds k) = Some (c, - int k)"
    using len unfolding wp parse_mantissa_point[OF d(1)] by auto
  moreover have "num_body (with_point ds k)"
    unfolding wp using d len False by (intro num_body_point) auto
  ultimately show ?thesis by blast
qed

lemma format_f_parse:
  "\<exists>r'. parse_decimal (format_f r) = Inr (Num r') \<and> dvalue r' = dvalue r"
proof (cases r)
  case (DFin neg c e)
  show ?thesis
  proof (cases "0 \<le> e")
    case True
    let ?s = "show_nat c @ (if c = 0 then [] else repl_zeros (nat e))"
    have d: "list_all plain_digit ?s" using show_nat_plain repl_zeros_plain by simp
    have "parse_decimal (format_f r) = Inr (Num (DFin neg (c * 10 ^ nat e) 0))"
      using parse_decimal_body[OF num_body_digits[OF d]] parse_finite_body[OF num_body_digits[OF d]]
        parse_mantissa_int[OF d] parse_nat_show_zeros[of c "nat e"] DFin True
      by (simp split: if_splits)
    moreover have "(10 :: rat) ^ nat e = 10 powi e" using True by (simp add: power_int_def)
    ultimately show ?thesis using DFin by (intro exI[of _ "DFin neg (c * 10 ^ nat e) 0"]) simp
  next
    case False
    let ?s = "with_point (show_nat c) (nat (- e))"
    have "num_body ?s \<and> parse_mantissa ?s = Some (c, - int (nat (- e)))"
      by (rule with_point_parse) (simp_all add: show_nat_plain parse_nat_zeros_show)
    then have "parse_decimal (format_f r) = Inr (Num r)"
      using parse_decimal_body[of ?s neg] parse_finite_body[of ?s neg] DFin False by simp
    then show ?thesis by blast
  qed
next
  case (DInf neg)
  have "parse_decimal ''Infinity'' = Inr (Num (DInf False))" "parse_decimal ''-Infinity'' = Inr (Num (DInf True))"
    by code_simp+
  then show ?thesis using DInf by (cases neg) (auto simp: sign_str_def)
qed

text \<open>\<open>str(Decimal)\<close> in lower case reads back, in plain and in scientific notation.\<close>

lemma str_lower_plain: "list_all (\<lambda>c. plain_digit c \<or> c = CHR ''.'') s \<Longrightarrow> str_lower s = s"
proof -
  have "char_lower CHR ''.'' = CHR ''.''" by code_simp
  then show "list_all (\<lambda>c. plain_digit c \<or> c = CHR ''.'') s \<Longrightarrow> str_lower s = s"
    unfolding str_lower_def by (intro map_idI) (auto simp: list_all_iff plain_digit_def)
qed

lemma str_lower_append [simp]: "str_lower (a @ b) = str_lower a @ str_lower b"
  by (simp add: str_lower_def)

lemma str_lower_sign [simp]: "str_lower (sign_str neg) = sign_str neg"
proof -
  have "str_lower ''-'' = ''-''" by code_simp
  then show ?thesis by (simp add: sign_str_def) (simp add: str_lower_def)
qed

lemma parse_finite_sci:
  assumes "num_body m" and "parse_mantissa m = Some (c, e)" and "parse_exp x = Some k"
  shows "parse_finite neg (m @ ''e'' @ x) = Inr (Num (DFin neg c (e + k)))"
proof -
  have ne: "\<forall>c\<in>set m. \<not> (c = CHR ''e'' \<or> c = CHR ''E'')"
    using assms(1) by (auto simp: num_body_def plain_digit_def list_all_iff)
  have w: "takeWhile (\<lambda>c. \<not> (c = CHR ''e'' \<or> c = CHR ''E'')) (m @ ''e'' @ x) = m"
    "dropWhile (\<lambda>c. \<not> (c = CHR ''e'' \<or> c = CHR ''E'')) (m @ ''e'' @ x) = CHR ''e'' # x"
    using takeWhile_append2[of m "\<lambda>c. \<not> (c = CHR ''e'' \<or> c = CHR ''E'')"] dropWhile_append2[of m "\<lambda>c. \<not> (c = CHR ''e'' \<or> c = CHR ''E'')"] ne
    by simp_all
  show ?thesis unfolding parse_finite_def Let_def w using assms(2,3) by simp
qed

definition exp_str :: "int \<Rightarrow> string" where
  "exp_str x = (if x < 0 then [] else ''+'') @ show_int x"

lemma parse_exp_str: "parse_exp (exp_str x) = Some x"
  by (simp add: parse_exp_def exp_str_def show_int_def strip_sign_def)

lemma show_nat_lower: "str_lower (show_nat n) = show_nat n"
  by (rule str_lower_plain) (use show_nat_plain[of n] in \<open>simp add: list_all_iff\<close>)

lemma exp_str_props: "exp_str x \<noteq> []" "plain_digit (last (exp_str x))" "CHR ''_'' \<notin> set (exp_str x)" "str_lower (exp_str x) = exp_str x"
proof -
  have p: "list_all plain_digit (show_nat n)" for n by (rule show_nat_plain)
  show "exp_str x \<noteq> []" by (simp add: exp_str_def show_int_def)
  have "plain_digit (last (show_nat n))" for n using p[of n] last_in_set[of "show_nat n"] by (simp add: list_all_iff)
  then show "plain_digit (last (exp_str x))" by (simp add: exp_str_def show_int_def)
  show "CHR ''_'' \<notin> set (exp_str x)" using p by (auto simp: exp_str_def show_int_def list_all_iff plain_digit_def)
  have "char_lower CHR ''-'' = CHR ''-''" "char_lower CHR ''+'' = CHR ''+''" by code_simp+
  then show "str_lower (exp_str x) = exp_str x"
    using show_nat_lower by (simp add: exp_str_def show_int_def) (simp add: str_lower_def)
qed

lemma dec_str_shape:
  obtains m where "num_body m" "parse_mantissa m = Some (c, e)" "dec_str (DFin neg c e) = sign_str neg @ m"
  | m k x where "num_body m" "parse_mantissa m = Some (c, k)" "k + x = e" "dec_str (DFin neg c e) = sign_str neg @ m @ ''E'' @ exp_str x"
proof -
  let ?ds = "show_nat c"
  note wp = with_point_parse[of ?ds c, OF show_nat_plain show_nat_not_Nil parse_nat_show_nat parse_nat_zeros_show]
  show thesis
  proof (cases "e \<le> 0 \<and> e + int (length ?ds) > -6")
    case True
    show thesis
      by (rule that(1)[of "with_point ?ds (nat (- e))"]) (use wp[of "nat (- e)"] True in \<open>auto simp: Let_def\<close>)
  next
    case False
    have "length ?ds \<noteq> 0" by simp
    then have len: "int (length ?ds - 1) = int (length ?ds) - 1" by (cases "length ?ds") auto
    show thesis
      by (rule that(2)[of "with_point ?ds (length ?ds - 1)" "- int (length ?ds - 1)" "e + int (length ?ds) - 1"])
        (use wp[of "length ?ds - 1"] False len in \<open>auto simp: Let_def exp_str_def\<close>)
  qed
qed

lemma dec_str_parse: "parse_decimal (str_lower (dec_str (DFin neg c e))) = Inr (Num (DFin neg c e))"
proof (cases rule: dec_str_shape[of c e neg])
  case (1 m)
  then have "str_lower m = m" by (intro str_lower_plain) (simp add: num_body_def)
  then show ?thesis using 1 parse_decimal_body[OF 1(1)] parse_finite_body[OF 1(1)] by simp
next
  case (2 m k x)
  have l: "str_lower m = m" using 2(1) by (intro str_lower_plain) (simp add: num_body_def)
  have e: "str_lower ''E'' = ''e''" by code_simp
  have ds: "str_lower (dec_str (DFin neg c e)) = sign_str neg @ (m @ ''e'' @ exp_str x)"
    unfolding 2(4) str_lower_append str_lower_sign l e exp_str_props(4) ..
  have "parse_decimal (sign_str neg @ (m @ ''e'' @ exp_str x)) = parse_finite neg (m @ ''e'' @ exp_str x)"
    using 2(1) exp_str_props[of x] by (intro parse_decimal_signed) (auto simp: num_body_def plain_digit_def list_all_iff)
  also have "\<dots> = Inr (Num (DFin neg c (k + x)))" by (rule parse_finite_sci[OF 2(1,2) parse_exp_str])
  finally show ?thesis using ds 2(3) by simp
qed

lemma dec_str_ends: "dec_str (DFin False c e) \<noteq> [] \<and> plain_digit (hd (dec_str (DFin False c e))) \<and>
    plain_digit (last (dec_str (DFin False c e))) \<and> CHR ''_'' \<notin> set (dec_str (DFin False c e))"
proof (cases rule: dec_str_shape[of c e False])
  case (1 m)
  then show ?thesis by (auto simp: sign_str_def num_body_def plain_digit_def list_all_iff)
next
  case (2 m k x)
  then show ?thesis
    using exp_str_props[of x] by (auto simp: sign_str_def num_body_def plain_digit_def list_all_iff)
qed

lemma strip_zeros_value: "strip_zeros c e = (c', e') \<Longrightarrow> of_nat c' * 10 powi e' = (of_nat c * 10 powi e :: rat)"
proof (induction c e arbitrary: c' e' rule: strip_zeros.induct)
  case (1 c e)
  show ?case
  proof (cases "c \<noteq> 0 \<and> 10 dvd c")
    case True
    then obtain d where d: "c = 10 * d" by auto
    have "strip_zeros (c div 10) (e + 1) = (c', e')" using 1(2) True by (subst (asm) strip_zeros.simps) simp
    from 1(1)[OF True this] d show ?thesis by (simp add: power_int_add)
  next
    case False
    then show ?thesis using 1(2) by (subst (asm) strip_zeros.simps) auto
  qed
qed

lemma dec_normalize_value: "dvalue (dec_normalize r) = dvalue r"
proof (cases r)
  case (DFin neg c e)
  obtain c' e' where s: "strip_zeros c e = (c', e')" by (cases "strip_zeros c e")
  from strip_zeros_value[OF s] DFin s show ?thesis by (auto simp: mult.assoc)
qed simp

end
