(* ===== verification/Paths.thy ===== *)
theory Paths
  imports PyStrings
begin

text \<open>
  POSIX paths as \<open>pathlib.PurePosixPath\<close> and \<open>os.path.normpath\<close> treat them: a path is its root
  (nothing, one slash or two) and its parts; empty parts and points vanish when a text is read.
\<close>

section \<open>Pure paths\<close>

record ppath =
  pp_root :: string
  pp_parts :: "string list"

definition root_of :: "string \<Rightarrow> string" where
  "root_of s = (if take 1 s \<noteq> ''/'' then [] else if take 2 s = ''//'' \<and> take 3 s \<noteq> ''///'' then ''//'' else ''/'')"

definition parse_path :: "string \<Rightarrow> ppath" where
  "parse_path s = \<lparr>pp_root = root_of s, pp_parts = filter (\<lambda>x. x \<notin> {[], ''.''}) (split_on CHR ''/'' s)\<rparr>"

definition path_str :: "ppath \<Rightarrow> string" where
  "path_str p = (if pp_root p = [] \<and> pp_parts p = [] then ''.'' else pp_root p @ join ''/'' (pp_parts p))"

definition path_join :: "ppath \<Rightarrow> ppath \<Rightarrow> ppath" where
  "path_join a b = (if pp_root b \<noteq> [] then b else a\<lparr>pp_parts := pp_parts a @ pp_parts b\<rparr>)"

definition is_absolute :: "ppath \<Rightarrow> bool" where
  "is_absolute p \<longleftrightarrow> pp_root p \<noteq> []"

definition abs_parts :: "ppath \<Rightarrow> string list" where
  "abs_parts p = (if pp_root p = [] then pp_parts p else pp_root p # pp_parts p)"

definition is_relative_to :: "ppath \<Rightarrow> ppath \<Rightarrow> bool" where
  "is_relative_to a b \<longleftrightarrow>
     (if abs_parts b = [] then pp_root a = [] else take (length (abs_parts b)) (abs_parts a) = abs_parts b)"

section \<open>Normal form of a text\<close>

text \<open>The loop of \<open>normpath\<close>; the components collected so far are in reverse order.\<close>

fun norm_comps :: "bool \<Rightarrow> string list \<Rightarrow> string list \<Rightarrow> string list" where
  "norm_comps rooted acc [] = rev acc"
| "norm_comps rooted acc (c # cs) =
     (if c = [] \<or> c = ''.'' then norm_comps rooted acc cs
      else if c \<noteq> ''..'' \<or> \<not> rooted \<and> acc = [] \<or> (acc \<noteq> [] \<and> hd acc = ''..'') then norm_comps rooted (c # acc) cs
      else norm_comps rooted (tl acc) cs)"

definition normpath :: "string \<Rightarrow> string" where
  "normpath s =
     (if s = [] then ''.''
      else let r = root_of s @ join ''/'' (norm_comps (root_of s \<noteq> []) [] (split_on CHR ''/'' s))
           in if r = [] then ''.'' else r)"

section \<open>Printing and reading\<close>

definition wf_path :: "ppath \<Rightarrow> bool" where
  "wf_path p \<longleftrightarrow> pp_root p \<in> {[], ''/'', ''//''} \<and> (\<forall>c\<in>set (pp_parts p). c \<notin> {[], ''.''} \<and> CHR ''/'' \<notin> set c)"

lemma split_on_no_sep: "p \<in> set (split_on c s) \<Longrightarrow> c \<notin> set p"
  by (induction c s arbitrary: p rule: split_on.induct) (auto split: if_splits list.splits)

lemma parse_path_wf: "wf_path (parse_path s)"
  by (auto simp: wf_path_def parse_path_def root_of_def dest: split_on_no_sep)

lemma split_on_root: "split_on c (c # s) = [] # split_on c s"
  by simp

lemma join_first: "ps \<noteq> [] \<Longrightarrow> \<forall>p\<in>set ps. p \<noteq> [] \<Longrightarrow> join sep ps \<noteq> [] \<and> hd (join sep ps) = hd (hd ps)"
  by (induction sep ps rule: join.induct) auto

text \<open>A path that is printed and read again is the same path.\<close>

theorem path_str_roundtrip:
  assumes "wf_path p"
  shows "parse_path (path_str p) = p"
proof (cases "pp_parts p = []")
  case True
  with assms show ?thesis
    by (cases p) (auto simp: wf_path_def path_str_def parse_path_def root_of_def)
next
  case False
  let ?j = "join ''/'' (pp_parts p)"
  have w: "\<forall>c\<in>set (pp_parts p). c \<notin> {[], ''.''} \<and> CHR ''/'' \<notin> set c" "pp_root p \<in> {[], ''/'', ''//''}" using assms by (auto simp: wf_path_def)
  have j: "?j \<noteq> []" "hd ?j = hd (hd (pp_parts p))" using join_first[OF False] w(1) by auto
  have h: "hd ?j \<noteq> CHR ''/''"
  proof -
    have "hd (pp_parts p) \<noteq> []" "CHR ''/'' \<notin> set (hd (pp_parts p))" using w(1) False by auto
    then show ?thesis unfolding j(2) by (cases "hd (pp_parts p)") auto
  qed
  have s: "split_on CHR ''/'' ?j = pp_parts p" using w(1) False by (intro split_on_join) auto
  have "filter (\<lambda>x. x \<notin> {[], ''.''}) (pp_parts p) = pp_parts p" by (rule filter_True) (use w(1) in blast)
  with s have parts: "filter (\<lambda>x. x \<notin> {[], ''.''}) (split_on CHR ''/'' (pp_root p @ ?j)) = pp_parts p"
    using w(2) by (elim insertE emptyE) simp_all
  moreover have "root_of (pp_root p @ ?j) = pp_root p" using w(2) j(1) h by (cases ?j) (auto simp: root_of_def)
  ultimately show ?thesis using False by (cases p) (simp add: path_str_def parse_path_def)
qed

theorem path_str_roundtrip_witness:
  "wf_path (parse_path ''/home//work/./x'') \<and> parse_path (path_str (parse_path ''/home//work/./x'')) = parse_path ''/home//work/./x''"
  using path_str_roundtrip[OF parse_path_wf] parse_path_wf by blast

lemma relative_to_join: "wf_path b \<Longrightarrow> \<not> is_absolute b \<Longrightarrow> abs_parts a \<noteq> [] \<Longrightarrow> is_relative_to (path_join a b) a"
  by (auto simp: is_relative_to_def path_join_def is_absolute_def abs_parts_def)

end
