(* ===== verification/Database.thy ===== *)
theory Database
  imports ResourceSlots Json Paths
begin

text \<open>
  The state the manager's scheduler works on: the rows of the \<open>kernels\<close>, \<open>agents\<close>, resource
  policy, group, domain and dependency tables, the counters kept in Redis, the actual allocations
  the agent registry remembers in memory, and the events produced.  A transaction of the source is
  one function from database to database; a transaction that raises leaves the database as it was.
  Time stamps are integers.
\<close>

section \<open>Enumerations\<close>

datatype kernel_status =
    PENDING | SCHEDULED | PREPARING | BUILDING | PULLING | RUNNING | RESTARTING | RESIZING | SUSPENDED
  | TERMINATING | TERMINATED | ERROR | CANCELLED

datatype agent_status = ALIVE | LOST | AG_RESTARTING | AG_TERMINATED

datatype session_types = INTERACTIVE | BATCH

datatype session_result = UNDEFINED | SUCCESS | FAILURE

datatype cluster_mode = SINGLE_NODE | MULTI_NODE

datatype default_for_unspecified = LIMITED | UNLIMITED

definition all_kernel_statuses :: "kernel_status list" where
  "all_kernel_statuses = [PENDING, SCHEDULED, PREPARING, BUILDING, PULLING, RUNNING, RESTARTING, RESIZING,
     SUSPENDED, TERMINATING, TERMINATED, ERROR, CANCELLED]"

definition AGENT_RESOURCE_OCCUPYING_KERNEL_STATUSES :: "kernel_status list" where
  "AGENT_RESOURCE_OCCUPYING_KERNEL_STATUSES =
     filter (\<lambda>e. e \<notin> {TERMINATED, PENDING, CANCELLED}) all_kernel_statuses"

definition USER_RESOURCE_OCCUPYING_KERNEL_STATUSES :: "kernel_status list" where
  "USER_RESOURCE_OCCUPYING_KERNEL_STATUSES =
     filter (\<lambda>e. e \<notin> {TERMINATING, TERMINATED, PENDING, CANCELLED}) all_kernel_statuses"

definition RESOURCE_USAGE_KERNEL_STATUSES :: "kernel_status list" where
  "RESOURCE_USAGE_KERNEL_STATUSES = [TERMINATED, RUNNING]"

definition DEAD_KERNEL_STATUSES :: "kernel_status list" where
  "DEAD_KERNEL_STATUSES = [CANCELLED, TERMINATED]"

definition LIVE_STATUS :: "kernel_status list" where
  "LIVE_STATUS = [RUNNING]"

text \<open>The name of a status, the key of its entry in \<open>status_history\<close>.\<close>

fun status_name :: "kernel_status \<Rightarrow> string" where
  "status_name PENDING = ''PENDING''"
| "status_name SCHEDULED = ''SCHEDULED''"
| "status_name PREPARING = ''PREPARING''"
| "status_name BUILDING = ''BUILDING''"
| "status_name PULLING = ''PULLING''"
| "status_name RUNNING = ''RUNNING''"
| "status_name RESTARTING = ''RESTARTING''"
| "status_name RESIZING = ''RESIZING''"
| "status_name SUSPENDED = ''SUSPENDED''"
| "status_name TERMINATING = ''TERMINATING''"
| "status_name TERMINATED = ''TERMINATED''"
| "status_name ERROR = ''ERROR''"
| "status_name CANCELLED = ''CANCELLED''"

section \<open>Rows\<close>

datatype opt_val = OInt int | OStr string

text \<open>A virtual folder mounted into a session (\<open>VFolderMount\<close>).\<close>

datatype vfolder_permission = READ_ONLY | READ_WRITE | RW_DELETE

record vfolder_mount =
  vm_name :: string
  vm_vfid :: string
  vm_vfsubpath :: ppath
  vm_host_path :: ppath
  vm_kernel_path :: ppath
  vm_mount_perm :: vfolder_permission

record kernel_row =
  k_id :: string
  k_session_id :: string
  k_session_creation_id :: string
  k_session_name :: string
  k_session_type :: session_types
  k_cluster_mode :: cluster_mode
  k_cluster_size :: int
  k_cluster_role :: string
  k_cluster_idx :: int
  k_cluster_hostname :: string
  k_scaling_group :: "string option"
  k_agent :: "string option"
  k_agent_addr :: "string option"
  k_domain_name :: string
  k_group_id :: string
  k_user_uuid :: string
  k_access_key :: string
  k_image :: string
  k_architecture :: string
  k_registry :: string
  k_tag :: "string option"
  k_container_id :: "string option"
  k_occupied_slots :: slots
  k_environ :: "string list"
  k_vfolder_mounts :: "vfolder_mount list"
  k_attached_devices :: json
  k_resource_opts :: "(string, opt_val) dict"
  k_bootstrap_script :: "string option"
  k_kernel_host :: "string option"
  k_repl_in_port :: int
  k_repl_out_port :: int
  k_stdin_port :: int
  k_stdout_port :: int
  k_service_ports :: "json option"
  k_preopen_ports :: "int list"
  k_created_at :: int
  k_terminated_at :: "int option"
  k_starts_at :: "int option"
  k_status :: kernel_status
  k_status_changed :: "int option"
  k_status_info :: "string option"
  k_status_data :: "json option"
  k_status_history :: "json option"
  k_callback_url :: "string option"
  k_startup_command :: "string option"
  k_result :: session_result
  k_internal_data :: "json option"
  k_num_queries :: int
  k_last_stat :: "json option"

record agent_row =
  a_id :: string
  a_status :: agent_status
  a_status_changed :: "int option"
  a_region :: string
  a_scaling_group :: string
  a_schedulable :: bool
  a_available_slots :: slots
  a_occupied_slots :: slots
  a_addr :: string
  a_first_contact :: int
  a_lost_at :: "int option"
  a_version :: string
  a_architecture :: string
  a_compute_plugins :: json

record policy_row =
  p_default_for_unspecified :: default_for_unspecified
  p_total_resource_slots :: slots
  p_max_concurrent_sessions :: int
  p_max_containers_per_session :: int
  p_max_session_lifetime :: int
  p_idle_timeout :: int
  p_allowed_vfolder_hosts :: "string list"
  p_max_vfolder_count :: int
  p_max_vfolder_size :: int

record sgroup_row =
  sg_is_active :: bool
  sg_allowed_session_types :: "session_types list"
  sg_scheduler :: string
  sg_pending_timeout :: int
  sg_config :: "(string, int) dict"

datatype event =
    SessionCancelledEvent string string string
  | SessionEnqueuedEvent string string
  | SessionScheduledEvent string string
  | SessionPreparingEvent string string
  | DoPrepareEvent
  | SessionTerminatedEvent string string
  | SessionStartedEvent string string
  | KernelCancelledEvent string string string
  | KernelTerminatingEvent string string
  | KernelTerminatedEvent string string
  | AgentStartedEvent string string
  | DoTerminateSessionEvent string string
  | AgentTerminatedEvent string string

text \<open>
  Kernel rows are kept in the order of their creation, the order the scheduler's queries ask for.
  \<open>db_keypair_policy\<close> is the \<open>resource_policy\<close> column of the keypairs.  Of Redis there are the session
  counters (\<open>db_redis_stat\<close>), the kernels' statistics as they are after \<open>msgpack\<close> decoding
  (\<open>db_kernel_stats\<close>, in the same database under the kernel ids), \<open>agent.last_seen\<close> and the agents
  that have each image.  \<open>db_slot_types\<close> is \<open>config/resource_slots\<close> of etcd.
\<close>

record db =
  db_kernels :: "kernel_row list"
  db_agents :: "agent_row list"
  db_keypair_policy :: "(string, string) dict"
  db_policies :: "(string, policy_row) dict"
  db_groups :: "(string, slots) dict"
  db_domains :: "(string, slots) dict"
  db_scaling_groups :: "(string, sgroup_row) dict"
  db_dependencies :: "(string \<times> string) list"
  db_redis_stat :: "(string, int) dict"
  db_kernel_stats :: "(string, json) dict"
  db_last_seen :: "(string, int) dict"
  db_image_agents :: "(string, string list) dict"
  db_slot_types :: "(string, string) dict"
  db_actual_allocs :: "(string, slots) dict"
  db_events :: "event list"

section \<open>Queries and updates\<close>

definition update_kernels :: "(kernel_row \<Rightarrow> bool) \<Rightarrow> (kernel_row \<Rightarrow> kernel_row) \<Rightarrow> db \<Rightarrow> db" where
  "update_kernels P f s = s\<lparr>db_kernels := map (\<lambda>r. if P r then f r else r) (db_kernels s)\<rparr>"

definition update_agent :: "string \<Rightarrow> (agent_row \<Rightarrow> agent_row) \<Rightarrow> db \<Rightarrow> db" where
  "update_agent i f s = s\<lparr>db_agents := map (\<lambda>r. if a_id r = i then f r else r) (db_agents s)\<rparr>"

definition find_agent :: "db \<Rightarrow> string \<Rightarrow> agent_row option" where
  "find_agent s i = find (\<lambda>r. a_id r = i) (db_agents s)"

definition produce_event :: "event \<Rightarrow> db \<Rightarrow> db" where
  "produce_event e s = s\<lparr>db_events := db_events s @ [e]\<rparr>"

text \<open>A status change is recorded in \<open>status_history\<close>.\<close>

definition history_entry :: "kernel_status \<Rightarrow> int \<Rightarrow> kernel_row \<Rightarrow> json option" where
  "history_entry st now r = Some (sql_json_merge (k_status_history r) [] (JObj [(status_name st, JTime now)]))"

section \<open>Sums of slots\<close>

text \<open>
  \<open>sum(slots, zero)\<close> and the accumulating \<open>+=\<close> loops: \<open>ResourceSlot\<close> has no in-place addition, so
  each step builds a new object; the operands' added zero entries are dropped with them.
\<close>

definition rs_plus :: "slots \<Rightarrow> slots \<Rightarrow> slots res" where
  "rs_plus a b = bindE (rs_add a b) (\<lambda>(r, _, _). Inr r)"

definition rs_minus :: "slots \<Rightarrow> slots \<Rightarrow> slots res" where
  "rs_minus a b = bindE (rs_sub a b) (\<lambda>(r, _, _). Inr r)"

definition rs_sum :: "slots list \<Rightarrow> slots res" where
  "rs_sum xs = foldE rs_plus [] xs"

lemma rs_plus_fin:
  assumes "fin_slots a" and "fin_slots b"
  shows "\<exists>r. rs_plus a b = Inr r \<and> fin_slots r \<and> (\<forall>k. slot_amt r k = slot_amt a k + slot_amt b k)"
  by (rule rs_add_total[OF assms]) (auto simp: rs_plus_def)

lemma rs_minus_fin:
  assumes "fin_slots a" and "fin_slots b"
  shows "\<exists>r. rs_minus a b = Inr r \<and> fin_slots r \<and> (\<forall>k. slot_amt r k = slot_amt a k - slot_amt b k)"
  by (rule rs_sub_total[OF assms]) (auto simp: rs_minus_def)

lemma foldE_rs_plus_fin:
  "fin_slots z \<Longrightarrow> list_all fin_slots xs \<Longrightarrow>
     \<exists>r. foldE rs_plus z xs = Inr r \<and> fin_slots r \<and> (\<forall>k. slot_amt r k = slot_amt z k + sum_list (map (\<lambda>x. slot_amt x k) xs))"
proof (induction xs arbitrary: z)
  case (Cons x xs)
  obtain r where r: "rs_plus z x = Inr r" "fin_slots r" "\<And>k. slot_amt r k = slot_amt z k + slot_amt x k"
    using rs_plus_fin[of z x] Cons.prems by auto
  with Cons.IH[of r] Cons.prems obtain r' where "foldE rs_plus r xs = Inr r'" "fin_slots r'"
    "\<And>k. slot_amt r' k = slot_amt r k + sum_list (map (\<lambda>x. slot_amt x k) xs)" by auto
  with r show ?case by (simp add: add.assoc)
qed simp

lemma slot_amt_Nil [simp]: "slot_amt [] k = 0"
  by (simp add: slot_amt_def zero_decimal_def)

lemma rs_sum_fin:
  assumes "list_all fin_slots xs"
  shows "\<exists>r. rs_sum xs = Inr r \<and> fin_slots r \<and> (\<forall>k. slot_amt r k = sum_list (map (\<lambda>x. slot_amt x k) xs))"
  using foldE_rs_plus_fin[of "[]", OF _ assms] by (simp add: rs_sum_def)

lemma update_agent_ids [simp]: "(\<And>r. a_id (f r) = a_id r) \<Longrightarrow> map a_id (db_agents (update_agent i f s)) = map a_id (db_agents s)"
  by (simp add: update_agent_def comp_def if_distrib cong: if_cong)

lemma update_agent_simps [simp]:
  "db_kernels (update_agent i f s) = db_kernels s" "db_redis_stat (update_agent i f s) = db_redis_stat s"
  "db_events (update_agent i f s) = db_events s" "db_policies (update_agent i f s) = db_policies s"
  by (simp_all add: update_agent_def)

lemma update_kernels_simps [simp]:
  "db_agents (update_kernels P f s) = db_agents s" "db_redis_stat (update_kernels P f s) = db_redis_stat s"
  "db_events (update_kernels P f s) = db_events s" "db_policies (update_kernels P f s) = db_policies s"
  by (simp_all add: update_kernels_def)

lemma produce_event_simps [simp]:
  "db_agents (produce_event e s) = db_agents s" "db_kernels (produce_event e s) = db_kernels s"
  "db_redis_stat (produce_event e s) = db_redis_stat s" "db_policies (produce_event e s) = db_policies s"
  by (simp_all add: produce_event_def)

lemma find_agent_update:
  assumes "\<And>r. a_id (f r) = a_id r"
  shows "find_agent (update_agent i f s) j = (if j = i then map_option f (find_agent s j) else find_agent s j)"
proof -
  have "find (\<lambda>r. a_id r = j) (map (\<lambda>r. if a_id r = i then f r else r) xs) =
      (if j = i then map_option f (find (\<lambda>r. a_id r = j) xs) else find (\<lambda>r. a_id r = j) xs)" for xs
    using assms by (induction xs) auto
  then show ?thesis by (simp add: find_agent_def update_agent_def)
qed

lemma find_agent_Some: "find_agent s i = Some r \<Longrightarrow> r \<in> set (db_agents s) \<and> a_id r = i"
  unfolding find_agent_def by (drule find_SomeD) simp

lemma find_agent_distinct:
  "distinct (map a_id (db_agents s)) \<Longrightarrow> r \<in> set (db_agents s) \<Longrightarrow> find_agent s (a_id r) = Some r"
proof -
  have "distinct (map a_id xs) \<Longrightarrow> r \<in> set xs \<Longrightarrow> find (\<lambda>q. a_id q = a_id r) xs = Some r" for xs
    by (induction xs) (auto simp: rev_image_eqI)
  then show "distinct (map a_id (db_agents s)) \<Longrightarrow> r \<in> set (db_agents s) \<Longrightarrow> find_agent s (a_id r) = Some r"
    by (simp add: find_agent_def)
qed

end
