(* ===== verification/Sessions.thy ===== *)
theory Sessions
  imports Database
begin

text \<open>
  The data the schedulers see (\<open>manager/scheduler/types.py\<close>): agents, kernels, pending and existing
  sessions, and how \<open>from_rows\<close> groups the kernel rows of a query into sessions.
\<close>

record agent_context =
  ac_agent_id :: string
  ac_agent_addr :: string
  ac_architecture :: string
  ac_scaling_group :: string
  ac_available_slots :: slots
  ac_occupied_slots :: slots

record agent_allocation_context =
  aac_agent_id :: string
  aac_agent_addr :: string
  aac_scaling_group :: string

record image_ref =
  ir_image :: string
  ir_registry :: string
  ir_architecture :: string

record kernel_info =
  ki_kernel_id :: string
  ki_session_id :: string
  ki_access_key :: string
  ki_agent_id :: "string option"
  ki_agent_addr :: "string option"
  ki_cluster_role :: string
  ki_cluster_idx :: int
  ki_cluster_hostname :: string
  ki_image_ref :: image_ref
  ki_resource_opts :: "(string, opt_val) dict"
  ki_requested_slots :: slots
  ki_bootstrap_script :: "string option"
  ki_startup_command :: "string option"
  ki_created_at :: int

record kernel_agent_binding =
  kab_kernel :: kernel_info
  kab_agent_alloc_ctx :: agent_allocation_context

record existing_session =
  es_kernels :: "kernel_info list"
  es_access_key :: string
  es_session_id :: string
  es_session_type :: session_types
  es_session_name :: string
  es_cluster_mode :: cluster_mode
  es_cluster_size :: int
  es_domain_name :: string
  es_group_id :: string
  es_scaling_group :: "string option"
  es_occupying_slots :: slots

record pending_session =
  ps_kernels :: "kernel_info list"
  ps_access_key :: string
  ps_agent_id :: "string option"
  ps_agent_addr :: "string option"
  ps_session_id :: string
  ps_session_creation_id :: string
  ps_session_type :: session_types
  ps_session_name :: string
  ps_cluster_mode :: cluster_mode
  ps_cluster_size :: int
  ps_domain_name :: string
  ps_group_id :: string
  ps_status_data :: "json option"
  ps_scaling_group :: "string option"
  ps_resource_policy :: string
  ps_resource_opts :: "(string, opt_val) dict"
  ps_requested_slots :: slots
  ps_target_sgroup_names :: "string list"
  ps_environ :: "(string, string) dict"
  ps_vfolder_mounts :: "vfolder_mount list"
  ps_bootstrap_script :: "string option"
  ps_startup_command :: "string option"
  ps_internal_data :: "json option"
  ps_preopen_ports :: "int list"
  ps_created_at :: int

section \<open>Building sessions from rows\<close>

text \<open>\<open>target[k] += update[k]\<close> on option values: numbers are added, strings concatenated.\<close>

fun opt_add :: "opt_val \<Rightarrow> opt_val \<Rightarrow> opt_val res" where
  "opt_add (OInt m) (OInt n) = Inr (OInt (m + n))"
| "opt_add (OStr a) (OStr b) = Inr (OStr (a @ b))"
| "opt_add _ _ = Inl TypeError"

definition merge_resource :: "(string, opt_val) dict \<Rightarrow> (string, opt_val) dict \<Rightarrow> (string, opt_val) dict res" where
  "merge_resource target upd =
     foldE (\<lambda>t (k, v). case map_of t k of
         Some w \<Rightarrow> bindE (opt_add w v) (\<lambda>x. Inr (dset t k x))
       | None \<Rightarrow> Inr (dset t k v)) target upd"

definition kernel_info_from_row :: "kernel_row \<Rightarrow> kernel_info" where
  "kernel_info_from_row r =
     \<lparr> ki_kernel_id = k_id r, ki_session_id = k_session_id r, ki_access_key = k_access_key r,
       ki_agent_id = k_agent r, ki_agent_addr = k_agent_addr r, ki_cluster_role = k_cluster_role r,
       ki_cluster_idx = k_cluster_idx r, ki_cluster_hostname = k_cluster_hostname r,
       ki_image_ref = \<lparr>ir_image = k_image r, ir_registry = k_registry r, ir_architecture = k_architecture r\<rparr>,
       ki_resource_opts = k_resource_opts r, ki_requested_slots = k_occupied_slots r,
       ki_bootstrap_script = k_bootstrap_script r, ki_startup_command = k_startup_command r,
       ki_created_at = k_created_at r \<rparr>"

definition existing_from_row :: "kernel_row \<Rightarrow> existing_session" where
  "existing_from_row r =
     \<lparr> es_kernels = [], es_access_key = k_access_key r, es_session_id = k_session_id r,
       es_session_type = k_session_type r, es_session_name = k_session_name r,
       es_cluster_mode = k_cluster_mode r, es_cluster_size = k_cluster_size r,
       es_domain_name = k_domain_name r, es_group_id = k_group_id r,
       es_scaling_group = k_scaling_group r, es_occupying_slots = [] \<rparr>"

text \<open>\<open>s.split("=", maxsplit=1)\<close>, unpacked into two names.\<close>

fun split_env :: "string \<Rightarrow> (string \<times> string) res" where
  "split_env [] = Inl ValueError"
| "split_env (c # cs) = (if c = CHR ''='' then Inr ([], cs) else bindE (split_env cs) (\<lambda>(k, v). Inr (c # k, v)))"

definition parse_environ :: "string list \<Rightarrow> (string, string) dict res" where
  "parse_environ env = foldE (\<lambda>d s. bindE (split_env s) (\<lambda>(k, v). Inr (dset d k v))) [] env"

text \<open>A row of the pending query comes with the resource policy of its keypair.\<close>

type_synonym pending_row = "kernel_row \<times> string"

definition pending_from_row :: "pending_row \<Rightarrow> pending_session res" where
  "pending_from_row rp =
     (let r = fst rp
      in bindE (parse_environ (k_environ r)) (\<lambda>env. Inr
         \<lparr> ps_kernels = [], ps_access_key = k_access_key r, ps_agent_id = k_agent r,
           ps_agent_addr = k_agent_addr r, ps_session_id = k_session_id r,
           ps_session_creation_id = k_session_creation_id r, ps_session_type = k_session_type r,
           ps_session_name = k_session_name r, ps_cluster_mode = k_cluster_mode r,
           ps_cluster_size = k_cluster_size r, ps_domain_name = k_domain_name r,
           ps_group_id = k_group_id r, ps_status_data = k_status_data r,
           ps_scaling_group = k_scaling_group r, ps_resource_policy = snd rp, ps_resource_opts = [],
           ps_requested_slots = [], ps_target_sgroup_names = [], ps_environ = env,
           ps_vfolder_mounts = k_vfolder_mounts r, ps_bootstrap_script = k_bootstrap_script r,
           ps_startup_command = k_startup_command r, ps_internal_data = k_internal_data r,
           ps_preopen_ports = k_preopen_ports r, ps_created_at = k_created_at r \<rparr>))"

text \<open>
  The two loops of \<open>from_rows\<close>: a session per main kernel, in the order of the rows, then every row
  added to its session.  \<open>+=\<close> on the slots also adds zero entries to the row's own slots, which are
  the kernel's requested slots.
\<close>

definition existing_add_row :: "(string, existing_session) dict \<Rightarrow> kernel_row \<Rightarrow> (string, existing_session) dict res" where
  "existing_add_row items r =
     (case map_of items (k_session_id r) of
        None \<Rightarrow> Inr items
      | Some sess \<Rightarrow>
          bindE (rs_add (es_occupying_slots sess) (k_occupied_slots r)) (\<lambda>(occ, _, own).
            Inr (dset items (k_session_id r)
              (sess\<lparr>es_kernels := es_kernels sess @ [(kernel_info_from_row r)\<lparr>ki_requested_slots := own\<rparr>],
                    es_occupying_slots := occ\<rparr>))))"

definition existing_from_rows :: "kernel_row list \<Rightarrow> existing_session list res" where
  "existing_from_rows rows =
     (let items = fold (\<lambda>r d. if k_cluster_role r = ''main'' then dset d (k_session_id r) (existing_from_row r) else d) rows []
      in bindE (foldE existing_add_row items rows) (\<lambda>items'. Inr (values items')))"

definition pending_add_row :: "(string, pending_session) dict \<Rightarrow> pending_row \<Rightarrow> (string, pending_session) dict res" where
  "pending_add_row items rp =
     (let r = fst rp
      in bindE (dget items (k_session_id r)) (\<lambda>sess.
           bindE (rs_add (ps_requested_slots sess) (k_occupied_slots r)) (\<lambda>(req, _, own).
           bindE (merge_resource (ps_resource_opts sess) (k_resource_opts r)) (\<lambda>opts.
             Inr (dset items (k_session_id r)
               (sess\<lparr>ps_kernels := ps_kernels sess @ [(kernel_info_from_row r)\<lparr>ki_requested_slots := own\<rparr>],
                     ps_requested_slots := req, ps_resource_opts := opts\<rparr>))))))"

definition pending_mains :: "pending_row list \<Rightarrow> (string, pending_session) dict res" where
  "pending_mains rows =
     foldE (\<lambda>d rp. if k_cluster_role (fst rp) = ''main''
        then bindE (pending_from_row rp) (\<lambda>sess. Inr (dset d (k_session_id (fst rp)) sess)) else Inr d) [] rows"

definition pending_from_rows :: "pending_row list \<Rightarrow> pending_session list res" where
  "pending_from_rows rows =
     bindE (pending_mains rows) (\<lambda>items. bindE (foldE pending_add_row items rows) (\<lambda>items'. Inr (values items')))"

definition main_kernel_id :: "pending_session \<Rightarrow> string res" where
  "main_kernel_id sess =
     (case find (\<lambda>k. ki_cluster_role k = ''main'') (ps_kernels sess) of
        Some k \<Rightarrow> Inr (ki_kernel_id k)
      | None \<Rightarrow> Inl RuntimeError)"

section \<open>Every row is accounted for in its session\<close>

abbreviation rows_of :: "string \<Rightarrow> pending_row list \<Rightarrow> pending_row list" where
  "rows_of i rows \<equiv> filter (\<lambda>rp. k_session_id (fst rp) = i) rows"

text \<open>A kernel of a session carries the data of its row, up to zero entries in its slots.\<close>

definition kernel_of_row :: "kernel_info \<Rightarrow> kernel_row \<Rightarrow> bool" where
  "kernel_of_row ki r \<longleftrightarrow> ki_kernel_id ki = k_id r \<and> ki_agent_id ki = k_agent r \<and> ki_access_key ki = k_access_key r \<and>
     fin_slots (ki_requested_slots ki) \<and> slot_val (ki_requested_slots ki) = slot_val (k_occupied_slots r)"

text \<open>What the sessions hold after some of the rows were added.\<close>

definition pending_inv :: "pending_row list \<Rightarrow> (string, pending_session) dict \<Rightarrow> bool" where
  "pending_inv rows items \<longleftrightarrow> wf_dict items \<and>
     (\<forall>(i, sess)\<in>set items. ps_session_id sess = i \<and> fin_slots (ps_requested_slots sess) \<and>
        list_all2 kernel_of_row (ps_kernels sess) (map fst (rows_of i rows)) \<and>
        (\<forall>k. slot_amt (ps_requested_slots sess) k = sum_list (map (\<lambda>rp. slot_amt (k_occupied_slots (fst rp)) k) (rows_of i rows))))"

lemma in_set_dset: "(k, v) \<in> set (dset d k' v') \<Longrightarrow> wf_dict d \<Longrightarrow> (k = k' \<and> v = v') \<or> (k \<noteq> k' \<and> (k, v) \<in> set d)"
  by (metis distinct_update map_of_eq_Some_iff map_of_SomeD option.inject update_conv' update_conv fun_upd_apply)

lemma pending_mains_inv:
  assumes "pending_mains rows = Inr items"
  shows "pending_inv [] items \<and> set (keys items) = (\<lambda>rp. k_session_id (fst rp)) ` set (filter (\<lambda>rp. k_cluster_role (fst rp) = ''main'') rows)"
  using assms
proof (induction rows arbitrary: items rule: rev_induct)
  case Nil
  then show ?case by (simp add: pending_mains_def pending_inv_def)
next
  case (snoc rp rows)
  obtain items0 where i0: "pending_mains rows = Inr items0"
    using snoc.prems by (auto simp: pending_mains_def foldE_append bindE_eq_Inr_iff)
  note IH = snoc.IH[OF i0]
  show ?case
  proof (cases "k_cluster_role (fst rp) = ''main''")
    case False
    then have "items = items0" using snoc.prems i0 by (simp add: pending_mains_def foldE_append)
    with IH False show ?thesis by auto
  next
    case True
    then obtain sess where s: "pending_from_row rp = Inr sess" "items = dset items0 (k_session_id (fst rp)) sess"
      using snoc.prems i0 by (auto simp: pending_mains_def foldE_append bindE_eq_Inr_iff)
    have "ps_session_id sess = k_session_id (fst rp)" "ps_requested_slots sess = []" "ps_kernels sess = []"
      using s(1) by (auto simp: pending_from_row_def Let_def bindE_eq_Inr_iff)
    moreover have "p = (k_session_id (fst rp), sess) \<or> p \<in> set items0" if "p \<in> set items" for p
      using that set_dset_subset[of "k_session_id (fst rp)" sess items0] s(2) by auto
    ultimately have "pending_inv [] items"
      using IH s(2) unfolding pending_inv_def by fastforce
    moreover have "set (keys items) = insert (k_session_id (fst rp)) (set (keys items0))"
      using s(2) keys_dset[of "k_session_id (fst rp)" sess items0] by auto
    ultimately show ?thesis using IH True by auto
  qed
qed

lemma pending_add_row_inv:
  assumes inv: "pending_inv rows items" and fin: "fin_slots (k_occupied_slots (fst rp))"
    and ok: "pending_add_row items rp = Inr items'"
  shows "pending_inv (rows @ [rp]) items' \<and> keys items' = keys items \<and> k_session_id (fst rp) \<in> set (keys items)"
proof -
  let ?i = "k_session_id (fst rp)"
  obtain sess req a own opts where s: "map_of items ?i = Some sess"
    "rs_add (ps_requested_slots sess) (k_occupied_slots (fst rp)) = Inr (req, a, own)"
    "items' = dset items ?i (sess\<lparr>ps_kernels := ps_kernels sess @ [(kernel_info_from_row (fst rp))\<lparr>ki_requested_slots := own\<rparr>],
                     ps_requested_slots := req, ps_resource_opts := opts\<rparr>)"
    using ok by (auto simp: pending_add_row_def Let_def bindE_eq_Inr_iff dget_def split: option.splits)
  have mem: "(?i, sess) \<in> set items" using s(1) by (rule map_of_SomeD)
  have wf: "wf_dict items" using inv by (simp add: pending_inv_def)
  have fs: "fin_slots (ps_requested_slots sess)" using inv mem by (auto simp: pending_inv_def)
  have r: "fin_slots req" "\<And>k. slot_amt req k = slot_amt (ps_requested_slots sess) k + slot_amt (k_occupied_slots (fst rp)) k"
    by (rule rs_add_total[OF fs fin]; use s(2) in simp)+
  have sk: "sync_keys (ps_requested_slots sess) (k_occupied_slots (fst rp)) = (a, own)" using rs_add_val(1)[OF s(2)] .
  have own: "kernel_of_row ((kernel_info_from_row (fst rp))\<lparr>ki_requested_slots := own\<rparr>) (fst rp)"
    using sync_keys_val[OF sk] sync_keys_fin[OF fs fin sk] by (simp add: kernel_of_row_def kernel_info_from_row_def)
  have k: "?i \<in> set (keys items)" using mem by force
  then have "keys items' = keys items" unfolding s(3) by (rule keys_dset_existing)
  moreover have "pending_inv (rows @ [rp]) items'"
    unfolding pending_inv_def
  proof (intro conjI ballI)
    show "wf_dict items'" using wf s(3) by simp
    fix p assume p: "p \<in> set items'"
    obtain i x where ix: "p = (i, x)" by (cases p)
    from in_set_dset[OF p[unfolded ix s(3)] wf]
    show "case p of (i, sess) \<Rightarrow> ps_session_id sess = i \<and> fin_slots (ps_requested_slots sess) \<and>
        list_all2 kernel_of_row (ps_kernels sess) (map fst (rows_of i (rows @ [rp]))) \<and>
        (\<forall>k. slot_amt (ps_requested_slots sess) k =
          sum_list (map (\<lambda>rp. slot_amt (k_occupied_slots (fst rp)) k) (rows_of i (rows @ [rp]))))"
    proof
      assume "i = ?i \<and> x = sess\<lparr>ps_kernels := ps_kernels sess @ [(kernel_info_from_row (fst rp))\<lparr>ki_requested_slots := own\<rparr>],
                     ps_requested_slots := req, ps_resource_opts := opts\<rparr>"
      with ix inv mem r own show ?thesis by (auto simp: pending_inv_def intro!: list_all2_appendI)
    next
      assume "i \<noteq> ?i \<and> (i, x) \<in> set items"
      with ix inv show ?thesis by (auto simp: pending_inv_def)
    qed
  qed
  ultimately show ?thesis using k by blast
qed

lemma pending_rows_inv:
  assumes "pending_inv [] items" and "list_all (\<lambda>rp. fin_slots (k_occupied_slots (fst rp))) rows"
    and "foldE pending_add_row items rows = Inr items'"
  shows "pending_inv rows items' \<and> keys items' = keys items \<and> (\<forall>rp\<in>set rows. k_session_id (fst rp) \<in> set (keys items))"
  using assms(2,3)
proof (induction rows arbitrary: items' rule: rev_induct)
  case Nil
  then show ?case using assms(1) by simp
next
  case (snoc rp rows)
  then obtain items1 where i1: "foldE pending_add_row items rows = Inr items1" "pending_add_row items1 rp = Inr items'"
    by (auto simp: foldE_append bindE_eq_Inr_iff)
  with snoc have IH: "pending_inv rows items1 \<and> keys items1 = keys items \<and>
      (\<forall>rp\<in>set rows. k_session_id (fst rp) \<in> set (keys items))" by simp
  from pending_add_row_inv[OF _ _ i1(2), of rows] IH snoc.prems(1) show ?case by auto
qed

lemma kernel_of_row_ids: "list_all2 kernel_of_row ks rs \<Longrightarrow> map ki_kernel_id ks = map k_id rs"
  by (induction ks rs rule: list_all2_induct) (auto simp: kernel_of_row_def)

text \<open>A session takes its own data from the row of a main kernel.\<close>

definition head_of_row :: "pending_session \<Rightarrow> kernel_row \<Rightarrow> bool" where
  "head_of_row sess r \<longleftrightarrow> ps_session_id sess = k_session_id r \<and> ps_agent_id sess = k_agent r \<and> ps_access_key sess = k_access_key r \<and>
     ps_cluster_mode sess = k_cluster_mode r"

lemma pending_mains_heads:
  "pending_mains rows = Inr items \<Longrightarrow> (i, sess) \<in> set items \<Longrightarrow> \<exists>rp\<in>set rows. head_of_row sess (fst rp)"
proof (induction rows arbitrary: items rule: rev_induct)
  case (snoc rp rows)
  obtain items0 where i0: "pending_mains rows = Inr items0"
    using snoc.prems by (auto simp: pending_mains_def foldE_append bindE_eq_Inr_iff)
  show ?case
  proof (cases "k_cluster_role (fst rp) = ''main''")
    case True
    then obtain x where x: "pending_from_row rp = Inr x" "items = dset items0 (k_session_id (fst rp)) x"
      using snoc.prems i0 by (auto simp: pending_mains_def foldE_append bindE_eq_Inr_iff)
    have "head_of_row x (fst rp)" using x(1) by (auto simp: pending_from_row_def Let_def bindE_eq_Inr_iff head_of_row_def)
    then show ?thesis using snoc set_dset_subset[of "k_session_id (fst rp)" x items0] i0 x(2) by auto
  qed (use snoc i0 in \<open>auto simp: pending_mains_def foldE_append\<close>)
qed (simp add: pending_mains_def)

lemma pending_add_row_heads:
  "pending_add_row items rp = Inr items' \<Longrightarrow> (i, sess) \<in> set items' \<Longrightarrow> \<exists>x. (i, x) \<in> set items \<and> (\<forall>r. head_of_row x r \<longrightarrow> head_of_row sess r)"
  using set_dset_subset
  by (fastforce simp: pending_add_row_def Let_def bindE_eq_Inr_iff dget_def head_of_row_def split: option.splits dest: map_of_SomeD)

lemma pending_rows_heads:
  "foldE pending_add_row items rows = Inr items' \<Longrightarrow> (i, sess) \<in> set items' \<Longrightarrow>
     \<exists>x. (i, x) \<in> set items \<and> (\<forall>r. head_of_row x r \<longrightarrow> head_of_row sess r)"
proof (induction rows arbitrary: items)
  case (Cons rp rows)
  then obtain items1 where "pending_add_row items rp = Inr items1" "foldE pending_add_row items1 rows = Inr items'"
    by (auto simp: bindE_eq_Inr_iff)
  with Cons show ?case using pending_add_row_heads by meson
qed auto

lemma pending_from_rows_heads:
  assumes "pending_from_rows rows = Inr sessions" and "sess \<in> set sessions"
  shows "\<exists>rp\<in>set rows. head_of_row sess (fst rp)"
proof -
  obtain items items' where i: "pending_mains rows = Inr items" "foldE pending_add_row items rows = Inr items'" "sessions = values items'"
    using assms(1) by (auto simp: pending_from_rows_def bindE_eq_Inr_iff)
  with assms(2) obtain j where "(j, sess) \<in> set items'" by auto
  from pending_rows_heads[OF i(2) this] pending_mains_heads[OF i(1)] show ?thesis by blast
qed

text \<open>The sessions built from the rows: one per session id, with its kernels and the sum of their slots.\<close>

lemma pending_from_rows_inv:
  assumes "list_all (\<lambda>rp. fin_slots (k_occupied_slots (fst rp))) rows" and "pending_from_rows rows = Inr sessions"
  shows "distinct (map ps_session_id sessions) \<and>
    set (map ps_session_id sessions) = (\<lambda>rp. k_session_id (fst rp)) ` set rows \<and>
    (\<forall>sess\<in>set sessions. fin_slots (ps_requested_slots sess) \<and>
       list_all2 kernel_of_row (ps_kernels sess) (map fst (rows_of (ps_session_id sess) rows)) \<and>
       (\<forall>k. slot_amt (ps_requested_slots sess) k = sum_list (map (\<lambda>rp. slot_amt (k_occupied_slots (fst rp)) k)
          (rows_of (ps_session_id sess) rows))))"
proof -
  obtain items items' where i: "pending_mains rows = Inr items" "foldE pending_add_row items rows = Inr items'"
    "sessions = values items'"
    using assms(2) by (auto simp: pending_from_rows_def bindE_eq_Inr_iff)
  note m = pending_mains_inv[OF i(1)]
  have r: "pending_inv rows items'" "keys items' = keys items" "\<forall>rp\<in>set rows. k_session_id (fst rp) \<in> set (keys items)"
    using pending_rows_inv[OF _ assms(1) i(2)] m by blast+
  have ids: "map ps_session_id sessions = keys items'"
    unfolding i(3) map_map using r(1) by (intro map_cong refl) (auto simp: pending_inv_def)
  have "distinct (keys items')" using r(1) by (simp add: pending_inv_def)
  moreover have "set (keys items) = (\<lambda>rp. k_session_id (fst rp)) ` set rows"
    using m r(3) by auto
  moreover have "fin_slots (ps_requested_slots sess) \<and>
       list_all2 kernel_of_row (ps_kernels sess) (map fst (rows_of (ps_session_id sess) rows)) \<and>
       (\<forall>k. slot_amt (ps_requested_slots sess) k = sum_list (map (\<lambda>rp. slot_amt (k_occupied_slots (fst rp)) k)
          (rows_of (ps_session_id sess) rows)))" if "sess \<in> set sessions" for sess
  proof -
    from that i(3) obtain i where "(i, sess) \<in> set items'" by auto
    with r(1) show ?thesis unfolding pending_inv_def by auto
  qed
  ultimately show ?thesis using r(2) ids by auto
qed

lemma pending_rows_fail:
  assumes "rp \<in> set rows" and "k_session_id (fst rp) \<notin> set (keys items)"
  shows "\<exists>e. foldE pending_add_row items rows = Inl e"
  using assms
proof (induction rows arbitrary: items)
  case (Cons rp0 rows)
  show ?case
  proof (cases "pending_add_row items rp0")
    case (Inr items1)
    then obtain sess x where sx: "map_of items (k_session_id (fst rp0)) = Some sess"
      "items1 = dset items (k_session_id (fst rp0)) x"
      by (auto simp: pending_add_row_def Let_def bindE_eq_Inr_iff dget_def split: option.splits)
    then have "k_session_id (fst rp0) \<in> set (keys items)" by (metis domI dom_map_of_conv_image_fst set_map)
    then have "set (keys items1) = set (keys items)" "k_session_id (fst rp0) \<in> set (keys items)"
      unfolding sx(2) keys_dset by auto
    with Cons Inr show ?thesis by auto
  qed simp
qed simp

text \<open>A kernel row for the witnesses: id, session, role, status, slots, agent.\<close>

definition demo_kernel :: "string \<Rightarrow> string \<Rightarrow> string \<Rightarrow> kernel_status \<Rightarrow> slots \<Rightarrow> string option \<Rightarrow> kernel_row" where
  "demo_kernel i sid role st sl ag =
     \<lparr> k_id = i, k_session_id = sid, k_session_creation_id = ''c'', k_session_name = ''n'',
       k_session_type = INTERACTIVE, k_cluster_mode = SINGLE_NODE, k_cluster_size = 1, k_cluster_role = role,
       k_cluster_idx = 0, k_cluster_hostname = ''main0'', k_scaling_group = Some ''default'', k_agent = ag,
       k_agent_addr = None, k_domain_name = ''d'', k_group_id = ''g'', k_user_uuid = ''u'', k_access_key = ''AK'', k_image = ''python'',
       k_architecture = ''x86_64'', k_registry = ''r'', k_tag = None, k_container_id = None, k_occupied_slots = sl, k_environ = [],
       k_vfolder_mounts = [], k_attached_devices = JObj [], k_resource_opts = [], k_bootstrap_script = None, k_kernel_host = None,
       k_repl_in_port = 0, k_repl_out_port = 0, k_stdin_port = 0, k_stdout_port = 0, k_service_ports = None, k_preopen_ports = [],
       k_created_at = 0, k_terminated_at = None, k_starts_at = None, k_status = st, k_status_changed = None,
       k_status_info = None, k_status_data = None, k_status_history = None, k_callback_url = None, k_startup_command = None,
       k_result = UNDEFINED, k_internal_data = None, k_num_queries = 0, k_last_stat = None \<rparr>"

text \<open>
  \<open>PendingSession.from_rows\<close>: when it succeeds on rows with finite slots, every row's session has
  a main kernel among the rows, the sessions are distinct, each session lists exactly the kernels of
  its rows in their order, and its requested slots are the sums of their slots.
\<close>
theorem pending_from_rows_totals:
  assumes "list_all (\<lambda>rp. fin_slots (k_occupied_slots (fst rp))) rows" and "pending_from_rows rows = Inr sessions"
  shows "distinct (map ps_session_id sessions) \<and>
    set (map ps_session_id sessions) = (\<lambda>rp. k_session_id (fst rp)) ` set rows \<and>
    (\<forall>sess\<in>set sessions.
       map ki_kernel_id (ps_kernels sess) = map (k_id \<circ> fst) (filter (\<lambda>rp. k_session_id (fst rp) = ps_session_id sess) rows) \<and>
       (\<forall>k. slot_amt (ps_requested_slots sess) k = sum_list (map (\<lambda>rp. slot_amt (k_occupied_slots (fst rp)) k)
          (filter (\<lambda>rp. k_session_id (fst rp) = ps_session_id sess) rows))))"
  using pending_from_rows_inv[OF assms] kernel_of_row_ids by fastforce

theorem pending_from_rows_totals_witness:
  "\<exists>sess. pending_from_rows [(demo_kernel ''a'' ''a'' ''main'' PENDING [(''cpu'', Fin 1)] None, ''p''),
      (demo_kernel ''b'' ''a'' ''sub'' PENDING [(''cpu'', Fin 2)] None, ''p'')] = Inr [sess] \<and>
    map ki_kernel_id (ps_kernels sess) = [''a'', ''b''] \<and> slot_amt (ps_requested_slots sess) ''cpu'' = 3"
proof -
  let ?rows = "[(demo_kernel ''a'' ''a'' ''main'' PENDING [(''cpu'', Fin 1)] None, ''p''),
      (demo_kernel ''b'' ''a'' ''sub'' PENDING [(''cpu'', Fin 2)] None, ''p'')]"
  have ids: "map_sum id (map ps_session_id) (pending_from_rows ?rows) = Inr [''a'']" by code_simp
  have fin: "list_all (\<lambda>rp. fin_slots (k_occupied_slots (fst rp))) ?rows" by code_simp
  obtain sess where s: "pending_from_rows ?rows = Inr [sess]" "ps_session_id sess = ''a''"
    using ids by (cases "pending_from_rows ?rows") auto
  have v: "slot_amt [(''cpu'', Fin 1)] ''cpu'' = 1" "slot_amt [(''cpu'', Fin 2)] ''cpu'' = 2" by code_simp+
  show ?thesis
    using pending_from_rows_totals[OF fin s(1)] s v by (simp add: demo_kernel_def)
qed

text \<open>
  \<open>PendingSession.from_rows\<close> raises when a row belongs to a session whose main kernel is not
  among the rows: one such row makes the whole call fail, so that no session of the scaling group is
  scheduled.
\<close>
theorem pending_from_rows_orphan:
  assumes "rp \<in> set rows"
    and "\<forall>rq\<in>set rows. k_cluster_role (fst rq) = ''main'' \<longrightarrow> k_session_id (fst rq) \<noteq> k_session_id (fst rp)"
  shows "\<exists>e. pending_from_rows rows = Inl e"
proof (cases "pending_mains rows")
  case (Inr items)
  then have "k_session_id (fst rp) \<notin> set (keys items)" using pending_mains_inv[OF Inr] assms(2) by auto
  from pending_rows_fail[OF assms(1) this] Inr show ?thesis by (auto simp: pending_from_rows_def)
qed (simp add: pending_from_rows_def)

theorem pending_from_rows_orphan_witness:
  "\<exists>e. pending_from_rows [(demo_kernel ''b'' ''a'' ''sub'' PENDING [(''cpu'', Fin 2)] None, ''p''),
      (demo_kernel ''c'' ''c'' ''main'' PENDING [(''cpu'', Fin 2)] None, ''p'')] = Inl e"
  by (rule pending_from_rows_orphan[of "(demo_kernel ''b'' ''a'' ''sub'' PENDING [(''cpu'', Fin 2)] None, ''p'')"])
    (simp_all add: demo_kernel_def)

end
