(* ===== verification/Occupancy.thy ===== *)
theory Occupancy
  imports Sessions
begin

text \<open>
  How the manager counts what is in use: the occupancy of keypairs, domains and groups
  (\<open>manager/registry.py\<close>), the recalculation of one agent's occupied slots
  (\<open>manager/models/agent.py\<close>), of one keypair's session counter (\<open>manager/models/kernel.py\<close>) and of
  all of them (\<open>recalc_resource_usage\<close>), and the calibration after kernels were created
  (\<open>settle_agent_alloc\<close>).  Redis keys carry the prefix the code gives them.
\<close>

definition kp_key :: string where
  "kp_key = ''keypair.concurrency_used''"

definition conc_key :: "string \<Rightarrow> string" where
  "conc_key ak = kp_key @ ''.'' @ ak"

definition user_occupying :: "kernel_row \<Rightarrow> bool" where
  "user_occupying r \<longleftrightarrow> k_status r \<in> set USER_RESOURCE_OCCUPYING_KERNEL_STATUSES"

definition agent_occupying :: "kernel_row \<Rightarrow> bool" where
  "agent_occupying r \<longleftrightarrow> k_status r \<in> set AGENT_RESOURCE_OCCUPYING_KERNEL_STATUSES"

section \<open>Occupancy of keypairs, domains and groups\<close>

definition drop_unknown :: "(string, string) dict \<Rightarrow> slots \<Rightarrow> slots" where
  "drop_unknown known_slot_types a = filter (\<lambda>(k, v). k \<in> set (keys known_slot_types)) a"

definition get_keypair_occupancy :: "(string, string) dict \<Rightarrow> string \<Rightarrow> db \<Rightarrow> slots res" where
  "get_keypair_occupancy known_slot_types access_key s =
     bindE (rs_sum (map k_occupied_slots (filter (\<lambda>r. k_access_key r = access_key \<and> user_occupying r) (db_kernels s))))
       (\<lambda>key_occupied. Inr (drop_unknown known_slot_types key_occupied))"

definition get_domain_occupancy :: "(string, string) dict \<Rightarrow> string \<Rightarrow> db \<Rightarrow> slots res" where
  "get_domain_occupancy known_slot_types domain_name s =
     bindE (rs_sum (map k_occupied_slots (filter (\<lambda>r. k_domain_name r = domain_name \<and> user_occupying r) (db_kernels s))))
       (\<lambda>key_occupied. Inr (drop_unknown known_slot_types key_occupied))"

definition get_group_occupancy :: "(string, string) dict \<Rightarrow> string \<Rightarrow> db \<Rightarrow> slots res" where
  "get_group_occupancy known_slot_types group_id s =
     bindE (rs_sum (map k_occupied_slots (filter (\<lambda>r. k_group_id r = group_id \<and> user_occupying r) (db_kernels s))))
       (\<lambda>key_occupied. Inr (drop_unknown known_slot_types key_occupied))"

section \<open>Recalculation\<close>

definition recalc_concurrency_used :: "string \<Rightarrow> db \<Rightarrow> db" where
  "recalc_concurrency_used access_key s =
     s\<lparr>db_redis_stat := dset (db_redis_stat s) (conc_key access_key)
         (int (length (filter (\<lambda>r. k_access_key r = access_key \<and> user_occupying r) (db_kernels s))))\<rparr>"

definition recalc_agent_resource_occupancy :: "string \<Rightarrow> db \<Rightarrow> db res" where
  "recalc_agent_resource_occupancy agent_id s =
     bindE (foldE rs_plus [] (map k_occupied_slots (filter (\<lambda>r. k_agent r = Some agent_id \<and> agent_occupying r) (db_kernels s))))
       (\<lambda>occupied_slots. Inr (update_agent agent_id (\<lambda>r. r\<lparr>a_occupied_slots := occupied_slots\<rparr>) s))"

text \<open>
  \<open>recalc_resource_usage\<close>: the agents' slots by a \<open>defaultdict\<close> whose default has zero CPU and
  memory, the counters per keypair.  The rows come ordered by access key, which only decides the
  order of the two dictionaries.  A kernel without agent is kept under \<open>None\<close>; SQL's
  \<open>id NOT IN (..., NULL)\<close> holds for no row, so that then no idle agent is reset.
\<close>

definition default_agent_slots :: slots where
  "default_agent_slots = [(''cpu'', 0), (''mem'', 0)]"

definition add_occupied :: "(string option, slots) dict \<Rightarrow> kernel_row \<Rightarrow> (string option, slots) dict res" where
  "add_occupied d r =
     bindE (rs_plus (dget_or d (k_agent r) default_agent_slots) (k_occupied_slots r)) (\<lambda>x. Inr (dset d (k_agent r) x))"

definition occupied_slots_per_agent :: "db \<Rightarrow> (string option, slots) dict res" where
  "occupied_slots_per_agent s = foldE add_occupied [] (filter agent_occupying (db_kernels s))"

definition concurrency_used_per_key :: "db \<Rightarrow> (string, int) dict" where
  "concurrency_used_per_key s =
     fold (\<lambda>r d. dset d (k_access_key r) (dget_or d (k_access_key r) 0 + 1)) (filter user_occupying (db_kernels s)) []"

definition set_all_agents :: "(string option, slots) dict \<Rightarrow> db \<Rightarrow> db" where
  "set_all_agents per_agent s =
     (if per_agent \<noteq> [] then
        (let s1 = fold (\<lambda>(aid, sl). case aid of None \<Rightarrow> id | Some i \<Rightarrow> update_agent i (\<lambda>r. r\<lparr>a_occupied_slots := sl\<rparr>)) per_agent s
         in s1\<lparr>db_agents := map (\<lambda>r. if a_status r = ALIVE \<and> None \<notin> set (keys per_agent) \<and> Some (a_id r) \<notin> set (keys per_agent)
                                     then r\<lparr>a_occupied_slots := []\<rparr> else r) (db_agents s1)\<rparr>)
      else s\<lparr>db_agents := map (\<lambda>r. if a_status r = ALIVE then r\<lparr>a_occupied_slots := []\<rparr> else r) (db_agents s)\<rparr>)"

text \<open>
  The Redis client returns the keys of \<open>KEYS\<close> as bytes, so the full scan looks a byte string up
  among access keys (and finds none) and formats it, as \<open>b'...'\<close>, into the key it writes.
\<close>

definition bytes_repr :: "string \<Rightarrow> string" where
  "bytes_repr k = CHR ''b'' # CHR 0x27 # k @ [CHR 0x27]"

definition fullscan_updates :: "(string, int) dict \<Rightarrow> (string, int) dict" where
  "fullscan_updates redis =
     fold (\<lambda>k d. dset d (conc_key (bytes_repr k)) 0) (filter (\<lambda>k. take (length (kp_key @ ''.'')) k = kp_key @ ''.'') (keys redis)) []"

definition redis_mset :: "(string, int) dict \<Rightarrow> db \<Rightarrow> db" where
  "redis_mset updates s = s\<lparr>db_redis_stat := fold (\<lambda>(k, v) d. dset d k v) updates (db_redis_stat s)\<rparr>"

definition recalc_resource_usage :: "bool \<Rightarrow> db \<Rightarrow> db res" where
  "recalc_resource_usage do_fullscan s =
     bindE (occupied_slots_per_agent s) (\<lambda>per_agent.
       let used = concurrency_used_per_key s; s1 = set_all_agents per_agent s
       in Inr (if do_fullscan then redis_mset (fullscan_updates (db_redis_stat s1)) s1
               else redis_mset (map (\<lambda>(k, n). (conc_key k, n)) used) s1))"

section \<open>Calibration\<close>

text \<open>\<open>itertools.groupby\<close> on a list sorted by the same key.\<close>

function groupby :: "('a \<Rightarrow> 'k) \<Rightarrow> 'a list \<Rightarrow> ('k \<times> 'a list) list" where
  "groupby f [] = []"
| "groupby f (x # xs) = (f x, x # takeWhile (\<lambda>y. f y = f x) xs) # groupby f (dropWhile (\<lambda>y. f y = f x) xs)"
  by pat_completeness auto
termination
  by (relation "measure (length \<circ> snd)") (auto intro: le_imp_less_Suc length_dropWhile_le)

text \<open>One binding: the sums of actual and requested slots, and the allocations still remembered.\<close>

definition settle_kernel :: "slots \<times> slots \<times> (string, slots) dict \<Rightarrow> kernel_agent_binding \<Rightarrow>
    (slots \<times> slots \<times> (string, slots) dict) res" where
  "settle_kernel st b =
     (case st of (actual, requested, allocs) \<Rightarrow>
        let k = kab_kernel b
        in bindE (rs_plus requested (ki_requested_slots k)) (\<lambda>requested'.
           case map_of allocs (ki_kernel_id k) of
             Some x \<Rightarrow> bindE (rs_plus actual x) (\<lambda>actual'. Inr (actual', requested', AList.delete (ki_kernel_id k) allocs))
           | None \<Rightarrow> bindE (rs_plus actual (ki_requested_slots k)) (\<lambda>actual'. Inr (actual', requested', allocs))))"

definition settle_agent :: "db \<Rightarrow> string \<times> kernel_agent_binding list \<Rightarrow> db res" where
  "settle_agent s g =
     (case g of (agent_id, bs) \<Rightarrow>
        bindE (foldE settle_kernel ([], [], db_actual_allocs s) bs) (\<lambda>(actual, requested, allocs).
          let s1 = s\<lparr>db_actual_allocs := allocs\<rparr>
          in case rs_ne actual requested of (differ, actual', requested') \<Rightarrow>
               if differ then
                 (case find_agent s1 agent_id of
                    None \<Rightarrow> Inl AttributeError
                  | Some ag \<Rightarrow>
                      bindE (rs_minus actual' requested') (\<lambda>diff.
                      bindE (rs_plus (a_occupied_slots ag) diff) (\<lambda>occ.
                        Inr (update_agent agent_id (\<lambda>r. r\<lparr>a_occupied_slots := occ\<rparr>) s1))))
               else Inr s1))"

definition settle_agent_alloc :: "kernel_agent_binding list \<Rightarrow> db \<Rightarrow> db res" where
  "settle_agent_alloc bindings s =
     (let keyfunc = (\<lambda>b. aac_agent_id (kab_agent_alloc_ctx b))
      in foldE settle_agent s (groupby keyfunc (sort_key keyfunc bindings)))"

section \<open>What is used\<close>

text \<open>The specification of all the sums above: how much of a slot the selected kernels use.\<close>

definition used_by :: "(kernel_row \<Rightarrow> bool) \<Rightarrow> db \<Rightarrow> string \<Rightarrow> rat" where
  "used_by P s k = sum_list (map (\<lambda>r. slot_amt (k_occupied_slots r) k) (filter P (db_kernels s)))"

definition on_agent :: "string \<Rightarrow> kernel_row \<Rightarrow> bool" where
  "on_agent i r \<longleftrightarrow> k_agent r = Some i \<and> agent_occupying r"

definition fin_kernels :: "db \<Rightarrow> bool" where
  "fin_kernels s \<longleftrightarrow> list_all (\<lambda>r. fin_slots (k_occupied_slots r)) (db_kernels s)"

lemma fin_kernels_filter: "fin_kernels s \<Longrightarrow> list_all fin_slots (map k_occupied_slots (filter P (db_kernels s)))"
  by (auto simp: fin_kernels_def list_all_iff)

lemma rs_sum_used:
  assumes "fin_kernels s"
  shows "\<exists>r. rs_sum (map k_occupied_slots (filter P (db_kernels s))) = Inr r \<and> fin_slots r \<and> (\<forall>k. slot_amt r k = used_by P s k)"
  using rs_sum_fin[OF fin_kernels_filter[OF assms, of P]] by (simp add: used_by_def comp_def)

lemma slot_val_drop_unknown:
  "slot_val (drop_unknown types a) k = (if k \<in> set (keys types) then slot_val a k else 0)"
proof (cases "k \<in> set (keys types)")
  case False
  then have "k \<notin> set (keys (drop_unknown types a))" by (force simp: drop_unknown_def)
  with False show ?thesis by (simp add: slot_val_notin)
qed (use slot_val_filter_known[of "\<lambda>k. k \<in> set (keys types)" k a] in \<open>simp add: drop_unknown_def\<close>)

lemma fin_drop_unknown: "fin_slots a \<Longrightarrow> fin_slots (drop_unknown types a)"
  by (auto simp: fin_slots_def drop_unknown_def list_all_iff)

text \<open>
  The contract of the three occupancy queries, which the quota checks rely on: on finite slots the
  query succeeds with what the kernels of the owner use, of the known slot types.
\<close>

locale occupancy_query =
  fixes query :: "(string, string) dict \<Rightarrow> string \<Rightarrow> db \<Rightarrow> slots res"
    and owned :: "string \<Rightarrow> kernel_row \<Rightarrow> bool"
  assumes query_def: "query types i s =
    bindE (rs_sum (map k_occupied_slots (filter (\<lambda>r. owned i r \<and> user_occupying r) (db_kernels s)))) (\<lambda>r. Inr (drop_unknown types r))"
begin

lemma query_spec:
  assumes "fin_kernels s"
  obtains r where "query types i s = Inr r" and "fin_slots r"
    and "\<And>k. slot_amt r k = (if k \<in> set (keys types) then used_by (\<lambda>r. owned i r \<and> user_occupying r) s k else 0)"
proof -
  obtain r where r: "rs_sum (map k_occupied_slots (filter (\<lambda>r. owned i r \<and> user_occupying r) (db_kernels s))) = Inr r" "fin_slots r"
    "\<And>k. slot_amt r k = used_by (\<lambda>r. owned i r \<and> user_occupying r) s k"
    using rs_sum_used[OF assms] by blast
  show ?thesis
    by (rule that[of "drop_unknown types r"])
      (use r fin_drop_unknown in \<open>auto simp: query_def slot_amt_def slot_val_drop_unknown zero_decimal_def\<close>)
qed

end

interpretation keypair_query: occupancy_query get_keypair_occupancy "\<lambda>i r. k_access_key r = i"
  by unfold_locales (simp add: get_keypair_occupancy_def)

interpretation domain_query: occupancy_query get_domain_occupancy "\<lambda>i r. k_domain_name r = i"
  by unfold_locales (simp add: get_domain_occupancy_def)

interpretation group_query: occupancy_query get_group_occupancy "\<lambda>i r. k_group_id r = i"
  by unfold_locales (simp add: get_group_occupancy_def)

section \<open>Recalculated agents\<close>

lemma recalc_agent_spec:
  assumes "fin_kernels s"
  obtains occ where "recalc_agent_resource_occupancy i s = Inr (update_agent i (\<lambda>r. r\<lparr>a_occupied_slots := occ\<rparr>) s)"
    and "fin_slots occ" and "\<And>k. slot_amt occ k = used_by (on_agent i) s k"
proof -
  have "on_agent i = (\<lambda>r. k_agent r = Some i \<and> agent_occupying r)" by (simp add: on_agent_def fun_eq_iff)
  with rs_sum_used[OF assms, of "on_agent i"] that show ?thesis
    by (auto simp: recalc_agent_resource_occupancy_def rs_sum_def)
qed

lemma add_occupied_fold:
  assumes "\<forall>ag. fin_slots (dget_or d ag default_agent_slots)" and "\<forall>r\<in>set rs. fin_slots (k_occupied_slots r)"
  shows "\<exists>d'. foldE add_occupied d rs = Inr d' \<and> set (keys d') = set (keys d) \<union> k_agent ` set rs \<and>
    (wf_dict d \<longrightarrow> wf_dict d') \<and>
    (\<forall>ag. fin_slots (dget_or d' ag default_agent_slots) \<and>
       (\<forall>k. slot_amt (dget_or d' ag default_agent_slots) k = slot_amt (dget_or d ag default_agent_slots) k +
          sum_list (map (\<lambda>r. slot_amt (k_occupied_slots r) k) (filter (\<lambda>r. k_agent r = ag) rs))))"
  using assms
proof (induction rs arbitrary: d)
  case (Cons r rs)
  obtain x where x: "rs_plus (dget_or d (k_agent r) default_agent_slots) (k_occupied_slots r) = Inr x" "fin_slots x"
    "\<And>k. slot_amt x k = slot_amt (dget_or d (k_agent r) default_agent_slots) k + slot_amt (k_occupied_slots r) k"
    using rs_plus_fin Cons.prems by (metis list.set_intros(1))
  let ?d = "dset d (k_agent r) x"
  have g: "dget_or ?d ag default_agent_slots = (if ag = k_agent r then x else dget_or d ag default_agent_slots)" for ag
    by (simp add: dget_or_def update_conv)
  have "\<forall>ag. fin_slots (dget_or ?d ag default_agent_slots)" using Cons.prems(1) x(2) g by simp
  then obtain d' where d': "foldE add_occupied ?d rs = Inr d'" "set (keys d') = set (keys ?d) \<union> k_agent ` set rs"
    "wf_dict ?d \<longrightarrow> wf_dict d'" "\<And>ag. fin_slots (dget_or d' ag default_agent_slots)"
    "\<And>ag k. slot_amt (dget_or d' ag default_agent_slots) k = slot_amt (dget_or ?d ag default_agent_slots) k +
          sum_list (map (\<lambda>r. slot_amt (k_occupied_slots r) k) (filter (\<lambda>r. k_agent r = ag) rs))"
    using Cons.IH[of ?d] Cons.prems(2) by auto
  have "foldE add_occupied d (r # rs) = Inr d'" using x(1) d'(1) by (simp add: add_occupied_def)
  moreover have "set (keys d') = set (keys d) \<union> k_agent ` set (r # rs)" unfolding d'(2) keys_dset by auto
  moreover have "wf_dict d \<longrightarrow> wf_dict d'" using d'(3) distinct_update by blast
  ultimately show ?case using d'(4,5) g x(3) by (auto simp: add.assoc)
qed auto

lemma default_agent_slots [simp]: "fin_slots default_agent_slots" "slot_amt default_agent_slots k = 0"
  by (auto simp: default_agent_slots_def fin_slots_def slot_amt_def slot_val_Cons zero_decimal_def)

lemma occupied_slots_per_agent_spec:
  assumes "fin_kernels s"
  obtains d where "occupied_slots_per_agent s = Inr d" and "wf_dict d"
    and "set (keys d) = k_agent ` set (filter agent_occupying (db_kernels s))"
    and "\<And>i. fin_slots (dget_or d (Some i) default_agent_slots)"
    and "\<And>i k. slot_amt (dget_or d (Some i) default_agent_slots) k = used_by (on_agent i) s k"
proof -
  have "filter (\<lambda>r. k_agent r = Some i) (filter agent_occupying (db_kernels s)) = filter (on_agent i) (db_kernels s)" for i
    by (auto simp: on_agent_def intro!: filter_cong)
  then show ?thesis
    using add_occupied_fold[of "[]" "filter agent_occupying (db_kernels s)"] assms that
    unfolding occupied_slots_per_agent_def used_by_def
    by (fastforce simp: dget_or_def fin_kernels_def list_all_iff)
qed

lemma set_agents_fold:
  "wf_dict d \<Longrightarrow>
   db_agents (fold (\<lambda>(aid, sl). case aid of None \<Rightarrow> id | Some i \<Rightarrow> update_agent i (\<lambda>r. r\<lparr>a_occupied_slots := sl\<rparr>)) d s) =
   map (\<lambda>r. case map_of d (Some (a_id r)) of Some sl \<Rightarrow> r\<lparr>a_occupied_slots := sl\<rparr> | None \<Rightarrow> r) (db_agents s)"
proof (induction d arbitrary: s)
  case (Cons p d)
  obtain ag sl where p: "p = (ag, sl)" by (cases p)
  have "ag \<notin> set (keys d)" using Cons.prems p by simp
  then have n: "map_of d ag = None" by (simp add: map_of_eq_None_iff)
  show ?case
  proof (cases ag)
    case None
    with Cons p show ?thesis by simp
  next
    case (Some i)
    have "db_agents (update_agent i (\<lambda>r. r\<lparr>a_occupied_slots := sl\<rparr>) s) = map (\<lambda>r. if a_id r = i then r\<lparr>a_occupied_slots := sl\<rparr> else r) (db_agents s)"
      by (simp add: update_agent_def)
    with Cons p Some n show ?thesis by (auto simp: comp_def split: option.splits)
  qed
qed simp

lemma set_all_agents_spec:
  assumes "wf_dict d"
  shows "db_agents (set_all_agents d s) = map (\<lambda>r. case map_of d (Some (a_id r)) of
      Some sl \<Rightarrow> r\<lparr>a_occupied_slots := sl\<rparr> | None \<Rightarrow> if a_status r = ALIVE \<and> None \<notin> set (keys d) then r\<lparr>a_occupied_slots := []\<rparr> else r) (db_agents s)"
proof -
  have "Some (a_id r) \<in> fst ` set d \<longleftrightarrow> map_of d (Some (a_id r)) \<noteq> None" for r :: agent_row
    by (simp add: map_of_eq_None_iff)
  with set_agents_fold[OF assms, of s] show ?thesis
    by (auto simp: set_all_agents_def Let_def comp_def split: option.splits)
qed

lemma redis_mset_simps [simp]: "db_agents (redis_mset u s) = db_agents s" "db_kernels (redis_mset u s) = db_kernels s"
  by (simp_all add: redis_mset_def)

lemma set_agents_fold_redis:
  "db_redis_stat (fold (\<lambda>(aid, sl). case aid of None \<Rightarrow> id | Some i \<Rightarrow> update_agent i (\<lambda>r. r\<lparr>a_occupied_slots := sl\<rparr>)) d s) = db_redis_stat s"
  by (induction d arbitrary: s) (auto split: option.splits)

lemma set_all_agents_redis [simp]: "db_redis_stat (set_all_agents d s) = db_redis_stat s"
  by (simp add: set_all_agents_def Let_def set_agents_fold_redis)

text \<open>Every kernel that occupies agent resources has an agent.\<close>

definition all_placed :: "db \<Rightarrow> bool" where
  "all_placed s \<longleftrightarrow> (\<forall>r\<in>set (db_kernels s). agent_occupying r \<longrightarrow> k_agent r \<noteq> None)"

lemma recalc_resource_usage_spec:
  assumes "fin_kernels s"
  shows "\<exists>s'. recalc_resource_usage do_fullscan s = Inr s' \<and> map a_id (db_agents s') = map a_id (db_agents s) \<and>
    (\<forall>a\<in>set (db_agents s'). a_status a = ALIVE \<and> all_placed s \<or> (\<exists>r\<in>set (db_kernels s). on_agent (a_id a) r) \<longrightarrow>
       (\<forall>k. slot_amt (a_occupied_slots a) k = used_by (on_agent (a_id a)) s k))"
proof -
  obtain d where d: "occupied_slots_per_agent s = Inr d" "wf_dict d"
    "set (keys d) = k_agent ` set (filter agent_occupying (db_kernels s))"
    "\<And>i k. slot_amt (dget_or d (Some i) default_agent_slots) k = used_by (on_agent i) s k"
    using occupied_slots_per_agent_spec[OF assms] by metis
  have "\<exists>s'. recalc_resource_usage do_fullscan s = Inr s' \<and> db_agents s' = db_agents (set_all_agents d s)"
    by (simp add: recalc_resource_usage_def d(1) Let_def)
  then obtain s' where s': "recalc_resource_usage do_fullscan s = Inr s'" "db_agents s' = db_agents (set_all_agents d s)" by blast
  note ags = s'(2)[unfolded set_all_agents_spec[OF d(2)]]
  have kd: "Some i \<in> set (keys d) \<longleftrightarrow> (\<exists>r\<in>set (db_kernels s). on_agent i r)" for i
    unfolding d(3) by (force simp: on_agent_def)
  have kn: "None \<notin> set (keys d) \<longleftrightarrow> all_placed s"
    unfolding d(3) by (force simp: all_placed_def)
  have "slot_amt (a_occupied_slots a) k = used_by (on_agent (a_id a)) s k"
    if a: "a \<in> set (db_agents s')" and live: "a_status a = ALIVE \<and> all_placed s \<or> (\<exists>r\<in>set (db_kernels s). on_agent (a_id a) r)" for a k
  proof -
    obtain b where b: "b \<in> set (db_agents s)" "a = (case map_of d (Some (a_id b)) of
        Some sl \<Rightarrow> b\<lparr>a_occupied_slots := sl\<rparr> | None \<Rightarrow> if a_status b = ALIVE \<and> None \<notin> set (keys d) then b\<lparr>a_occupied_slots := []\<rparr> else b)"
      using a unfolding ags by auto
    have ib: "a_id a = a_id b" using b(2) by (simp split: option.splits)
    show ?thesis
    proof (cases "map_of d (Some (a_id b))")
      case None
      then have "Some (a_id b) \<notin> set (keys d)" by (simp add: map_of_eq_None_iff)
      then have no: "\<not> (\<exists>r\<in>set (db_kernels s). on_agent (a_id a) r)" using kd ib by simp
      then have "a_status b = ALIVE \<and> None \<notin> set (keys d)" using live b(2) None kn by (auto split: if_splits)
      moreover have "used_by (on_agent (a_id a)) s k = 0"
        using no by (auto simp: used_by_def filter_empty_conv[THEN iffD2])
      ultimately show ?thesis using b(2) None by simp
    next
      case (Some sl)
      with d(4)[of "a_id b" k] ib b(2) show ?thesis by (simp add: dget_or_def)
    qed
  qed
  moreover have "map a_id (db_agents s') = map a_id (db_agents s)"
    unfolding ags by (simp add: comp_def option.case_eq_if if_distrib cong: if_cong)
  ultimately show ?thesis using s'(1) by blast
qed

text \<open>
  \<open>recalc_resource_usage\<close> restores the accounting of the agents: on finite slots it succeeds, and
  afterwards the occupied slots of every agent that hosts a kernel, and, unless some occupying kernel
  has no agent, of every agent alive, are exactly what the kernels occupying it use, in every slot;
  the set of agents is kept.
\<close>
theorem recalc_resource_usage_agents:
  assumes "fin_kernels s"
  shows "\<exists>s'. recalc_resource_usage do_fullscan s = Inr s' \<and> map a_id (db_agents s') = map a_id (db_agents s) \<and>
    (\<forall>a\<in>set (db_agents s'). a_status a = ALIVE \<and> all_placed s \<or> (\<exists>r\<in>set (db_kernels s). on_agent (a_id a) r) \<longrightarrow>
       (\<forall>k. slot_amt (a_occupied_slots a) k = used_by (on_agent (a_id a)) s k))"
  using recalc_resource_usage_spec[OF assms] .

text \<open>Agents and a database for the witnesses.\<close>

definition demo_agent :: "string \<Rightarrow> agent_status \<Rightarrow> slots \<Rightarrow> slots \<Rightarrow> agent_row" where
  "demo_agent i st av oc =
     \<lparr> a_id = i, a_status = st, a_status_changed = None, a_region = ''local'', a_scaling_group = ''default'',
       a_schedulable = True, a_available_slots = av, a_occupied_slots = oc, a_addr = ''tcp'', a_first_contact = 0, a_lost_at = None,
       a_version = ''22.09'', a_architecture = ''x86_64'', a_compute_plugins = JObj [] \<rparr>"

definition demo_db :: "kernel_row list \<Rightarrow> agent_row list \<Rightarrow> db" where
  "demo_db ks ags =
     \<lparr> db_kernels = ks, db_agents = ags, db_keypair_policy = [(''AK'', ''default'')],
       db_policies = [(''default'', \<lparr>p_default_for_unspecified = LIMITED, p_total_resource_slots = [(''cpu'', Fin 8)], p_max_concurrent_sessions = 2, p_max_containers_per_session = 8,
         p_max_session_lifetime = 0, p_idle_timeout = 600, p_allowed_vfolder_hosts = [], p_max_vfolder_count = 0, p_max_vfolder_size = 0\<rparr>)],
       db_groups = [(''g'', [(''cpu'', Fin 6)])], db_domains = [(''d'', [])], db_scaling_groups = [(''default'', \<lparr>sg_is_active = True, sg_allowed_session_types = [INTERACTIVE, BATCH], sg_scheduler = ''fifo'', sg_pending_timeout = 0, sg_config = []\<rparr>)],
       db_dependencies = [], db_redis_stat = [(conc_key ''AK'', 5)],
       db_kernel_stats = [], db_last_seen = [], db_image_agents = [], db_slot_types = [], db_actual_allocs = [], db_events = [] \<rparr>"

theorem recalc_resource_usage_agents_witness:
  "\<exists>s'. recalc_resource_usage False (demo_db [demo_kernel ''k'' ''k'' ''main'' RUNNING [(''cpu'', Fin 2)] (Some ''i'')]
       [demo_agent ''i'' ALIVE [(''cpu'', Fin 8)] [(''cpu'', Fin 7)]]) = Inr s' \<and>
     map (\<lambda>a. slot_amt (a_occupied_slots a) ''cpu'') (db_agents s') = [2]"
proof -
  let ?s = "demo_db [demo_kernel ''k'' ''k'' ''main'' RUNNING [(''cpu'', Fin 2)] (Some ''i'')]
       [demo_agent ''i'' ALIVE [(''cpu'', Fin 8)] [(''cpu'', Fin 7)]]"
  have "fin_kernels ?s" by code_simp
  from recalc_resource_usage_agents[OF this, of False] obtain s' where s': "recalc_resource_usage False ?s = Inr s'"
    "map a_id (db_agents s') = map a_id (db_agents ?s)"
    "\<forall>a\<in>set (db_agents s'). a_status a = ALIVE \<and> all_placed ?s \<or> (\<exists>r\<in>set (db_kernels ?s). on_agent (a_id a) r) \<longrightarrow>
       (\<forall>k. slot_amt (a_occupied_slots a) k = used_by (on_agent (a_id a)) ?s k)" by blast
  have i: "map a_id (db_agents ?s) = [''i'']" and o: "\<exists>r\<in>set (db_kernels ?s). on_agent ''i'' r" and u: "used_by (on_agent ''i'') ?s ''cpu'' = 2"
    by code_simp+
  from s'(2) i obtain a where a: "db_agents s' = [a]" "a_id a = ''i''" by (cases "db_agents s'") auto
  with s'(1,3) o u show ?thesis by auto
qed

section \<open>Recalculated counters\<close>

lemma conc_key_inj [simp]: "conc_key a = conc_key b \<longleftrightarrow> a = b"
  by (simp add: conc_key_def)

lemma map_of_fold_dset: "map_of (fold (\<lambda>(k, v) d. dset d k v) u d) k = (case map_of (rev u) k of Some v \<Rightarrow> Some v | None \<Rightarrow> map_of d k)"
  by (induction u arbitrary: d) (auto simp: update_conv map_add_def split: option.splits)

lemma map_of_rev_wf: "wf_dict u \<Longrightarrow> map_of (rev u) k = map_of u k"
proof (induction u)
  case (Cons p u)
  then have "map_of u (fst p) = None" by (simp add: map_of_eq_None_iff)
  with Cons show ?case by (auto simp: map_add_def split: option.splits)
qed simp

lemma concurrency_used_fold:
  "map_of (fold (\<lambda>r d. dset d (k_access_key r) (dget_or d (k_access_key r) 0 + 1)) rs d) ak =
     (let n = int (length (filter (\<lambda>r. k_access_key r = ak) rs))
      in if n = 0 then map_of d ak else Some (dget_or d ak 0 + n))"
proof (induction rs arbitrary: d)
  case (Cons r rs)
  then show ?case by (auto simp: Let_def dget_or_def update_conv split: option.splits)
qed simp

lemma concurrency_used_fold_wf:
  "wf_dict d \<Longrightarrow> wf_dict (fold (\<lambda>r d. dset d (k_access_key r) (dget_or d (k_access_key r) 0 + 1)) rs d)"
  by (induction rs arbitrary: d) (auto simp: distinct_update)

definition sessions_counted :: "string \<Rightarrow> db \<Rightarrow> int" where
  "sessions_counted ak s = int (length (filter (\<lambda>r. k_access_key r = ak \<and> user_occupying r) (db_kernels s)))"

lemma concurrency_used_per_key_spec:
  "map_of (concurrency_used_per_key s) ak = (if sessions_counted ak s = 0 then None else Some (sessions_counted ak s))"
  "wf_dict (concurrency_used_per_key s)"
proof -
  have f: "filter (\<lambda>r. k_access_key r = ak) (filter user_occupying xs) = filter (\<lambda>r. k_access_key r = ak \<and> user_occupying r) xs" for xs
    by (auto intro!: filter_cong)
  show "map_of (concurrency_used_per_key s) ak = (if sessions_counted ak s = 0 then None else Some (sessions_counted ak s))"
    unfolding concurrency_used_per_key_def concurrency_used_fold f sessions_counted_def by (simp add: Let_def dget_or_def)
  show "wf_dict (concurrency_used_per_key s)"
    unfolding concurrency_used_per_key_def by (rule concurrency_used_fold_wf) simp
qed

lemma map_of_conc_keys: "map_of (map (\<lambda>(k, n). (conc_key k, n)) u) (conc_key ak) = map_of u ak"
  by (induction u) auto

lemma fullscan_keys: "k \<in> set (keys (fullscan_updates redis)) \<Longrightarrow> \<exists>x. k = conc_key (bytes_repr x)"
proof -
  have "k \<in> set (keys (fold (\<lambda>k d. dset d (conc_key (bytes_repr k)) 0) ks d)) \<Longrightarrow> k \<in> set (keys d) \<or> (\<exists>x. k = conc_key (bytes_repr x))"
    for ks and d :: "(string, int) dict"
  proof (induction ks arbitrary: d)
    case (Cons x ks)
    from Cons.prems have "k \<in> set (keys (dset d (conc_key (bytes_repr x)) 0)) \<or> (\<exists>x. k = conc_key (bytes_repr x))"
      by (intro Cons.IH) simp
    then show ?case unfolding keys_dset by auto
  qed simp
  then show "k \<in> set (keys (fullscan_updates redis)) \<Longrightarrow> \<exists>x. k = conc_key (bytes_repr x)"
    unfolding fullscan_updates_def by fastforce
qed

text \<open>
  The session counters after \<open>recalc_resource_usage\<close>.  Without a full scan every keypair with an
  occupying kernel has its counter set to the number of such kernels, and the counter of a keypair
  that has none is left at whatever value it had.  A full scan, which exists to reset those, changes
  the counter of no keypair (no access key starts with \<open>b'\<close>): it writes to keys nobody reads.
\<close>
theorem recalc_resource_usage_counters:
  assumes "recalc_resource_usage do_fullscan s = Inr s'" and "\<forall>x. ak \<noteq> bytes_repr x"
  shows "map_of (db_redis_stat s') (conc_key ak) =
    (if do_fullscan \<or> sessions_counted ak s = 0 then map_of (db_redis_stat s) (conc_key ak) else Some (sessions_counted ak s))"
proof -
  obtain d where s': "s' = (if do_fullscan then redis_mset (fullscan_updates (db_redis_stat s)) (set_all_agents d s)
      else redis_mset (map (\<lambda>(k, n). (conc_key k, n)) (concurrency_used_per_key s)) (set_all_agents d s))"
    using assms(1) by (cases do_fullscan) (auto simp: recalc_resource_usage_def bindE_eq_Inr_iff Let_def)
  show ?thesis
  proof (cases do_fullscan)
    case True
    have "conc_key ak \<notin> set (keys (fullscan_updates (db_redis_stat s)))" using fullscan_keys assms(2) by fastforce
    then have "map_of (rev (fullscan_updates (db_redis_stat s))) (conc_key ak) = None" by (simp add: map_of_eq_None_iff)
    with True s' show ?thesis by (simp add: redis_mset_def map_of_fold_dset)
  next
    case False
    let ?u = "map (\<lambda>(k, n). (conc_key k, n)) (concurrency_used_per_key s)"
    have "distinct (map (conc_key \<circ> fst) (concurrency_used_per_key s))"
      using concurrency_used_per_key_spec(2)[of s] by (simp add: distinct_map inj_on_def comp_def)
    then have "wf_dict ?u" by (simp add: comp_def case_prod_beta)
    then have "map_of (rev ?u) (conc_key ak) = map_of ?u (conc_key ak)" by (rule map_of_rev_wf)
    with False s' show ?thesis
      by (simp add: redis_mset_def map_of_fold_dset map_of_conc_keys concurrency_used_per_key_spec(1))
  qed
qed

theorem recalc_resource_usage_counters_witness:
  "\<exists>s'. recalc_resource_usage True (demo_db [] []) = Inr s' \<and> map_of (db_redis_stat s') (conc_key ''AK'') = Some 5"
proof -
  have "case recalc_resource_usage True (demo_db [] []) of Inl _ \<Rightarrow> False | Inr _ \<Rightarrow> True" by code_simp
  then obtain s' where "recalc_resource_usage True (demo_db [] []) = Inr s'" by (auto split: sum.splits)
  with recalc_resource_usage_counters[OF this, of "''AK''"] show ?thesis by (auto simp: bytes_repr_def demo_db_def)
qed

end
