(* ===== verification/BinarySizes.thy ===== *)
theory BinarySizes
  imports PyStrings
begin

text \<open>
  \<open>BinarySize\<close> of \<open>common/types.py\<close>: sizes in bytes with binary suffixes, their parser and their two
  printers.  Quotients are exact rationals; the 28 digits of the default decimal context are not
  modelled.
\<close>

section \<open>Suffixes\<close>

definition suffix_map :: "(char, int) dict" where
  "suffix_map =
     [(CHR ''y'', 2 ^ 80), (CHR ''Y'', 2 ^ 80), (CHR ''z'', 2 ^ 70), (CHR ''Z'', 2 ^ 70), (CHR ''e'', 2 ^ 60), (CHR ''E'', 2 ^ 60),
      (CHR ''p'', 2 ^ 50), (CHR ''P'', 2 ^ 50), (CHR ''t'', 2 ^ 40), (CHR ''T'', 2 ^ 40), (CHR ''g'', 2 ^ 30), (CHR ''G'', 2 ^ 30),
      (CHR ''m'', 2 ^ 20), (CHR ''M'', 2 ^ 20), (CHR ''k'', 2 ^ 10), (CHR ''K'', 2 ^ 10), (CHR '' '', 1)]"

definition suffices :: string where
  "suffices = '' KMGTPEZY''"

definition endings :: "string list" where
  "endings = [''ibytes'', ''ibyte'', ''ib'', ''bytes'', ''byte'', ''b'']"

section \<open>Parsing\<close>

text \<open>A size, or the decimal infinity.\<close>

datatype size_res = BSize int | BInf

text \<open>\<open>int(dec_expr * multiplier)\<close>.\<close>

definition scale_num :: "num \<Rightarrow> int \<Rightarrow> int res" where
  "scale_num d m =
     (case d of
        QNaN \<Rightarrow> Inl ValueError
      | SNaN \<Rightarrow> Inl InvalidOperation
      | Num r \<Rightarrow> (case dvalue r of Fin x \<Rightarrow> Inr (trunc_int (x * of_int m)) | _ \<Rightarrow> Inl OverflowError))"

text \<open>The suffix character and the text of the number before it.\<close>

definition split_suffix :: "string \<Rightarrow> (char \<times> string) res" where
  "split_suffix expr =
     (case find (ends_with expr) endings of
        Some ending \<Rightarrow>
          (let len = length ending + 1
           in if length expr < len then Inl IndexError
              else Inr (expr ! (length expr - len), take (length expr - len) expr))
      | None \<Rightarrow>
          (if expr = [] then Inl IndexError
           else if \<not> is_digit (last expr) then Inr (last expr, butlast expr)
           else Inl ValueError))"

definition binsize_parse_str :: "string \<Rightarrow> size_res res" where
  "binsize_parse_str expr0 =
     (if str_lower expr0 \<in> {''inf'', ''infinite'', ''infinity''} then Inr BInf
      else let expr = filter (\<lambda>c. c \<noteq> CHR ''_'') (str_strip expr0)
           in case parse_int expr of
                Inr n \<Rightarrow> Inr (BSize n)
              | Inl _ \<Rightarrow>
                  bindE (split_suffix (str_lower expr)) (\<lambda>(suffix, text).
                    case parse_decimal text of
                      Inl _ \<Rightarrow> Inl ValueError
                    | Inr d \<Rightarrow>
                        (case map_of suffix_map suffix of
                           None \<Rightarrow> Inl ValueError
                         | Some m \<Rightarrow> bindE (scale_num d m) (\<lambda>n. Inr (BSize n)))))"

datatype size_input = SDec decimal | SInt int | SStr string

fun dec_to_int :: "decimal \<Rightarrow> int res" where
  "dec_to_int (Fin x) = Inr (trunc_int x)"
| "dec_to_int _ = Inl OverflowError"

definition finite_from_str :: "size_input \<Rightarrow> int res" where
  "finite_from_str expr =
     (case expr of
        SDec d \<Rightarrow> if is_finite d then dec_to_int d else Inl ValueError
      | SInt n \<Rightarrow> Inr n
      | SStr s \<Rightarrow> bindE (binsize_parse_str s) (\<lambda>r. case r of BSize n \<Rightarrow> Inr n | BInf \<Rightarrow> Inl ValueError))"

definition binsize_from_str :: "size_input \<Rightarrow> size_res res" where
  "binsize_from_str expr =
     (case expr of
        SDec d \<Rightarrow> bindE (dec_to_int d) (\<lambda>n. Inr (BSize n))
      | SInt n \<Rightarrow> Inr (BSize n)
      | SStr s \<Rightarrow> binsize_parse_str s)"

section \<open>Printing\<close>

function preformat :: "int \<Rightarrow> nat" where
  "preformat scale = (if scale \<ge> 1024 then preformat (scale div 1024) + 1 else 0)"
  by pat_completeness auto
termination
  by (relation "measure nat") auto

declare preformat.simps [simp del]

definition binsize_quantize :: "int \<Rightarrow> int \<Rightarrow> drepr" where
  "binsize_quantize val multiplier =
     (if multiplier dvd val then DFin (val < 0) (nat \<bar>val div multiplier\<bar>) 0
      else dec_normalize (DFin (val < 0) (nat \<bar>round_half_even (100 * of_int val / of_int multiplier)\<bar>) (- 2)))"

text \<open>The suffix and the multiplier of the automatic scale; past yotta there is no suffix.\<close>

definition auto_suffix :: "nat \<Rightarrow> (char \<times> int) res" where
  "auto_suffix idx =
     (if idx < length suffices then bindE (dget suffix_map (suffices ! idx)) (\<lambda>m. Inr (suffices ! idx, m)) else Inl IndexError)"

definition char_upper :: "char \<Rightarrow> char" where
  "char_upper c = (let n = (of_char c :: nat) in if 97 \<le> n \<and> n \<le> 122 then char_of (n - 32) else c)"

definition binsize_str :: "int \<Rightarrow> string res" where
  "binsize_str n =
     (let idx = preformat n
      in if idx = 0 then Inr (show_int n @ (if n = 1 then '' byte'' else '' bytes''))
         else bindE (auto_suffix idx) (\<lambda>(suffix, m). Inr (dec_str (binsize_quantize n m) @ '' '' @ [char_upper suffix] @ ''iB'')))"

definition binsize_format :: "string \<Rightarrow> int \<Rightarrow> string res" where
  "binsize_format spec n =
     (if length spec \<noteq> 1 then Inl ValueError
      else if spec = ''s'' then
        (let idx = preformat n
         in if idx = 0 then Inr (show_int n)
            else bindE (auto_suffix idx) (\<lambda>(suffix, m). Inr (dec_str (binsize_quantize n m) @ [char_lower suffix])))
      else
        (let suffix = char_lower (hd spec)
         in case map_of suffix_map suffix of
              None \<Rightarrow> Inl ValueError
            | Some m \<Rightarrow> Inr (str_strip (dec_str (binsize_quantize n m) @ [char_lower suffix]))))"

section \<open>Printing and parsing agree\<close>

text \<open>What the parser needs of the eight suffix letters the printer uses.\<close>

definition suffix_ok :: "nat \<Rightarrow> bool" where
  "suffix_ok idx \<longleftrightarrow>
     (let c = char_lower (suffices ! idx)
      in auto_suffix idx = Inr (suffices ! idx, 1024 ^ idx) \<and> map_of suffix_map c = Some (1024 ^ idx) \<and>
         \<not> is_digit c \<and> \<not> is_space c \<and> c \<noteq> CHR ''_'' \<and> c \<noteq> CHR ''b'' \<and> char_lower c = c)"

lemma suffix_ok: "0 < idx \<Longrightarrow> idx < 9 \<Longrightarrow> suffix_ok idx"
proof -
  have "list_all suffix_ok [1..<9]" by code_simp
  then show "0 < idx \<Longrightarrow> idx < 9 \<Longrightarrow> suffix_ok idx" by (simp add: list_all_iff)
qed

lemma preformat_bounds: "0 \<le> n \<Longrightarrow> 1024 ^ preformat n \<le> max 1 n \<and> n < 1024 ^ (preformat n + 1)"
proof (induction n rule: preformat.induct)
  case (1 n)
  show ?case
  proof (cases "1024 \<le> n")
    case True
    let ?m = "n div 1024"
    have p: "preformat n = preformat ?m + 1" using True by (subst preformat.simps) simp
    have IH: "1024 ^ preformat ?m \<le> max 1 ?m \<and> ?m < 1024 ^ (preformat ?m + 1)" using 1 True by simp
    have "1 \<le> ?m" using True by (simp add: zdiv_mono1[of 1024 n 1024, simplified])
    then have "1024 ^ preformat ?m \<le> ?m" using IH by (simp add: max_def)
    then have lo: "1024 ^ preformat ?m * 1024 \<le> n" by linarith
    have "n < (?m + 1) * 1024" by (simp add: algebra_simps)
    also have "\<dots> \<le> 1024 ^ (preformat ?m + 1) * 1024" using IH by (intro mult_right_mono) auto
    finally show ?thesis using lo True unfolding p by (simp add: mult.commute)
  next
    case False
    then have "preformat n = 0" by (subst preformat.simps) simp
    with False 1(2) show ?thesis by simp
  qed
qed

lemma digits_val_bad: "\<not> is_digit c \<Longrightarrow> digits_val acc (s @ [c]) = None"
  by (auto simp: digits_val_append is_digit_def split: bind_splits)

lemma parse_int_bad:
  assumes "plain_digit (hd s)" and "s \<noteq> []" and "\<not> is_digit c" and "\<not> is_space c"
  shows "\<exists>e. parse_int (s @ [c]) = Inl e"
proof -
  have "str_strip (s @ [c]) = s @ [c]" using assms by (intro str_strip_id) (auto simp: plain_digit_def)
  moreover have "strip_sign (s @ [c]) = (False, s @ [c])"
    using assms by (cases s) (auto simp: strip_sign_def plain_digit_def)
  ultimately show ?thesis using digits_val_bad[OF assms(3)] by (simp add: parse_int_def parse_nat_def)
qed

lemma split_suffix_last:
  assumes "s \<noteq> []" and "plain_digit (last s)" and "\<not> is_digit c" and "c \<noteq> CHR ''b''"
  shows "split_suffix (s @ [c]) = Inr (c, s)"
proof -
  obtain t d where t: "s = t @ [d]" "plain_digit d" using assms(1,2) by (cases s rule: rev_cases) auto
  have nd: "\<not> is_digit CHR ''e''" "\<not> is_digit CHR ''t''" "\<not> is_digit CHR ''i''" by code_simp+
  have "is_digit d" using t(2) by (simp add: plain_digit_def)
  then have d: "d \<noteq> CHR ''e''" "d \<noteq> CHR ''t''" "d \<noteq> CHR ''i''" using nd by auto
  have two: "\<not> ends_with (t @ [d, c]) (u @ [x, y])" if "d \<noteq> x" for u x y
  proof
    assume "ends_with (t @ [d, c]) (u @ [x, y])"
    then obtain v where "t @ [d, c] = v @ u @ [x, y]" unfolding ends_with_def by (metis append_take_drop_id)
    then show False using that by (metis append.assoc append_eq_append_conv list.inject length_Cons append_Cons append_Nil butlast_append butlast_snoc last_snoc append_butlast_last_id)
  qed
  have one: "\<not> ends_with (t @ [d, c]) ''b''" using assms(4) by (auto simp: ends_with_def)
  have "\<not> ends_with (t @ [d, c]) e" if "e \<in> set endings" for e
    using that one d two[of "CHR ''e''" "''ibyt''" "CHR ''s''"] two[of "CHR ''t''" "''iby''" "CHR ''e''"]
      two[of "CHR ''i''" "[]" "CHR ''b''"] two[of "CHR ''e''" "''byt''" "CHR ''s''"] two[of "CHR ''t''" "''by''" "CHR ''e''"]
    by (auto simp: endings_def)
  then have "find (ends_with (s @ [c])) endings = None" using t(1) by (simp add: find_None_iff)
  then show ?thesis using assms(3) by (simp add: split_suffix_def)
qed

text \<open>The scaled number the printer shows.\<close>

lemma dec_normalize_DFin: "\<exists>c e. dec_normalize (DFin neg k x) = DFin neg c e"
  by (auto split: prod.splits)

lemma binsize_quantize_value:
  assumes "0 \<le> n" and "0 < m"
  shows "\<exists>c e. binsize_quantize n m = DFin False c e \<and>
    dvalue (DFin False c e) = Fin (if m dvd n then of_int (n div m) else quantize (of_int n / of_int m) (1 / 100))"
proof (cases "m dvd n")
  case True
  with assms show ?thesis by (auto simp: binsize_quantize_def pos_imp_zdiv_nonneg_iff)
next
  case False
  let ?k = "round_half_even (100 * of_int n / of_int m)"
  have k: "0 \<le> ?k"
  proof -
    have "0 \<le> \<lfloor>100 * (of_int n :: rat) / of_int m\<rfloor>" using assms by simp
    then show ?thesis using round_half_even_floor[of "100 * of_int n / of_int m"] by linarith
  qed
  let ?r = "DFin False (nat \<bar>?k\<bar>) (- 2)"
  have "binsize_quantize n m = dec_normalize ?r" using assms False by (simp add: binsize_quantize_def)
  moreover obtain c e where ce: "dec_normalize ?r = DFin False c e"
    using dec_normalize_DFin by blast
  moreover have "dvalue (DFin False c e) = dvalue ?r" using dec_normalize_value[of ?r] ce by simp
  moreover have "dvalue ?r = Fin (quantize (of_int n / of_int m) (1 / 100))"
    using k by (simp add: quantize_def power_int_def mult.commute power2_eq_square)
  ultimately show ?thesis using False by auto
qed

lemma binsize_parse_format:
  assumes "0 \<le> n" and "n < 1024 ^ 9" and "idx = preformat n"
  shows "\<exists>s. binsize_format ''s'' n = Inr s \<and>
    binsize_parse_str s = Inr (BSize (if 1024 ^ idx dvd n then n
      else trunc_int (quantize (of_int n / of_int (1024 ^ idx)) (1 / 100) * of_int (1024 ^ idx))))"
proof (cases "idx = 0")
  case True
  let ?s = "show_int n"
  have pd: "list_all plain_digit ?s" "?s \<noteq> []" using assms(1) show_nat_plain by (simp_all add: show_int_def)
  obtain c cs where c: "?s = c # cs" using pd(2) by (cases ?s) auto
  have cd: "is_digit c" "char_lower c = c" using pd c by (auto simp: plain_digit_def)
  have "\<not> is_digit CHR ''i''" by code_simp
  then have "str_lower ?s \<notin> {''inf'', ''infinite'', ''infinity''}" using cd c by (auto simp: str_lower_def)
  moreover have "str_strip ?s = ?s" using pd by (intro str_strip_id) (auto simp: list_all_iff plain_digit_def)
  moreover have "filter (\<lambda>c. c \<noteq> CHR ''_'') ?s = ?s" using pd by (intro filter_True) (auto simp: list_all_iff plain_digit_def)
  ultimately have "binsize_parse_str ?s = Inr (BSize n)" by (simp add: binsize_parse_str_def parse_int_show_int)
  moreover have "binsize_format ''s'' n = Inr ?s" using True assms(3) by (simp add: binsize_format_def)
  ultimately show ?thesis using True by simp
next
  case False
  have idx: "0 < idx" "idx < 9"
  proof -
    have "(1024 :: int) ^ idx \<le> max 1 n" using preformat_bounds[OF assms(1)] assms(3) by simp
    also have "max 1 n < 1024 ^ 9" using assms(2) by simp
    finally show "idx < 9" by (rule power_less_imp_less_exp[rotated]) simp
  qed (use False in simp)
  define S where "S = suffices ! idx"
  define c where "c = char_lower S"
  have so: "auto_suffix idx = Inr (S, 1024 ^ idx)" "map_of suffix_map c = Some (1024 ^ idx)" "\<not> is_digit c"
    "\<not> is_space c" "c \<noteq> CHR ''_''" "c \<noteq> CHR ''b''" "char_lower c = c"
    using suffix_ok[OF idx] unfolding suffix_ok_def Let_def S_def c_def by blast+
  obtain q e where q: "binsize_quantize n (1024 ^ idx) = DFin False q e"
    "dvalue (DFin False q e) = Fin (if 1024 ^ idx dvd n then of_int (n div 1024 ^ idx)
       else quantize (of_int n / of_int (1024 ^ idx)) (1 / 100))"
    using binsize_quantize_value[OF assms(1), of "1024 ^ idx"] by auto
  let ?d = "dec_str (DFin False q e)" let ?s = "?d @ [c]"
  have fmt: "binsize_format ''s'' n = Inr ?s"
    using False assms(3) so(1) q(1) by (simp add: binsize_format_def c_def)
  have d: "?d \<noteq> []" "plain_digit (hd ?d)" "plain_digit (last ?d)" "CHR ''_'' \<notin> set ?d" using dec_str_ends by blast+
  obtain h t where ht: "?d = h # t" using d(1) by (cases ?d) auto
  have "\<not> is_digit CHR ''i''" by code_simp
  then have inf: "str_lower ?s \<notin> {''inf'', ''infinite'', ''infinity''}"
    using d(2) ht by (auto simp: str_lower_def plain_digit_def)
  have st: "str_strip ?s = ?s" using d so(4) by (intro str_strip_id) (auto simp: plain_digit_def)
  have fil: "filter (\<lambda>c. c \<noteq> CHR ''_'') ?s = ?s" using d(4) so(5) by (intro filter_True) auto
  obtain e' where pi: "parse_int ?s = Inl e'" using parse_int_bad[OF d(2,1) so(3,4)] by blast
  have low: "str_lower ?s = str_lower ?d @ [c]" using so(7) by (simp add: str_lower_def)
  have "plain_digit (last (str_lower ?d))" using d(1,3) by (simp add: str_lower_def last_map plain_digit_def)
  then have sp: "split_suffix (str_lower ?s) = Inr (c, str_lower ?d)"
    unfolding low using d(1) so(3,6) by (intro split_suffix_last) (auto simp: str_lower_def)
  have "binsize_parse_str ?s = bindE (scale_num (Num (DFin False q e)) (1024 ^ idx)) (\<lambda>n. Inr (BSize n))"
    unfolding binsize_parse_str_def Let_def st fil pi using inf sp dec_str_parse so(2) by simp
  moreover have "scale_num (Num (DFin False q e)) (1024 ^ idx) = Inr (if 1024 ^ idx dvd n then n
      else trunc_int (quantize (of_int n / of_int (1024 ^ idx)) (1 / 100) * of_int (1024 ^ idx)))"
  proof (cases "1024 ^ idx dvd n")
    case True
    then have "(of_int (n div 1024 ^ idx) :: rat) * of_int (1024 ^ idx) = of_int n"
      by (metis dvd_div_mult_self of_int_mult)
    with True q(2) show ?thesis unfolding scale_num_def num.case by (simp only: decimal.case if_True trunc_int_of_int)
  next
    case F: False
    with q(2) show ?thesis unfolding scale_num_def num.case by (simp only: decimal.case if_False)
  qed
  ultimately show ?thesis using fmt by simp
qed

lemma quantize_near: "\<bar>quantize x (1 / 100) - x\<bar> \<le> 1 / 200"
proof -
  have "\<bar>of_int (round_half_even (100 * x)) - 100 * x\<bar> \<le> 1 / 2" by (rule round_half_even_near)
  moreover have "quantize x (1 / 100) = of_int (round_half_even (100 * x)) / 100" by (simp add: quantize_def mult.commute)
  ultimately show ?thesis unfolding abs_le_iff by linarith
qed

text \<open>
  C34: Printing a size and parsing it again: for every size from 0 to below 1024 yobibytes the automatic
  format produces a text that parses; the size comes back unchanged when it is a multiple of the unit
  the printer chooses, and otherwise differs by at most a two-hundredth of that unit plus one byte.
\<close>
theorem binsize_format_roundtrip:
  assumes "0 \<le> n" and "n < 1024 ^ 9"
  shows "\<exists>s m. binsize_format ''s'' n = Inr s \<and> binsize_from_str (SStr s) = Inr (BSize m) \<and>
    (1024 ^ preformat n dvd n \<longrightarrow> m = n) \<and> \<bar>of_int m - of_int n\<bar> \<le> (of_int (1024 ^ preformat n) / 200 + 1 :: rat)"
proof -
  let ?u = "(1024 :: int) ^ preformat n" let ?q = "quantize (of_int n / of_int ?u) (1 / 100)"
  let ?m = "if ?u dvd n then n else trunc_int (?q * of_int ?u)"
  obtain s where s: "binsize_format ''s'' n = Inr s" "binsize_parse_str s = Inr (BSize ?m)"
    using binsize_parse_format[OF assms refl] by blast
  have u: "(0 :: rat) < of_int ?u" by simp
  have "\<bar>of_int ?m - of_int n\<bar> \<le> (of_int ?u / 200 + 1 :: rat)"
  proof (cases "?u dvd n")
    case True
    with u show ?thesis by simp
  next
    case False
    have "\<bar>?q - of_int n / of_int ?u\<bar> \<le> 1 / 200" by (rule quantize_near)
    then have "\<bar>?q - of_int n / of_int ?u\<bar> * of_int ?u \<le> 1 / 200 * of_int ?u" using u by (intro mult_right_mono) auto
    moreover have "\<bar>?q - of_int n / of_int ?u\<bar> * of_int ?u = \<bar>?q * of_int ?u - of_int n\<bar>"
    proof -
      have "\<bar>?q - of_int n / of_int ?u\<bar> * of_int ?u = \<bar>(?q - of_int n / of_int ?u) * of_int ?u\<bar>"
        using u by (simp add: abs_mult)
      then show ?thesis using u by (simp add: left_diff_distrib)
    qed
    ultimately have 1: "\<bar>?q * of_int ?u - of_int n\<bar> \<le> of_int ?u / 200" by linarith
    have 2: "\<bar>of_int (trunc_int x) - x\<bar> \<le> (1 :: rat)" for x
    proof -
      have "of_int \<lfloor>x\<rfloor> \<le> x" "x < of_int \<lfloor>x\<rfloor> + 1" "x \<le> of_int \<lceil>x\<rceil>" "of_int \<lceil>x\<rceil> - 1 < x"
        using floor_correct[of x] ceiling_correct[of x] by simp_all
      then show ?thesis unfolding trunc_int_def abs_le_iff by (cases "x < 0") (simp_all only: if_True if_False, linarith+)
    qed
    have "\<bar>of_int (trunc_int (?q * of_int ?u)) - of_int n\<bar> \<le> (of_int ?u / 200 + 1 :: rat)"
      using 1 2[of "?q * of_int ?u"] by linarith
    with False show ?thesis by (simp only: if_False)
  qed
  then show ?thesis
    using s by (intro exI[of _ s] exI[of _ ?m]) (simp only: binsize_from_str_def size_input.case, simp)
qed

theorem binsize_format_roundtrip_witness:
  "\<exists>s m. binsize_format ''s'' 1536 = Inr s \<and> binsize_from_str (SStr s) = Inr (BSize m) \<and>
    \<bar>of_int m - 1536\<bar> \<le> (of_int (1024 ^ preformat 1536) / 200 + 1 :: rat)"
  using binsize_format_roundtrip[of 1536] by auto

text \<open>
  A size that is not a multiple of its unit but rounds to a multiple of ten of it is printed in
  scientific notation, because normalizing the rounded quotient strips its zeros: 10 KiB and one byte
  print as \<open>1E+1 KiB\<close>, and as \<open>1E+1k\<close> in the automatic format.
\<close>
theorem binsize_scientific:
  "binsize_str 10241 = Inr ''1E+1 KiB'' \<and> binsize_format ''s'' 10241 = Inr ''1E+1k''"
proof
  show "binsize_str 10241 = Inr ''1E+1 KiB''" by code_simp
  show "binsize_format ''s'' 10241 = Inr ''1E+1k''" by code_simp
qed

end
