(* ===== verification/SlotInput.thy ===== *)
theory SlotInput
  imports BinarySizes ResourceSlots
begin

text \<open>
  How slot values enter and leave a \<open>ResourceSlot\<close> (\<open>common/types.py\<close>): normalising the values of
  policies and of user input, reading and writing JSON, and the human-readable form.  Values keep
  their decimal representation here, since the printed text depends on it; \<open>abs_slots\<close> forgets it.
\<close>

section \<open>Values\<close>

text \<open>What a caller may give for a slot: a decimal, an integer or a text.\<close>

datatype slot_value = VDec drepr | VInt int | VStr string

type_synonym nslots = "(string, num) dict"

definition int_repr :: "int \<Rightarrow> drepr" where
  "int_repr n = DFin (n < 0) (nat \<bar>n\<bar>) 0"

text \<open>\<open>value.quantize(Quantum).normalize()\<close> with \<open>Quantum = Decimal("0.000")\<close>: a result of more than 28
  digits is an invalid operation.\<close>

fun quantize_slot :: "drepr \<Rightarrow> drepr res" where
  "quantize_slot (DFin neg c e) =
     (let k = nat \<bar>round_half_even (of_nat c * 10 powi e * 1000)\<bar>
      in if k \<ge> 10 ^ 28 then Inl InvalidOperation else Inr (dec_normalize (DFin neg k (- 3))))"
| "quantize_slot (DInf neg) = Inr (DInf neg)"

definition to_decimal :: "slot_value \<Rightarrow> num res" where
  "to_decimal v = (case v of VDec r \<Rightarrow> Inr (Num r) | VInt n \<Rightarrow> Inr (Num (int_repr n)) | VStr s \<Rightarrow> parse_decimal s)"

text \<open>The handler turns arithmetic errors into \<open>ValueError\<close>; other exceptions pass.\<close>

definition arith_to_value :: "'a res \<Rightarrow> 'a res" where
  "arith_to_value r =
     (case r of
        Inl e \<Rightarrow> if e \<in> {InvalidOperation, OverflowError, DivisionByZero, ZeroDivisionError} then Inl ValueError else Inl e
      | Inr x \<Rightarrow> Inr x)"

definition normalize_value :: "slot_value \<Rightarrow> string \<Rightarrow> num res" where
  "normalize_value v unit =
     arith_to_value
       (if unit = ''bytes'' then
          (case v of
             VDec r \<Rightarrow> Inr (Num r)
           | VInt n \<Rightarrow> Inr (Num (int_repr n))
           | VStr s \<Rightarrow> bindE (binsize_from_str (SStr s)) (\<lambda>r.
               Inr (case r of BSize n \<Rightarrow> Num (int_repr n) | BInf \<Rightarrow> Num (DInf False))))
        else
          bindE (to_decimal v) (\<lambda>d.
            case d of
              Num (DFin neg c e) \<Rightarrow> bindE (quantize_slot (DFin neg c e)) (\<lambda>r. Inr (Num r))
            | _ \<Rightarrow> Inr d))"

definition stringify_number :: "drepr \<Rightarrow> string" where
  "stringify_number r = format_f r"

definition humanize_value :: "drepr \<Rightarrow> string \<Rightarrow> string res" where
  "humanize_value r unit =
     (if unit = ''bytes'' then
        (case bindE (dec_to_int (dvalue r)) (binsize_format ''s'') of
           Inl e \<Rightarrow> if e \<in> {OverflowError, ValueError} then Inr (stringify_number r) else Inl e
         | Inr s \<Rightarrow> Inr s)
      else Inr (stringify_number r))"

fun is_infix :: "string \<Rightarrow> string \<Rightarrow> bool" where
  "is_infix p [] = (p = [])"
| "is_infix p (c # s) = (take (length p) (c # s) = p \<or> is_infix p s)"

definition guess_slot_type :: "string \<Rightarrow> string" where
  "guess_slot_type key = (if is_infix ''mem'' key then ''bytes'' else ''count'')"

section \<open>Whole slots\<close>

text \<open>A dict comprehension whose values may raise, over the entries that are not \<open>None\<close>.\<close>

definition collect_values :: "(string \<Rightarrow> slot_value \<Rightarrow> num res) \<Rightarrow> (string, slot_value option) dict \<Rightarrow> nslots res" where
  "collect_values f obj =
     foldE (\<lambda>d (k, v). case v of None \<Rightarrow> Inr d | Some x \<Rightarrow> bindE (f k x) (\<lambda>n. Inr (dset d k n))) [] obj"

definition fill_missing :: "(string, string) dict \<Rightarrow> num \<Rightarrow> nslots \<Rightarrow> nslots" where
  "fill_missing types fill d = fold (\<lambda>k d. if k \<in> set (keys d) then d else dset d k fill) (keys types) d"

definition key_to_value_error :: "'a res \<Rightarrow> 'a res" where
  "key_to_value_error r = (case r of Inl KeyError \<Rightarrow> Inl ValueError | _ \<Rightarrow> r)"

definition from_policy :: "(string, slot_value option) dict \<Rightarrow> bool \<Rightarrow> (string, string) dict \<Rightarrow> nslots res" where
  "from_policy total_resource_slots unlimited slot_types =
     key_to_value_error
       (bindE (collect_values (\<lambda>k v. bindE (dget slot_types k) (normalize_value v))
                 (filter (\<lambda>(k, v). k \<in> set (keys slot_types)) total_resource_slots)) (\<lambda>data.
          Inr (fill_missing slot_types (if unlimited then Num (DInf False) else Num (DFin False 0 0)) data)))"

definition from_user_input :: "(string, slot_value option) dict \<Rightarrow> (string, string) dict option \<Rightarrow> nslots res" where
  "from_user_input obj slot_types =
     key_to_value_error
       (case slot_types of
          None \<Rightarrow> collect_values (\<lambda>k v. normalize_value v (guess_slot_type k)) obj
        | Some types \<Rightarrow>
            bindE (collect_values (\<lambda>k v. bindE (dget types k) (normalize_value v)) obj) (\<lambda>data.
              Inr (fill_missing types (Num (DFin False 0 0)) data)))"

definition to_humanized :: "(string, drepr) dict \<Rightarrow> (string, string) dict \<Rightarrow> (string, string) dict res" where
  "to_humanized a slot_types =
     key_to_value_error (mapE (\<lambda>(k, v). bindE (dget slot_types k) (\<lambda>u. bindE (humanize_value v u) (\<lambda>s. Inr (k, s)))) a)"

definition from_json :: "(string, slot_value option) dict \<Rightarrow> nslots res" where
  "from_json obj = collect_values (\<lambda>k v. to_decimal v) obj"

definition to_json :: "(string, drepr) dict \<Rightarrow> (string, string) dict" where
  "to_json a = map (\<lambda>(k, v). (k, stringify_number v)) a"

section \<open>The values behind the representations\<close>

fun num_val :: "num \<Rightarrow> decimal option" where
  "num_val (Num r) = Some (dvalue r)"
| "num_val _ = None"

text \<open>
  C33: A \<open>ResourceSlot\<close> survives the database: writing it as JSON and reading it back gives the same
  slots with the same values, infinite ones included.
\<close>
theorem slots_json_roundtrip:
  assumes "wf_dict a"
  shows "\<exists>b. from_json (map (\<lambda>(k, s). (k, Some (VStr s))) (to_json a)) = Inr b \<and> keys b = keys a \<and>
    (\<forall>k. Option.bind (map_of b k) num_val = map_option dvalue (map_of a k))"
proof -
  let ?f = "\<lambda>d (k, v). case v of None \<Rightarrow> Inr d | Some x \<Rightarrow> bindE (to_decimal x) (\<lambda>n. Inr (dset d k n))"
  have "\<exists>b. foldE ?f d (map (\<lambda>(k, s). (k, Some (VStr s))) (to_json a)) = Inr (d @ b) \<and> keys b = keys a \<and>
    (\<forall>k. Option.bind (map_of b k) num_val = map_option dvalue (map_of a k))" if "set (keys d) \<inter> set (keys a) = {}" for d
    using that assms
  proof (induction a arbitrary: d)
    case (Cons p a)
    obtain k r where p: "p = (k, r)" by (cases p)
    obtain r' where r': "parse_decimal (format_f r) = Inr (Num r')" "dvalue r' = dvalue r"
      using format_f_parse by blast
    have td: "to_decimal (VStr (format_f r)) = Inr (Num r')" using r' by (simp add: to_decimal_def)
    have "k \<notin> set (keys d)" using Cons.prems p by auto
    then have ds: "dset d k (Num r') = d @ [(k, Num r')]" by (rule dset_new)
    have "set (keys (d @ [(k, Num r')])) \<inter> set (keys a) = {}" using Cons.prems p by auto
    with Cons.IH[of "d @ [(k, Num r')]"] Cons.prems(2) obtain b where
      b: "foldE ?f (d @ [(k, Num r')]) (map (\<lambda>(k, s). (k, Some (VStr s))) (to_json a)) = Inr ((d @ [(k, Num r')]) @ b)"
        "keys b = keys a" "\<forall>k. Option.bind (map_of b k) num_val = map_option dvalue (map_of a k)" by auto
    then show ?case
      using p r' ds by (intro exI[of _ "(k, Num r') # b"]) (simp add: to_json_def td stringify_number_def)
  qed (simp add: to_json_def)
  from this[of "[]"] show ?thesis by (simp add: from_json_def collect_values_def case_prod_beta)
qed

theorem slots_json_roundtrip_witness:
  "\<exists>b. from_json (map (\<lambda>(k, s). (k, Some (VStr s))) (to_json [(''cpu'', DFin False 15 (- 1)), (''mem'', DInf False)])) = Inr b \<and>
     keys b = [''cpu'', ''mem'']"
  using slots_json_roundtrip[of "[(''cpu'', DFin False 15 (- 1)), (''mem'', DInf False)]"] by auto

section \<open>Policies on values\<close>

text \<open>
  \<open>from_policy\<close> on the values alone, for policies whose slots are decimals, as the columns of the
  database deliver them.
\<close>

definition normalize_dec :: "decimal \<Rightarrow> string \<Rightarrow> decimal res" where
  "normalize_dec d unit =
     (if unit = ''bytes'' then Inr d
      else case d of
        Fin x \<Rightarrow> if \<bar>round_half_even (x * 1000)\<bar> \<ge> 10 ^ 28 then Inl ValueError else Inr (Fin (quantize x (1 / 1000)))
      | _ \<Rightarrow> Inr d)"

definition policy_limits :: "slots \<Rightarrow> bool \<Rightarrow> (string, string) dict \<Rightarrow> slots res" where
  "policy_limits tot unlimited types =
     bindE (foldE (\<lambda>d (k, v). bindE (dget types k) (\<lambda>u. bindE (normalize_dec v u) (\<lambda>x. Inr (dset d k x)))) []
              (filter (\<lambda>(k, v). k \<in> set (keys types)) tot)) (\<lambda>data.
       Inr (fold (\<lambda>k d. if k \<in> set (keys d) then d else dset d k (if unlimited then PInf else 0)) (keys types) data))"

lemma round_half_even_uminus: "round_half_even (- x) = - round_half_even x"
proof -
  let ?f = "\<lfloor>x\<rfloor>" let ?r = "x - of_int ?f"
  have r: "0 \<le> ?r" "?r < 1" using floor_correct[of x] by simp_all
  show ?thesis
  proof (cases "?r = 0")
    case True
    then have "x = of_int ?f" by simp
    then show ?thesis by (metis round_half_even_of_int of_int_minus)
  next
    case False
    have "0 < ?r" using r(1) False by (rule le_neq_trans[OF _ not_sym])
    then have fl: "\<lfloor>- x\<rfloor> = - ?f - 1" using r(2) by (intro floor_unique) simp_all
    have dr: "- x - of_int (- ?f - 1) = 1 - ?r" by simp
    have ev: "even (- ?f - 1) \<longleftrightarrow> odd ?f" by simp
    define y where "y = ?r"
    show ?thesis unfolding round_half_even_def Let_def fl dr ev y_def[symmetric] by auto
  qed
qed

lemma quantize_slot_value:
  "case quantize_slot (DFin neg c e) of
     Inl x \<Rightarrow> normalize_dec (dvalue (DFin neg c e)) ''count'' = Inl ValueError \<and> x = InvalidOperation
   | Inr r \<Rightarrow> normalize_dec (dvalue (DFin neg c e)) ''count'' = Inr (dvalue r) \<and> (\<exists>n c e. r = DFin n c e)"
proof -
  let ?y = "of_nat c * 10 powi e :: rat" let ?x = "(if neg then -1 else 1) * ?y" let ?k = "round_half_even (?y * 1000)"
  have rx: "round_half_even (?x * 1000) = (if neg then - ?k else ?k)"
    using round_half_even_uminus[of "?y * 1000"] by simp
  have y: "0 \<le> ?y * 1000" by simp
  have "0 \<le> \<lfloor>?y * 1000\<rfloor>" using y by simp
  then have k: "0 \<le> ?k" using round_half_even_floor[of "?y * 1000"] by linarith
  have ov: "nat \<bar>?k\<bar> \<ge> 10 ^ 28 \<longleftrightarrow> \<bar>round_half_even (?x * 1000)\<bar> \<ge> 10 ^ 28"
    unfolding rx using k by (auto simp: nat_le_iff le_nat_iff)
  have dv: "dvalue (DFin neg (nat \<bar>?k\<bar>) (- 3)) = Fin (quantize ?x (1 / 1000))"
    using k rx by (simp add: quantize_def power_int_def power3_eq_cube mult.commute)
  have val: "dvalue (DFin neg c e) = Fin ?x" by (simp add: mult.assoc)
  obtain c' e' where n: "dec_normalize (DFin neg (nat \<bar>?k\<bar>) (- 3)) = DFin neg c' e'" using dec_normalize_DFin by blast
  show ?thesis
  proof (cases "nat \<bar>?k\<bar> \<ge> 10 ^ 28")
    case True
    then have "quantize_slot (DFin neg c e) = Inl InvalidOperation" by (simp add: Let_def)
    moreover have "normalize_dec (dvalue (DFin neg c e)) ''count'' = Inl ValueError"
      using ov True unfolding val normalize_dec_def by simp
    ultimately show ?thesis by simp
  next
    case False
    then have q: "quantize_slot (DFin neg c e) = Inr (dec_normalize (DFin neg (nat \<bar>?k\<bar>) (- 3)))" by (simp add: Let_def)
    have "normalize_dec (dvalue (DFin neg c e)) ''count'' = Inr (Fin (quantize ?x (1 / 1000)))"
      using ov False unfolding val normalize_dec_def by simp
    then show ?thesis unfolding q sum.case dec_normalize_value dv using n by simp
  qed
qed

lemma normalize_dec_unit: "unit \<noteq> ''bytes'' \<Longrightarrow> normalize_dec d unit = normalize_dec d ''count''"
  by (simp add: normalize_dec_def)

lemma normalize_value_dec:
  "case normalize_dec (dvalue r) unit of
     Inl e \<Rightarrow> normalize_value (VDec r) unit = Inl e
   | Inr d \<Rightarrow> \<exists>n. normalize_value (VDec r) unit = Inr n \<and> num_val n = Some d"
proof (cases "unit = ''bytes''")
  case True
  then show ?thesis by (simp add: normalize_dec_def normalize_value_def arith_to_value_def)
next
  case False
  show ?thesis
  proof (cases r)
    case (DFin neg c e)
    show ?thesis
      using quantize_slot_value[of neg c e] False normalize_dec_unit[OF False] DFin
      by (auto simp del: quantize_slot.simps dvalue.simps simp: normalize_value_def to_decimal_def arith_to_value_def split: sum.splits)
  next
    case (DInf neg)
    then show ?thesis using False by (cases neg) (simp_all add: normalize_dec_def normalize_value_def to_decimal_def arith_to_value_def)
  qed
qed

text \<open>Slots with representations and slots with the values behind them.\<close>

abbreviation same_vals :: "nslots \<Rightarrow> slots \<Rightarrow> bool" where
  "same_vals \<equiv> list_all2 (\<lambda>p q. fst p = fst q \<and> num_val (snd p) = Some (snd q))"

lemma same_vals_keys: "same_vals a b \<Longrightarrow> keys a = keys b"
  by (induction a b rule: list_all2_induct) auto

lemma same_vals_dset: "same_vals a b \<Longrightarrow> num_val n = Some v \<Longrightarrow> same_vals (dset a k n) (dset b k v)"
  by (induction a b rule: list_all2_induct) auto

lemma policy_collect_vals:
  "same_vals d d' \<Longrightarrow>
   (case foldE (\<lambda>d (k, v). bindE (dget types k) (\<lambda>u. bindE (normalize_dec v u) (\<lambda>x. Inr (dset d k x)))) d' (map (\<lambda>(k, r). (k, dvalue r)) a) of
      Inl e \<Rightarrow> foldE (\<lambda>d (k, v). case v of None \<Rightarrow> Inr d | Some x \<Rightarrow> bindE (bindE (dget types k) (normalize_value x)) (\<lambda>n. Inr (dset d k n))) d
        (map (\<lambda>(k, r). (k, Some (VDec r))) a) = Inl e
    | Inr b \<Rightarrow> \<exists>c. foldE (\<lambda>d (k, v). case v of None \<Rightarrow> Inr d | Some x \<Rightarrow> bindE (bindE (dget types k) (normalize_value x)) (\<lambda>n. Inr (dset d k n))) d
        (map (\<lambda>(k, r). (k, Some (VDec r))) a) = Inr c \<and> same_vals c b)"
proof (induction a arbitrary: d d')
  case (Cons p a)
  obtain k r where p: "p = (k, r)" by (cases p)
  show ?case
  proof (cases "dget types k")
    case (Inl e)
    then show ?thesis using p by simp
  next
    case (Inr u)
    show ?thesis
    proof (cases "normalize_dec (dvalue r) u")
      case Inl2: (Inl e)
      with normalize_value_dec[of r u] Inr p show ?thesis by simp
    next
      case Inr2: (Inr x)
      with normalize_value_dec[of r u] obtain n where n: "normalize_value (VDec r) u = Inr n" "num_val n = Some x" by auto
      note ih = Cons.IH[OF same_vals_dset[OF Cons.prems n(2), of k]]
      show ?thesis unfolding p list.map prod.case foldE.simps option.case Inr bindE_Inr n(1) Inr2 by (rule ih)
    qed
  qed
qed simp

lemma fill_missing_vals:
  assumes "num_val fl = Some f" and "same_vals d d'"
  shows "same_vals (fold (\<lambda>k d. if k \<in> set (keys d) then d else dset d k fl) ks d)
    (fold (\<lambda>k d. if k \<in> set (keys d) then d else dset d k f) ks d')"
  using assms(2)
proof (induction ks arbitrary: d d')
  case (Cons k ks)
  have "same_vals (if k \<in> set (keys d) then d else dset d k fl) (if k \<in> set (keys d') then d' else dset d' k f)"
    using Cons.prems same_vals_keys[OF Cons.prems] same_vals_dset[OF Cons.prems assms(1)] by auto
  from Cons.IH[OF this] show ?case by simp
qed simp

lemma key_to_value_error_Inl: "r \<noteq> Inl KeyError \<Longrightarrow> key_to_value_error r = r"
  by (auto simp: key_to_value_error_def split: sum.splits py_exc.splits)

lemma policy_limits_no_KeyError: "policy_limits tot unlim types \<noteq> Inl KeyError"
proof -
  have "foldE (\<lambda>d (k, v). bindE (dget types k) (\<lambda>u. bindE (normalize_dec v u) (\<lambda>x. Inr (dset d k x)))) d xs \<noteq> Inl KeyError"
    if "\<forall>(k, v)\<in>set xs. k \<in> set (keys types)" for d xs
    using that
  proof (induction xs arbitrary: d)
    case (Cons p xs)
    obtain k v where p: "p = (k, v)" by (cases p)
    obtain u where u: "dget types k = Inr u" using Cons.prems p by (auto simp: dget_def split: option.splits dest!: weak_map_of_SomeI)
    show ?case
    proof (cases "normalize_dec v u")
      case (Inl e)
      then have "e = ValueError" by (auto simp: normalize_dec_def split: if_splits decimal.splits)
      with Inl u p show ?thesis by simp
    next
      case (Inr x)
      with Cons u p show ?thesis by simp
    qed
  qed simp
  from this[of "filter (\<lambda>(k, v). k \<in> set (keys types)) tot" "[]"] show ?thesis
    unfolding policy_limits_def by (auto simp: bindE_eq_Inl_iff)
qed

text \<open>
  C32: \<open>ResourceSlot.from_policy\<close> computes, behind the representations, the limits that the scheduler's
  predicates compare with (\<open>policy_limits\<close>): it raises when that raises, with the same exception, and
  otherwise returns the same slots with the same values.
\<close>
theorem from_policy_refines:
  "case policy_limits (map (\<lambda>(k, r). (k, dvalue r)) a) unlimited types of
     Inl e \<Rightarrow> from_policy (map (\<lambda>(k, r). (k, Some (VDec r))) a) unlimited types = Inl e
   | Inr b \<Rightarrow> \<exists>c. from_policy (map (\<lambda>(k, r). (k, Some (VDec r))) a) unlimited types = Inr c \<and> same_vals c b"
proof -
  let ?a = "filter (\<lambda>(k, v). k \<in> set (keys types)) a"
  have f1: "filter (\<lambda>(k, v). k \<in> set (keys types)) (map (\<lambda>(k, r). (k, dvalue r)) a) = map (\<lambda>(k, r). (k, dvalue r)) ?a"
    and f2: "filter (\<lambda>(k, v). k \<in> set (keys types)) (map (\<lambda>(k, r). (k, Some (VDec r))) a) = map (\<lambda>(k, r). (k, Some (VDec r))) ?a"
    by (induction a) auto
  let ?fl = "if unlimited then Num (DInf False) else Num (DFin False 0 0)"
  let ?f = "if unlimited then PInf else 0"
  have fl: "num_val ?fl = Some ?f" by (simp add: zero_decimal_def)
  note cv = policy_collect_vals[of "[]" "[]" types ?a]
  note fm = fill_missing_vals[OF fl, of _ _ "keys types"]
  have nk: "policy_limits (map (\<lambda>(k, r). (k, dvalue r)) a) unlimited types \<noteq> Inl KeyError" by (rule policy_limits_no_KeyError)
  show ?thesis
  proof (cases "foldE (\<lambda>d (k, v). bindE (dget types k) (\<lambda>u. bindE (normalize_dec v u) (\<lambda>x. Inr (dset d k x)))) [] (map (\<lambda>(k, r). (k, dvalue r)) ?a)")
    case (Inl e)
    then have pl: "policy_limits (map (\<lambda>(k, r). (k, dvalue r)) a) unlimited types = Inl e"
      unfolding policy_limits_def f1 by simp
    then have "e \<noteq> KeyError" using nk by auto
    moreover have "from_policy (map (\<lambda>(k, r). (k, Some (VDec r))) a) unlimited types = key_to_value_error (Inl e)"
      using cv Inl unfolding from_policy_def f2 collect_values_def by simp
    ultimately show ?thesis using pl key_to_value_error_Inl[of "Inl e"] by simp
  next
    case (Inr b)
    then obtain c where c: "foldE (\<lambda>d (k, v). case v of None \<Rightarrow> Inr d | Some x \<Rightarrow> bindE (bindE (dget types k) (normalize_value x)) (\<lambda>n. Inr (dset d k n))) []
        (map (\<lambda>(k, r). (k, Some (VDec r))) ?a) = Inr c" "same_vals c b" using cv by auto
    have pl: "policy_limits (map (\<lambda>(k, r). (k, dvalue r)) a) unlimited types =
        Inr (fold (\<lambda>k d. if k \<in> set (keys d) then d else dset d k ?f) (keys types) b)"
      unfolding policy_limits_def f1 Inr by simp
    have "from_policy (map (\<lambda>(k, r). (k, Some (VDec r))) a) unlimited types = Inr (fill_missing types ?fl c)"
      unfolding from_policy_def f2 collect_values_def c(1) by (simp add: key_to_value_error_def)
    then show ?thesis using pl fm[OF c(2)] unfolding fill_missing_def by simp
  qed
qed

end
