(* ===== verification/Predicates.thy ===== *)
theory Predicates
  imports Occupancy SlotInput
begin

text \<open>
  The six checks a picked session has to pass (\<open>manager/scheduler/predicates.py\<close>).  A check returns
  its result, the session as it leaves it (the additions write zero entries into the requested
  slots) and the database (\<open>check_concurrency\<close> counts in Redis).  The messages are the texts of the
  source.
\<close>

record predicate_result =
  pr_passed :: bool
  pr_message :: "string option"

definition passed :: predicate_result where
  "passed = \<lparr>pr_passed = True, pr_message = None\<rparr>"

definition failed :: "string \<Rightarrow> predicate_result" where
  "failed msg = \<lparr>pr_passed = False, pr_message = Some msg\<rparr>"

section \<open>Reserved time\<close>

definition check_reserved_batch_session :: "int \<Rightarrow> pending_session \<Rightarrow> db \<Rightarrow> (predicate_result \<times> pending_session \<times> db) res" where
  "check_reserved_batch_session now sess s =
     (if ps_session_type sess = BATCH then
        (case Option.bind (find (\<lambda>r. k_id r = ps_session_id sess) (db_kernels s)) k_starts_at of
           None \<Rightarrow> Inr (passed, sess, s)
         | Some starts_at \<Rightarrow> Inr (if now < starts_at then failed ''Before start time'' else passed, sess, s))
      else Inr (passed, sess, s))"

section \<open>Concurrency\<close>

text \<open>The Lua script: the counter starts at zero, and is incremented unless the limit is reached.\<close>

definition check_keypair_concurrency_script :: "string \<Rightarrow> int \<Rightarrow> (string, int) dict \<Rightarrow> (bool \<times> int) \<times> (string, int) dict" where
  "check_keypair_concurrency_script key limit redis =
     (let redis = (if key \<in> set (keys redis) then redis else dset redis key 0);
          count = dget_or redis key 0
      in if limit > 0 \<and> count \<ge> limit then ((False, count), redis)
         else ((True, count + 1), dset redis key (count + 1)))"

definition check_concurrency :: "pending_session \<Rightarrow> db \<Rightarrow> (predicate_result \<times> pending_session \<times> db) res" where
  "check_concurrency sess s =
     (case map_of (db_policies s) (ps_resource_policy sess) of
        None \<Rightarrow> Inl TypeError
      | Some pol \<Rightarrow>
          let max_concurrent_sessions = p_max_concurrent_sessions pol
          in case check_keypair_concurrency_script (conc_key (ps_access_key sess)) max_concurrent_sessions (db_redis_stat s) of
               ((ok, concurrency_used), redis) \<Rightarrow>
                 let s1 = s\<lparr>db_redis_stat := redis\<rparr>
                 in if \<not> ok
                    then Inr (failed (''You cannot run more than '' @ show_int max_concurrent_sessions @ '' concurrent sessions''), sess, s1)
                    else Inr (passed, sess, s1))"

section \<open>Dependencies\<close>

text \<open>The join of the dependencies with the kernels: one row per kernel of each session depended on.\<close>

definition dependency_rows :: "string \<Rightarrow> db \<Rightarrow> kernel_row list" where
  "dependency_rows sid s =
     concat (map (\<lambda>(i, dep). filter (\<lambda>r. k_session_id r = dep) (db_kernels s))
       (filter (\<lambda>(i, dep). i = sid) (db_dependencies s)))"

definition check_dependencies :: "pending_session \<Rightarrow> db \<Rightarrow> (predicate_result \<times> pending_session \<times> db) res" where
  "check_dependencies sess s =
     (let pending_dependencies = filter (\<lambda>r. k_result r \<noteq> SUCCESS) (dependency_rows (ps_session_id sess) s)
      in if pending_dependencies = [] then Inr (passed, sess, s)
         else Inr (failed (''Waiting dependency sessions to finish as success. ('' @
            join '', '' (map (\<lambda>r. k_session_name r @ '' ('' @ k_session_id r @ '')'') pending_dependencies) @ '')''), sess, s))"

section \<open>Resource limits\<close>

text \<open>
  The representation behind a limit's value: \<open>from_policy\<close> has quantized and normalized the counted
  slots, and of a size only its whole bytes are printed.
\<close>

fun limit_repr :: "string \<Rightarrow> decimal \<Rightarrow> drepr" where
  "limit_repr unit (Fin x) =
     (if unit = ''bytes'' then int_repr (trunc_int x)
      else dec_normalize (DFin (x < 0) (nat \<bar>round_half_even (x * 1000)\<bar>) (- 3)))"
| "limit_repr unit PInf = DInf False"
| "limit_repr unit NInf = DInf True"

definition limits_text :: "(string, string) dict \<Rightarrow> slots \<Rightarrow> string res" where
  "limits_text types limits =
     bindE (to_humanized (map (\<lambda>(k, v). (k, limit_repr (dget_or types k []) v)) limits) types) (\<lambda>h.
       Inr (join '' '' (map (\<lambda>(k, v). k @ ''='' @ v) h)))"

text \<open>
  The comparison the three checks end with.  It adds the keys of the sum to the limits, so that the
  text raises for a slot of an unknown type.
\<close>

definition limit_result :: "string \<Rightarrow> (string, string) dict \<Rightarrow> slots \<Rightarrow> slots \<Rightarrow> pending_session \<Rightarrow> db \<Rightarrow>
    (predicate_result \<times> pending_session \<times> db) res" where
  "limit_result owner types occupied allowed sess s =
     bindE (rs_add occupied (ps_requested_slots sess)) (\<lambda>(total, _, requested).
       let sess1 = sess\<lparr>ps_requested_slots := requested\<rparr>
       in case rs_le total allowed of (ok, _, allowed') \<Rightarrow>
            if \<not> ok then
              bindE (limits_text types allowed') (\<lambda>txt.
                Inr (failed (''Your '' @ owner @ '' resource quota is exceeded. ('' @ txt @ '')''), sess1, s))
            else Inr (passed, sess1, s))"

definition check_keypair_resource_limit :: "(string, string) dict \<Rightarrow> pending_session \<Rightarrow> db \<Rightarrow>
    (predicate_result \<times> pending_session \<times> db) res" where
  "check_keypair_resource_limit types sess s =
     (case map_of (db_policies s) (ps_resource_policy sess) of
        None \<Rightarrow> Inl TypeError
      | Some pol \<Rightarrow>
          bindE (policy_limits (p_total_resource_slots pol) (p_default_for_unspecified pol = UNLIMITED) types) (\<lambda>total_keypair_allowed.
          bindE (get_keypair_occupancy types (ps_access_key sess) s) (\<lambda>key_occupied.
            limit_result ''keypair'' types key_occupied total_keypair_allowed sess s)))"

definition check_group_resource_limit :: "(string, string) dict \<Rightarrow> pending_session \<Rightarrow> db \<Rightarrow>
    (predicate_result \<times> pending_session \<times> db) res" where
  "check_group_resource_limit types sess s =
     (case map_of (db_groups s) (ps_group_id sess) of
        None \<Rightarrow> Inl AttributeError
      | Some group_resource_slots \<Rightarrow>
          bindE (policy_limits group_resource_slots True types) (\<lambda>total_group_allowed.
          bindE (get_group_occupancy types (ps_group_id sess) s) (\<lambda>group_occupied.
            limit_result ''group'' types group_occupied total_group_allowed sess s)))"

definition check_domain_resource_limit :: "(string, string) dict \<Rightarrow> pending_session \<Rightarrow> db \<Rightarrow>
    (predicate_result \<times> pending_session \<times> db) res" where
  "check_domain_resource_limit types sess s =
     (case map_of (db_domains s) (ps_domain_name sess) of
        None \<Rightarrow> Inl AttributeError
      | Some domain_resource_slots \<Rightarrow>
          bindE (policy_limits domain_resource_slots True types) (\<lambda>total_domain_allowed.
          bindE (get_domain_occupancy types (ps_domain_name sess) s) (\<lambda>domain_occupied.
            limit_result ''domain'' types domain_occupied total_domain_allowed sess s)))"

text \<open>The checks in the order the dispatcher runs them.\<close>

definition predicates :: "int \<Rightarrow> (string, string) dict \<Rightarrow>
    (string \<times> (pending_session \<Rightarrow> db \<Rightarrow> (predicate_result \<times> pending_session \<times> db) res)) list" where
  "predicates now types =
     [(''reserved_time'', check_reserved_batch_session now),
      (''concurrency'', check_concurrency),
      (''dependencies'', check_dependencies),
      (''keypair_resource_limit'', check_keypair_resource_limit types),
      (''user_group_resource_limit'', check_group_resource_limit types),
      (''domain_resource_limit'', check_domain_resource_limit types)]"

section \<open>What passing a check means\<close>

lemma limit_result_pass:
  assumes "limit_result owner types occ allowed sess s = Inr (r, sess', s')"
    and "fin_slots occ" and "fin_slots (ps_requested_slots sess)"
  shows "(pr_passed r \<longleftrightarrow> (\<forall>k. Fin (slot_amt occ k + slot_amt (ps_requested_slots sess) k) \<le> slot_val allowed k)) \<and> s' = s \<and>
    (\<exists>req. sess' = sess\<lparr>ps_requested_slots := req\<rparr> \<and> fin_slots req \<and> slot_val req = slot_val (ps_requested_slots sess))"
proof -
  obtain tot occ' req where add: "rs_add occ (ps_requested_slots sess) = Inr (tot, occ', req)" "fin_slots tot"
    "\<And>k. slot_amt tot k = slot_amt occ k + slot_amt (ps_requested_slots sess) k"
    using rs_add_total[OF assms(2,3)] by metis
  have sk: "sync_keys occ (ps_requested_slots sess) = (occ', req)" using rs_add_val(1)[OF add(1)] .
  obtain ok t' a' where le: "rs_le tot allowed = (ok, t', a')" by (cases "rs_le tot allowed") auto
  have ok: "ok \<longleftrightarrow> (\<forall>k. Fin (slot_amt occ k + slot_amt (ps_requested_slots sess) k) \<le> slot_val allowed k)"
    using rs_le_val[OF le] fin_slots_amt[OF add(2)] add(3) by simp
  have "slot_val req = slot_val (ps_requested_slots sess)" "fin_slots req"
    using sync_keys_val[OF sk] sync_keys_fin[OF assms(2,3) sk] by simp_all
  then have q: "\<exists>rq. sess\<lparr>ps_requested_slots := req\<rparr> = sess\<lparr>ps_requested_slots := rq\<rparr> \<and> fin_slots rq \<and> slot_val rq = slot_val (ps_requested_slots sess)"
    by blast
  have "s' = s \<and> sess' = sess\<lparr>ps_requested_slots := req\<rparr> \<and> (pr_passed r \<longleftrightarrow> ok)"
    using assms(1) unfolding limit_result_def add(1) bindE_Inr prod.case le Let_def
    by (cases ok) (auto simp: bindE_eq_Inr_iff passed_def failed_def)
  with q ok show ?thesis by simp
qed

text \<open>
  The slots of an owner's kernels and of the request together stay within the limits; slots of
  unknown types count in the request only.
\<close>

definition quota_ok :: "(string, string) dict \<Rightarrow> (kernel_row \<Rightarrow> bool) \<Rightarrow> slots \<Rightarrow> slots \<Rightarrow> db \<Rightarrow> bool" where
  "quota_ok types P allowed req s \<longleftrightarrow>
     (\<forall>k. Fin ((if k \<in> set (keys types) then used_by (\<lambda>r. P r \<and> user_occupying r) s k else 0) + slot_amt req k) \<le> slot_val allowed k)"

text \<open>
  The contract of a quota check: it looks up the limits and the occupancy of the session's owner and
  compares.  The three checks are instances, on top of the contract of their occupancy query.
\<close>

locale quota_check = occupancy_query query owned
  for query :: "(string, string) dict \<Rightarrow> string \<Rightarrow> db \<Rightarrow> slots res" and owned :: "string \<Rightarrow> kernel_row \<Rightarrow> bool" +
  fixes check :: "(string, string) dict \<Rightarrow> pending_session \<Rightarrow> db \<Rightarrow> (predicate_result \<times> pending_session \<times> db) res"
    and owner :: "pending_session \<Rightarrow> string" and limits :: "(string, string) dict \<Rightarrow> pending_session \<Rightarrow> db \<Rightarrow> slots res"
    and label :: string
  assumes check_def: "check types sess s = bindE (limits types sess s) (\<lambda>allowed.
    bindE (query types (owner sess) s) (\<lambda>occupied. limit_result label types occupied allowed sess s))"
begin

lemma check_spec:
  assumes "check types sess s = Inr (r, sess', s')" and "fin_kernels s" and "fin_slots (ps_requested_slots sess)"
  shows "(pr_passed r \<longleftrightarrow> (\<exists>allowed. limits types sess s = Inr allowed \<and>
      quota_ok types (owned (owner sess)) allowed (ps_requested_slots sess) s)) \<and> s' = s \<and>
    (\<exists>req. sess' = sess\<lparr>ps_requested_slots := req\<rparr> \<and> fin_slots req \<and> slot_val req = slot_val (ps_requested_slots sess))"
proof -
  obtain occ where occ: "query types (owner sess) s = Inr occ" "fin_slots occ"
    "\<And>k. slot_amt occ k = (if k \<in> set (keys types) then used_by (\<lambda>r. owned (owner sess) r \<and> user_occupying r) s k else 0)"
    using query_spec[OF assms(2)] by metis
  obtain allowed where al: "limits types sess s = Inr allowed" "limit_result label types occ allowed sess s = Inr (r, sess', s')"
    using assms(1) occ(1) by (auto simp: check_def bindE_eq_Inr_iff)
  from limit_result_pass[OF al(2) occ(2) assms(3)] al(1) occ(3) show ?thesis by (simp add: quota_ok_def)
qed

end

definition keypair_limits :: "(string, string) dict \<Rightarrow> pending_session \<Rightarrow> db \<Rightarrow> slots res" where
  "keypair_limits types sess s =
     (case map_of (db_policies s) (ps_resource_policy sess) of
        None \<Rightarrow> Inl TypeError
      | Some pol \<Rightarrow> policy_limits (p_total_resource_slots pol) (p_default_for_unspecified pol = UNLIMITED) types)"

definition group_limits :: "(string, string) dict \<Rightarrow> pending_session \<Rightarrow> db \<Rightarrow> slots res" where
  "group_limits types sess s =
     (case map_of (db_groups s) (ps_group_id sess) of None \<Rightarrow> Inl AttributeError | Some a \<Rightarrow> policy_limits a True types)"

definition domain_limits :: "(string, string) dict \<Rightarrow> pending_session \<Rightarrow> db \<Rightarrow> slots res" where
  "domain_limits types sess s =
     (case map_of (db_domains s) (ps_domain_name sess) of None \<Rightarrow> Inl AttributeError | Some a \<Rightarrow> policy_limits a True types)"

interpretation keypair_quota: quota_check get_keypair_occupancy "\<lambda>i r. k_access_key r = i"
  check_keypair_resource_limit ps_access_key keypair_limits "''keypair''"
  by unfold_locales (simp add: check_keypair_resource_limit_def keypair_limits_def split: option.splits)

interpretation group_quota: quota_check get_group_occupancy "\<lambda>i r. k_group_id r = i"
  check_group_resource_limit ps_group_id group_limits "''group''"
  by unfold_locales (simp add: check_group_resource_limit_def group_limits_def split: option.splits)

interpretation domain_quota: quota_check get_domain_occupancy "\<lambda>i r. k_domain_name r = i"
  check_domain_resource_limit ps_domain_name domain_limits "''domain''"
  by unfold_locales (simp add: check_domain_resource_limit_def domain_limits_def split: option.splits)

text \<open>
  C12: The resource limits are exact: a session with finite slots passes the check of its keypair,
  group or domain if and only if the slots of all kernels that occupy resources of that owner,
  together with the session's own request, stay within the owner's limits in every slot.
\<close>
theorem quota_checks_exact:
  assumes "fin_kernels s" and "fin_slots (ps_requested_slots sess)"
    and "check_keypair_resource_limit types sess s = Inr (r1, sess1, s1)"
    and "check_group_resource_limit types sess s = Inr (r2, sess2, s2)"
    and "check_domain_resource_limit types sess s = Inr (r3, sess3, s3)"
  shows "(pr_passed r1 \<longleftrightarrow> (\<exists>al. keypair_limits types sess s = Inr al \<and>
      quota_ok types (\<lambda>r. k_access_key r = ps_access_key sess) al (ps_requested_slots sess) s)) \<and>
    (pr_passed r2 \<longleftrightarrow> (\<exists>al. group_limits types sess s = Inr al \<and>
      quota_ok types (\<lambda>r. k_group_id r = ps_group_id sess) al (ps_requested_slots sess) s)) \<and>
    (pr_passed r3 \<longleftrightarrow> (\<exists>al. domain_limits types sess s = Inr al \<and>
      quota_ok types (\<lambda>r. k_domain_name r = ps_domain_name sess) al (ps_requested_slots sess) s))"
  using keypair_quota.check_spec[OF assms(3) assms(1,2)] group_quota.check_spec[OF assms(4) assms(1,2)]
    domain_quota.check_spec[OF assms(5) assms(1,2)] by blast

definition demo_request :: "slots \<Rightarrow> pending_session" where
  "demo_request sl = \<lparr>ps_kernels = [], ps_access_key = ''AK'', ps_agent_id = None, ps_agent_addr = None,
     ps_session_id = ''x'', ps_session_creation_id = ''c'', ps_session_type = INTERACTIVE, ps_session_name = ''n'',
     ps_cluster_mode = SINGLE_NODE, ps_cluster_size = 1, ps_domain_name = ''d'', ps_group_id = ''g'', ps_status_data = None,
     ps_scaling_group = Some ''default'', ps_resource_policy = ''default'', ps_resource_opts = [], ps_requested_slots = sl,
     ps_target_sgroup_names = [], ps_environ = [], ps_vfolder_mounts = [], ps_bootstrap_script = None, ps_startup_command = None,
     ps_internal_data = None, ps_preopen_ports = [], ps_created_at = 0\<rparr>"

theorem quota_checks_exact_witness:
  "\<exists>r1 r2 r3 x1 x2 x3 y1 y2 y3.
     check_keypair_resource_limit [(''cpu'', ''count'')] (demo_request [(''cpu'', Fin 5)])
       (demo_db [demo_kernel ''k'' ''k'' ''main'' RUNNING [(''cpu'', Fin 1)] (Some ''i'')] []) = Inr (r1, x1, y1) \<and>
     check_group_resource_limit [(''cpu'', ''count'')] (demo_request [(''cpu'', Fin 5)])
       (demo_db [demo_kernel ''k'' ''k'' ''main'' RUNNING [(''cpu'', Fin 1)] (Some ''i'')] []) = Inr (r2, x2, y2) \<and>
     check_domain_resource_limit [(''cpu'', ''count'')] (demo_request [(''cpu'', Fin 5)])
       (demo_db [demo_kernel ''k'' ''k'' ''main'' RUNNING [(''cpu'', Fin 1)] (Some ''i'')] []) = Inr (r3, x3, y3) \<and>
     pr_passed r1 \<and> pr_passed r2 \<and> pr_passed r3"
proof -
  let ?t = "[(''cpu'', ''count'')]" and ?q = "demo_request [(''cpu'', Fin 5)]"
    and ?s = "demo_db [demo_kernel ''k'' ''k'' ''main'' RUNNING [(''cpu'', Fin 1)] (Some ''i'')] []"
  have fin: "fin_kernels ?s" "fin_slots (ps_requested_slots ?q)" by code_simp+
  have e: "map_sum id (pr_passed \<circ> fst) (check_keypair_resource_limit ?t ?q ?s) = Inr True"
    "map_sum id (pr_passed \<circ> fst) (check_group_resource_limit ?t ?q ?s) = Inr True"
    "map_sum id (pr_passed \<circ> fst) (check_domain_resource_limit ?t ?q ?s) = Inr True" by code_simp+
  obtain r1 x1 y1 where 1: "check_keypair_resource_limit ?t ?q ?s = Inr (r1, x1, y1)" "pr_passed r1"
    using e(1) by (cases "check_keypair_resource_limit ?t ?q ?s") auto
  obtain r2 x2 y2 where 2: "check_group_resource_limit ?t ?q ?s = Inr (r2, x2, y2)" "pr_passed r2"
    using e(2) by (cases "check_group_resource_limit ?t ?q ?s") auto
  obtain r3 x3 y3 where 3: "check_domain_resource_limit ?t ?q ?s = Inr (r3, x3, y3)" "pr_passed r3"
    using e(3) by (cases "check_domain_resource_limit ?t ?q ?s") auto
  from quota_checks_exact[OF fin 1(1) 2(1) 3(1)] 1 2 3 show ?thesis by blast
qed

text \<open>
  C13: The concurrency check: it passes if and only if the policy's limit is not positive or the
  keypair's counter is below it; passing counts the session, failing does not, the counter never
  rises above a positive limit, and the counters of other keypairs are untouched.
\<close>
theorem check_concurrency_counts:
  assumes "map_of (db_policies s) (ps_resource_policy sess) = Some pol"
    and "n = dget_or (db_redis_stat s) (conc_key (ps_access_key sess)) 0" and "limit = p_max_concurrent_sessions pol"
  shows "\<exists>r s'. check_concurrency sess s = Inr (r, sess, s') \<and> (pr_passed r \<longleftrightarrow> limit \<le> 0 \<or> n < limit) \<and>
    dget_or (db_redis_stat s') (conc_key (ps_access_key sess)) 0 = (if pr_passed r then n + 1 else n) \<and>
    (0 < limit \<longrightarrow> dget_or (db_redis_stat s') (conc_key (ps_access_key sess)) 0 \<le> max n limit) \<and>
    (\<forall>ak. ak \<noteq> ps_access_key sess \<longrightarrow> map_of (db_redis_stat s') (conc_key ak) = map_of (db_redis_stat s) (conc_key ak))"
proof -
  let ?key = "conc_key (ps_access_key sess)"
  let ?rd = "if ?key \<in> set (keys (db_redis_stat s)) then db_redis_stat s else dset (db_redis_stat s) ?key 0"
  have n: "dget_or ?rd ?key 0 = n" 
    using dget_or_notin[of ?key "db_redis_stat s" 0] unfolding assms(2)
    by (cases "?key \<in> set (keys (db_redis_stat s))") (simp_all add: dget_or_def update_conv)
  have o: "map_of ?rd (conc_key ak) = map_of (db_redis_stat s) (conc_key ak)" if "ak \<noteq> ps_access_key sess" for ak
    using that by (simp add: update_conv)
  have sc: "check_keypair_concurrency_script ?key limit (db_redis_stat s) =
      (if limit > 0 \<and> n \<ge> limit then ((False, n), ?rd) else ((True, n + 1), dset ?rd ?key (n + 1)))"
    using n unfolding check_keypair_concurrency_script_def Let_def by simp
  show ?thesis
  proof (cases "limit > 0 \<and> n \<ge> limit")
    case True
    have "check_concurrency sess s = Inr (failed (''You cannot run more than '' @ show_int limit @ '' concurrent sessions''), sess,
        s\<lparr>db_redis_stat := ?rd\<rparr>)"
      unfolding check_concurrency_def assms(1) option.case Let_def assms(3)[symmetric] sc if_P[OF True] by simp
    with True n o show ?thesis by (auto simp: failed_def simp del: keys_dset)
  next
    case False
    have "check_concurrency sess s = Inr (passed, sess, s\<lparr>db_redis_stat := dset ?rd ?key (n + 1)\<rparr>)"
      unfolding check_concurrency_def assms(1) option.case Let_def assms(3)[symmetric] sc if_not_P[OF False] by simp
    moreover have "dget_or (dset ?rd ?key (n + 1)) ?key 0 = n + 1" by (simp add: dget_or_def update_conv)
    ultimately show ?thesis using False o by (auto simp: passed_def update_conv)
  qed
qed

theorem check_concurrency_counts_witness:
  "\<exists>r s'. check_concurrency (demo_request []) (demo_db [] []) = Inr (r, demo_request [], s') \<and> \<not> pr_passed r \<and>
    dget_or (db_redis_stat s') (conc_key ''AK'') 0 = 5"
proof -
  let ?pol = "\<lparr>p_default_for_unspecified = LIMITED, p_total_resource_slots = [(''cpu'', Fin 8)], p_max_concurrent_sessions = 2, p_max_containers_per_session = 8, p_max_session_lifetime = 0, p_idle_timeout = 600, p_allowed_vfolder_hosts = [], p_max_vfolder_count = 0, p_max_vfolder_size = 0\<rparr>"
  have "map_of (db_policies (demo_db [] [])) (ps_resource_policy (demo_request [])) = Some ?pol"
    "5 = dget_or (db_redis_stat (demo_db [] [])) (conc_key (ps_access_key (demo_request []))) 0"
    "2 = p_max_concurrent_sessions ?pol" by code_simp+
  from check_concurrency_counts[OF this] show ?thesis by (auto simp: demo_request_def)
qed

text \<open>
  C14: The dependency check passes if and only if every kernel of every session that the session
  depends on has the result SUCCESS.
\<close>
theorem check_dependencies_exact:
  "\<exists>r. check_dependencies sess s = Inr (r, sess, s) \<and>
     (pr_passed r \<longleftrightarrow> (\<forall>k. (\<exists>dep. (ps_session_id sess, dep) \<in> set (db_dependencies s) \<and> k \<in> set (db_kernels s) \<and> k_session_id k = dep)
        \<longrightarrow> k_result k = SUCCESS))"
proof -
  have "filter (\<lambda>r. k_result r \<noteq> SUCCESS) (dependency_rows (ps_session_id sess) s) = [] \<longleftrightarrow>
      (\<forall>k. (\<exists>dep. (ps_session_id sess, dep) \<in> set (db_dependencies s) \<and> k \<in> set (db_kernels s) \<and> k_session_id k = dep)
        \<longrightarrow> k_result k = SUCCESS)"
    by (auto simp: dependency_rows_def filter_empty_conv)
  then show ?thesis by (auto simp: check_dependencies_def Let_def passed_def failed_def)
qed

theorem check_dependencies_exact_witness:
  "\<exists>r. check_dependencies (demo_request []) (demo_db [] []\<lparr>db_dependencies := [(''x'', ''k'')]\<rparr>) =
      Inr (r, demo_request [], demo_db [] []\<lparr>db_dependencies := [(''x'', ''k'')]\<rparr>) \<and> pr_passed r"
  using check_dependencies_exact[of "demo_request []" "demo_db [] []\<lparr>db_dependencies := [(''x'', ''k'')]\<rparr>"]
  by (auto simp: demo_db_def)

end
