(* ===== verification/Schedulers.thy ===== *)
theory Schedulers
  imports Sessions
begin

text \<open>
  The four session schedulers (\<open>fifo.py\<close>, \<open>drf.py\<close>, \<open>mof.py\<close>).  Each picks the next pending session
  and assigns an agent whose remaining slots cover the request.  Comparing slots adds zero entries to
  the operands; those added to the request matter for the choice of the agent, so the request is
  threaded through the loop over the agents.  The zero entries that comparisons inside \<open>max\<close> and
  \<open>sorted\<close> add to the agents' own slots change no value and are not recorded: the agents are read anew
  for every decision.
\<close>

section \<open>Agents that can host a request\<close>

fun fit_agents :: "agent_context list \<Rightarrow> slots \<Rightarrow> (agent_context list \<times> slots) res" where
  "fit_agents [] req = Inr ([], req)"
| "fit_agents (a # ags) req =
     bindE (rs_sub (ac_available_slots a) (ac_occupied_slots a)) (\<lambda>(remaining, av, oc).
       let (ok, _, req') = rs_ge remaining req; a' = a\<lparr>ac_available_slots := av, ac_occupied_slots := oc\<rparr>
       in bindE (fit_agents ags req') (\<lambda>(ps, req''). Inr (if ok then a' # ps else ps, req'')))"

section \<open>FIFO and LIFO\<close>

definition num_extras :: "agent_context \<Rightarrow> slots \<Rightarrow> int" where
  "num_extras agent requested_slots =
     (let unused = map fst (filter (\<lambda>(k, v). v = 0) requested_slots)
      in int (length (filter (\<lambda>(k, v). k \<in> set unused \<and> v > 0) (ac_available_slots agent))))"

definition key_by_requested_slots :: "agent_context \<Rightarrow> slots \<Rightarrow> int \<times> slots" where
  "key_by_requested_slots agent requested_slots = (- num_extras agent requested_slots, ac_available_slots agent)"

text \<open>\<open>>\<close> on these tuples: the first components that differ decide.\<close>

definition key_gt :: "int \<times> slots \<Rightarrow> int \<times> slots \<Rightarrow> bool" where
  "key_gt p q =
     (if fst p \<noteq> fst q then fst p > fst q
      else if slots_eq (snd p) (snd q) then False else slots_gt (snd p) (snd q))"

definition fifo_assign :: "agent_context list \<Rightarrow> slots \<Rightarrow> (string option \<times> slots) res" where
  "fifo_assign ags req =
     bindE (fit_agents ags req) (\<lambda>(ps, req').
       if ps \<noteq> []
       then bindE (py_max (\<lambda>a b. key_gt (key_by_requested_slots a req') (key_by_requested_slots b req')) ps)
              (\<lambda>a. Inr (Some (ac_agent_id a), req'))
       else Inr (None, req'))"

definition lifo_assign :: "agent_context list \<Rightarrow> slots \<Rightarrow> (string option \<times> slots) res" where
  "lifo_assign ags req =
     bindE (fit_agents ags req) (\<lambda>(ps, req').
       if ps \<noteq> []
       then bindE (py_max (\<lambda>a b. key_gt (key_by_requested_slots a req') (key_by_requested_slots b req')) ps)
              (\<lambda>a. Inr (Some (ac_agent_id a), req'))
       else Inr (None, req'))"

text \<open>\<open>status_data.get("scheduler", {}).get("retries", 0)\<close>.\<close>

definition json_get :: "json \<Rightarrow> string \<Rightarrow> json \<Rightarrow> json res" where
  "json_get j k dflt = (case j of JObj ob \<Rightarrow> Inr (dget_or ob k dflt) | _ \<Rightarrow> Inl AttributeError)"

definition sched_retries :: "json \<Rightarrow> int res" where
  "sched_retries data =
     bindE (json_get data ''scheduler'' (JObj [])) (\<lambda>sd.
     bindE (json_get sd ''retries'' (JInt 0)) (\<lambda>r. case r of JInt n \<Rightarrow> Inr n | _ \<Rightarrow> Inl TypeError))"

fun fifo_loop :: "int \<Rightarrow> pending_session list \<Rightarrow> pending_session list \<Rightarrow> string option res" where
  "fifo_loop max_retries [] skipped = Inr (case skipped of [] \<Rightarrow> None | s # _ \<Rightarrow> Some (ps_session_id s))"
| "fifo_loop max_retries (s # pending) skipped =
     (if max_retries = 0 then Inr (Some (ps_session_id s))
      else case ps_status_data s of
        None \<Rightarrow> Inr (Some (ps_session_id s))
      | Some data \<Rightarrow>
          bindE (sched_retries data) (\<lambda>n.
            if n \<ge> max_retries then fifo_loop max_retries pending (skipped @ [s])
            else Inr (Some (ps_session_id s))))"

definition fifo_pick :: "int \<Rightarrow> pending_session list \<Rightarrow> string option res" where
  "fifo_pick max_retries pending = fifo_loop max_retries pending []"

definition lifo_pick :: "pending_session list \<Rightarrow> string option res" where
  "lifo_pick pending = (if pending = [] then Inl IndexError else Inr (Some (ps_session_id (last pending))))"

section \<open>Dominant resource fairness\<close>

record drf_state =
  drf_shares :: "(string, decimal) dict"
  drf_capacity :: slots

definition drf_init :: drf_state where
  "drf_init = \<lparr>drf_shares = [], drf_capacity = []\<rparr>"

definition share_step :: "slots \<Rightarrow> decimal \<Rightarrow> string \<times> decimal \<Rightarrow> decimal res" where
  "share_step cap dominant kv =
     (case kv of (k, v) \<Rightarrow>
        bindE (dget cap k) (\<lambda>c.
          if c = 0 then Inr dominant
          else bindE (dec_div v c) (\<lambda>sh. Inr (if dominant < sh then sh else dominant))))"

definition dominant_share :: "slots \<Rightarrow> slots \<Rightarrow> decimal res" where
  "dominant_share cap xs = foldE (share_step cap) 0 xs"

text \<open>Reading a missing share creates the entry, as the \<open>defaultdict\<close> does.\<close>

definition raise_share :: "(string, decimal) dict \<Rightarrow> string \<Rightarrow> decimal \<Rightarrow> (string, decimal) dict" where
  "raise_share shares ak dominant =
     (let cur = dget_or shares ak 0 in dset shares ak (if cur < dominant then dominant else cur))"

definition drf_existing :: "drf_state \<Rightarrow> existing_session \<Rightarrow> drf_state res" where
  "drf_existing st sess =
     (let (cap, occ) = sync_keys (drf_capacity st) (es_occupying_slots sess)
      in bindE (dominant_share cap occ) (\<lambda>d.
           Inr \<lparr>drf_shares = raise_share (drf_shares st) (es_access_key sess) d, drf_capacity = cap\<rparr>))"

text \<open>
  \<open>min\<close> over the set of users: the set comprehension's iteration order is not specified, so it is the
  argument \<open>order\<close>, a function that lists the users of the pending sessions.
\<close>

definition drf_pick :: "(string list \<Rightarrow> string list) \<Rightarrow> drf_state \<Rightarrow> slots \<Rightarrow> pending_session list \<Rightarrow>
    existing_session list \<Rightarrow> (string option \<times> drf_state) res" where
  "drf_pick order st total_capacity pending existing =
     bindE (foldE drf_existing (st\<lparr>drf_capacity := total_capacity\<rparr>) existing) (\<lambda>st1.
       let users = order (map ps_access_key pending)
       in if users = [] then Inr (None, st1)
          else
            let shares = fold (\<lambda>ak d. dset d ak (dget_or d ak 0)) users (drf_shares st1); st2 = st1\<lparr>drf_shares := shares\<rparr>
            in bindE (py_max (\<lambda>x y. snd x < snd y) (map (\<lambda>ak. (ak, dget_or shares ak 0)) users)) (\<lambda>(ak, _).
                 Inr (map_option ps_session_id (find (\<lambda>s. ps_access_key s = ak) pending), st2)))"

text \<open>
  The loop over the requested slots in \<open>_assign_agent\<close> synchronises the keys of the request while it
  iterates over them: if that adds a key, the iteration raises after the first slot.
\<close>

definition drf_request_share :: "slots \<Rightarrow> slots \<Rightarrow> (decimal \<times> slots) res" where
  "drf_request_share cap req =
     (case req of
        [] \<Rightarrow> Inr (0, cap)
      | kv # rest \<Rightarrow>
          (let (cap', req') = sync_keys cap req
           in bindE (share_step cap' 0 kv) (\<lambda>d.
                if length req' \<noteq> length req then Inl RuntimeError
                else bindE (foldE (share_step cap') d rest) (\<lambda>d'. Inr (d', cap')))))"

definition drf_assign :: "drf_state \<Rightarrow> agent_context list \<Rightarrow> string \<Rightarrow> slots \<Rightarrow>
    (string option \<times> slots \<times> drf_state) res" where
  "drf_assign st ags ak req =
     bindE (fit_agents ags req) (\<lambda>(ps, req').
       if ps \<noteq> []
       then bindE (drf_request_share (drf_capacity st) req') (\<lambda>(d, cap).
            bindE (py_max (\<lambda>a b. slots_gt (ac_available_slots a) (ac_available_slots b)) ps) (\<lambda>a.
              Inr (Some (ac_agent_id a), req', \<lparr>drf_shares = raise_share (drf_shares st) ak d, drf_capacity = cap\<rparr>)))
       else Inr (None, req', st))"

section \<open>Minimum occupied slot first\<close>

definition mof_pick :: "pending_session list \<Rightarrow> string option res" where
  "mof_pick pending = (case pending of [] \<Rightarrow> Inl IndexError | s # _ \<Rightarrow> Inr (Some (ps_session_id s)))"

definition mof_assign :: "agent_context list \<Rightarrow> slots \<Rightarrow> (string option \<times> slots) res" where
  "mof_assign ags req =
     bindE (fit_agents ags req) (\<lambda>(ps, req').
       Inr (case py_sorted (\<lambda>a b. slots_lt (ac_occupied_slots a) (ac_occupied_slots b)) ps of
              [] \<Rightarrow> None
            | a # _ \<Rightarrow> Some (ac_agent_id a), req'))"

section \<open>The scheduler interface\<close>

datatype scheduler =
    FIFOSlotScheduler int
  | LIFOSlotScheduler
  | DRFScheduler drf_state
  | MOFScheduler

text \<open>\<open>load_scheduler\<close> with the four entry points of the package; only FIFO reads its configuration.\<close>

definition load_scheduler :: "string \<Rightarrow> (string, int) dict \<Rightarrow> scheduler res" where
  "load_scheduler name config =
     (if name = ''fifo'' then
        (let n = dget_or config ''num_retries_to_skip'' 0 in if n < 0 then Inl ValueError else Inr (FIFOSlotScheduler n))
      else if name = ''lifo'' then Inr LIFOSlotScheduler
      else if name = ''drf'' then Inr (DRFScheduler drf_init)
      else if name = ''mof'' then Inr MOFScheduler
      else Inl ImportError)"

definition pick_session :: "(string list \<Rightarrow> string list) \<Rightarrow> scheduler \<Rightarrow> slots \<Rightarrow> pending_session list \<Rightarrow>
    existing_session list \<Rightarrow> (string option \<times> scheduler) res" where
  "pick_session order sch total_capacity pending existing =
     (case sch of
        FIFOSlotScheduler n \<Rightarrow> bindE (fifo_pick n pending) (\<lambda>r. Inr (r, sch))
      | LIFOSlotScheduler \<Rightarrow> bindE (lifo_pick pending) (\<lambda>r. Inr (r, sch))
      | DRFScheduler st \<Rightarrow> bindE (drf_pick order st total_capacity pending existing) (\<lambda>(r, st'). Inr (r, DRFScheduler st'))
      | MOFScheduler \<Rightarrow> bindE (mof_pick pending) (\<lambda>r. Inr (r, sch)))"

definition assign_agent :: "scheduler \<Rightarrow> agent_context list \<Rightarrow> string \<Rightarrow> slots \<Rightarrow>
    (string option \<times> slots \<times> scheduler) res" where
  "assign_agent sch ags ak req =
     (case sch of
        FIFOSlotScheduler n \<Rightarrow> bindE (fifo_assign ags req) (\<lambda>(r, req'). Inr (r, req', sch))
      | LIFOSlotScheduler \<Rightarrow> bindE (lifo_assign ags req) (\<lambda>(r, req'). Inr (r, req', sch))
      | DRFScheduler st \<Rightarrow> bindE (drf_assign st ags ak req) (\<lambda>(r, req', st'). Inr (r, req', DRFScheduler st'))
      | MOFScheduler \<Rightarrow> bindE (mof_assign ags req) (\<lambda>(r, req'). Inr (r, req', sch)))"

definition assign_agent_for_session :: "scheduler \<Rightarrow> agent_context list \<Rightarrow> pending_session \<Rightarrow>
    (string option \<times> pending_session \<times> scheduler) res" where
  "assign_agent_for_session sch ags sess =
     bindE (assign_agent sch ags (ps_access_key sess) (ps_requested_slots sess)) (\<lambda>(r, req, sch').
       Inr (r, sess\<lparr>ps_requested_slots := req\<rparr>, sch'))"

definition assign_agent_for_kernel :: "scheduler \<Rightarrow> agent_context list \<Rightarrow> kernel_info \<Rightarrow>
    (string option \<times> kernel_info \<times> scheduler) res" where
  "assign_agent_for_kernel sch ags k =
     bindE (assign_agent sch ags (ki_access_key k) (ki_requested_slots k)) (\<lambda>(r, req, sch').
       Inr (r, k\<lparr>ki_requested_slots := req\<rparr>, sch'))"

section \<open>Which agents can host a request\<close>

definition agent_fits :: "agent_context \<Rightarrow> slots \<Rightarrow> bool" where
  "agent_fits a req \<longleftrightarrow> (\<exists>rm. rs_minus (ac_available_slots a) (ac_occupied_slots a) = Inr rm \<and> slots_ge rm req)"

text \<open>The same agent up to zero entries in its slots.\<close>

definition same_agent :: "agent_context \<Rightarrow> agent_context \<Rightarrow> bool" where
  "same_agent a b \<longleftrightarrow> ac_agent_id b = ac_agent_id a \<and> slot_val (ac_available_slots b) = slot_val (ac_available_slots a) \<and>
     slot_val (ac_occupied_slots b) = slot_val (ac_occupied_slots a)"

lemma slots_ge_cong: "slot_val a = slot_val a' \<Longrightarrow> slot_val b = slot_val b' \<Longrightarrow> slots_ge a b = slots_ge a' b'"
  by (simp add: slots_ge_iff)

lemma fit_agents_spec:
  "fit_agents ags req = Inr (ps, req') \<Longrightarrow>
     list_all2 same_agent (filter (\<lambda>a. agent_fits a req) ags) ps \<and> slot_val req' = slot_val req"
proof (induction ags arbitrary: req ps)
  case (Cons a ags)
  obtain rm av oc where sub: "rs_sub (ac_available_slots a) (ac_occupied_slots a) = Inr (rm, av, oc)"
    using Cons.prems by (auto simp: bindE_eq_Inr_iff)
  obtain ok rm' req1 where ge: "rs_ge rm req = (ok, rm', req1)" by (cases "rs_ge rm req") auto
  obtain ps1 where rest: "fit_agents ags req1 = Inr (ps1, req')"
    "ps = (if ok then a\<lparr>ac_available_slots := av, ac_occupied_slots := oc\<rparr> # ps1 else ps1)"
    using Cons.prems sub ge by (auto simp: bindE_eq_Inr_iff)
  have v1: "slot_val req1 = slot_val req"
    using sync_keys_val[of rm req rm' req1] rs_order_operands(2)[of rm req] ge by simp
  have fit: "agent_fits b req1 = agent_fits b req" for b
    using slots_ge_cong[OF refl v1] by (simp add: agent_fits_def)
  have ok: "ok \<longleftrightarrow> agent_fits a req" using sub ge by (auto simp: agent_fits_def rs_minus_def)
  have "slot_val av = slot_val (ac_available_slots a) \<and> slot_val oc = slot_val (ac_occupied_slots a)"
    using sync_keys_val[OF rs_sub_val(1)[OF sub]] .
  then have "same_agent a (a\<lparr>ac_available_slots := av, ac_occupied_slots := oc\<rparr>)" by (simp add: same_agent_def)
  with Cons.IH[OF rest(1)] rest(2) ok fit v1 show ?case by simp
qed simp

lemma fit_agents_mem:
  assumes "fit_agents ags req = Inr (ps, req')" and "p \<in> set ps"
  shows "\<exists>a\<in>set ags. same_agent a p \<and> agent_fits a req"
proof -
  obtain i where i: "i < length ps" "p = ps ! i" using assms(2) by (auto simp: in_set_conv_nth)
  let ?fs = "filter (\<lambda>a. agent_fits a req) ags"
  have "i < length ?fs" "same_agent (?fs ! i) p"
    using fit_agents_spec[OF assms(1)] i by (auto simp: list_all2_conv_all_nth)
  moreover from this have "?fs ! i \<in> set ?fs" by (intro nth_mem)
  ultimately show ?thesis by auto
qed

lemma fit_agents_none:
  assumes "fit_agents ags req = Inr ([], req')" and "a \<in> set ags"
  shows "\<not> agent_fits a req"
  using fit_agents_spec[OF assms(1)] assms(2) by (auto simp: filter_empty_conv)

section \<open>The contract of agent assignment\<close>

text \<open>
  What every scheduler promises of its agent assignment: the agent it names is one of the offered
  agents and its remaining slots cover the request, and it names none only if no offered agent can
  host the request.
\<close>

locale agent_chooser =
  fixes assign :: "agent_context list \<Rightarrow> slots \<Rightarrow> string option res"
  assumes chosen: "assign ags req = Inr (Some i) \<Longrightarrow> \<exists>a\<in>set ags. ac_agent_id a = i \<and> agent_fits a req"
    and unchosen: "assign ags req = Inr None \<Longrightarrow> a \<in> set ags \<Longrightarrow> \<not> agent_fits a req"
begin

text \<open>Adding the request to the chosen agent's occupied slots stays within its available slots.\<close>

lemma chosen_has_room:
  assumes "assign ags req = Inr (Some i)" and "distinct (map ac_agent_id ags)"
    and "a \<in> set ags" and "ac_agent_id a = i"
    and "fin_slots (ac_available_slots a)" and "fin_slots (ac_occupied_slots a)" and "fin_slots req"
  shows "\<exists>occ. rs_plus (ac_occupied_slots a) req = Inr occ \<and> fin_slots occ \<and> slots_le occ (ac_available_slots a)"
proof -
  obtain b where b: "b \<in> set ags" "ac_agent_id b = i" "agent_fits b req" using chosen[OF assms(1)] by blast
  then have "b = a" using assms(2-4) by (metis distinct_map inj_on_eq_iff)
  then obtain rm where rm: "rs_minus (ac_available_slots a) (ac_occupied_slots a) = Inr rm" "slots_ge rm req"
    using b(3) by (auto simp: agent_fits_def)
  obtain rm' where rm': "rs_minus (ac_available_slots a) (ac_occupied_slots a) = Inr rm'" "fin_slots rm'"
    "\<And>k. slot_amt rm' k = slot_amt (ac_available_slots a) k - slot_amt (ac_occupied_slots a) k"
    using rs_minus_fin[OF assms(5,6)] by blast
  obtain oc where oc: "rs_plus (ac_occupied_slots a) req = Inr oc" "fin_slots oc"
    "\<And>k. slot_amt oc k = slot_amt (ac_occupied_slots a) k + slot_amt req k"
    using rs_plus_fin[OF assms(6,7)] by blast
  have "\<forall>k. slot_amt req k \<le> slot_amt (ac_available_slots a) k - slot_amt (ac_occupied_slots a) k"
    using rm rm' slots_ge_amt[of rm' req] assms(7) by auto
  then have "slots_le oc (ac_available_slots a)"
    unfolding slots_le_amt[OF oc(2) assms(5)] oc(3) by (simp add: algebra_simps)
  with oc(1,2) show ?thesis by blast
qed

end

text \<open>The outcome of every scheduler's \<open>_assign_agent\<close>, given the agents that fit.\<close>

definition good_choice :: "agent_context list \<Rightarrow> slots \<Rightarrow> string option \<Rightarrow> bool" where
  "good_choice ags req x =
     (case x of
        Some i \<Rightarrow> \<exists>a\<in>set ags. ac_agent_id a = i \<and> agent_fits a req
      | None \<Rightarrow> \<forall>a\<in>set ags. \<not> agent_fits a req)"

lemma good_choiceI:
  assumes "fit_agents ags req = Inr (ps, req')"
  shows "p \<in> set ps \<Longrightarrow> good_choice ags req (Some (ac_agent_id p))"
    and "ps = [] \<Longrightarrow> good_choice ags req None"
  using fit_agents_mem[OF assms] fit_agents_none[of ags req req'] assms
  by (fastforce simp: good_choice_def same_agent_def)+

lemma fifo_assign_good: "fifo_assign ags req = Inr (x, req') \<Longrightarrow> good_choice ags req x"
  by (auto simp: fifo_assign_def bindE_eq_Inr_iff split: if_splits intro: good_choiceI dest!: py_max_in)

lemma lifo_assign_good: "lifo_assign ags req = Inr (x, req') \<Longrightarrow> good_choice ags req x"
  by (auto simp: lifo_assign_def bindE_eq_Inr_iff split: if_splits intro: good_choiceI dest!: py_max_in)

lemma drf_assign_good: "drf_assign st ags ak req = Inr (x, req', st') \<Longrightarrow> good_choice ags req x"
  by (auto simp: drf_assign_def bindE_eq_Inr_iff split: if_splits intro: good_choiceI dest!: py_max_in)

lemma mof_assign_good:
  assumes "mof_assign ags req = Inr (x, req')"
  shows "good_choice ags req x"
proof -
  obtain ps where ps: "fit_agents ags req = Inr (ps, req')"
    "x = (case py_sorted (\<lambda>a b. slots_lt (ac_occupied_slots a) (ac_occupied_slots b)) ps of
      [] \<Rightarrow> None | a # _ \<Rightarrow> Some (ac_agent_id a))"
    using assms by (auto simp: mof_assign_def bindE_eq_Inr_iff)
  show ?thesis
  proof (cases "py_sorted (\<lambda>a b. slots_lt (ac_occupied_slots a) (ac_occupied_slots b)) ps")
    case Nil
    then have "ps = []" by simp
    then show ?thesis using good_choiceI(2)[OF ps(1)] unfolding ps(2) Nil by simp
  next
    case (Cons p qs)
    then have "p \<in> set ps" by (metis list.set_intros(1) set_py_sorted)
    with ps Cons show ?thesis using good_choiceI(1)[OF ps(1)] by simp
  qed
qed

lemma assign_agent_good:
  assumes "assign_agent sch ags ak req = Inr (x, req', sch')"
  shows "good_choice ags req x"
  using assms fifo_assign_good lifo_assign_good drf_assign_good mof_assign_good
  by (cases sch) (fastforce simp: assign_agent_def bindE_eq_Inr_iff)+

lemma good_chooser:
  assumes "\<And>ags req x. assign ags req = Inr x \<Longrightarrow> good_choice ags req x"
  shows "agent_chooser assign"
  using assms by unfold_locales (fastforce simp: good_choice_def)+

interpretation fifo_choose: agent_chooser "\<lambda>ags req. bindE (fifo_assign ags req) (\<lambda>r. Inr (fst r))"
  by (rule good_chooser) (auto simp: bindE_eq_Inr_iff dest: fifo_assign_good)

interpretation lifo_choose: agent_chooser "\<lambda>ags req. bindE (lifo_assign ags req) (\<lambda>r. Inr (fst r))"
  by (rule good_chooser) (auto simp: bindE_eq_Inr_iff dest: lifo_assign_good)

interpretation mof_choose: agent_chooser "\<lambda>ags req. bindE (mof_assign ags req) (\<lambda>r. Inr (fst r))"
  by (rule good_chooser) (auto simp: bindE_eq_Inr_iff dest: mof_assign_good)

interpretation drf_choose: agent_chooser "\<lambda>ags req. bindE (drf_assign st ags ak req) (\<lambda>r. Inr (fst r))" for st ak
  by (rule good_chooser) (auto simp: bindE_eq_Inr_iff dest: drf_assign_good)

interpretation any_choose: agent_chooser "\<lambda>ags req. bindE (assign_agent sch ags ak req) (\<lambda>r. Inr (fst r))" for sch ak
  by (rule good_chooser) (auto simp: bindE_eq_Inr_iff dest: assign_agent_good)

lemma agent_fits_amt:
  assumes "fin_slots (ac_available_slots a)" and "fin_slots (ac_occupied_slots a)" and "fin_slots req"
  shows "agent_fits a req \<longleftrightarrow> (\<forall>k. slot_amt (ac_occupied_slots a) k + slot_amt req k \<le> slot_amt (ac_available_slots a) k)"
proof -
  obtain rm where rm: "rs_minus (ac_available_slots a) (ac_occupied_slots a) = Inr rm" "fin_slots rm"
    "\<And>k. slot_amt rm k = slot_amt (ac_available_slots a) k - slot_amt (ac_occupied_slots a) k"
    using rs_minus_fin[OF assms(1,2)] by blast
  then have "agent_fits a req \<longleftrightarrow> (\<forall>k. slot_amt req k \<le> slot_amt rm k)"
    using slots_ge_amt[OF rm(2) assms(3)] by (simp add: agent_fits_def)
  then show ?thesis unfolding rm(3) by (simp add: algebra_simps)
qed

section \<open>Properties of the schedulers\<close>

text \<open>
  C27: Whatever the scheduler, the agent it assigns is one of the offered agents and has room for the
  request in every slot; and it assigns none only when every offered agent lacks room in some slot.
\<close>
theorem assign_agent_has_room:
  assumes "assign_agent sch ags ak req = Inr (x, req', sch')" and "fin_slots req"
    and "\<forall>a\<in>set ags. fin_slots (ac_available_slots a) \<and> fin_slots (ac_occupied_slots a)"
  shows "case x of
      Some i \<Rightarrow> \<exists>a\<in>set ags. ac_agent_id a = i \<and>
        (\<forall>k. slot_amt (ac_occupied_slots a) k + slot_amt req k \<le> slot_amt (ac_available_slots a) k)
    | None \<Rightarrow> \<forall>a\<in>set ags. \<exists>k. slot_amt (ac_available_slots a) k < slot_amt (ac_occupied_slots a) k + slot_amt req k"
proof -
  have "good_choice ags req x" using assms(1) by (rule assign_agent_good)
  moreover have "agent_fits a req \<longleftrightarrow> (\<forall>k. slot_amt (ac_occupied_slots a) k + slot_amt req k \<le> slot_amt (ac_available_slots a) k)"
    if "a \<in> set ags" for a using agent_fits_amt[of a req] assms(2,3) that by blast
  ultimately show ?thesis by (auto simp: good_choice_def not_le split: option.splits)
qed

text \<open>Two agents for the witnesses: one with a GPU, one without.\<close>

definition demo_agents :: "agent_context list" where
  "demo_agents =
     [\<lparr>ac_agent_id = ''gpu'', ac_agent_addr = ''x'', ac_architecture = ''x86_64'', ac_scaling_group = ''default'',
       ac_available_slots = [(''cpu'', Fin 8), (''cuda'', Fin 1)], ac_occupied_slots = [(''cpu'', Fin 2)]\<rparr>,
      \<lparr>ac_agent_id = ''cpu'', ac_agent_addr = ''y'', ac_architecture = ''x86_64'', ac_scaling_group = ''default'',
       ac_available_slots = [(''cpu'', Fin 4)], ac_occupied_slots = [(''cpu'', Fin 1)]\<rparr>]"

lemma demo_agents_fin: "\<forall>a\<in>set demo_agents. fin_slots (ac_available_slots a) \<and> fin_slots (ac_occupied_slots a)"
  by (simp add: demo_agents_def fin_slots_def)

theorem assign_agent_has_room_witness:
  "\<exists>req' sch'. assign_agent (FIFOSlotScheduler 0) demo_agents ''AK'' [(''cpu'', Fin 3)] = Inr (Some ''cpu'', req', sch') \<and>
    (\<exists>a\<in>set demo_agents. ac_agent_id a = ''cpu'' \<and>
      (\<forall>k. slot_amt (ac_occupied_slots a) k + slot_amt [(''cpu'', Fin 3)] k \<le> slot_amt (ac_available_slots a) k))"
proof -
  have "map_sum id fst (assign_agent (FIFOSlotScheduler 0) demo_agents ''AK'' [(''cpu'', Fin 3)]) = Inr (Some ''cpu'')"
    by code_simp
  then obtain req' sch' where out: "assign_agent (FIFOSlotScheduler 0) demo_agents ''AK'' [(''cpu'', Fin 3)] = Inr (Some ''cpu'', req', sch')"
    by (cases "assign_agent (FIFOSlotScheduler 0) demo_agents ''AK'' [(''cpu'', Fin 3)]") auto
  from assign_agent_has_room[OF out _ demo_agents_fin] out show ?thesis by (simp add: fin_slots_def)
qed

text \<open>
  FIFO order: with retries to skip, the session picked is the first one that has not yet reached
  the limit of scheduling failures; if all have, it is the first of all.  With a limit of zero it is
  always the first.
\<close>
theorem fifo_pick_first:
  assumes "0 \<le> n" and "\<forall>s\<in>set pending. \<exists>r. (case ps_status_data s of None \<Rightarrow> Inr 0 | Some d \<Rightarrow> sched_retries d) = Inr r"
    and "pending \<noteq> []"
  shows "fifo_pick n pending = Inr (Some (ps_session_id (
    if n = 0 then hd pending
    else case find (\<lambda>s. case ps_status_data s of None \<Rightarrow> True | Some d \<Rightarrow> \<not> (\<exists>r. sched_retries d = Inr r \<and> n \<le> r)) pending of
      Some s \<Rightarrow> s | None \<Rightarrow> hd pending)))"
proof (cases "n = 0")
  case True
  with assms(3) show ?thesis by (cases pending) (simp_all add: fifo_pick_def)
next
  case False
  let ?P = "\<lambda>s. case ps_status_data s of None \<Rightarrow> True | Some d \<Rightarrow> \<not> (\<exists>r. sched_retries d = Inr r \<and> n \<le> r)"
  have "fifo_loop n pending sk = Inr (case find ?P pending of
      Some s \<Rightarrow> Some (ps_session_id s) | None \<Rightarrow> (case sk @ pending of [] \<Rightarrow> None | s # _ \<Rightarrow> Some (ps_session_id s)))" for sk
    using assms(2)
  proof (induction pending arbitrary: sk)
    case (Cons s pending)
    then show ?case using False by (cases "ps_status_data s") (auto split: option.splits)
  qed (auto split: list.splits)
  from this[of "[]"] False assms(3) show ?thesis
    by (cases pending) (auto simp: fifo_pick_def split: option.splits)
qed

lemma list_all2_mem: "list_all2 P xs ys \<Longrightarrow> x \<in> set xs \<Longrightarrow> \<exists>y\<in>set ys. P x y"
  by (induction xs ys rule: list_all2_induct) auto

lemma py_max_from_cong:
  "(\<And>x y. x \<in> insert m (set xs) \<Longrightarrow> y \<in> insert m (set xs) \<Longrightarrow> gt x y = gt' x y) \<Longrightarrow>
     py_max_from gt m xs = py_max_from gt' m xs"
  by (induction xs arbitrary: m) auto

lemma py_max_cong:
  "(\<And>x y. x \<in> set xs \<Longrightarrow> y \<in> set xs \<Longrightarrow> gt x y = gt' x y) \<Longrightarrow> py_max gt xs = py_max gt' xs"
  using py_max_from_cong[of "hd xs" "tl xs" gt gt'] by (cases xs) (auto simp: py_max_def)

text \<open>The lexicographic order behind the sort key.\<close>

definition lex_gt :: "int \<times> slots \<Rightarrow> int \<times> slots \<Rightarrow> bool" where
  "lex_gt p q \<longleftrightarrow> fst p > fst q \<or> (fst p = fst q \<and> slots_gt (snd p) (snd q))"

lemma key_gt_lex: "wf_dict (snd p) \<Longrightarrow> wf_dict (snd q) \<Longrightarrow> key_gt p q = lex_gt p q"
  by (auto simp: key_gt_def lex_gt_def slots_eq_iff slots_gt_iff)

interpretation lex_pref: strict_pref "\<lambda>a b. lex_gt (key_by_requested_slots a r) (key_by_requested_slots b r)" for r
proof
  show "\<not> lex_gt (key_by_requested_slots x r) (key_by_requested_slots x r)" for x
    using slots_pref.gt_irrefl by (simp add: lex_gt_def)
  show "lex_gt (key_by_requested_slots x r) (key_by_requested_slots z r)"
    if "lex_gt (key_by_requested_slots x r) (key_by_requested_slots y r)"
      "lex_gt (key_by_requested_slots y r) (key_by_requested_slots z r)" for x y z
    using that slots_pref.gt_trans unfolding lex_gt_def by force
qed

lemma fit_agents_keys:
  "fit_agents ags req = Inr (ps, req') \<Longrightarrow> \<forall>a\<in>set ags. wf_dict (ac_available_slots a) \<and> wf_dict (ac_occupied_slots a) \<Longrightarrow>
     wf_dict req \<Longrightarrow> wf_dict req' \<and> set (keys req) \<subseteq> set (keys req') \<and>
     (\<forall>p\<in>set ps. wf_dict (ac_available_slots p) \<and> set (keys (ac_available_slots p)) \<subseteq> set (keys req'))"
proof (induction ags arbitrary: req ps)
  case (Cons a ags)
  obtain rm av oc where sub: "rs_sub (ac_available_slots a) (ac_occupied_slots a) = Inr (rm, av, oc)"
    using Cons.prems by (auto simp: bindE_eq_Inr_iff)
  obtain ok rm' req1 where ge: "rs_ge rm req = (ok, rm', req1)" by (cases "rs_ge rm req") auto
  obtain ps1 where rest: "fit_agents ags req1 = Inr (ps1, req')"
    "ps = (if ok then a\<lparr>ac_available_slots := av, ac_occupied_slots := oc\<rparr> # ps1 else ps1)"
    using Cons.prems sub ge by (auto simp: bindE_eq_Inr_iff)
  have s1: "sync_keys rm req = (rm', req1)" using rs_order_operands(2)[of rm req] ge by simp
  note s0 = rs_sub_val(1,3)[OF sub]
  have wav: "wf_dict av" using sync_keys_wf[OF _ _ s0(1)] Cons.prems(2) by auto
  have wrm: "wf_dict rm" using wav s0(2) by simp
  have w1: "wf_dict req1" using sync_keys_wf[OF wrm Cons.prems(3) s1] by blast
  have k1: "set (keys req1) = set (keys rm) \<union> set (keys req)" using sync_keys_set[OF s1] by blast
  have IH: "wf_dict req' \<and> set (keys req1) \<subseteq> set (keys req') \<and>
     (\<forall>p\<in>set ps1. wf_dict (ac_available_slots p) \<and> set (keys (ac_available_slots p)) \<subseteq> set (keys req'))"
    using Cons.IH[OF rest(1) _ w1] Cons.prems(2) by auto
  have "set (keys av) \<subseteq> set (keys req')" using IH k1 s0(2) by auto
  with IH rest(2) wav k1 show ?case by auto
qed simp

text \<open>The slot types an agent offers although the request does not ask for them.\<close>

definition extra_slots :: "agent_context \<Rightarrow> slots \<Rightarrow> string set" where
  "extra_slots a req = {k. 0 < slot_val (ac_available_slots a) k \<and> slot_val req k = 0}"

lemma num_extras_card:
  assumes "wf_dict (ac_available_slots a)" and "wf_dict req" and "set (keys (ac_available_slots a)) \<subseteq> set (keys req)"
  shows "num_extras a req = int (card (extra_slots a req))"
proof -
  let ?av = "ac_available_slots a"
  let ?P = "\<lambda>(k, v). slot_val req k = 0 \<and> v > (0 :: decimal)"
  have mem: "slot_val d k = v" if "wf_dict d" "(k, v) \<in> set d" for d :: slots and k v
    using dget_or_in[OF that, of 0] by (simp add: slot_val_def dget_or_def)
  have un: "k \<in> set (map fst (filter (\<lambda>(k, v). v = 0) req)) \<longleftrightarrow> slot_val req k = 0" if "k \<in> set (keys req)" for k
    using that mem[OF assms(2)] by force
  have "filter (\<lambda>(k, v). k \<in> set (map fst (filter (\<lambda>(k, v). v = 0) req)) \<and> v > 0) ?av = filter ?P ?av"
  proof (rule filter_cong[OF refl])
    fix p assume p: "p \<in> set ?av"
    then have "fst p \<in> set (keys req)" using assms(3) by auto
    from un[OF this] show "(case p of (k, v) \<Rightarrow> k \<in> set (map fst (filter (\<lambda>(k, v). v = 0) req)) \<and> v > 0) = ?P p"
      by (cases p) simp
  qed
  then have n: "num_extras a req = int (length (filter ?P ?av))" by (simp add: num_extras_def)
  have "distinct (map fst (filter ?P ?av))" using assms(1) by (rule distinct_map_filter)
  then have "length (filter ?P ?av) = card (set (map fst (filter ?P ?av)))" by (metis distinct_card length_map)
  also have "set (map fst (filter ?P ?av)) = extra_slots a req"
  proof (intro equalityI subsetI)
    fix k assume "k \<in> set (map fst (filter ?P ?av))"
    then show "k \<in> extra_slots a req" using mem[OF assms(1)] by (auto simp: extra_slots_def)
  next
    fix k assume k: "k \<in> extra_slots a req"
    have "k \<in> set (keys ?av)"
    proof (rule ccontr)
      assume "k \<notin> set (keys ?av)"
      from slot_val_notin[OF this] k show False by (simp add: extra_slots_def)
    qed
    then obtain v where "(k, v) \<in> set ?av" by auto
    with k mem[OF assms(1) this] show "k \<in> set (map fst (filter ?P ?av))" by (force simp: extra_slots_def)
  qed
  finally show ?thesis using n by simp
qed

lemma extra_slots_cong: "slot_val req = slot_val req' \<Longrightarrow> same_agent a b \<Longrightarrow> extra_slots b req = extra_slots a req'"
  by (simp add: extra_slots_def same_agent_def)

text \<open>
  The FIFO scheduler keeps agents with special hardware free: among the agents that can host the
  request, the one it assigns offers the fewest slot types the request does not use.
\<close>
theorem fifo_assign_fewest_extras:
  assumes "fifo_assign ags req = Inr (Some i, req')" and "wf_dict req"
    and "\<forall>a\<in>set ags. wf_dict (ac_available_slots a) \<and> wf_dict (ac_occupied_slots a)"
  shows "\<exists>a\<in>set ags. ac_agent_id a = i \<and> agent_fits a req \<and>
    (\<forall>b\<in>set ags. agent_fits b req \<longrightarrow> card (extra_slots a req) \<le> card (extra_slots b req))"
proof -
  let ?gt = "\<lambda>a b. key_gt (key_by_requested_slots a req') (key_by_requested_slots b req')"
  let ?lex = "\<lambda>a b. lex_gt (key_by_requested_slots a req') (key_by_requested_slots b req')"
  obtain ps p where p: "fit_agents ags req = Inr (ps, req')" "py_max ?gt ps = Inr p" "i = ac_agent_id p"
    using assms(1) by (auto simp: fifo_assign_def bindE_eq_Inr_iff split: if_splits)
  note ks = fit_agents_keys[OF p(1) assms(3,2)]
  have mem: "p \<in> set ps" using p(2) by (rule py_max_in)
  have "py_max ?lex ps = Inr p"
    using p(2) ks py_max_cong[of ps ?gt ?lex] by (simp add: key_gt_lex key_by_requested_slots_def)
  then have mx: "\<not> ?lex b p" if "b \<in> set ps" for b using lex_pref.max_maximal that by blast
  have v: "slot_val req' = slot_val req" using fit_agents_spec[OF p(1)] by blast
  obtain a where a: "a \<in> set ags" "same_agent a p" "agent_fits a req" using fit_agents_mem[OF p(1) mem] by blast
  have "card (extra_slots a req) \<le> card (extra_slots b req)" if b: "b \<in> set ags" "agent_fits b req" for b
  proof -
    have "list_all2 same_agent (filter (\<lambda>a. agent_fits a req) ags) ps" using fit_agents_spec[OF p(1)] by blast
    then obtain q where q: "q \<in> set ps" "same_agent b q"
      using b list_all2_mem[of same_agent "filter (\<lambda>a. agent_fits a req) ags" ps b] by auto
    have "num_extras p req' \<le> num_extras q req'"
      using mx[OF q(1)] by (auto simp: lex_gt_def key_by_requested_slots_def)
    then show ?thesis
      using num_extras_card[of p req'] num_extras_card[of q req'] ks mem q(1)
        extra_slots_cong[OF v a(2)] extra_slots_cong[OF v q(2)] by auto
  qed
  with a p(3) show ?thesis by (auto simp: same_agent_def)
qed

theorem fifo_assign_fewest_extras_witness:
  "\<exists>a\<in>set demo_agents. ac_agent_id a = ''cpu'' \<and> agent_fits a [(''cpu'', Fin 3)] \<and>
    (\<forall>b\<in>set demo_agents. agent_fits b [(''cpu'', Fin 3)] \<longrightarrow>
       card (extra_slots a [(''cpu'', Fin 3)]) \<le> card (extra_slots b [(''cpu'', Fin 3)]))"
proof -
  have "map_sum id fst (fifo_assign demo_agents [(''cpu'', Fin 3)]) = Inr (Some ''cpu'')" by code_simp
  then obtain req' where r: "fifo_assign demo_agents [(''cpu'', Fin 3)] = Inr (Some ''cpu'', req')"
    by (cases "fifo_assign demo_agents [(''cpu'', Fin 3)]") auto
  have "\<forall>a\<in>set demo_agents. wf_dict (ac_available_slots a) \<and> wf_dict (ac_occupied_slots a)"
    by (simp add: demo_agents_def)
  from fifo_assign_fewest_extras[OF r _ this] show ?thesis by simp
qed

section \<open>Dominant shares\<close>

lemma map_of_slot_val: "k \<in> set (keys a) \<Longrightarrow> map_of a k = Some (slot_val a k)"
  by (induction a) (auto simp: slot_val_Cons rev_image_eqI)

lemma share_step_bound:
  assumes "share_step cap d (k, v) = Inr d'"
  shows "d \<le> d'" and "map_of cap k = Some (Fin c) \<Longrightarrow> c \<noteq> 0 \<Longrightarrow> v = Fin x \<Longrightarrow> Fin (x / c) \<le> d'"
  using assms by (auto simp: share_step_def dget_def bindE_eq_Inr_iff zero_decimal_def split: option.splits if_splits)

lemma dominant_share_bound:
  "foldE (share_step cap) d xs = Inr d' \<Longrightarrow> d \<le> d' \<and>
     (\<forall>(k, v)\<in>set xs. \<forall>c x. map_of cap k = Some (Fin c) \<longrightarrow> c \<noteq> 0 \<longrightarrow> v = Fin x \<longrightarrow> Fin (x / c) \<le> d')"
proof (induction xs arbitrary: d)
  case (Cons p xs)
  obtain k v where p: "p = (k, v)" by (cases p)
  obtain d1 where d1: "share_step cap d (k, v) = Inr d1" "foldE (share_step cap) d1 xs = Inr d'"
    using Cons.prems p by (auto simp: bindE_eq_Inr_iff)
  from Cons.IH[OF d1(2)] share_step_bound[OF d1(1)] p show ?case by fastforce
qed simp

lemma raise_share_ge:
  "dget_or shares a 0 \<le> dget_or (raise_share shares ak d) a 0" "d \<le> dget_or (raise_share shares ak d) ak 0"
  by (auto simp: raise_share_def Let_def)

text \<open>The largest fraction of a slot's capacity that a session occupies bounds its owner's share.\<close>

definition share_covers :: "slots \<Rightarrow> existing_session \<Rightarrow> decimal \<Rightarrow> bool" where
  "share_covers cap e d \<longleftrightarrow>
     (\<forall>k. slot_amt cap k \<noteq> 0 \<longrightarrow> Fin (slot_amt (es_occupying_slots e) k / slot_amt cap k) \<le> d) \<and> 0 \<le> d"

lemma drf_existing_step:
  assumes "drf_existing st e = Inr st'" and fin: "fin_slots (drf_capacity st)" "fin_slots (es_occupying_slots e)"
  shows "fin_slots (drf_capacity st') \<and> slot_amt (drf_capacity st') = slot_amt (drf_capacity st) \<and>
    (\<forall>ak. dget_or (drf_shares st) ak 0 \<le> dget_or (drf_shares st') ak 0) \<and>
    share_covers (drf_capacity st) e (dget_or (drf_shares st') (es_access_key e) 0)"
proof -
  obtain cap occ where s: "sync_keys (drf_capacity st) (es_occupying_slots e) = (cap, occ)"
    by (cases "sync_keys (drf_capacity st) (es_occupying_slots e)")
  obtain d where d: "dominant_share cap occ = Inr d"
    "st' = \<lparr>drf_shares = raise_share (drf_shares st) (es_access_key e) d, drf_capacity = cap\<rparr>"
    using assms(1) s by (auto simp: drf_existing_def bindE_eq_Inr_iff)
  have f: "fin_slots cap" "fin_slots occ" using sync_keys_fin[OF fin s] by auto
  have v: "slot_amt cap = slot_amt (drf_capacity st)" "slot_amt occ = slot_amt (es_occupying_slots e)"
    using sync_keys_val[OF s] by (auto simp: slot_amt_def fun_eq_iff)
  note b = dominant_share_bound[OF d(1)[unfolded dominant_share_def]]
  have "Fin (slot_amt occ k / slot_amt cap k) \<le> d" if nz: "slot_amt cap k \<noteq> 0" for k
  proof -
    have val: "slot_val cap k = Fin (slot_amt cap k)" "slot_val occ k = Fin (slot_amt occ k)"
      using fin_slots_amt[OF f(1)] fin_slots_amt[OF f(2)] by auto
    have mem: "k \<in> set (keys cap)"
    proof (rule ccontr)
      assume "k \<notin> set (keys cap)"
      from slot_val_notin[OF this] val nz show False by (simp add: zero_decimal_def)
    qed
    then have "k \<in> set (keys occ)" using sync_keys_set[OF s] by blast
    then have mo: "map_of occ k = Some (Fin (slot_amt occ k))" "map_of cap k = Some (Fin (slot_amt cap k))"
      using val mem by (auto simp: map_of_slot_val)
    from map_of_SomeD[OF mo(1)] b mo(2) nz show ?thesis by fastforce
  qed
  moreover have "0 \<le> d" using b by blast
  ultimately have "share_covers (drf_capacity st) e (dget_or (drf_shares st') (es_access_key e) 0)"
    using raise_share_ge(2)[of d "drf_shares st" "es_access_key e"] v d(2)
    by (auto simp: share_covers_def intro: order_trans)
  then show ?thesis using f v d(2) raise_share_ge(1)[of "drf_shares st"] by auto
qed

lemma share_covers_mono: "share_covers cap e d \<Longrightarrow> d \<le> d' \<Longrightarrow> share_covers cap e d'"
  by (auto simp: share_covers_def intro: order_trans)

lemma drf_existing_all:
  "foldE drf_existing st es = Inr st' \<Longrightarrow> fin_slots (drf_capacity st) \<Longrightarrow> \<forall>e\<in>set es. fin_slots (es_occupying_slots e) \<Longrightarrow>
     (\<forall>ak. dget_or (drf_shares st) ak 0 \<le> dget_or (drf_shares st') ak 0) \<and>
     (\<forall>e\<in>set es. share_covers (drf_capacity st) e (dget_or (drf_shares st') (es_access_key e) 0))"
proof (induction es arbitrary: st)
  case (Cons e es)
  obtain st1 where st1: "drf_existing st e = Inr st1" "foldE drf_existing st1 es = Inr st'"
    using Cons.prems(1) by (auto simp: bindE_eq_Inr_iff)
  have s: "fin_slots (drf_capacity st1)" "slot_amt (drf_capacity st1) = slot_amt (drf_capacity st)"
    "\<And>ak. dget_or (drf_shares st) ak 0 \<le> dget_or (drf_shares st1) ak 0"
    "share_covers (drf_capacity st) e (dget_or (drf_shares st1) (es_access_key e) 0)"
    using drf_existing_step[OF st1(1) Cons.prems(2)] Cons.prems(3) by auto
  have sc: "share_covers (drf_capacity st1) x d = share_covers (drf_capacity st) x d" for x d
    using s(2) by (simp add: share_covers_def)
  have IH: "(\<forall>ak. dget_or (drf_shares st1) ak 0 \<le> dget_or (drf_shares st') ak 0) \<and>
     (\<forall>e\<in>set es. share_covers (drf_capacity st) e (dget_or (drf_shares st') (es_access_key e) 0))"
    using Cons.IH[OF st1(2) s(1)] Cons.prems(3) unfolding sc by simp
  have "share_covers (drf_capacity st) e (dget_or (drf_shares st') (es_access_key e) 0)"
    using share_covers_mono[OF s(4)] IH by blast
  moreover have "dget_or (drf_shares st) ak 0 \<le> dget_or (drf_shares st') ak 0" for ak
    using order_trans[OF s(3)] IH by blast
  ultimately show ?case using IH by simp
qed simp

interpretation share_pref: strict_pref "\<lambda>x y :: string \<times> decimal. snd x < snd y"
  by unfold_locales auto

lemma fold_touch_shares:
  "dget_or (fold (\<lambda>ak d. dset d ak (dget_or d ak 0)) users shares) a (0 :: decimal) = dget_or shares a 0"
  by (induction users arbitrary: shares) auto

text \<open>
  Dominant resource fairness: the session the DRF scheduler picks is the first pending session of
  a user whose dominant share is least among all users with pending sessions; and each user's share
  covers, for every existing session of that user and every slot, the fraction of the capacity that
  the session occupies.
\<close>
theorem drf_pick_least_share:
  assumes "drf_pick order st cap pending existing = Inr (Some i, st')"
    and "set (order (map ps_access_key pending)) = set (map ps_access_key pending)"
    and "fin_slots cap" and "\<forall>e\<in>set existing. fin_slots (es_occupying_slots e)"
  shows "(\<exists>s\<in>set pending. ps_session_id s = i \<and> find (\<lambda>t. ps_access_key t = ps_access_key s) pending = Some s \<and>
      (\<forall>t\<in>set pending. dget_or (drf_shares st') (ps_access_key s) 0 \<le> dget_or (drf_shares st') (ps_access_key t) 0)) \<and>
    (\<forall>e\<in>set existing. share_covers cap e (dget_or (drf_shares st') (es_access_key e) 0))"
proof -
  let ?users = "order (map ps_access_key pending)"
  obtain st1 where st1: "foldE drf_existing (st\<lparr>drf_capacity := cap\<rparr>) existing = Inr st1"
    using assms(1) by (auto simp: drf_pick_def bindE_eq_Inr_iff)
  define shares where "shares = fold (\<lambda>ak d. dset d ak (dget_or d ak 0)) ?users (drf_shares st1)"
  have sh: "dget_or shares a 0 = dget_or (drf_shares st1) a 0" for a by (simp add: shares_def fold_touch_shares)
  obtain ak d where mx: "py_max (\<lambda>x y. snd x < snd y) (map (\<lambda>ak. (ak, dget_or shares ak 0)) ?users) = Inr (ak, d)"
    and res: "Some i = map_option ps_session_id (find (\<lambda>s. ps_access_key s = ak) pending)" "st' = st1\<lparr>drf_shares := shares\<rparr>"
    using assms(1) st1 by (auto simp: drf_pick_def bindE_eq_Inr_iff Let_def shares_def split: if_splits)
  obtain s where s: "find (\<lambda>s. ps_access_key s = ak) pending = Some s" "ps_session_id s = i" using res(1)[symmetric] by auto
  have sm: "s \<in> set pending" "ps_access_key s = ak" using find_SomeD[OF s(1)] by auto
  have d: "d = dget_or shares ak 0" using py_max_in[OF mx] by auto
  have least: "dget_or shares ak 0 \<le> dget_or shares (ps_access_key t) 0" if "t \<in> set pending" for t
  proof -
    have "ps_access_key t \<in> set ?users" using that assms(2) by auto
    then have "(ps_access_key t, dget_or shares (ps_access_key t) 0) \<in> set (map (\<lambda>ak. (ak, dget_or shares ak 0)) ?users)" by auto
    from share_pref.max_maximal[OF mx this] d show ?thesis by auto
  qed
  have "\<forall>e\<in>set existing. share_covers cap e (dget_or (drf_shares st') (es_access_key e) 0)"
    using drf_existing_all[OF st1] assms(3,4) res(2) sh by auto
  with s sm least res(2) show ?thesis by auto
qed

text \<open>Sessions for the witnesses.\<close>

definition demo_session :: "string \<Rightarrow> string \<Rightarrow> json option \<Rightarrow> pending_session" where
  "demo_session i ak data =
     \<lparr> ps_kernels = [], ps_access_key = ak, ps_agent_id = None, ps_agent_addr = None, ps_session_id = i,
       ps_session_creation_id = ''c'', ps_session_type = INTERACTIVE, ps_session_name = ''n'',
       ps_cluster_mode = SINGLE_NODE, ps_cluster_size = 1, ps_domain_name = ''d'', ps_group_id = ''g'',
       ps_status_data = data, ps_scaling_group = Some ''default'', ps_resource_policy = ''p'', ps_resource_opts = [],
       ps_requested_slots = [(''cpu'', Fin 1)], ps_target_sgroup_names = [], ps_environ = [], ps_vfolder_mounts = [],
       ps_bootstrap_script = None, ps_startup_command = None, ps_internal_data = None, ps_preopen_ports = [],
       ps_created_at = 0 \<rparr>"

definition demo_existing :: "string \<Rightarrow> slots \<Rightarrow> existing_session" where
  "demo_existing ak occ =
     \<lparr> es_kernels = [], es_access_key = ak, es_session_id = ''e'', es_session_type = INTERACTIVE, es_session_name = ''n'',
       es_cluster_mode = SINGLE_NODE, es_cluster_size = 1, es_domain_name = ''d'', es_group_id = ''g'',
       es_scaling_group = Some ''default'', es_occupying_slots = occ \<rparr>"

theorem fifo_pick_first_witness:
  "fifo_pick 3 [demo_session ''a'' ''A'' (Some (JObj [(''scheduler'', JObj [(''retries'', JInt 3)])])),
     demo_session ''b'' ''A'' None] = Inr (Some ''b'')"
proof -
  let ?p = "[demo_session ''a'' ''A'' (Some (JObj [(''scheduler'', JObj [(''retries'', JInt 3)])])), demo_session ''b'' ''A'' None]"
  have "sched_retries (JObj [(''scheduler'', JObj [(''retries'', JInt 3)])]) = Inr 3" by code_simp
  then show ?thesis using fifo_pick_first[of 3 ?p] by (simp add: demo_session_def)
qed

theorem drf_pick_least_share_witness:
  "\<exists>st'. drf_pick remdups drf_init [(''cpu'', Fin 8)] [demo_session ''a'' ''A'' None, demo_session ''b'' ''B'' None]
      [demo_existing ''A'' [(''cpu'', Fin 4)]] = Inr (Some ''b'', st') \<and>
    share_covers [(''cpu'', Fin 8)] (demo_existing ''A'' [(''cpu'', Fin 4)]) (dget_or (drf_shares st') ''A'' 0)"
proof -
  let ?p = "[demo_session ''a'' ''A'' None, demo_session ''b'' ''B'' None]"
  let ?e = "[demo_existing ''A'' [(''cpu'', Fin 4)]]"
  have "map_sum id fst (drf_pick remdups drf_init [(''cpu'', Fin 8)] ?p ?e) = Inr (Some ''b'')" by code_simp
  then obtain st' where st': "drf_pick remdups drf_init [(''cpu'', Fin 8)] ?p ?e = Inr (Some ''b'', st')"
    by (cases "drf_pick remdups drf_init [(''cpu'', Fin 8)] ?p ?e") auto
  have "share_covers [(''cpu'', Fin 8)] (demo_existing ''A'' [(''cpu'', Fin 4)])
      (dget_or (drf_shares st') (es_access_key (demo_existing ''A'' [(''cpu'', Fin 4)])) 0)"
    using drf_pick_least_share[OF st'] by (simp add: fin_slots_def demo_existing_def)
  then show ?thesis using st' by (simp add: demo_existing_def)
qed

text \<open>
  The DRF scheduler cannot assign an agent when the total capacity has a slot type that the
  request lacks even after it was compared with the agents: synchronising the keys while iterating
  over the request raises \<open>RuntimeError\<close>.
\<close>
theorem drf_assign_runtime_error:
  assumes "fit_agents ags req = Inr (ps, req')" and "ps \<noteq> []" and "req' \<noteq> []"
    and "fin_slots req'" and "fin_slots (drf_capacity st)"
    and "\<not> set (keys (drf_capacity st)) \<subseteq> set (keys req')"
  shows "drf_assign st ags ak req = Inl RuntimeError"
proof -
  obtain kv rest where r: "req' = kv # rest" using assms(3) by (cases req') auto
  obtain k v where kv: "kv = (k, v)" by (cases kv)
  obtain cap' req2 where s: "sync_keys (drf_capacity st) req' = (cap', req2)" by (cases "sync_keys (drf_capacity st) req'")
  have "zero_keys req' (drf_capacity st) \<noteq> []"
    using set_keys_zero_keys[of req' "drf_capacity st"] assms(6) by auto
  then have len: "length req2 \<noteq> length req'" using s by (auto simp: sync_keys_def)
  have f: "fin_slots cap'" "is_finite v"
    using sync_keys_fin[OF assms(5,4) s] assms(4) r kv by (auto simp: fin_slots_def)
  have "k \<in> set (keys cap')" using sync_keys_set[OF s] r kv by auto
  then obtain c where "map_of cap' k = Some (Fin c)" using map_of_slot_val[of k cap'] fin_slots_amt[OF f(1)] by auto
  then have "\<exists>d. share_step cap' 0 (k, v) = Inr d"
    using f(2) by (cases v) (auto simp: share_step_def dget_def zero_decimal_def)
  then have "drf_request_share (drf_capacity st) req' = Inl RuntimeError"
    using s len r kv by (auto simp: drf_request_share_def)
  then show ?thesis using assms(1,2) by (simp add: drf_assign_def)
qed

theorem drf_assign_runtime_error_witness:
  "drf_assign \<lparr>drf_shares = [], drf_capacity = [(''cpu'', Fin 8), (''tpu'', Fin 1)]\<rparr> demo_agents ''A'' [(''cpu'', Fin 1)] =
     Inl RuntimeError"
proof -
  have keys: "map_sum id (\<lambda>(ps, r). (map ac_agent_id ps, r)) (fit_agents demo_agents [(''cpu'', Fin 1)]) =
      Inr ([''gpu'', ''cpu''], [(''cpu'', Fin 1), (''cuda'', 0)])" by code_simp
  then obtain ps where "fit_agents demo_agents [(''cpu'', Fin 1)] = Inr (ps, [(''cpu'', Fin 1), (''cuda'', 0)])" "ps \<noteq> []"
    by (cases "fit_agents demo_agents [(''cpu'', Fin 1)]") auto
  from drf_assign_runtime_error[OF this] show ?thesis by (simp add: fin_slots_def zero_decimal_def)
qed

text \<open>
  The MOF scheduler assigns an agent with minimal occupied slots when the occupied slots of the
  agents that can host the request are pairwise comparable.
\<close>
theorem mof_assign_minimal:
  assumes "mof_assign ags req = Inr (Some i, req')"
    and "\<forall>a\<in>set ags. \<forall>b\<in>set ags. agent_fits a req \<longrightarrow> agent_fits b req \<longrightarrow>
      slots_le (ac_occupied_slots a) (ac_occupied_slots b) \<or> slots_le (ac_occupied_slots b) (ac_occupied_slots a)"
  shows "\<exists>a\<in>set ags. ac_agent_id a = i \<and> agent_fits a req \<and>
    (\<forall>b\<in>set ags. agent_fits b req \<longrightarrow> slots_le (ac_occupied_slots a) (ac_occupied_slots b))"
proof -
  let ?lt = "\<lambda>a b. slots_lt (ac_occupied_slots a) (ac_occupied_slots b)"
  obtain ps where ps: "fit_agents ags req = Inr (ps, req')"
    "Some i = (case py_sorted ?lt ps of [] \<Rightarrow> None | a # _ \<Rightarrow> Some (ac_agent_id a))"
    using assms(1) by (auto simp: mof_assign_def bindE_eq_Inr_iff)
  then obtain p qs where p: "fit_agents ags req = Inr (ps, req')" "py_sorted ?lt ps = p # qs" "i = ac_agent_id p"
    by (cases "py_sorted ?lt ps") simp_all
  have cmp: "slots_le (ac_occupied_slots x) (ac_occupied_slots y) \<or> slots_le (ac_occupied_slots y) (ac_occupied_slots x)"
    if xy: "x \<in> set ps" "y \<in> set ps" for x y
  proof -
    obtain a b where "a \<in> set ags" "same_agent a x" "agent_fits a req" "b \<in> set ags" "same_agent b y" "agent_fits b req"
      using fit_agents_mem[OF p(1) xy(1)] fit_agents_mem[OF p(1) xy(2)] by blast
    then show ?thesis using assms(2) unfolding same_agent_def slots_le_iff by metis
  qed
  have lt: "?lt x y \<longleftrightarrow> \<not> slots_le (ac_occupied_slots y) (ac_occupied_slots x)" if "x \<in> set ps" "y \<in> set ps" for x y
    using cmp[OF that] unfolding slots_lt_iff slots_le_iff fun_eq_iff by (metis antisym)
  have le_trans: "slots_le x y \<Longrightarrow> slots_le y z \<Longrightarrow> slots_le x z" for x y z
    unfolding slots_le_iff by (meson order_trans)
  have "weak_order_on ?lt (set ps)"
  proof
    show "\<not> ?lt y x" if "x \<in> set ps" "y \<in> set ps" "?lt x y" for x y using cmp lt that by blast
    show "\<not> ?lt x z" if "x \<in> set ps" "y \<in> set ps" "z \<in> set ps" "\<not> ?lt x y" "\<not> ?lt y z" for x y z
      using lt that le_trans by blast
  qed
  then have "sorted_wrt (\<lambda>x y. \<not> ?lt y x) (p # qs)"
    using weak_order_on.py_sorted_ordered[of ?lt "set ps" ps] p(2) by simp
  moreover have mem: "set ps = set (p # qs)" using p(2) by (metis set_py_sorted)
  ultimately have min: "slots_le (ac_occupied_slots p) (ac_occupied_slots q)" if "q \<in> set ps" for q
    using that lt[of q p] cmp[of p q] by (auto simp: slots_le_iff)
  obtain a where a: "a \<in> set ags" "same_agent a p" "agent_fits a req"
    using fit_agents_mem[OF p(1), of p] mem by auto
  have "slots_le (ac_occupied_slots a) (ac_occupied_slots b)" if b: "b \<in> set ags" "agent_fits b req" for b
  proof -
    obtain q where "q \<in> set ps" "same_agent b q"
      using b fit_agents_spec[OF p(1)] list_all2_mem[of same_agent "filter (\<lambda>a. agent_fits a req) ags" ps b] by auto
    with min[of q] a(2) show ?thesis by (simp add: slots_le_iff same_agent_def)
  qed
  with a p(3) show ?thesis by (auto simp: same_agent_def)
qed

theorem mof_assign_minimal_witness:
  "\<exists>a\<in>set demo_agents. ac_agent_id a = ''cpu'' \<and> agent_fits a [(''cpu'', Fin 3)] \<and>
    (\<forall>b\<in>set demo_agents. agent_fits b [(''cpu'', Fin 3)] \<longrightarrow> slots_le (ac_occupied_slots a) (ac_occupied_slots b))"
proof -
  have "map_sum id fst (mof_assign demo_agents [(''cpu'', Fin 3)]) = Inr (Some ''cpu'')" by code_simp
  then obtain req' where r: "mof_assign demo_agents [(''cpu'', Fin 3)] = Inr (Some ''cpu'', req')"
    by (cases "mof_assign demo_agents [(''cpu'', Fin 3)]") auto
  have "list_all (\<lambda>a. list_all (\<lambda>b. slots_le (ac_occupied_slots a) (ac_occupied_slots b) \<or>
      slots_le (ac_occupied_slots b) (ac_occupied_slots a)) demo_agents) demo_agents" by code_simp
  with mof_assign_minimal[OF r] show ?thesis by (simp add: list_all_iff)
qed

text \<open>
  Slots are only partially ordered, and sorting by them does not bring a minimal agent to the
  front: of three agents that can host the request, MOF assigns the first although the third has
  strictly less occupied slots.
\<close>
theorem mof_assign_not_minimal:
  "\<exists>ags req a c req'. set ags \<supseteq> {a, c} \<and> agent_fits c req \<and>
     mof_assign ags req = Inr (Some (ac_agent_id a), req') \<and> slots_lt (ac_occupied_slots c) (ac_occupied_slots a)"
proof -
  let ?ag = "\<lambda>i occ. \<lparr>ac_agent_id = i, ac_agent_addr = ''x'', ac_architecture = ''x86_64'', ac_scaling_group = ''default'',
       ac_available_slots = [(''cpu'', Fin 8), (''mem'', Fin 8)], ac_occupied_slots = occ\<rparr>"
  let ?a = "?ag ''a'' [(''cpu'', Fin 4), (''mem'', Fin 2)]" let ?b = "?ag ''b'' [(''cpu'', Fin 1), (''mem'', Fin 3)]"
  let ?c = "?ag ''c'' [(''cpu'', Fin 3), (''mem'', Fin 2)]" let ?req = "[(''cpu'', Fin 1), (''mem'', Fin 1)]"
  have "map_sum id fst (mof_assign [?a, ?b, ?c] ?req) = Inr (Some ''a'')" by code_simp
  then obtain req' where "mof_assign [?a, ?b, ?c] ?req = Inr (Some (ac_agent_id ?a), req')"
    by (cases "mof_assign [?a, ?b, ?c] ?req") auto
  moreover have "slots_lt (ac_occupied_slots ?c) (ac_occupied_slots ?a)" by code_simp
  moreover have "agent_fits ?c ?req"
  proof -
    have "case rs_minus (ac_available_slots ?c) (ac_occupied_slots ?c) of Inr rm \<Rightarrow> slots_ge rm ?req | Inl _ \<Rightarrow> False"
      by code_simp
    then show ?thesis by (auto simp: agent_fits_def split: sum.splits)
  qed
  ultimately show ?thesis by (intro exI[of _ "[?a, ?b, ?c]"] exI[of _ ?req] exI[of _ ?a] exI[of _ ?c] exI[of _ req']) simp
qed

end
