(* ===== verification/Dispatcher.thy ===== *)
theory Dispatcher
  imports Predicates Schedulers
begin

text \<open>
  The scheduling half of \<open>manager/scheduler/dispatcher.py\<close>: \<open>schedule\<close> goes through the scaling
  groups, picks pending sessions one by one, checks the predicates, assigns agents and marks the
  kernels as SCHEDULED.  Every transaction of the source is one state change here; an exception that
  leaves a transaction block undoes that block only, so operations return a result (\<open>Inl\<close> the
  exception) together with the database.  The clock is read once per call (\<open>se_now\<close>).
\<close>

text \<open>
  What the dispatcher takes from its surroundings: the clock, the known slot types, the iteration
  order of sets of strings, the scheduler options of the shared configuration, and the texts of
  objects whose printed form the model does not keep.
\<close>

record sched_env =
  se_now :: int
  se_types :: "(string, string) dict"
  se_order :: "string list \<Rightarrow> string list"
  se_plugin_opts :: "(string, (string, int) dict) dict"
  se_repr :: "py_exc \<Rightarrow> string"
  se_dec :: "decimal \<Rightarrow> string"
  se_image :: "image_ref \<Rightarrow> string"
  se_debug :: bool

section \<open>Queries\<close>

text \<open>\<open>PendingSession.base_query()\<close>: the kernels joined with their keypairs.\<close>

definition pending_query :: "(kernel_row \<Rightarrow> bool) \<Rightarrow> db \<Rightarrow> pending_row list" where
  "pending_query P s =
     List.map_filter (\<lambda>r. if P r then map_option (Pair r) (map_of (db_keypair_policy s) (k_access_key r)) else None) (db_kernels s)"

definition list_pending_sessions :: "int \<Rightarrow> int \<Rightarrow> string \<Rightarrow> db \<Rightarrow> pending_row list \<times> pending_row list" where
  "list_pending_sessions pending_timeout now sgroup_name s =
     (let rows = pending_query (\<lambda>r. k_status r = PENDING \<and> k_scaling_group r = Some sgroup_name) s;
          expired = (\<lambda>rp. pending_timeout > 0 \<and> now - k_created_at (fst rp) \<ge> pending_timeout)
      in (filter (\<lambda>rp. \<not> expired rp) rows, filter expired rows))"

definition list_existing_sessions :: "string \<Rightarrow> db \<Rightarrow> existing_session list res" where
  "list_existing_sessions sgroup_name s =
     existing_from_rows (filter (\<lambda>r. k_status r \<in> set AGENT_RESOURCE_OCCUPYING_KERNEL_STATUSES \<and> k_scaling_group r = Some sgroup_name) (db_kernels s))"

definition agent_ctx :: "agent_row \<Rightarrow> agent_context" where
  "agent_ctx r = \<lparr>ac_agent_id = a_id r, ac_agent_addr = a_addr r, ac_architecture = a_architecture r,
     ac_scaling_group = a_scaling_group r, ac_available_slots = a_available_slots r, ac_occupied_slots = a_occupied_slots r\<rparr>"

definition list_agents_by_sgroup :: "string \<Rightarrow> db \<Rightarrow> agent_context list" where
  "list_agents_by_sgroup sgroup_name s =
     map agent_ctx (filter (\<lambda>r. a_status r = ALIVE \<and> a_scaling_group r = sgroup_name \<and> a_schedulable r) (db_agents s))"

definition load_sgroup_scheduler :: "sched_env \<Rightarrow> string \<Rightarrow> db \<Rightarrow> (scheduler \<times> int) res" where
  "load_sgroup_scheduler env sgroup_name s =
     (case map_of (db_scaling_groups s) sgroup_name of
        None \<Rightarrow> Inl TypeError
      | Some row \<Rightarrow>
          bindE (load_scheduler (sg_scheduler row)
              (dict_merge (dget_or (se_plugin_opts env) (sg_scheduler row) []) (sg_config row))) (\<lambda>sch.
            Inr (sch, sg_pending_timeout row)))"

section \<open>Reservation and rollback\<close>

definition reserve_agent :: "string \<Rightarrow> string \<Rightarrow> slots \<Rightarrow> db \<Rightarrow> (agent_allocation_context \<times> db) res" where
  "reserve_agent scaling_group agent_id requested_slots s =
     (case find_agent s agent_id of
        None \<Rightarrow> Inl RuntimeError
      | Some ag \<Rightarrow>
          bindE (rs_plus (a_occupied_slots ag) requested_slots) (\<lambda>occ.
            Inr (\<lparr>aac_agent_id = agent_id, aac_agent_addr = a_addr ag, aac_scaling_group = scaling_group\<rparr>,
                 update_agent agent_id (\<lambda>r. r\<lparr>a_occupied_slots := occ\<rparr>) s)))"

definition rollback_predicate_mutations :: "pending_session \<Rightarrow> db \<Rightarrow> db" where
  "rollback_predicate_mutations sess s = recalc_concurrency_used (ps_access_key sess) s"

text \<open>An UPDATE whose values may fail to compute; then nothing is written.\<close>

definition try_update :: "(kernel_row \<Rightarrow> bool) \<Rightarrow> (kernel_row \<Rightarrow> kernel_row res) \<Rightarrow> db \<Rightarrow> db res" where
  "try_update P f s =
     bindE (mapE (\<lambda>r. if P r then f r else Inr r) (db_kernels s)) (\<lambda>ks. Inr (s\<lparr>db_kernels := ks\<rparr>))"

definition retry_data :: "(string \<times> json) list \<Rightarrow> kernel_row \<Rightarrow> json res" where
  "retry_data upd r = sql_json_increment (k_status_data r) [''scheduler'', ''retries''] (Some (JObj upd))"

text \<open>The class names of the exceptions.\<close>

fun exc_name :: "py_exc \<Rightarrow> string" where
  "exc_name ValueError = ''ValueError''"
| "exc_name KeyError = ''KeyError''"
| "exc_name IndexError = ''IndexError''"
| "exc_name RuntimeError = ''RuntimeError''"
| "exc_name AssertionError = ''AssertionError''"
| "exc_name OverflowError = ''OverflowError''"
| "exc_name InvalidOperation = ''InvalidOperation''"
| "exc_name DivisionByZero = ''DivisionByZero''"
| "exc_name ZeroDivisionError = ''ZeroDivisionError''"
| "exc_name InsufficientResource = ''InsufficientResource''"
| "exc_name InvalidResourceCombination = ''InvalidResourceCombination''"
| "exc_name InvalidResourceArgument = ''InvalidResourceArgument''"
| "exc_name NotMultipleOfQuantum = ''NotMultipleOfQuantum''"
| "exc_name InstanceNotAvailable = ''InstanceNotAvailable''"
| "exc_name GenericBadRequest = ''GenericBadRequest''"
| "exc_name GenericForbidden = ''GenericForbidden''"
| "exc_name RejectedByHook = ''RejectedByHook''"
| "exc_name SessionNotFound = ''SessionNotFound''"
| "exc_name TooManySessionsMatched = ''TooManySessionsMatched''"
| "exc_name TooManyKernelsFound = ''TooManyKernelsFound''"
| "exc_name SessionAlreadyExists = ''SessionAlreadyExists''"
| "exc_name QuotaExceeded = ''QuotaExceeded''"
| "exc_name InvalidAPIParameters = ''InvalidAPIParameters''"
| "exc_name ScalingGroupNotFound = ''ScalingGroupNotFound''"
| "exc_name ImageNotFound = ''ImageNotFound''"
| "exc_name UnknownImageReference = ''UnknownImageReference''"
| "exc_name UnknownImageRegistry = ''UnknownImageRegistry''"
| "exc_name UnboundLocalError = ''UnboundLocalError''"
| "exc_name BackendError = ''BackendError''"
| "exc_name (AgentError _ _ _) = ''AgentError''"
| "exc_name (MultiAgentError _) = ''MultiAgentError''"
| "exc_name IntegrityError = ''IntegrityError''"
| "exc_name TypeError = ''TypeError''"
| "exc_name AttributeError = ''AttributeError''"
| "exc_name InvalidIpAddressValue = ''InvalidIpAddressValue''"
| "exc_name AliasResolutionFailed = ''AliasResolutionFailed''"
| "exc_name UnknownImageReferenceError = ''UnknownImageReferenceError''"
| "exc_name InternalServerError = ''InternalServerError''"
| "exc_name InvalidAuthParameters = ''InvalidAuthParameters''"
| "exc_name AuthorizationFailed = ''AuthorizationFailed''"
| "exc_name InvalidCredentials = ''InvalidCredentials''"
| "exc_name InsufficientPrivilege = ''InsufficientPrivilege''"
| "exc_name ObjectNotFound = ''ObjectNotFound''"
| "exc_name TaskTemplateNotFound = ''TaskTemplateNotFound''"
| "exc_name VFolderNotFound = ''VFolderNotFound''"
| "exc_name TooManyVFoldersFound = ''TooManyVFoldersFound''"
| "exc_name VFolderCreationFailed = ''VFolderCreationFailed''"
| "exc_name VFolderAlreadyExists = ''VFolderAlreadyExists''"
| "exc_name VFolderOperationFailed = ''VFolderOperationFailed''"
| "exc_name VFolderFilterStatusFailed = ''VFolderFilterStatusFailed''"
| "exc_name VFolderFilterStatusNotAvailable = ''VFolderFilterStatusNotAvailable''"
| "exc_name StorageProxyError = ''StorageProxyError''"
| "exc_name InvalidArgument = ''InvalidArgument''"
| "exc_name ImportError = ''ImportError''"
| "exc_name DBAPIError = ''DBAPIError''"

text \<open>
  \<open>convert_to_status_data\<close>: an \<open>AgentError\<close> carries the agent and the name and \<open>repr\<close> of the exception
  raised there, a \<open>MultiAgentError\<close> the errors of several agents; \<open>repr\<close> of the other exceptions is
  \<open>se_repr\<close>.
\<close>

fun error_detail :: "sched_env \<Rightarrow> bool \<Rightarrow> py_exc \<Rightarrow> json" where
  "error_detail env dbg (MultiAgentError es) =
     JObj [(''src'', JStr ''agent''), (''name'', JStr ''MultiAgentError''),
       (''repr'', JStr (''MultiAgentError('' @ show_nat (length es) @ '')'')),
       (''collection'', JArr (map (error_detail env dbg) es))]"
| "error_detail env dbg (AgentError agent_id n r) =
     JObj ([(''src'', JStr ''agent''), (''name'', JStr n), (''repr'', JStr r)] @ (if dbg then [(''agent_id'', JStr agent_id)] else []))"
| "error_detail env dbg e = JObj [(''src'', JStr ''other''), (''name'', JStr (exc_name e)), (''repr'', JStr (se_repr env e))]"

definition convert_to_status_data :: "sched_env \<Rightarrow> bool \<Rightarrow> py_exc \<Rightarrow> json" where
  "convert_to_status_data env dbg e = JObj [(''error'', error_detail env dbg e)]"

section \<open>Failures of the agent allocation\<close>

text \<open>\<open>InstanceNotAvailable\<close> with its message, or any other exception.\<close>

datatype sched_failure = NoInstance string | SchedError py_exc

definition lift_exc :: "'a res \<Rightarrow> sched_failure + 'a" where
  "lift_exc r = (case r of Inl e \<Rightarrow> Inl (SchedError e) | Inr x \<Rightarrow> Inr x)"

text \<open>The rollback and the report on the kernel row \<open>kid\<close>; the exception is raised again.\<close>

definition handle_failure :: "sched_env \<Rightarrow> pending_session \<Rightarrow> string \<Rightarrow> sched_failure \<Rightarrow> db \<Rightarrow> py_exc \<times> db" where
  "handle_failure env sess kid fl s =
     (let s1 = rollback_predicate_mutations sess s
      in case fl of
           NoInstance msg \<Rightarrow>
             (case try_update (\<lambda>r. k_id r = kid) (\<lambda>r.
                 bindE (retry_data [(''last_try'', JTime (se_now env)), (''msg'', JStr msg)] r) (\<lambda>d.
                   Inr (r\<lparr>k_status_info := Some ''no-available-instances'', k_status_data := Some d\<rparr>))) s1 of
                Inl e \<Rightarrow> (e, s1)
              | Inr s2 \<Rightarrow> (InstanceNotAvailable, s2))
         | SchedError e \<Rightarrow>
             (e, update_kernels (\<lambda>r. k_id r = kid) (\<lambda>r.
                r\<lparr>k_status_info := Some ''scheduler-error'', k_status_data := Some (convert_to_status_data env False e)\<rparr>) s1))"

text \<open>The check of a manually designated agent; \<open>shown\<close> are the slots the message quotes.\<close>

definition designated_check :: "sched_env \<Rightarrow> string \<Rightarrow> slots \<Rightarrow> slots \<Rightarrow> slots \<Rightarrow> sched_failure + unit" where
  "designated_check env agent_id available requested shown =
     foldE (\<lambda>_ (key, av).
       bindE (lift_exc (dget requested key)) (\<lambda>rq.
         if av \<ge> rq then Inr ()
         else bindE (lift_exc (dget shown key)) (\<lambda>sh.
           Inl (NoInstance (''The designated agent ('' @ agent_id @ '') does not have the enough remaining capacity ('' @
             key @ '', requested: '' @ se_dec env sh @ '', available: '' @ se_dec env av @ '').''))))) () available"

section \<open>Single-node sessions\<close>

definition single_alloc :: "sched_env \<Rightarrow> scheduler \<Rightarrow> string \<Rightarrow> agent_context list \<Rightarrow> pending_session \<Rightarrow> db \<Rightarrow>
    sched_failure + (agent_allocation_context \<times> scheduler \<times> db)" where
  "single_alloc env sch sgroup_name compatible sess s =
     bindE
       (case ps_agent_id sess of
          Some agent_id \<Rightarrow>
            (case find_agent s agent_id of
               None \<Rightarrow> Inl (SchedError GenericBadRequest)
             | Some ag \<Rightarrow>
                 bindE (designated_check env agent_id (a_available_slots ag) (ps_requested_slots sess) (ps_requested_slots sess)) (\<lambda>_.
                   Inr (agent_id, ps_requested_slots sess, sch)))
        | None \<Rightarrow>
            bindE (lift_exc (assign_agent_for_session sch compatible sess)) (\<lambda>(r, sess', sch').
              case r of
                None \<Rightarrow> Inl (NoInstance (''Could not find a contiguous resource region in any agent big enough to host the session ('' @
                          ps_session_id sess @ '')''))
              | Some agent_id \<Rightarrow> Inr (agent_id, ps_requested_slots sess', sch')))
       (\<lambda>(agent_id, requested, sch').
          bindE (lift_exc (reserve_agent sgroup_name agent_id requested s)) (\<lambda>(ctx, s'). Inr (ctx, sch', s')))"

definition mark_scheduled :: "sched_env \<Rightarrow> string \<Rightarrow> agent_allocation_context \<Rightarrow> kernel_row \<Rightarrow> kernel_row" where
  "mark_scheduled env sgroup_name ctx r =
     r\<lparr>k_agent := Some (aac_agent_id ctx), k_agent_addr := Some (aac_agent_addr ctx), k_scaling_group := Some sgroup_name,
       k_status := SCHEDULED, k_status_info := Some ''scheduled'', k_status_data := Some (JObj []),
       k_status_changed := Some (se_now env), k_status_history := history_entry SCHEDULED (se_now env) r\<rparr>"

definition schedule_single_node_session :: "sched_env \<Rightarrow> scheduler \<Rightarrow> string \<Rightarrow> agent_context list \<Rightarrow> pending_session \<Rightarrow> db \<Rightarrow>
    scheduler res \<times> db" where
  "schedule_single_node_session env sch sgroup_name candidates sess s =
     (case remdups (map (ir_architecture \<circ> ki_image_ref) (ps_kernels sess)) of
        [] \<Rightarrow> (Inl KeyError, s)
      | [arch] \<Rightarrow>
          (let compatible = filter (\<lambda>a. ac_architecture a = arch) candidates
           in if compatible = [] then (Inl InstanceNotAvailable, s)
              else case single_alloc env sch sgroup_name compatible sess s of
                     Inl fl \<Rightarrow> (let (e, s') = handle_failure env sess (ps_session_id sess) fl s in (Inl e, s'))
                   | Inr (ctx, sch', s1) \<Rightarrow>
                       (Inr sch', produce_event (SessionScheduledEvent (ps_session_id sess) (ps_session_creation_id sess))
                          (update_kernels (\<lambda>r. k_session_id r = ps_session_id sess) (mark_scheduled env sgroup_name ctx) s1)))
      | _ \<Rightarrow> (Inl GenericBadRequest, s))"

section \<open>Multi-node sessions\<close>

text \<open>
  One kernel inside the outer transaction; the failure names the kernel it is reported on.  After
  each reservation the candidate agents are read again.
\<close>

type_synonym multi_state = "agent_context list \<times> scheduler \<times> kernel_agent_binding list \<times> db"

definition kernel_alloc :: "sched_env \<Rightarrow> string \<Rightarrow> pending_session \<Rightarrow> multi_state \<Rightarrow> kernel_info \<Rightarrow> sched_failure + multi_state" where
  "kernel_alloc env sgroup_name sess st kern =
     (case st of (candidates, sch, bindings, s) \<Rightarrow>
        bindE
          (case ki_agent_id kern of
             Some agent_id \<Rightarrow>
               (case find_agent s agent_id of
                  None \<Rightarrow> Inl (SchedError GenericBadRequest)
                | Some ag \<Rightarrow>
                    bindE (designated_check env agent_id (a_available_slots ag) (ki_requested_slots kern) (ps_requested_slots sess)) (\<lambda>_.
                      Inr (agent_id, kern, sch)))
           | None \<Rightarrow>
               (let compatible = filter (\<lambda>a. ac_architecture a = ir_architecture (ki_image_ref kern)) candidates
                in if compatible = []
                   then Inl (NoInstance (''No agents found to be compatible with the image acrhitecture (image: '' @
                          se_image env (ki_image_ref kern) @ '', arch: '' @ ir_architecture (ki_image_ref kern) @ '')''))
                   else bindE (lift_exc (assign_agent_for_kernel sch compatible kern)) (\<lambda>(r, kern', sch').
                     case r of
                       None \<Rightarrow> Inl (NoInstance (''Could not find a contiguous resource region in any agent big enough to host a kernel in the session ('' @
                                 ps_session_id sess @ '')''))
                     | Some agent_id \<Rightarrow> Inr (agent_id, kern', sch'))))
          (\<lambda>(agent_id, kern', sch').
             bindE (lift_exc (reserve_agent sgroup_name agent_id (ki_requested_slots kern') s)) (\<lambda>(ctx, s').
               Inr (list_agents_by_sgroup sgroup_name s', sch', bindings @ [\<lparr>kab_kernel = kern', kab_agent_alloc_ctx = ctx\<rparr>], s'))))"

fun kernels_alloc :: "sched_env \<Rightarrow> string \<Rightarrow> pending_session \<Rightarrow> multi_state \<Rightarrow> kernel_info list \<Rightarrow>
    (sched_failure \<times> string) + multi_state" where
  "kernels_alloc env sgroup_name sess st [] = Inr st"
| "kernels_alloc env sgroup_name sess st (k # ks) =
     (case kernel_alloc env sgroup_name sess st k of
        Inl fl \<Rightarrow> Inl (fl, ki_kernel_id k)
      | Inr st' \<Rightarrow> kernels_alloc env sgroup_name sess st' ks)"

definition schedule_multi_node_session :: "sched_env \<Rightarrow> scheduler \<Rightarrow> string \<Rightarrow> agent_context list \<Rightarrow> pending_session \<Rightarrow> db \<Rightarrow>
    scheduler res \<times> db" where
  "schedule_multi_node_session env sch sgroup_name candidates sess s =
     (case kernels_alloc env sgroup_name sess (candidates, sch, [], s) (ps_kernels sess) of
        Inl (fl, kid) \<Rightarrow> (let (e, s') = handle_failure env sess kid fl s in (Inl e, s'))
      | Inr (_, sch', bindings, s1) \<Rightarrow>
          (Inr sch', produce_event (SessionScheduledEvent (ps_session_id sess) (ps_session_creation_id sess))
             (fold (\<lambda>b. update_kernels (\<lambda>r. k_id r = ki_kernel_id (kab_kernel b)) (mark_scheduled env sgroup_name (kab_agent_alloc_ctx b)))
                bindings s1)))"

section \<open>Predicates\<close>

type_synonym check_results = "(string \<times> (py_exc + predicate_result)) list"

definition check_predicates :: "sched_env \<Rightarrow> pending_session \<Rightarrow> db \<Rightarrow> (check_results \<times> pending_session \<times> db) res" where
  "check_predicates env sess s =
     foldE (\<lambda>(results, sess, s) (name, check).
       case check sess s of
         Inl e \<Rightarrow> if e = DBAPIError then Inl e else Inr (results @ [(name, Inl e)], sess, s)
       | Inr (r, sess', s') \<Rightarrow> Inr (results @ [(name, Inr r)], sess', s'))
     ([], sess, s) (predicates (se_now env) (se_types env))"

definition failed_predicates :: "sched_env \<Rightarrow> check_results \<Rightarrow> json list" where
  "failed_predicates env results =
     concat (map (\<lambda>(name, r). case r of
         Inl e \<Rightarrow> [JObj [(''name'', JStr name), (''msg'', JStr (se_repr env e))]]
       | Inr p \<Rightarrow> if pr_passed p then []
                  else [JObj [(''name'', JStr name), (''msg'', JStr (case pr_message p of None \<Rightarrow> [] | Some m \<Rightarrow> m))]]) results)"

definition passed_predicates :: "check_results \<Rightarrow> json list" where
  "passed_predicates results =
     concat (map (\<lambda>(name, r). case r of
         Inl e \<Rightarrow> []
       | Inr p \<Rightarrow> if pr_passed p then [JObj [(''name'', JStr name)]] else []) results)"

definition try_info :: "sched_env \<Rightarrow> check_results \<Rightarrow> (string \<times> json) list" where
  "try_info env results =
     [(''last_try'', JTime (se_now env)), (''failed_predicates'', JArr (failed_predicates env results)),
      (''passed_predicates'', JArr (passed_predicates results))]"

definition update_failed_checks :: "sched_env \<Rightarrow> pending_session \<Rightarrow> check_results \<Rightarrow> db \<Rightarrow> unit res \<times> db" where
  "update_failed_checks env sess results s =
     (let s1 = rollback_predicate_mutations sess s
      in case try_update (\<lambda>r. k_id r = ps_session_id sess) (\<lambda>r.
           bindE (retry_data (try_info env results) r) (\<lambda>d.
             Inr (r\<lparr>k_status_info := Some ''predicate-checks-failed'', k_status_data := Some d\<rparr>))) s1 of
           Inl e \<Rightarrow> (Inl e, s1)
         | Inr s2 \<Rightarrow> (Inr (), s2))"

definition update_passed_checks :: "sched_env \<Rightarrow> pending_session \<Rightarrow> check_results \<Rightarrow> db \<Rightarrow> db" where
  "update_passed_checks env sess results s =
     update_kernels (\<lambda>r. k_id r = ps_session_id sess) (\<lambda>r.
       r\<lparr>k_status_data := Some (sql_json_merge (k_status_data r) [''scheduler''] (JObj (try_info env results)))\<rparr>) s"

section \<open>The scheduling loop\<close>

fun pop_session :: "string \<Rightarrow> pending_session list \<Rightarrow> (pending_session \<times> pending_session list) option" where
  "pop_session i [] = None"
| "pop_session i (x # xs) =
     (if ps_session_id x = i then Some (x, xs) else map_option (\<lambda>(y, ys). (y, x # ys)) (pop_session i xs))"

text \<open>One round of the loop: it goes on with the remaining sessions, returns or raises.\<close>

datatype sched_out = Continue scheduler "pending_session list" nat | Return | Raise py_exc

definition schedule_picked :: "sched_env \<Rightarrow> scheduler \<Rightarrow> string \<Rightarrow> agent_context list \<Rightarrow> pending_session \<Rightarrow> pending_session list \<Rightarrow>
    db \<Rightarrow> sched_out \<times> db" where
  "schedule_picked env sch sgroup_name candidates sess pending s =
     (case check_predicates env sess s of
        Inl e \<Rightarrow> (Raise e, s)
      | Inr (results, sess1, s1) \<Rightarrow>
          if failed_predicates env results \<noteq> [] then
            (case update_failed_checks env sess1 results s1 of
               (Inl e, s2) \<Rightarrow> (Raise e, s2)
             | (Inr _, s2) \<Rightarrow> (Continue sch pending 0, s2))
          else
            (let s2 = update_passed_checks env sess1 results s1
             in case (case ps_cluster_mode sess1 of
                        SINGLE_NODE \<Rightarrow> schedule_single_node_session env sch sgroup_name candidates sess1 s2
                      | MULTI_NODE \<Rightarrow> schedule_multi_node_session env sch sgroup_name candidates sess1 s2) of
                  (Inl e, s3) \<Rightarrow> (Raise e, s3)
                | (Inr sch', s3) \<Rightarrow> (Continue sch' pending 1, s3)))"

definition schedule_round :: "sched_env \<Rightarrow> string \<Rightarrow> existing_session list \<Rightarrow> scheduler \<Rightarrow> pending_session list \<Rightarrow> db \<Rightarrow> sched_out \<times> db" where
  "schedule_round env sgroup_name existing sch pending s =
     (let candidates = list_agents_by_sgroup sgroup_name s
      in case bindE (rs_sum (map ac_available_slots candidates)) (\<lambda>total_capacity.
           pick_session (se_order env) sch total_capacity pending existing) of
           Inl e \<Rightarrow> (Raise e, s)
         | Inr (None, _) \<Rightarrow> (Return, s)
         | Inr (Some picked, sch1) \<Rightarrow>
             (case pop_session picked pending of
                None \<Rightarrow> (Raise RuntimeError, s)
              | Some (sess, rest) \<Rightarrow> schedule_picked env sch1 sgroup_name candidates sess rest s))"

lemma pop_session_length: "pop_session i xs = Some (x, ys) \<Longrightarrow> length xs = Suc (length ys)"
  by (induction xs arbitrary: ys) (auto split: if_splits)

lemma schedule_picked_pending: "schedule_picked env sch sg cs sess rest s = (Continue sch' pending' n, s') \<Longrightarrow> pending' = rest"
  by (auto simp: schedule_picked_def Let_def split: sum.splits prod.splits if_splits)

lemma schedule_round_length:
  "schedule_round env sg ex sch pending s = (Continue sch' pending' n, s') \<Longrightarrow> length pending' < length pending"
  by (auto simp: schedule_round_def Let_def split: sum.splits prod.splits option.splits
      dest!: schedule_picked_pending pop_session_length)

text \<open>The number of scheduled sessions, or \<open>None\<close> for the early return.\<close>

function schedule_loop :: "sched_env \<Rightarrow> string \<Rightarrow> existing_session list \<Rightarrow> scheduler \<Rightarrow> pending_session list \<Rightarrow> nat \<Rightarrow> db \<Rightarrow>
    nat option res \<times> db" where
  "schedule_loop env sgroup_name existing sch pending num_scheduled s =
     (if pending = [] then (Inr (Some num_scheduled), s)
      else case schedule_round env sgroup_name existing sch pending s of
             (Continue sch' pending' n, s') \<Rightarrow> schedule_loop env sgroup_name existing sch' pending' (num_scheduled + n) s'
           | (Return, s') \<Rightarrow> (Inr None, s')
           | (Raise e, s') \<Rightarrow> (Inl e, s'))"
  by pat_completeness auto
termination
  by (relation "measure (\<lambda>(_, _, _, _, pending, _, _). length pending)") (auto dest: schedule_round_length[OF sym])

declare schedule_loop.simps [simp del]

text \<open>Sessions that waited longer than the scaling group allows are cancelled.\<close>

definition mark_timeout :: "sched_env \<Rightarrow> kernel_row \<Rightarrow> kernel_row" where
  "mark_timeout env r =
     r\<lparr>k_status := CANCELLED, k_status_changed := Some (se_now env), k_status_info := Some ''pending-timeout'',
       k_terminated_at := Some (se_now env), k_status_history := history_entry CANCELLED (se_now env) r\<rparr>"

definition apply_cancellation :: "sched_env \<Rightarrow> pending_row list \<Rightarrow> db \<Rightarrow> db" where
  "apply_cancellation env cancelled s =
     fold (\<lambda>rp. produce_event (SessionCancelledEvent (k_session_id (fst rp)) (k_session_creation_id (fst rp)) ''pending timeout'')) cancelled
       (update_kernels (\<lambda>r. k_session_id r \<in> set (map (k_session_id \<circ> fst) cancelled)) (mark_timeout env) s)"

definition schedule_in_sgroup :: "sched_env \<Rightarrow> string \<Rightarrow> db \<Rightarrow> unit res \<times> db" where
  "schedule_in_sgroup env sgroup_name s =
     (case load_sgroup_scheduler env sgroup_name s of
        Inl e \<Rightarrow> (Inl e, s)
      | Inr (sch, pending_timeout) \<Rightarrow>
          (let (pending_rows, cancelled_rows) = list_pending_sessions pending_timeout (se_now env) sgroup_name s
           in case bindE (pending_from_rows pending_rows) (\<lambda>pending.
                bindE (list_existing_sessions sgroup_name s) (\<lambda>existing. Inr (pending, existing))) of
                Inl e \<Rightarrow> (Inl e, s)
              | Inr (pending, existing) \<Rightarrow>
                  (let s1 = (if cancelled_rows \<noteq> [] then apply_cancellation env cancelled_rows s else s)
                   in case schedule_loop env sgroup_name existing sch pending 0 s1 of
                        (Inl e, s2) \<Rightarrow> (Inl e, s2)
                      | (Inr None, s2) \<Rightarrow> (Inr (), s2)
                      | (Inr (Some n), s2) \<Rightarrow> (Inr (), if n > 0 then produce_event DoPrepareEvent s2 else s2))))"

text \<open>Exceptions of one scaling group are logged and the next one is tried.\<close>

definition schedule :: "sched_env \<Rightarrow> db \<Rightarrow> db" where
  "schedule env s =
     fold (\<lambda>sgroup_name s. snd (schedule_in_sgroup env sgroup_name s))
       (remdups (map a_scaling_group (filter (\<lambda>r. a_status r = ALIVE) (db_agents s)))) s"

end
