(* ===== verification/SchedulingSafety.thy ===== *)
theory SchedulingSafety
  imports Dispatcher
begin

text \<open>
  What \<open>schedule\<close> keeps: the occupied slots recorded at an agent are the slots of the kernels on it,
  sessions are scheduled as a whole or not at all, and an agent the schedulers choose is never given
  more than it has.
\<close>

section \<open>Changes that only touch status texts\<close>

definition same_kernel :: "kernel_row \<Rightarrow> kernel_row \<Rightarrow> bool" where
  "same_kernel r r' \<longleftrightarrow> r' = r\<lparr>k_status_info := k_status_info r', k_status_data := k_status_data r'\<rparr>"

definition quiet :: "db \<Rightarrow> db \<Rightarrow> bool" where
  "quiet s s' \<longleftrightarrow> db_agents s' = db_agents s \<and> list_all2 same_kernel (db_kernels s) (db_kernels s')"

lemma same_kernel_refl [simp]: "same_kernel r r"
  by (simp add: same_kernel_def)

lemma same_kernel_trans: "same_kernel a b \<Longrightarrow> same_kernel b c \<Longrightarrow> same_kernel a c"
  unfolding same_kernel_def by (cases a; cases b; cases c) simp

lemma same_kernel_fields:
  assumes "same_kernel r r'"
  shows "k_id r' = k_id r" "k_session_id r' = k_session_id r" "k_status r' = k_status r" "k_agent r' = k_agent r"
    "k_access_key r' = k_access_key r" "k_occupied_slots r' = k_occupied_slots r" "k_scaling_group r' = k_scaling_group r"
    "k_created_at r' = k_created_at r" "k_cluster_mode r' = k_cluster_mode r"
  using assms unfolding same_kernel_def by (cases r; cases r'; simp)+

lemma quiet_refl: "db_agents s' = db_agents s \<Longrightarrow> db_kernels s' = db_kernels s \<Longrightarrow> quiet s s'"
  by (simp add: quiet_def list_all2_refl)

lemma quiet_trans: "quiet s t \<Longrightarrow> quiet t u \<Longrightarrow> quiet s u"
  unfolding quiet_def by (auto intro: list_all2_trans[OF same_kernel_trans])

lemma quiet_recalc: "quiet s (recalc_concurrency_used ak s)"
  by (rule quiet_refl) (simp_all add: recalc_concurrency_used_def)

lemma quiet_rollback: "quiet s (rollback_predicate_mutations sess s)"
  by (simp add: rollback_predicate_mutations_def quiet_recalc)

lemma quiet_update: "(\<And>r. same_kernel r (f r)) \<Longrightarrow> quiet s (update_kernels P f s)"
  by (auto simp: quiet_def update_kernels_def list_all2_map2 intro!: list_all2_refl)

lemma mapE_all2:
  "mapE f xs = Inr ys \<Longrightarrow> (\<And>x y. x \<in> set xs \<Longrightarrow> f x = Inr y \<Longrightarrow> R x y) \<Longrightarrow> list_all2 R xs ys"
  by (induction xs arbitrary: ys) (auto simp: bindE_eq_Inr_iff)

lemma quiet_try_update:
  assumes "try_update P f s = Inr s'" and "\<And>r r'. f r = Inr r' \<Longrightarrow> same_kernel r r'"
  shows "quiet s s'"
  using assms by (auto simp: try_update_def bindE_eq_Inr_iff quiet_def split: if_splits elim!: mapE_all2)

lemma handle_failure_quiet:
  assumes "handle_failure env sess kid fl s = (e, s')"
  shows "quiet s s'"
proof (cases fl)
  case (NoInstance msg)
  let ?f = "\<lambda>r. bindE (retry_data [(''last_try'', JTime (se_now env)), (''msg'', JStr msg)] r) (\<lambda>d.
                   Inr (r\<lparr>k_status_info := Some ''no-available-instances'', k_status_data := Some d\<rparr>))"
  have f: "same_kernel r r'" if "?f r = Inr r'" for r r'
    using that by (auto simp: bindE_eq_Inr_iff same_kernel_def)
  show ?thesis
  proof (cases "try_update (\<lambda>r. k_id r = kid) ?f (rollback_predicate_mutations sess s)")
    case (Inl e')
    with NoInstance assms quiet_rollback[of s sess] show ?thesis by (auto simp: handle_failure_def Let_def)
  next
    case (Inr s2)
    then have "quiet (rollback_predicate_mutations sess s) s2" using f by (rule quiet_try_update)
    with NoInstance Inr assms show ?thesis
      by (auto simp: handle_failure_def Let_def intro: quiet_trans[OF quiet_rollback])
  qed
next
  case (SchedError e')
  have "quiet (rollback_predicate_mutations sess s) (update_kernels (\<lambda>r. k_id r = kid) (\<lambda>r.
      r\<lparr>k_status_info := Some ''scheduler-error'', k_status_data := Some (convert_to_status_data env False e')\<rparr>) (rollback_predicate_mutations sess s))"
    by (rule quiet_update) (simp add: same_kernel_def)
  with SchedError assms show ?thesis
    by (auto simp: handle_failure_def Let_def intro: quiet_trans[OF quiet_rollback])
qed

lemma update_failed_checks_quiet:
  assumes "update_failed_checks env sess results s = (r, s')"
  shows "quiet s s'"
proof -
  let ?f = "\<lambda>r. bindE (retry_data (try_info env results) r) (\<lambda>d.
             Inr (r\<lparr>k_status_info := Some ''predicate-checks-failed'', k_status_data := Some d\<rparr>))"
  have f: "same_kernel r r'" if "?f r = Inr r'" for r r'
    using that by (auto simp: bindE_eq_Inr_iff same_kernel_def)
  show ?thesis
  proof (cases "try_update (\<lambda>r. k_id r = ps_session_id sess) ?f (rollback_predicate_mutations sess s)")
    case (Inl e')
    with assms quiet_rollback[of s sess] show ?thesis by (auto simp: update_failed_checks_def Let_def)
  next
    case (Inr s2)
    then have "quiet (rollback_predicate_mutations sess s) s2" using f by (rule quiet_try_update)
    with Inr assms show ?thesis
      by (auto simp: update_failed_checks_def Let_def intro: quiet_trans[OF quiet_rollback])
  qed
qed

lemma update_passed_checks_quiet: "quiet s (update_passed_checks env sess results s)"
  unfolding update_passed_checks_def by (rule quiet_update) (simp add: same_kernel_def)

section \<open>The predicates change no row\<close>

text \<open>What a check may do: nothing but count in Redis and add zero entries to the request.\<close>

definition harmless :: "pending_session \<Rightarrow> db \<Rightarrow> pending_session \<Rightarrow> db \<Rightarrow> bool" where
  "harmless sess s sess' s' \<longleftrightarrow> (\<exists>rd. s' = s\<lparr>db_redis_stat := rd\<rparr>) \<and>
     (\<exists>req. sess' = sess\<lparr>ps_requested_slots := req\<rparr> \<and> fin_slots req \<and> slot_val req = slot_val (ps_requested_slots sess))"

lemma harmless_refl: "fin_slots (ps_requested_slots sess) \<Longrightarrow> harmless sess s sess s"
  unfolding harmless_def by (intro conjI exI[of _ "db_redis_stat s"] exI[of _ "ps_requested_slots sess"]) simp_all

lemma harmless_trans: "harmless a s b t \<Longrightarrow> harmless b t c u \<Longrightarrow> harmless a s c u"
  unfolding harmless_def by auto

lemma harmless_fin: "harmless a s b t \<Longrightarrow> fin_slots (ps_requested_slots b)"
  by (auto simp: harmless_def)

lemma predicates_harmless:
  assumes "fin_kernels s" and "fin_slots (ps_requested_slots sess)"
    and "(name, check) \<in> set (predicates now types)" and "check sess s = Inr (r, sess', s')"
  shows "harmless sess s sess' s'"
proof -
  note refl = harmless_refl[OF assms(2), of s]
  have conc: "harmless sess s sess' s'" if "check_concurrency sess s = Inr (r, sess', s')"
    using that refl assms(2) unfolding check_concurrency_def harmless_def Let_def
    by (auto split: option.splits prod.splits if_splits)
  have quota: "harmless sess s sess' s'" if "s' = s \<and> (\<exists>req. sess' = sess\<lparr>ps_requested_slots := req\<rparr> \<and> fin_slots req \<and> slot_val req = slot_val (ps_requested_slots sess))"
    using that unfolding harmless_def by (auto intro!: exI[of _ "db_redis_stat s"])
  consider "check = check_reserved_batch_session now" | "check = check_concurrency" | "check = check_dependencies"
    | "check = check_keypair_resource_limit types" | "check = check_group_resource_limit types" | "check = check_domain_resource_limit types"
    using assms(3) by (auto simp: predicates_def)
  then show ?thesis
  proof cases
    case 1
    with assms(4) refl show ?thesis by (auto simp: check_reserved_batch_session_def split: if_splits option.splits)
  next
    case 2
    with assms(4) conc show ?thesis by simp
  next
    case 3
    with assms(4) refl show ?thesis by (auto simp: check_dependencies_def Let_def split: if_splits)
  next
    case 4
    with assms keypair_quota.check_spec[of types sess s r sess' s'] quota show ?thesis by blast
  next
    case 5
    with assms group_quota.check_spec[of types sess s r sess' s'] quota show ?thesis by blast
  next
    case 6
    with assms domain_quota.check_spec[of types sess s r sess' s'] quota show ?thesis by blast
  qed
qed

lemma check_predicates_harmless:
  assumes "check_predicates env sess s = Inr (results, sess', s')" and "fin_kernels s" and "fin_slots (ps_requested_slots sess)"
  shows "harmless sess s sess' s'"
proof -
  let ?step = "\<lambda>(results, sess, s) (name, check).
       case check sess s of
         Inl e \<Rightarrow> if e = DBAPIError then Inl e else Inr (results @ [(name, Inl e)], sess, s)
       | Inr (r, sess', s') \<Rightarrow> Inr (results @ [(name, Inr r)], sess', s')"
  have "harmless sess s sess' s'"
    if "foldE ?step (rs0, sess, s) ps = Inr (rs, sess', s')" "set ps \<subseteq> set (predicates (se_now env) (se_types env))"
      "fin_kernels s" "fin_slots (ps_requested_slots sess)" for ps rs0 rs sess s
    using that
  proof (induction ps arbitrary: rs0 sess s)
    case Nil
    then show ?case by (simp add: harmless_refl)
  next
    case (Cons p ps)
    obtain nm ck where p: "p = (nm, ck)" by (cases p)
    show ?case
    proof (cases "ck sess s")
      case (Inl e)
      with Cons p show ?thesis by (auto simp: bindE_eq_Inr_iff split: if_splits)
    next
      case (Inr y)
      obtain r sess1 s1 where y: "y = (r, sess1, s1)" by (cases y)
      have h: "harmless sess s sess1 s1"
        using predicates_harmless[of s sess nm ck] Cons.prems p Inr y by auto
      then have "fin_kernels s1" using Cons.prems(3) by (auto simp: harmless_def fin_kernels_def)
      with Cons h p Inr y have "harmless sess1 s1 sess' s'" by (auto simp: harmless_fin)
      with h show ?thesis by (rule harmless_trans)
    qed
  qed
  from this[of "[]" sess s "predicates (se_now env) (se_types env)" results] assms show ?thesis
    unfolding check_predicates_def by simp
qed

lemma harmless_quiet: "harmless sess s sess' s' \<Longrightarrow> quiet s s'"
  by (auto simp: harmless_def intro: quiet_refl)

section \<open>The invariant\<close>

text \<open>Ids are unique and all slots finite.\<close>

definition base_inv :: "db \<Rightarrow> bool" where
  "base_inv s \<longleftrightarrow> distinct (map a_id (db_agents s)) \<and> distinct (map k_id (db_kernels s)) \<and> fin_kernels s \<and>
     (\<forall>a\<in>set (db_agents s). fin_slots (a_available_slots a) \<and> fin_slots (a_occupied_slots a))"

text \<open>The occupied slots of an agent are the slots of the kernels on it.\<close>

definition accounted :: "db \<Rightarrow> bool" where
  "accounted s \<longleftrightarrow> (\<forall>a\<in>set (db_agents s). \<forall>k. slot_amt (a_occupied_slots a) k = used_by (on_agent (a_id a)) s k)"

text \<open>The kernels of a session that is still pending are all pending, and were created together.\<close>

definition uniform :: "db \<Rightarrow> bool" where
  "uniform s \<longleftrightarrow> (\<forall>r\<in>set (db_kernels s). \<forall>r'\<in>set (db_kernels s). k_session_id r' = k_session_id r \<longrightarrow> k_status r = PENDING \<longrightarrow>
     k_status r' = PENDING \<and> k_scaling_group r' = k_scaling_group r \<and> k_created_at r' = k_created_at r \<and> k_access_key r' = k_access_key r)"

text \<open>No pending kernel has a manually designated agent, and no agent is overcommitted.\<close>

definition undesignated :: "db \<Rightarrow> bool" where
  "undesignated s \<longleftrightarrow> (\<forall>r\<in>set (db_kernels s). k_status r = PENDING \<longrightarrow> k_agent r = None)"

definition capacity_ok :: "db \<Rightarrow> bool" where
  "capacity_ok s \<longleftrightarrow> (\<forall>a\<in>set (db_agents s). \<forall>k. slot_amt (a_occupied_slots a) k \<le> slot_amt (a_available_slots a) k)"

definition sched_inv :: "bool \<Rightarrow> db \<Rightarrow> bool" where
  "sched_inv d s \<longleftrightarrow> base_inv s \<and> accounted s \<and> uniform s \<and> (d \<longrightarrow> undesignated s \<and> capacity_ok s)"

text \<open>The rows behind a pending session.\<close>

abbreviation session_rows :: "string \<Rightarrow> db \<Rightarrow> kernel_row list" where
  "session_rows i s \<equiv> filter (\<lambda>r. k_session_id r = i) (db_kernels s)"

definition sess_ok :: "db \<Rightarrow> pending_session \<Rightarrow> bool" where
  "sess_ok s sess \<longleftrightarrow> (\<forall>r\<in>set (session_rows (ps_session_id sess) s). k_status r = PENDING) \<and>
     list_all2 kernel_of_row (ps_kernels sess) (session_rows (ps_session_id sess) s) \<and>
     fin_slots (ps_requested_slots sess) \<and>
     (\<forall>k. slot_amt (ps_requested_slots sess) k = sum_list (map (\<lambda>r. slot_amt (k_occupied_slots r) k) (session_rows (ps_session_id sess) s))) \<and>
     (\<exists>r\<in>set (session_rows (ps_session_id sess) s). head_of_row sess r)"

lemma filter_all2:
  "list_all2 R xs ys \<Longrightarrow> (\<And>x y. R x y \<Longrightarrow> P x \<longleftrightarrow> Q y) \<Longrightarrow> list_all2 R (filter P xs) (filter Q ys)"
  by (induction xs ys rule: list_all2_induct) auto

lemma map_all2: "list_all2 R xs ys \<Longrightarrow> (\<And>x y. R x y \<Longrightarrow> f x = g y) \<Longrightarrow> map f xs = map g ys"
  by (induction xs ys rule: list_all2_induct) auto

lemma all2_ball: "list_all2 R xs ys \<Longrightarrow> y \<in> set ys \<Longrightarrow> \<exists>x\<in>set xs. R x y"
  by (induction xs ys rule: list_all2_induct) auto

lemma all2_bex: "list_all2 R xs ys \<Longrightarrow> x \<in> set xs \<Longrightarrow> \<exists>y\<in>set ys. R x y"
  by (induction xs ys rule: list_all2_induct) auto

lemma quiet_used:
  assumes "quiet s s'" and "\<And>r r'. same_kernel r r' \<Longrightarrow> P r \<longleftrightarrow> P r'"
  shows "used_by P s' k = used_by P s k"
proof -
  have "list_all2 same_kernel (filter P (db_kernels s)) (filter P (db_kernels s'))"
    by (rule filter_all2[of same_kernel]) (use assms in \<open>auto simp: quiet_def\<close>)
  then have "map (\<lambda>r. slot_amt (k_occupied_slots r) k) (filter P (db_kernels s)) = map (\<lambda>r. slot_amt (k_occupied_slots r) k) (filter P (db_kernels s'))"
    by (rule map_all2) (simp add: same_kernel_fields)
  then show ?thesis by (simp add: used_by_def)
qed

lemma on_agent_same: "same_kernel r r' \<Longrightarrow> on_agent i r \<longleftrightarrow> on_agent i r'"
  by (simp add: on_agent_def agent_occupying_def same_kernel_fields)

lemma quiet_inv:
  assumes q: "quiet s s'" and inv: "sched_inv d s"
  shows "sched_inv d s'"
proof -
  have ag: "db_agents s' = db_agents s" and ks: "list_all2 same_kernel (db_kernels s) (db_kernels s')" using q by (auto simp: quiet_def)
  note pre = all2_ball[OF ks]
  have "map k_id (db_kernels s) = map k_id (db_kernels s')" using ks by (rule map_all2) (simp add: same_kernel_fields)
  moreover have "fin_kernels s'" using inv pre by (fastforce simp: sched_inv_def base_inv_def fin_kernels_def list_all_iff same_kernel_fields)
  ultimately have "base_inv s'" using inv ag by (simp add: sched_inv_def base_inv_def)
  moreover have "accounted s'"
    using inv ag quiet_used[OF q on_agent_same] by (simp add: sched_inv_def accounted_def)
  moreover have "uniform s'" unfolding uniform_def
  proof (intro ballI impI)
    fix r r' assume r: "r \<in> set (db_kernels s')" "r' \<in> set (db_kernels s')" "k_session_id r' = k_session_id r" "k_status r = PENDING"
    obtain x x' where x: "x \<in> set (db_kernels s)" "same_kernel x r" "x' \<in> set (db_kernels s)" "same_kernel x' r'" using pre r by meson
    note f = same_kernel_fields[OF x(2)] same_kernel_fields[OF x(4)]
    have "uniform s" using inv by (simp add: sched_inv_def)
    then show "k_status r' = PENDING \<and> k_scaling_group r' = k_scaling_group r \<and> k_created_at r' = k_created_at r \<and> k_access_key r' = k_access_key r"
      using x(1,3) r f unfolding uniform_def by metis
  qed
  moreover have "undesignated s' \<and> capacity_ok s'" if d
  proof -
    have "undesignated s" "capacity_ok s" using inv that by (auto simp: sched_inv_def)
    with ag pre same_kernel_fields show ?thesis by (fastforce simp: undesignated_def capacity_ok_def)
  qed
  ultimately show ?thesis by (simp add: sched_inv_def)
qed

lemma quiet_sess:
  assumes q: "quiet s s'" and ok: "sess_ok s sess"
  shows "sess_ok s' sess"
proof -
  let ?i = "ps_session_id sess"
  have rows: "list_all2 same_kernel (session_rows ?i s) (session_rows ?i s')"
    using q by (auto simp: quiet_def same_kernel_fields intro: filter_all2)
  have "list_all2 kernel_of_row (ps_kernels sess) (session_rows ?i s')"
  proof (rule list_all2_trans[OF _ _ rows])
    show "kernel_of_row a b \<Longrightarrow> same_kernel b c \<Longrightarrow> kernel_of_row a c" for a b c
      by (simp add: kernel_of_row_def same_kernel_fields)
  qed (use ok in \<open>simp add: sess_ok_def\<close>)
  moreover have "k_status r = PENDING" if "r \<in> set (session_rows ?i s')" for r
    using all2_ball[OF rows that] ok unfolding sess_ok_def by (metis same_kernel_fields(3))
  moreover have "map (\<lambda>r. slot_amt (k_occupied_slots r) k) (session_rows ?i s) = map (\<lambda>r. slot_amt (k_occupied_slots r) k) (session_rows ?i s')" for k
    using rows by (rule map_all2) (simp add: same_kernel_fields)
  moreover have "\<exists>r\<in>set (session_rows ?i s'). head_of_row sess r"
  proof -
    obtain r where r: "r \<in> set (session_rows ?i s)" "head_of_row sess r" using ok by (auto simp: sess_ok_def)
    obtain r' where r': "r' \<in> set (session_rows ?i s')" "same_kernel r r'" using all2_bex[OF rows r(1)] by blast
    have "head_of_row sess r'" using r(2) same_kernel_fields[OF r'(2)] by (simp add: head_of_row_def)
    with r'(1) show ?thesis by blast
  qed
  ultimately show ?thesis using ok unfolding sess_ok_def by simp
qed

section \<open>Marking kernels as scheduled\<close>

lemma mark_scheduled_fields [simp]:
  "k_id (mark_scheduled env sg ctx r) = k_id r" "k_session_id (mark_scheduled env sg ctx r) = k_session_id r"
  "k_occupied_slots (mark_scheduled env sg ctx r) = k_occupied_slots r" "k_status (mark_scheduled env sg ctx r) = SCHEDULED"
  "k_agent (mark_scheduled env sg ctx r) = Some (aac_agent_id ctx)"
  by (simp_all add: mark_scheduled_def)

lemma on_agent_marked: "on_agent i (mark_scheduled env sg ctx r) \<longleftrightarrow> i = aac_agent_id ctx"
  by (auto simp: on_agent_def agent_occupying_def AGENT_RESOURCE_OCCUPYING_KERNEL_STATUSES_def all_kernel_statuses_def)

lemma pending_not_on_agent: "k_status r = PENDING \<Longrightarrow> \<not> on_agent i r"
  by (simp add: on_agent_def agent_occupying_def AGENT_RESOURCE_OCCUPYING_KERNEL_STATUSES_def)

lemma used_by_mark:
  assumes "\<forall>r\<in>set (db_kernels s). P r \<longrightarrow> k_status r = PENDING"
  shows "used_by (on_agent i) (update_kernels P (mark_scheduled env sg ctx) s) k = used_by (on_agent i) s k +
    (if i = aac_agent_id ctx then sum_list (map (\<lambda>r. slot_amt (k_occupied_slots r) k) (filter P (db_kernels s))) else 0)"
proof -
  have "sum_list (map (\<lambda>r. slot_amt (k_occupied_slots r) k) (filter (on_agent i) (map (\<lambda>r. if P r then mark_scheduled env sg ctx r else r) xs))) =
      sum_list (map (\<lambda>r. slot_amt (k_occupied_slots r) k) (filter (on_agent i) xs)) +
      (if i = aac_agent_id ctx then sum_list (map (\<lambda>r. slot_amt (k_occupied_slots r) k) (filter P xs)) else 0)"
    if "\<forall>r\<in>set xs. P r \<longrightarrow> k_status r = PENDING" for xs
    using that by (induction xs) (auto simp: on_agent_marked pending_not_on_agent)
  from this[OF assms] show ?thesis by (simp add: used_by_def update_kernels_def)
qed

text \<open>The kernels of some sessions, and no others, are no longer pending.\<close>

definition marked :: "string set \<Rightarrow> db \<Rightarrow> db \<Rightarrow> bool" where
  "marked S s s' \<longleftrightarrow> list_all2 (\<lambda>r r'. if k_session_id r \<in> S
       then k_id r' = k_id r \<and> k_session_id r' = k_session_id r \<and> k_occupied_slots r' = k_occupied_slots r \<and> k_status r' \<noteq> PENDING
       else r' = r) (db_kernels s) (db_kernels s')"

lemma marked_row:
  assumes "marked S s s'" and "r' \<in> set (db_kernels s')"
  shows "\<exists>r\<in>set (db_kernels s). k_id r' = k_id r \<and> k_session_id r' = k_session_id r \<and> k_occupied_slots r' = k_occupied_slots r \<and>
    (if k_session_id r \<in> S then k_status r' \<noteq> PENDING else r' = r)"
  using all2_ball[OF assms(1)[unfolded marked_def] assms(2)] by (force split: if_splits)

lemma marked_inv:
  assumes m: "marked S s s'" and inv: "base_inv s" "uniform s"
    and ag: "distinct (map a_id (db_agents s'))" "\<forall>a\<in>set (db_agents s'). fin_slots (a_available_slots a) \<and> fin_slots (a_occupied_slots a)"
  shows "base_inv s' \<and> uniform s' \<and> (undesignated s \<longrightarrow> undesignated s')"
proof -
  note row = marked_row[OF m]
  have "map k_id (db_kernels s) = map k_id (db_kernels s')"
    using m[unfolded marked_def] by (rule map_all2) (auto split: if_splits)
  moreover have "fin_kernels s'" using inv(1) row by (fastforce simp: base_inv_def fin_kernels_def list_all_iff)
  ultimately have "base_inv s'" using inv(1) ag by (simp add: base_inv_def)
  moreover have "uniform s'" unfolding uniform_def
  proof (intro ballI impI)
    fix r r' assume r: "r \<in> set (db_kernels s')" "r' \<in> set (db_kernels s')" "k_session_id r' = k_session_id r" "k_status r = PENDING"
    obtain x where x: "x \<in> set (db_kernels s)" "k_session_id r = k_session_id x" "if k_session_id x \<in> S then k_status r \<noteq> PENDING else r = x"
      using row[OF r(1)] by blast
    obtain x' where x': "x' \<in> set (db_kernels s)" "k_session_id r' = k_session_id x'" "if k_session_id x' \<in> S then k_status r' \<noteq> PENDING else r' = x'"
      using row[OF r(2)] by blast
    have "k_session_id x \<notin> S" using x(3) r(4) by auto
    then have "r = x" "r' = x'" using x x' r(3) by auto
    then show "k_status r' = PENDING \<and> k_scaling_group r' = k_scaling_group r \<and> k_created_at r' = k_created_at r \<and> k_access_key r' = k_access_key r"
      using inv(2) x(1) x'(1) r(3,4) unfolding uniform_def by metis
  qed
  moreover have "undesignated s'" if "undesignated s"
    using that row unfolding undesignated_def by metis
  ultimately show ?thesis by blast
qed

lemma marked_sess:
  assumes m: "marked S s s'" and "ps_session_id sess \<notin> S" and "sess_ok s sess"
  shows "sess_ok s' sess"
proof -
  have "list_all2 (\<lambda>r r'. r' = r) (filter (\<lambda>r. k_session_id r = ps_session_id sess) xs) (filter (\<lambda>r. k_session_id r = ps_session_id sess) ys)"
    if "list_all2 (\<lambda>r r'. if k_session_id r \<in> S
       then k_id r' = k_id r \<and> k_session_id r' = k_session_id r \<and> k_occupied_slots r' = k_occupied_slots r \<and> k_status r' \<noteq> PENDING
       else r' = r) xs ys" for xs ys
    using that assms(2) by (induction xs ys rule: list_all2_induct) (auto split: if_splits)
  from this[OF m[unfolded marked_def]] have "session_rows (ps_session_id sess) s' = session_rows (ps_session_id sess) s"
    by (simp add: list.rel_eq[symmetric] list_all2_conv_all_nth)
  with assms(3) show ?thesis by (simp add: sess_ok_def)
qed

section \<open>Reservations\<close>

lemma reserve_agent_spec:
  assumes "reserve_agent sg i req s = Inr (ctx, s')" and "base_inv s" and "fin_slots req"
  obtains ag occ where "ag \<in> set (db_agents s)" and "a_id ag = i" and "aac_agent_id ctx = i" and "fin_slots occ"
    and "s' = update_agent i (\<lambda>r. r\<lparr>a_occupied_slots := occ\<rparr>) s"
    and "\<And>k. slot_amt occ k = slot_amt (a_occupied_slots ag) k + slot_amt req k"
proof -
  obtain ag where ag: "find_agent s i = Some ag" using assms(1) by (auto simp: reserve_agent_def split: option.splits)
  note mem = find_agent_Some[OF ag]
  then have "fin_slots (a_occupied_slots ag)" using assms(2) by (simp add: base_inv_def)
  then obtain occ where occ: "rs_plus (a_occupied_slots ag) req = Inr occ" "fin_slots occ"
    "\<And>k. slot_amt occ k = slot_amt (a_occupied_slots ag) k + slot_amt req k" using rs_plus_fin[OF _ assms(3)] by blast
  show ?thesis
    by (rule that[of ag occ]) (use assms(1) ag mem occ in \<open>auto simp: reserve_agent_def\<close>)
qed

text \<open>The agents after a reservation: the slots of one of them have grown by the request.\<close>

definition grown :: "(string \<Rightarrow> string \<Rightarrow> rat) \<Rightarrow> db \<Rightarrow> db \<Rightarrow> bool" where
  "grown g s s' \<longleftrightarrow> list_all2 (\<lambda>a a'. a_id a' = a_id a \<and> a_available_slots a' = a_available_slots a \<and> fin_slots (a_occupied_slots a') \<and>
     (\<forall>k. slot_amt (a_occupied_slots a') k = slot_amt (a_occupied_slots a) k + g (a_id a) k)) (db_agents s) (db_agents s')"

lemma reserve_agent_grown:
  assumes "reserve_agent sg i req s = Inr (ctx, s')" and "base_inv s" and "fin_slots req"
  shows "grown (\<lambda>j k. if j = i then slot_amt req k else 0) s s' \<and> db_kernels s' = db_kernels s \<and> aac_agent_id ctx = i"
proof -
  obtain ag occ where o: "ag \<in> set (db_agents s)" "a_id ag = i" "aac_agent_id ctx = i" "fin_slots occ"
    "s' = update_agent i (\<lambda>r. r\<lparr>a_occupied_slots := occ\<rparr>) s" "\<And>k. slot_amt occ k = slot_amt (a_occupied_slots ag) k + slot_amt req k"
    using reserve_agent_spec[OF assms] by metis
  have "a = ag" if "a \<in> set (db_agents s)" "a_id a = i" for a
    using that o(1,2) assms(2) by (metis base_inv_def distinct_map inj_on_eq_iff)
  then have one: "a_id a = i \<Longrightarrow> a \<in> set (db_agents s) \<Longrightarrow> slot_amt occ k = slot_amt (a_occupied_slots a) k + slot_amt req k" for a k
    using o(6) by blast
  have "grown (\<lambda>j k. if j = i then slot_amt req k else 0) s s'"
    using one o(4) assms(2) unfolding grown_def o(5)
    by (simp add: update_agent_def list_all2_map2 list_all2_same base_inv_def)
  with o show ?thesis by simp
qed

lemma grown_fin:
  assumes "grown g s s'" and "base_inv s"
  shows "distinct (map a_id (db_agents s'))" "\<forall>a\<in>set (db_agents s'). fin_slots (a_available_slots a) \<and> fin_slots (a_occupied_slots a)"
proof -
  have "map a_id (db_agents s) = map a_id (db_agents s')" using assms(1)[unfolded grown_def] by (rule map_all2) simp
  then show "distinct (map a_id (db_agents s'))" using assms(2) by (simp add: base_inv_def)
  show "\<forall>a\<in>set (db_agents s'). fin_slots (a_available_slots a) \<and> fin_slots (a_occupied_slots a)"
    using all2_ball[OF assms(1)[unfolded grown_def]] assms(2) unfolding base_inv_def by metis
qed

text \<open>
  Scheduling a session: the agents have grown by what the marked kernels use, within the capacity
  where the agents were chosen by a scheduler.
\<close>

lemma scheduled_inv:
  assumes inv: "sched_inv d s" and gr: "grown g s s'" and m: "marked S s s'"
    and used: "\<And>i k. used_by (on_agent i) s' k = used_by (on_agent i) s k + g i k"
    and cap: "d \<Longrightarrow> capacity_ok s'"
  shows "sched_inv d s'"
proof -
  have b: "base_inv s" "uniform s" "accounted s" using inv by (auto simp: sched_inv_def)
  note mi = marked_inv[OF m b(1,2) grown_fin[OF gr b(1)]]
  have "accounted s'" unfolding accounted_def
  proof (intro ballI allI)
    fix a' k assume "a' \<in> set (db_agents s')"
    then obtain a where a: "a \<in> set (db_agents s)" "a_id a' = a_id a"
      "slot_amt (a_occupied_slots a') k = slot_amt (a_occupied_slots a) k + g (a_id a) k"
      using all2_ball[OF gr[unfolded grown_def]] by blast
    with b(3) used show "slot_amt (a_occupied_slots a') k = used_by (on_agent (a_id a')) s' k" by (simp add: accounted_def)
  qed
  with mi cap inv show ?thesis by (auto simp: sched_inv_def)
qed

lemma list_agents_mem:
  "c \<in> set (list_agents_by_sgroup sg s) \<Longrightarrow> \<exists>a\<in>set (db_agents s). c = agent_ctx a"
  by (auto simp: list_agents_by_sgroup_def)

text \<open>An agent a scheduler names has room.\<close>

lemma assigned_room:
  assumes "assign_agent sch cs ak req = Inr (Some i, req', sch')" and "set cs \<subseteq> set (list_agents_by_sgroup sg s)"
    and "base_inv s" and "fin_slots req" and "a \<in> set (db_agents s)" and "a_id a = i"
  shows "slot_amt (a_occupied_slots a) k + slot_amt req k \<le> slot_amt (a_available_slots a) k"
proof -
  obtain c where c: "c \<in> set cs" "ac_agent_id c = i" "agent_fits c req"
    using assign_agent_good[OF assms(1)] by (auto simp: good_choice_def)
  then obtain b where b: "b \<in> set (db_agents s)" "c = agent_ctx b" using assms(2) list_agents_mem by blast
  have "b = a" using b c(2) assms(3,5,6) by (auto simp: agent_ctx_def base_inv_def distinct_map inj_on_def)
  with b c(3) agent_fits_amt[of c req] assms(3,4) show ?thesis by (auto simp: agent_ctx_def base_inv_def)
qed

lemma fit_agents_req: "fit_agents cs req = Inr (ps, req') \<Longrightarrow> fin_slots req \<Longrightarrow> fin_slots req'"
proof (induction cs arbitrary: req ps)
  case (Cons a cs)
  obtain rm av oc where sub: "rs_sub (ac_available_slots a) (ac_occupied_slots a) = Inr (rm, av, oc)"
    using Cons.prems by (auto simp: bindE_eq_Inr_iff)
  obtain ok rm' req1 where ge: "rs_ge rm req = (ok, rm', req1)" by (cases "rs_ge rm req") auto
  obtain ps1 where rest: "fit_agents cs req1 = Inr (ps1, req')"
    using Cons.prems sub ge by (auto simp: bindE_eq_Inr_iff)
  have "sync_keys rm req = (rm', req1)" using rs_order_operands(2)[of rm req] ge by simp
  then have "fin_slots req1" using Cons.prems(2) by (auto simp: sync_keys_def)
  from Cons.IH[OF rest this] show ?case .
qed simp

lemma assign_agent_req:
  assumes "assign_agent sch cs ak req = Inr (x, req', sch')" and "fin_slots req"
  shows "slot_val req' = slot_val req \<and> fin_slots req'"
proof -
  obtain ps where "fit_agents cs req = Inr (ps, req')"
    using assms(1) unfolding assign_agent_def
    by (cases sch) (auto simp: bindE_eq_Inr_iff fifo_assign_def lifo_assign_def drf_assign_def mof_assign_def split: if_splits)
  with fit_agents_spec fit_agents_req assms(2) show ?thesis by blast
qed

lemma grown_capacity:
  assumes "grown (\<lambda>j k. if j = i then slot_amt req k else 0) s s'" and "capacity_ok s"
    and "\<And>a k. a \<in> set (db_agents s) \<Longrightarrow> a_id a = i \<Longrightarrow> slot_amt (a_occupied_slots a) k + slot_amt req k \<le> slot_amt (a_available_slots a) k"
  shows "capacity_ok s'"
  unfolding capacity_ok_def
proof (intro ballI allI)
  fix a' k assume "a' \<in> set (db_agents s')"
  then obtain a where "a \<in> set (db_agents s)" "a_available_slots a' = a_available_slots a"
    "slot_amt (a_occupied_slots a') k = slot_amt (a_occupied_slots a) k + (if a_id a = i then slot_amt req k else 0)"
    using all2_ball[OF assms(1)[unfolded grown_def]] by blast
  with assms(2,3) show "slot_amt (a_occupied_slots a') k \<le> slot_amt (a_available_slots a') k" by (auto simp: capacity_ok_def)
qed

section \<open>Single-node sessions\<close>

lemma lift_exc_Inr [simp]: "lift_exc r = Inr x \<longleftrightarrow> r = Inr x"
  by (auto simp: lift_exc_def split: sum.splits)

lemma single_marked: "marked {sid} s (update_kernels (\<lambda>r. k_session_id r = sid) (mark_scheduled env sg ctx) s)"
  by (auto simp: marked_def update_kernels_def list_all2_map2 list_all2_same)

lemma single_node_inv:
  assumes inv: "sched_inv d s" and ok: "sess_ok s sess"
    and run: "schedule_single_node_session env sch sg (list_agents_by_sgroup sg s) sess s = (r, s')"
  shows "sched_inv d s' \<and> (\<forall>x. ps_session_id x \<noteq> ps_session_id sess \<longrightarrow> sess_ok s x \<longrightarrow> sess_ok s' x)"
proof -
  let ?sid = "ps_session_id sess"
  have b: "base_inv s" using inv by (simp add: sched_inv_def)
  have fr: "fin_slots (ps_requested_slots sess)" using ok by (simp add: sess_ok_def)
  consider (same) "quiet s s'" | (sched) arch ctx sch' s1 where
    "single_alloc env sch sg (filter (\<lambda>a. ac_architecture a = arch) (list_agents_by_sgroup sg s)) sess s = Inr (ctx, sch', s1)"
    "s' = produce_event (SessionScheduledEvent ?sid (ps_session_creation_id sess))
        (update_kernels (\<lambda>r. k_session_id r = ?sid) (mark_scheduled env sg ctx) s1)"
    using run unfolding schedule_single_node_session_def Let_def
    by (auto split: list.splits if_splits sum.splits prod.splits intro: quiet_refl dest: handle_failure_quiet)
  then show ?thesis
  proof cases
    case same
    with inv quiet_inv quiet_sess show ?thesis by blast
  next
    case sched
    let ?cs = "filter (\<lambda>a. ac_architecture a = arch) (list_agents_by_sgroup sg s)"
    obtain i req where a: "reserve_agent sg i req s = Inr (ctx, s1)" "fin_slots req" "slot_val req = slot_val (ps_requested_slots sess)"
      "ps_agent_id sess = None \<Longrightarrow> \<exists>req' sch'. assign_agent sch ?cs (ps_access_key sess) (ps_requested_slots sess) = Inr (Some i, req', sch')"
    proof (cases "ps_agent_id sess")
      case None
      with sched(1) obtain i req sch2 where "assign_agent sch ?cs (ps_access_key sess) (ps_requested_slots sess) = Inr (Some i, req, sch2)"
        "reserve_agent sg i req s = Inr (ctx, s1)"
        by (auto simp: single_alloc_def assign_agent_for_session_def bindE_eq_Inr_iff split: option.splits)
      with assign_agent_req fr that show ?thesis by blast
    next
      case (Some i)
      with sched(1) have "reserve_agent sg i (ps_requested_slots sess) s = Inr (ctx, s1)"
        by (auto simp: single_alloc_def bindE_eq_Inr_iff split: option.splits)
      with Some fr that show ?thesis by auto
    qed
    note res = reserve_agent_grown[OF a(1) b a(2)]
    have amt: "slot_amt req k = slot_amt (ps_requested_slots sess) k" for k using a(3) by (simp add: slot_amt_def)
    have ag: "db_agents s' = db_agents s1" using sched(2) by simp
    have ks: "db_kernels s' = db_kernels (update_kernels (\<lambda>r. k_session_id r = ?sid) (mark_scheduled env sg ctx) s)"
      using sched(2) res by (simp add: update_kernels_def)
    have m: "marked {?sid} s s'" using single_marked[of ?sid s env sg ctx] ks by (simp add: marked_def)
    have gr: "grown (\<lambda>j k. if j = i then slot_amt req k else 0) s s'" using res ag by (simp add: grown_def)
    have used: "used_by (on_agent j) s' k = used_by (on_agent j) s k + (if j = i then slot_amt req k else 0)" for j k
      using used_by_mark[of s "\<lambda>r. k_session_id r = ?sid" j env sg ctx k] ok res ks amt by (auto simp: used_by_def sess_ok_def)
    have cap: "capacity_ok s'" if d
    proof (rule grown_capacity[OF gr])
      show "capacity_ok s" using inv that by (simp add: sched_inv_def)
      have "undesignated s" using inv that by (simp add: sched_inv_def)
      then have "ps_agent_id sess = None" using ok by (fastforce simp: sess_ok_def undesignated_def head_of_row_def)
      then obtain req' sch'' where "assign_agent sch ?cs (ps_access_key sess) (ps_requested_slots sess) = Inr (Some i, req', sch'')" using a(4) by blast
      from assigned_room[OF this _ b fr] show "slot_amt (a_occupied_slots x) k + slot_amt req k \<le> slot_amt (a_available_slots x) k"
        if "x \<in> set (db_agents s)" "a_id x = i" for x k using that amt by auto
    qed
    from scheduled_inv[OF inv gr m used cap] marked_sess[OF m] show ?thesis by blast
  qed
qed

section \<open>Multi-node sessions\<close>

abbreviation bound_agent :: "kernel_agent_binding \<Rightarrow> string" where
  "bound_agent b \<equiv> aac_agent_id (kab_agent_alloc_ctx b)"

abbreviation bound_id :: "kernel_agent_binding \<Rightarrow> string" where
  "bound_id b \<equiv> ki_kernel_id (kab_kernel b)"

text \<open>What the bindings ask of an agent.\<close>

definition owing :: "kernel_agent_binding list \<Rightarrow> string \<Rightarrow> string \<Rightarrow> rat" where
  "owing bs i k = sum_list (map (\<lambda>b. if i = bound_agent b then slot_amt (ki_requested_slots (kab_kernel b)) k else 0) bs)"

definition binds :: "kernel_info \<Rightarrow> kernel_agent_binding \<Rightarrow> bool" where
  "binds ki b \<longleftrightarrow> bound_id b = ki_kernel_id ki \<and> slot_val (ki_requested_slots (kab_kernel b)) = slot_val (ki_requested_slots ki)"

lemma grown_trans: "grown g s t \<Longrightarrow> grown h t u \<Longrightarrow> grown (\<lambda>i k. g i k + h i k) s u"
  unfolding grown_def by (rule list_all2_trans) auto

lemma grown_base:
  assumes "grown g s s'" and "base_inv s" and "db_kernels s' = db_kernels s"
  shows "base_inv s'"
  using assms(2) unfolding base_inv_def fin_kernels_def assms(3) by (intro conjI grown_fin[OF assms(1,2)]) blast+

lemma kernel_alloc_step:
  assumes al: "kernel_alloc env sg sess (cs, sch, bs, s) ki = Inr st" and b: "base_inv s" and f: "fin_slots (ki_requested_slots ki)"
  obtains bd sch' s' where "st = (list_agents_by_sgroup sg s', sch', bs @ [bd], s')" and "binds ki bd" and "db_kernels s' = db_kernels s"
    and "grown (owing [bd]) s s'"
    and "ki_agent_id ki = None \<Longrightarrow> set cs \<subseteq> set (list_agents_by_sgroup sg s) \<Longrightarrow> capacity_ok s \<Longrightarrow> capacity_ok s'"
proof -
  let ?cs = "filter (\<lambda>a. ac_architecture a = ir_architecture (ki_image_ref ki)) cs"
  obtain i ki' sch' ctx s' where a: "reserve_agent sg i (ki_requested_slots ki') s = Inr (ctx, s')"
    "st = (list_agents_by_sgroup sg s', sch', bs @ [\<lparr>kab_kernel = ki', kab_agent_alloc_ctx = ctx\<rparr>], s')"
    "ki_kernel_id ki' = ki_kernel_id ki" "slot_val (ki_requested_slots ki') = slot_val (ki_requested_slots ki)"
    "fin_slots (ki_requested_slots ki')"
    "ki_agent_id ki = None \<Longrightarrow> \<exists>req' sch'. assign_agent sch ?cs (ki_access_key ki) (ki_requested_slots ki) = Inr (Some i, req', sch')"
  proof (cases "ki_agent_id ki")
    case None
    with al obtain i req sch2 ctx s' where x: "assign_agent sch ?cs (ki_access_key ki) (ki_requested_slots ki) = Inr (Some i, req, sch2)"
      "reserve_agent sg i req s = Inr (ctx, s')"
      "st = (list_agents_by_sgroup sg s', sch2, bs @ [\<lparr>kab_kernel = ki\<lparr>ki_requested_slots := req\<rparr>, kab_agent_alloc_ctx = ctx\<rparr>], s')"
      by (auto simp: kernel_alloc_def Let_def assign_agent_for_kernel_def bindE_eq_Inr_iff split: option.splits if_splits)
    with assign_agent_req[OF x(1) f] that[of i "ki\<lparr>ki_requested_slots := req\<rparr>"] show ?thesis by simp
  next
    case (Some i)
    with al obtain ctx s' where "reserve_agent sg i (ki_requested_slots ki) s = Inr (ctx, s')"
      "st = (list_agents_by_sgroup sg s', sch, bs @ [\<lparr>kab_kernel = ki, kab_agent_alloc_ctx = ctx\<rparr>], s')"
      by (auto simp: kernel_alloc_def bindE_eq_Inr_iff split: option.splits)
    with Some f that[of i ki ctx s' sch] show ?thesis by simp
  qed
  let ?bd = "\<lparr>kab_kernel = ki', kab_agent_alloc_ctx = ctx\<rparr>"
  note res = reserve_agent_grown[OF a(1) b a(5)]
  have "owing [?bd] = (\<lambda>j k. if j = i then slot_amt (ki_requested_slots ki') k else 0)" using res by (simp add: owing_def fun_eq_iff)
  then have gr: "grown (owing [?bd]) s s'" using res by simp
  have amt: "slot_amt (ki_requested_slots ki') k = slot_amt (ki_requested_slots ki) k" for k using a(4) by (simp add: slot_amt_def)
  have "capacity_ok s'" if nd: "ki_agent_id ki = None" and sub: "set cs \<subseteq> set (list_agents_by_sgroup sg s)" and co: "capacity_ok s"
  proof (rule grown_capacity)
    show "grown (\<lambda>j k. if j = i then slot_amt (ki_requested_slots ki') k else 0) s s'" using res by simp
    obtain req' sch2 where "assign_agent sch ?cs (ki_access_key ki) (ki_requested_slots ki) = Inr (Some i, req', sch2)" using a(6)[OF nd] by blast
    from assigned_room[OF this _ b f] show "slot_amt (a_occupied_slots x) k + slot_amt (ki_requested_slots ki') k \<le> slot_amt (a_available_slots x) k"
      if "x \<in> set (db_agents s)" "a_id x = i" for x k using that sub amt by auto
  qed (fact co)
  with gr a(2-4) res that[of s' sch' ?bd] show ?thesis by (simp add: binds_def)
qed

lemma kernels_alloc_spec:
  assumes "kernels_alloc env sg sess (cs, sch, bs0, s) kis = Inr (cs', sch', bs', s')" and "base_inv s"
    and "\<forall>ki\<in>set kis. fin_slots (ki_requested_slots ki)"
  shows "\<exists>bs. bs' = bs0 @ bs \<and> list_all2 binds kis bs \<and> db_kernels s' = db_kernels s \<and> grown (owing bs) s s' \<and>
    ((\<forall>ki\<in>set kis. ki_agent_id ki = None) \<longrightarrow> set cs \<subseteq> set (list_agents_by_sgroup sg s) \<longrightarrow> capacity_ok s \<longrightarrow> capacity_ok s')"
  using assms
proof (induction kis arbitrary: cs sch bs0 s)
  case Nil
  then show ?case by (auto simp: grown_def owing_def base_inv_def list_all2_same)
next
  case (Cons ki kis)
  obtain st where st: "kernel_alloc env sg sess (cs, sch, bs0, s) ki = Inr st" "kernels_alloc env sg sess st kis = Inr (cs', sch', bs', s')"
    using Cons.prems(1) by (auto split: sum.splits)
  obtain bd sch1 s1 where k: "st = (list_agents_by_sgroup sg s1, sch1, bs0 @ [bd], s1)" "binds ki bd" "db_kernels s1 = db_kernels s"
    "grown (owing [bd]) s s1" "ki_agent_id ki = None \<Longrightarrow> set cs \<subseteq> set (list_agents_by_sgroup sg s) \<Longrightarrow> capacity_ok s \<Longrightarrow> capacity_ok s1"
    by (rule kernel_alloc_step[OF st(1) Cons.prems(2)]) (use Cons.prems(3) in auto)
  have "base_inv s1" using grown_base[OF k(4) Cons.prems(2) k(3)] .
  from Cons.IH[OF st(2)[unfolded k(1)] this] Cons.prems(3) obtain bs where bs: "bs' = (bs0 @ [bd]) @ bs" "list_all2 binds kis bs"
    "db_kernels s' = db_kernels s1" "grown (owing bs) s1 s'"
    "(\<forall>ki\<in>set kis. ki_agent_id ki = None) \<longrightarrow> capacity_ok s1 \<longrightarrow> capacity_ok s'" by auto
  have "owing (bd # bs) = (\<lambda>i k. owing [bd] i k + owing bs i k)" by (simp add: owing_def fun_eq_iff)
  then have "grown (owing (bd # bs)) s s'" using grown_trans[OF k(4) bs(4)] by simp
  with bs k show ?case by (intro exI[of _ "bd # bs"]) simp
qed

text \<open>Every binding refers to the row of a pending kernel.\<close>

definition bindable :: "db \<Rightarrow> kernel_agent_binding \<Rightarrow> bool" where
  "bindable s b \<longleftrightarrow> (\<exists>r\<in>set (db_kernels s). k_id r = bound_id b \<and> k_status r = PENDING \<and>
     slot_val (k_occupied_slots r) = slot_val (ki_requested_slots (kab_kernel b)))"

lemma filter_id_single: "distinct (map f xs) \<Longrightarrow> x \<in> set xs \<Longrightarrow> filter (\<lambda>y. f y = f x) xs = [x]"
  by (induction xs) (auto simp: filter_empty_conv image_iff)

lemma mark_binding_used:
  assumes "distinct (map k_id (db_kernels s))" and "bindable s b"
  shows "used_by (on_agent i) (update_kernels (\<lambda>r. k_id r = bound_id b) (mark_scheduled env sg (kab_agent_alloc_ctx b)) s) k =
    used_by (on_agent i) s k + owing [b] i k"
proof -
  obtain r where r: "r \<in> set (db_kernels s)" "k_id r = bound_id b" "k_status r = PENDING"
    "slot_val (k_occupied_slots r) = slot_val (ki_requested_slots (kab_kernel b))" using assms(2) by (auto simp: bindable_def)
  have f: "filter (\<lambda>y. k_id y = bound_id b) (db_kernels s) = [r]" using filter_id_single[OF assms(1) r(1)] r(2) by simp
  have "\<forall>y\<in>set (db_kernels s). k_id y = bound_id b \<longrightarrow> k_status y = PENDING"
  proof (intro ballI impI)
    fix y assume "y \<in> set (db_kernels s)" "k_id y = bound_id b"
    then have "y \<in> set (filter (\<lambda>y. k_id y = bound_id b) (db_kernels s))" by simp
    with f r(3) show "k_status y = PENDING" by simp
  qed
  from used_by_mark[OF this, of i env sg "kab_agent_alloc_ctx b" k] f r(4) show ?thesis by (simp add: owing_def slot_amt_def)
qed

lemma mark_bindings:
  assumes "distinct (map k_id (db_kernels s))" and "distinct (map bound_id bs)" and "\<forall>b\<in>set bs. bindable s b"
    and "s' = fold (\<lambda>b. update_kernels (\<lambda>r. k_id r = bound_id b) (mark_scheduled env sg (kab_agent_alloc_ctx b))) bs s"
  shows "db_agents s' = db_agents s \<and> (\<forall>i k. used_by (on_agent i) s' k = used_by (on_agent i) s k + owing bs i k) \<and>
    list_all2 (\<lambda>r r'. if k_id r \<in> set (map bound_id bs) then \<exists>ctx. r' = mark_scheduled env sg ctx r else r' = r) (db_kernels s) (db_kernels s')"
  using assms
proof (induction bs arbitrary: s)
  case Nil
  then show ?case by (simp add: owing_def list_all2_same)
next
  case (Cons b bs)
  let ?s = "update_kernels (\<lambda>r. k_id r = bound_id b) (mark_scheduled env sg (kab_agent_alloc_ctx b)) s"
  have ids: "map k_id (db_kernels ?s) = map k_id (db_kernels s)" by (simp add: update_kernels_def)
  have "bindable ?s c" if "c \<in> set bs" for c
  proof -
    have "bindable s c" using Cons.prems(3) that by simp
    then obtain r where r: "r \<in> set (db_kernels s)" "k_id r = bound_id c" "k_status r = PENDING"
      "slot_val (k_occupied_slots r) = slot_val (ki_requested_slots (kab_kernel c))" unfolding bindable_def by blast
    have "bound_id c \<in> bound_id ` set bs" using that by blast
    then have "bound_id c \<noteq> bound_id b" using Cons.prems(2) by auto
    then have "r \<in> set (db_kernels ?s)" using r(1,2) by (force simp: update_kernels_def)
    with r show ?thesis unfolding bindable_def by blast
  qed
  with Cons.IH[of ?s] Cons.prems ids have IH: "db_agents s' = db_agents ?s"
    "\<And>i k. used_by (on_agent i) s' k = used_by (on_agent i) ?s k + owing bs i k"
    "list_all2 (\<lambda>r r'. if k_id r \<in> set (map bound_id bs) then \<exists>ctx. r' = mark_scheduled env sg ctx r else r' = r) (db_kernels ?s) (db_kernels s')"
    by auto
  have u: "used_by (on_agent i) s' k = used_by (on_agent i) s k + owing (b # bs) i k" for i k
    using IH(2) mark_binding_used[OF Cons.prems(1), of b i env sg k] Cons.prems(3) by (simp add: owing_def)
  have "bound_id b \<notin> set (map bound_id bs)" using Cons.prems(2) by simp
  then have "list_all2 (\<lambda>r r'. if k_id r \<in> set (map bound_id (b # bs)) then \<exists>ctx. r' = mark_scheduled env sg ctx r else r' = r) (db_kernels s) (db_kernels s')"
    using IH(3) unfolding update_kernels_def
    by (simp add: list_all2_map1) (erule list_all2_mono, auto split: if_splits)
  with u IH(1) show ?case by simp
qed

lemma multi_node_inv:
  assumes inv: "sched_inv d s" and ok: "sess_ok s sess"
    and run: "schedule_multi_node_session env sch sg (list_agents_by_sgroup sg s) sess s = (r, s')"
  shows "sched_inv d s' \<and> (\<forall>x. ps_session_id x \<noteq> ps_session_id sess \<longrightarrow> sess_ok s x \<longrightarrow> sess_ok s' x)"
proof -
  let ?sid = "ps_session_id sess" and ?rows = "session_rows (ps_session_id sess) s"
  have b: "base_inv s" using inv by (simp add: sched_inv_def)
  have kr: "list_all2 kernel_of_row (ps_kernels sess) ?rows" and pend: "\<forall>r\<in>set ?rows. k_status r = PENDING"
    using ok by (simp_all add: sess_ok_def)
  show ?thesis
  proof (cases "kernels_alloc env sg sess (list_agents_by_sgroup sg s, sch, [], s) (ps_kernels sess)")
    case (Inl x)
    then have "quiet s s'" using run
      by (cases x) (auto simp: schedule_multi_node_session_def split: prod.splits dest: handle_failure_quiet)
    with inv quiet_inv quiet_sess show ?thesis by blast
  next
    case (Inr x)
    obtain cs' sch' bs s1 where x: "x = (cs', sch', bs, s1)" by (cases x)
    let ?s2 = "fold (\<lambda>b. update_kernels (\<lambda>r. k_id r = bound_id b) (mark_scheduled env sg (kab_agent_alloc_ctx b))) bs s1"
    have s': "s' = produce_event (SessionScheduledEvent ?sid (ps_session_creation_id sess)) ?s2"
      using run Inr x by (simp add: schedule_multi_node_session_def)
    have fin: "\<forall>ki\<in>set (ps_kernels sess). fin_slots (ki_requested_slots ki)"
      using all2_bex[OF kr] by (auto simp: kernel_of_row_def)
    have al: "list_all2 binds (ps_kernels sess) bs" "db_kernels s1 = db_kernels s" "grown (owing bs) s s1"
      "(\<forall>ki\<in>set (ps_kernels sess). ki_agent_id ki = None) \<longrightarrow> capacity_ok s \<longrightarrow> capacity_ok s1"
      using kernels_alloc_spec[OF Inr[unfolded x] b fin] by auto
    have bids: "map bound_id bs = map k_id ?rows"
      using map_all2[OF al(1), of ki_kernel_id bound_id] kernel_of_row_ids[OF kr] by (simp add: binds_def)
    have dk: "distinct (map k_id (db_kernels s1))" using b al(2) by (simp add: base_inv_def)
    then have dr: "distinct (map bound_id bs)" unfolding bids using al(2) by (simp add: distinct_map_filter)
    have bnd: "bindable s1 bd" if bd: "bd \<in> set bs" for bd
    proof -
      obtain ki where ki: "ki \<in> set (ps_kernels sess)" "binds ki bd" using all2_ball[OF al(1) bd] by blast
      obtain r where "r \<in> set ?rows" "kernel_of_row ki r" using all2_bex[OF kr ki(1)] by blast
      with ki(2) pend al(2) show ?thesis unfolding bindable_def kernel_of_row_def binds_def by auto
    qed
    note mb = mark_bindings[OF dk dr _ refl, of env sg]
    have mb': "db_agents ?s2 = db_agents s1" "\<And>i k. used_by (on_agent i) ?s2 k = used_by (on_agent i) s1 k + owing bs i k"
      "list_all2 (\<lambda>r r'. if k_id r \<in> set (map bound_id bs) then \<exists>ctx. r' = mark_scheduled env sg ctx r else r' = r) (db_kernels s1) (db_kernels ?s2)"
      using mb bnd by blast+
    have idiff: "k_id r \<in> set (map bound_id bs) \<longleftrightarrow> k_session_id r = ?sid" if "r \<in> set (db_kernels s)" for r
      unfolding bids using that b by (auto simp: base_inv_def distinct_map inj_on_def)
    have m: "marked {?sid} s s'" unfolding marked_def s' produce_event_simps
      by (rule list.rel_mono_strong[OF mb'(3)[unfolded al(2)]]) (use idiff in \<open>auto split: if_splits\<close>)
    have gr: "grown (owing bs) s s'" using al(3) mb'(1) s' by (simp add: grown_def)
    have used: "used_by (on_agent i) s' k = used_by (on_agent i) s k + owing bs i k" for i k
      using mb'(2)[of i k] al(2) s' by (simp add: used_by_def)
    have cap: "capacity_ok s'" if d
    proof -
      have "undesignated s" "capacity_ok s" using inv that by (auto simp: sched_inv_def)
      moreover from this have "ki_agent_id ki = None" if "ki \<in> set (ps_kernels sess)" for ki
        using all2_bex[OF kr that] pend by (auto simp: kernel_of_row_def undesignated_def)
      ultimately show ?thesis using al(4) mb'(1) s' by (simp add: capacity_ok_def)
    qed
    from scheduled_inv[OF inv gr m used cap] marked_sess[OF m] show ?thesis by blast
  qed
qed

section \<open>The loop\<close>

lemma pop_session_spec:
  "pop_session i xs = Some (x, ys) \<Longrightarrow> distinct (map ps_session_id xs) \<Longrightarrow>
     set xs = insert x (set ys) \<and> distinct (map ps_session_id ys) \<and> ps_session_id x \<notin> ps_session_id ` set ys"
  by (induction xs arbitrary: ys) (auto split: if_splits)

lemma list_agents_quiet: "quiet s s' \<Longrightarrow> list_agents_by_sgroup sg s' = list_agents_by_sgroup sg s"
  by (simp add: quiet_def list_agents_by_sgroup_def)

lemma harmless_sess:
  assumes "harmless sess s sess' s'" and "sess_ok s sess"
  shows "sess_ok s' sess' \<and> ps_session_id sess' = ps_session_id sess"
  using assms by (auto simp: harmless_def sess_ok_def head_of_row_def slot_amt_def)

lemma schedule_picked_inv:
  assumes inv: "sched_inv d s" and ok: "\<forall>x\<in>set (sess # rest). sess_ok s x" and dist: "ps_session_id sess \<notin> ps_session_id ` set rest"
    and run: "schedule_picked env sch sg (list_agents_by_sgroup sg s) sess rest s = (out, s')"
  shows "sched_inv d s' \<and> (\<forall>x\<in>set rest. sess_ok s' x)"
proof (cases "check_predicates env sess s")
  case (Inl e)
  with run inv ok show ?thesis by (simp add: schedule_picked_def)
next
  case (Inr y)
  obtain results sess1 s1 where y: "y = (results, sess1, s1)" by (cases y)
  have fk: "fin_kernels s" "fin_slots (ps_requested_slots sess)" using inv ok by (auto simp: sched_inv_def base_inv_def sess_ok_def)
  note h = check_predicates_harmless[OF Inr[unfolded y] fk]
  note q1 = harmless_quiet[OF h]
  show ?thesis
  proof (cases "failed_predicates env results \<noteq> []")
    case True
    obtain r s2 where u: "update_failed_checks env sess1 results s1 = (r, s2)" by (cases "update_failed_checks env sess1 results s1")
    then have "s' = s2" using run Inr y True by (auto simp: schedule_picked_def split: sum.splits)
    with quiet_trans[OF q1 update_failed_checks_quiet[OF u]] quiet_inv inv quiet_sess ok show ?thesis by auto
  next
    case False
    let ?s2 = "update_passed_checks env sess1 results s1"
    note q2 = quiet_trans[OF q1 update_passed_checks_quiet[of s1 env sess1 results]]
    have i2: "sched_inv d ?s2" "sess_ok ?s2 sess1" "\<forall>x\<in>set rest. sess_ok ?s2 x" "ps_session_id sess1 = ps_session_id sess"
      using quiet_inv[OF q2 inv] harmless_sess[OF h] quiet_sess[OF q2] quiet_sess[OF update_passed_checks_quiet] ok by auto
    note cs = list_agents_quiet[OF q2, of sg]
    have other: "ps_session_id x \<noteq> ps_session_id sess1" if "x \<in> set rest" for x using that dist i2(4) by (metis imageI)
    obtain r s3 where r: "(case ps_cluster_mode sess1 of
                        SINGLE_NODE \<Rightarrow> schedule_single_node_session env sch sg (list_agents_by_sgroup sg ?s2) sess1 ?s2
                      | MULTI_NODE \<Rightarrow> schedule_multi_node_session env sch sg (list_agents_by_sgroup sg ?s2) sess1 ?s2) = (r, s3)"
      by fastforce
    have "s' = s3" using run Inr y False r[unfolded cs] by (auto simp: schedule_picked_def Let_def split: sum.splits)
    moreover have "sched_inv d s3 \<and> (\<forall>x. ps_session_id x \<noteq> ps_session_id sess1 \<longrightarrow> sess_ok ?s2 x \<longrightarrow> sess_ok s3 x)"
      using r single_node_inv[OF i2(1,2)] multi_node_inv[OF i2(1,2)] by (cases "ps_cluster_mode sess1") auto
    ultimately show ?thesis using i2(3) other by auto
  qed
qed

lemma schedule_loop_inv:
  assumes "sched_inv d s" and "\<forall>x\<in>set pending. sess_ok s x" and "distinct (map ps_session_id pending)"
    and "schedule_loop env sg ex sch pending n s = (r, s')"
  shows "sched_inv d s'"
  using assms
proof (induction env sg ex sch pending n s rule: schedule_loop.induct)
  case (1 env sg ex sch pending n s)
  obtain out s1 where rnd: "schedule_round env sg ex sch pending s = (out, s1)" by fastforce
  show ?case
  proof (cases "pending = []")
    case True
    with 1 show ?thesis by (simp add: schedule_loop.simps[of env sg ex sch "[]"])
  next
    case False
    have i1: "sched_inv d s1 \<and> (\<forall>sch' pending' m. out = Continue sch' pending' m \<longrightarrow>
        (\<forall>x\<in>set pending'. sess_ok s1 x) \<and> distinct (map ps_session_id pending'))"
    proof (cases "\<exists>picked sch1 sess rest. pop_session picked pending = Some (sess, rest) \<and>
        schedule_picked env sch1 sg (list_agents_by_sgroup sg s) sess rest s = (out, s1)")
      case True
      then obtain picked sch1 sess rest where p: "pop_session picked pending = Some (sess, rest)"
        "schedule_picked env sch1 sg (list_agents_by_sgroup sg s) sess rest s = (out, s1)" by blast
      note ps = pop_session_spec[OF p(1) 1(4)]
      from schedule_picked_inv[OF 1(2) _ _ p(2)] ps 1(3) have "sched_inv d s1 \<and> (\<forall>x\<in>set rest. sess_ok s1 x)" by auto
      with ps p(2) show ?thesis by (auto dest: schedule_picked_pending)
    next
      case False
      then have "s1 = s \<and> (\<forall>sch' pending' m. out \<noteq> Continue sch' pending' m)"
        using rnd by (auto simp: schedule_round_def Let_def split: sum.splits option.splits prod.splits)
      with 1(2) show ?thesis by simp
    qed
    show ?thesis
    proof (cases out)
      case (Continue sch' pending' m)
      have "schedule_loop env sg ex sch' pending' (n + m) s1 = (r, s')"
        using 1(5) False rnd Continue by (simp add: schedule_loop.simps[of env sg ex sch pending])
      with 1(1)[OF False rnd[symmetric] Continue _ _ _ this] i1 Continue show ?thesis by simp
    qed (use 1(5) False rnd i1 in \<open>auto simp: schedule_loop.simps[of env sg ex sch pending]\<close>)
  qed
qed

section \<open>Reading the pending sessions\<close>

lemma pending_query_rows:
  "map fst (filter (\<lambda>rp. E (fst rp)) (pending_query P s)) =
     filter (\<lambda>r. P r \<and> map_of (db_keypair_policy s) (k_access_key r) \<noteq> None \<and> E r) (db_kernels s)"
proof -
  have "map fst (filter (\<lambda>rp. E (fst rp)) (List.map_filter (\<lambda>r. if P r then map_option (Pair r) (m r) else None) xs)) =
      filter (\<lambda>r. P r \<and> m r \<noteq> None \<and> E r) xs" for m :: "kernel_row \<Rightarrow> string option" and xs
    by (induction xs) (auto simp: List.map_filter_simps split: option.splits)
  then show ?thesis by (simp add: pending_query_def)
qed

lemma pending_query_mem: "rp \<in> set (pending_query P s) \<Longrightarrow>
    fst rp \<in> set (db_kernels s) \<and> P (fst rp) \<and> map_of (db_keypair_policy s) (k_access_key (fst rp)) \<noteq> None"
  by (auto simp: pending_query_def List.map_filter_def split: if_splits)

text \<open>The sessions read are those of whole groups of rows.\<close>

lemma listed_sessions_ok:
  assumes inv: "sched_inv d s" and ls: "list_pending_sessions timeout now sg s = (rows, cancelled)"
    and fr: "pending_from_rows rows = Inr pending" and x: "x \<in> set pending"
  shows "sess_ok s x \<and> ps_session_id x \<notin> (k_session_id \<circ> fst) ` set cancelled"
proof -
  let ?P = "\<lambda>r. k_status r = PENDING \<and> k_scaling_group r = Some sg"
  let ?E = "\<lambda>r. \<not> (timeout > 0 \<and> now - k_created_at r \<ge> timeout)"
  have rows: "rows = filter (\<lambda>rp. ?E (fst rp)) (pending_query ?P s)" and canc: "cancelled = filter (\<lambda>rp. \<not> ?E (fst rp)) (pending_query ?P s)"
    using ls by (auto simp: list_pending_sessions_def Let_def)
  have uni: "uniform s" and fk: "fin_kernels s" using inv by (auto simp: sched_inv_def base_inv_def)
  have mem: "fst rp \<in> set (db_kernels s) \<and> ?P (fst rp) \<and> map_of (db_keypair_policy s) (k_access_key (fst rp)) \<noteq> None"
    if "rp \<in> set rows \<or> rp \<in> set cancelled" for rp using that pending_query_mem[of rp ?P s] rows canc by auto
  have "list_all (\<lambda>rp. fin_slots (k_occupied_slots (fst rp))) rows" using mem fk by (auto simp: fin_kernels_def list_all_iff)
  note inv' = pending_from_rows_inv[OF this fr]
  obtain rp where rp: "rp \<in> set rows" "head_of_row x (fst rp)" using pending_from_rows_heads[OF fr x] by blast
  have sid: "ps_session_id x = k_session_id (fst rp)" using rp(2) by (simp add: head_of_row_def)
  have like: "k_status r = PENDING \<and> k_scaling_group r = k_scaling_group (fst rp) \<and> k_created_at r = k_created_at (fst rp) \<and> k_access_key r = k_access_key (fst rp)"
    if "r \<in> set (db_kernels s)" "k_session_id r = ps_session_id x" for r
    using uni mem[of rp] rp(1) that sid unfolding uniform_def by metis
  have e: "?E (fst rp)" using rp(1) rows by auto
  have all: "?P r \<and> map_of (db_keypair_policy s) (k_access_key r) \<noteq> None \<and> ?E r" if "r \<in> set (db_kernels s)" "k_session_id r = ps_session_id x" for r
    using like[OF that] mem[of rp] rp(1) e by auto
  have "map fst (rows_of (ps_session_id x) rows) = filter (\<lambda>r. ?P r \<and> map_of (db_keypair_policy s) (k_access_key r) \<noteq> None \<and>
      (?E r \<and> k_session_id r = ps_session_id x)) (db_kernels s)"
    unfolding rows filter_filter by (rule pending_query_rows[of "\<lambda>r. ?E r \<and> k_session_id r = ps_session_id x" ?P s])
  also have "\<dots> = session_rows (ps_session_id x) s" using all by (intro filter_cong) auto
  finally have ro: "map fst (rows_of (ps_session_id x) rows) = session_rows (ps_session_id x) s" .
  have sum: "map (\<lambda>rp. slot_amt (k_occupied_slots (fst rp)) k) (rows_of (ps_session_id x) rows) =
      map (\<lambda>r. slot_amt (k_occupied_slots r) k) (session_rows (ps_session_id x) s)" for k
    unfolding ro[symmetric] by (simp add: comp_def)
  have pend: "\<forall>r\<in>set (session_rows (ps_session_id x) s). k_status r = PENDING" using like by auto
  have head: "\<exists>r\<in>set (session_rows (ps_session_id x) s). head_of_row x r" using rp(2) mem[of rp] rp(1) sid by auto
  have "fin_slots (ps_requested_slots x) \<and> list_all2 kernel_of_row (ps_kernels x) (session_rows (ps_session_id x) s) \<and>
      (\<forall>k. slot_amt (ps_requested_slots x) k = sum_list (map (\<lambda>r. slot_amt (k_occupied_slots r) k) (session_rows (ps_session_id x) s)))"
    using inv' x ro sum by metis
  with pend head have "sess_ok s x" unfolding sess_ok_def by blast
  moreover have "ps_session_id x \<noteq> k_session_id (fst rq)" if rq: "rq \<in> set cancelled" for rq
  proof
    assume "ps_session_id x = k_session_id (fst rq)"
    then have "?E (fst rq)" using all[of "fst rq"] mem[of rq] rq by simp
    then show False using rq canc by simp
  qed
  ultimately show ?thesis by (auto simp: comp_def)
qed

section \<open>Cancellation of sessions that waited too long\<close>

lemma fold_events [simp]:
  "db_agents (fold (\<lambda>x. produce_event (f x)) xs s) = db_agents s" "db_kernels (fold (\<lambda>x. produce_event (f x)) xs s) = db_kernels s"
  by (induction xs arbitrary: s) simp_all

lemma apply_cancellation_inv:
  assumes inv: "sched_inv d s" and c: "\<forall>rp\<in>set cancelled. fst rp \<in> set (db_kernels s) \<and> k_status (fst rp) = PENDING"
  shows "sched_inv d (apply_cancellation env cancelled s) \<and>
    marked ((k_session_id \<circ> fst) ` set cancelled) s (apply_cancellation env cancelled s)"
proof -
  let ?S = "(k_session_id \<circ> fst) ` set cancelled" and ?s = "apply_cancellation env cancelled s"
  have ks: "db_kernels ?s = map (\<lambda>r. if k_session_id r \<in> ?S then mark_timeout env r else r) (db_kernels s)"
    and ag: "db_agents ?s = db_agents s"
    by (simp_all add: apply_cancellation_def update_kernels_def)
  have pend: "k_status r = PENDING" if r: "r \<in> set (db_kernels s)" and S: "k_session_id r \<in> ?S" for r
  proof -
    obtain rp where "rp \<in> set cancelled" "k_session_id r = k_session_id (fst rp)" using S by auto
    moreover have "uniform s" using inv by (simp add: sched_inv_def)
    ultimately show ?thesis using r c unfolding uniform_def by metis
  qed
  have m: "marked ?S s ?s" unfolding marked_def ks by (simp add: list_all2_map2 list_all2_same mark_timeout_def)
  have "filter (on_agent i) (db_kernels ?s) = filter (on_agent i) (db_kernels s)" for i
  proof -
    have nt: "\<not> on_agent i (mark_timeout env r)" for r
      by (simp add: on_agent_def agent_occupying_def mark_timeout_def AGENT_RESOURCE_OCCUPYING_KERNEL_STATUSES_def)
    have "filter (on_agent i) (map (\<lambda>r. if k_session_id r \<in> S then mark_timeout env r else r) xs) = filter (on_agent i) xs"
      if "\<forall>r\<in>set xs. k_session_id r \<in> S \<longrightarrow> k_status r = PENDING" for xs S
      using that by (induction xs) (auto simp: nt pending_not_on_agent)
    from this[of "db_kernels s" ?S] pend show ?thesis unfolding ks by blast
  qed
  then have used: "used_by (on_agent i) ?s k = used_by (on_agent i) s k + 0" for i k by (simp add: used_by_def)
  have gr: "grown (\<lambda>i k. 0) s ?s" using inv ag by (simp add: grown_def list_all2_same sched_inv_def base_inv_def)
  have "capacity_ok ?s" if d using inv that ag by (simp add: sched_inv_def capacity_ok_def)
  from scheduled_inv[OF inv gr m used this] m show ?thesis by blast
qed

section \<open>All scaling groups\<close>

lemma sched_inv_event [simp]: "sched_inv d (produce_event e s) = sched_inv d s"
  by (simp add: sched_inv_def base_inv_def accounted_def uniform_def undesignated_def capacity_ok_def fin_kernels_def used_by_def)

lemma schedule_in_sgroup_inv:
  assumes inv: "sched_inv d s"
  shows "sched_inv d (snd (schedule_in_sgroup env sg s))"
proof -
  obtain sch timeout where ld: "schedule_in_sgroup env sg s \<noteq> (fst (schedule_in_sgroup env sg s), s) \<Longrightarrow>
      load_sgroup_scheduler env sg s = Inr (sch, timeout)"
    by (cases "load_sgroup_scheduler env sg s") (auto simp: schedule_in_sgroup_def)
  obtain rows cancelled where ls: "list_pending_sessions timeout (se_now env) sg s = (rows, cancelled)" by fastforce
  let ?s1 = "if cancelled \<noteq> [] then apply_cancellation env cancelled s else s"
  consider (fails) "snd (schedule_in_sgroup env sg s) = s"
    | (runs) pending ex r s2 where "pending_from_rows rows = Inr pending" "schedule_loop env sg ex sch pending 0 ?s1 = (r, s2)"
      "snd (schedule_in_sgroup env sg s) = s2 \<or> snd (schedule_in_sgroup env sg s) = produce_event DoPrepareEvent s2"
  proof (cases "snd (schedule_in_sgroup env sg s) = s")
    case False
    then have l: "load_sgroup_scheduler env sg s = Inr (sch, timeout)" using ld by (metis snd_conv)
    show ?thesis
    proof (cases "bindE (pending_from_rows rows) (\<lambda>pending. bindE (list_existing_sessions sg s) (\<lambda>existing. Inr (pending, existing)))")
      case (Inl e)
      with l ls that(1) show ?thesis by (simp add: schedule_in_sgroup_def)
    next
      case (Inr pe)
      then obtain pending ex where pe: "pe = (pending, ex)" "pending_from_rows rows = Inr pending" by (auto simp: bindE_eq_Inr_iff)
      obtain r s2 where lp: "schedule_loop env sg ex sch pending 0 ?s1 = (r, s2)" by fastforce
      have "schedule_in_sgroup env sg s = (case (r, s2) of (Inl e, s2) \<Rightarrow> (Inl e, s2) | (Inr None, s2) \<Rightarrow> (Inr (), s2)
          | (Inr (Some n), s2) \<Rightarrow> (Inr (), if n > 0 then produce_event DoPrepareEvent s2 else s2))"
        unfolding schedule_in_sgroup_def l sum.case prod.case ls Let_def Inr pe(1) lp ..
      then have "snd (schedule_in_sgroup env sg s) = s2 \<or> snd (schedule_in_sgroup env sg s) = produce_event DoPrepareEvent s2"
        by (auto split: sum.splits option.splits)
      with that(2) pe lp show ?thesis by blast
    qed
  qed
  then show ?thesis
  proof cases
    case fails
    with inv show ?thesis by simp
  next
    case runs
    note ok = listed_sessions_ok[OF inv ls runs(1)]
    have mem: "fst rp \<in> set (db_kernels s) \<and> k_status (fst rp) = PENDING" if "rp \<in> set rows \<or> rp \<in> set cancelled" for rp
      using that ls pending_query_mem[of rp "\<lambda>r. k_status r = PENDING \<and> k_scaling_group r = Some sg" s] by (auto simp: list_pending_sessions_def Let_def)
    then have "list_all (\<lambda>rp. fin_slots (k_occupied_slots (fst rp))) rows"
      using inv by (auto simp: sched_inv_def base_inv_def fin_kernels_def list_all_iff)
    then have dist: "distinct (map ps_session_id pending)" using pending_from_rows_inv runs(1) by blast
    have c: "\<forall>rp\<in>set cancelled. fst rp \<in> set (db_kernels s) \<and> k_status (fst rp) = PENDING" using mem by blast
    have "sched_inv d ?s1 \<and> (\<forall>x\<in>set pending. sess_ok ?s1 x)"
      using apply_cancellation_inv[OF inv c, of env] marked_sess[of "(k_session_id \<circ> fst) ` set cancelled" s "apply_cancellation env cancelled s"] ok inv by auto
    then have "sched_inv d s2" using schedule_loop_inv[OF _ _ dist runs(2)] by blast
    with runs(3) show ?thesis by auto
  qed
qed

text \<open>
  C1: Scheduling keeps the books and never overcommits.  In a database with unique ids and finite
  slots, where the occupied slots of every agent are what the kernels on it use, and whose pending
  sessions were created as a whole, \<open>schedule\<close> keeps all of this, for every scheduler, through
  failed predicates, cancelled and partly failing multi-node sessions.  If moreover no pending
  kernel has a manually designated agent and no agent is over its capacity, then no agent is over
  its capacity afterwards.
\<close>
theorem schedule_safe:
  assumes "base_inv s" and "accounted s" and "uniform s"
  shows "base_inv (schedule env s) \<and> accounted (schedule env s) \<and> uniform (schedule env s) \<and>
    (undesignated s \<and> capacity_ok s \<longrightarrow> undesignated (schedule env s) \<and> capacity_ok (schedule env s))"
proof -
  have "sched_inv d (fold (\<lambda>g s. snd (schedule_in_sgroup env g s)) gs s)" if "sched_inv d s" for d gs and s :: db
    using that by (induction gs arbitrary: s) (simp_all add: schedule_in_sgroup_inv)
  then have "sched_inv d (schedule env s)" if "sched_inv d s" for d using that by (simp add: schedule_def)
  from this[of False] this[of True] assms show ?thesis by (auto simp: sched_inv_def)
qed

definition demo_env :: sched_env where
  "demo_env = \<lparr>se_now = 10, se_types = [(''cpu'', ''count'')], se_order = remdups, se_plugin_opts = [],
     se_repr = (\<lambda>_. []), se_dec = (\<lambda>_. []), se_image = (\<lambda>_. []), se_debug = False\<rparr>"

theorem schedule_safe_witness:
  "map k_status (db_kernels (schedule demo_env (demo_db [demo_kernel ''k'' ''k'' ''main'' PENDING [(''cpu'', Fin 2)] None]
      [demo_agent ''i'' ALIVE [(''cpu'', Fin 4)] []]\<lparr>db_redis_stat := []\<rparr>))) = [SCHEDULED] \<and>
   accounted (schedule demo_env (demo_db [demo_kernel ''k'' ''k'' ''main'' PENDING [(''cpu'', Fin 2)] None]
      [demo_agent ''i'' ALIVE [(''cpu'', Fin 4)] []]\<lparr>db_redis_stat := []\<rparr>)) \<and>
   capacity_ok (schedule demo_env (demo_db [demo_kernel ''k'' ''k'' ''main'' PENDING [(''cpu'', Fin 2)] None]
      [demo_agent ''i'' ALIVE [(''cpu'', Fin 4)] []]\<lparr>db_redis_stat := []\<rparr>))"
proof -
  let ?s = "demo_db [demo_kernel ''k'' ''k'' ''main'' PENDING [(''cpu'', Fin 2)] None]
      [demo_agent ''i'' ALIVE [(''cpu'', Fin 4)] []]\<lparr>db_redis_stat := []\<rparr>"
  have run: "map k_status (db_kernels (schedule demo_env ?s)) = [SCHEDULED]" by code_simp
  have b: "base_inv ?s" by code_simp
  have u: "uniform ?s" "undesignated ?s" by code_simp+
  have ks: "db_kernels ?s = [demo_kernel ''k'' ''k'' ''main'' PENDING [(''cpu'', Fin 2)] None]"
    and ag: "db_agents ?s = [demo_agent ''i'' ALIVE [(''cpu'', Fin 4)] []]" by (simp_all add: demo_db_def)
  have "accounted ?s" unfolding accounted_def used_by_def ks ag
    by (simp add: demo_agent_def pending_not_on_agent demo_kernel_def)
  moreover have "capacity_ok ?s" unfolding capacity_ok_def ag
    by (simp add: demo_agent_def slot_amt_def slot_val_Cons zero_decimal_def)
  ultimately show ?thesis using schedule_safe[OF b _ u(1), of demo_env] u(2) run by blast
qed

end
