(* ===== verification/SchedulingFailures.thy ===== *)
theory SchedulingFailures
  imports SchedulingSafety
begin

text \<open>
  What a scheduling attempt that fails leaves behind: nothing, where the code rolls back, and the
  cases in which it does not.
\<close>

lemma try_update_redis: "try_update P f s = Inr s' \<Longrightarrow> db_redis_stat s' = db_redis_stat s"
  by (auto simp: try_update_def bindE_eq_Inr_iff)

lemma recalc_counter: "map_of (db_redis_stat (recalc_concurrency_used ak s)) (conc_key ak) = Some (sessions_counted ak s)"
  by (simp add: recalc_concurrency_used_def sessions_counted_def update_conv)

lemma handle_failure_counter:
  assumes "handle_failure env sess kid fl s = (e, s')"
  shows "map_of (db_redis_stat s') (conc_key (ps_access_key sess)) = Some (sessions_counted (ps_access_key sess) s)"
  using assms
  by (auto simp: handle_failure_def Let_def rollback_predicate_mutations_def recalc_counter
      split: sched_failure.splits sum.splits dest: try_update_redis)

text \<open>
  C11: Multi-node scheduling is atomic: when the allocation fails for one of the session's kernels,
  whatever was reserved for the others is undone.  No agent is changed, the kernels' rows change in
  nothing but their status texts, and the keypair's session counter, which the predicates had raised,
  is recalculated to the number of kernels that count for it.
\<close>
theorem multi_node_atomic:
  assumes "schedule_multi_node_session env sch sg candidates sess s = (Inl e, s')"
  shows "db_agents s' = db_agents s \<and> map k_status (db_kernels s') = map k_status (db_kernels s) \<and>
    map k_agent (db_kernels s') = map k_agent (db_kernels s) \<and>
    list_all2 (\<lambda>r r'. r' = r\<lparr>k_status_info := k_status_info r', k_status_data := k_status_data r'\<rparr>) (db_kernels s) (db_kernels s') \<and>
    map_of (db_redis_stat s') (conc_key (ps_access_key sess)) = Some (sessions_counted (ps_access_key sess) s)"
proof -
  obtain fl kid where "handle_failure env sess kid fl s = (e, s')"
    using assms by (auto simp: schedule_multi_node_session_def split: sum.splits prod.splits)
  note q = handle_failure_quiet[OF this] and c = handle_failure_counter[OF this]
  have "map k_status (db_kernels s) = map k_status (db_kernels s')" "map k_agent (db_kernels s) = map k_agent (db_kernels s')"
    by (rule map_all2[of same_kernel]; use q in \<open>simp add: quiet_def same_kernel_fields\<close>)+
  with q c show ?thesis by (simp add: quiet_def same_kernel_def[abs_def])
qed

definition demo_multi :: pending_session where
  "demo_multi = demo_request []\<lparr>ps_kernels := [kernel_info_from_row (demo_kernel ''a'' ''x'' ''main'' PENDING [(''cpu'', Fin 3)] None),
      kernel_info_from_row (demo_kernel ''b'' ''x'' ''sub'' PENDING [(''cpu'', Fin 3)] None)]\<rparr>"

theorem multi_node_atomic_witness:
  "\<exists>e s'. schedule_multi_node_session demo_env MOFScheduler ''default''
      (list_agents_by_sgroup ''default'' (demo_db [] [demo_agent ''i'' ALIVE [(''cpu'', Fin 4)] []])) demo_multi
      (demo_db [] [demo_agent ''i'' ALIVE [(''cpu'', Fin 4)] []]) = (Inl e, s') \<and>
    db_agents s' = [demo_agent ''i'' ALIVE [(''cpu'', Fin 4)] []] \<and> map_of (db_redis_stat s') (conc_key ''AK'') = Some 0"
proof -
  let ?s = "demo_db [] [demo_agent ''i'' ALIVE [(''cpu'', Fin 4)] []]"
  let ?r = "schedule_multi_node_session demo_env MOFScheduler ''default'' (list_agents_by_sgroup ''default'' ?s) demo_multi ?s"
  have "case fst ?r of Inl _ \<Rightarrow> True | Inr _ \<Rightarrow> False" by code_simp
  then obtain e s' where r: "?r = (Inl e, s')" by (cases ?r) (auto split: sum.splits)
  have "ps_access_key demo_multi = ''AK''" "sessions_counted ''AK'' ?s = 0" "db_agents ?s = [demo_agent ''i'' ALIVE [(''cpu'', Fin 4)] []]"
    by (simp_all add: demo_multi_def demo_request_def sessions_counted_def demo_db_def)
  with multi_node_atomic[OF r] r show ?thesis by auto
qed

text \<open>
  A manually designated agent is checked against its available slots, not against what is left of
  them: on an agent whose four cores are all in use, a session designated to it that asks for two is
  scheduled, and the agent ends up with six of four cores occupied.
\<close>
theorem designated_overcommits:
  "let s = demo_db [demo_kernel ''k'' ''k'' ''main'' RUNNING [(''cpu'', Fin 4)] (Some ''i''),
        demo_kernel ''x'' ''x'' ''main'' PENDING [(''cpu'', Fin 2)] (Some ''i'')]
        [demo_agent ''i'' ALIVE [(''cpu'', Fin 4)] [(''cpu'', Fin 4)]]\<lparr>db_redis_stat := []\<rparr>
   in map k_status (db_kernels (schedule demo_env s)) = [RUNNING, SCHEDULED] \<and>
      map (\<lambda>a. slot_val (a_occupied_slots a) ''cpu'') (db_agents (schedule demo_env s)) = [Fin 6]"
  unfolding Let_def by code_simp

text \<open>
  When no agent has the architecture of a single-node session's image, the exception leaves
  before the rollback: the session stays pending but its keypair's counter says that it runs.
\<close>
theorem incompatible_leaks_counter:
  "let s = demo_db [demo_kernel ''x'' ''x'' ''main'' PENDING [(''cpu'', Fin 2)] None\<lparr>k_architecture := ''aarch64''\<rparr>]
        [demo_agent ''i'' ALIVE [(''cpu'', Fin 4)] []]\<lparr>db_redis_stat := []\<rparr>;
       s' = schedule demo_env s
   in map k_status (db_kernels s') = [PENDING] \<and> sessions_counted ''AK'' s' = 0 \<and>
      map_of (db_redis_stat s') (conc_key ''AK'') = Some 1"
  unfolding Let_def by code_simp

text \<open>
  C15: Predicate failures are temporary and leave no trace in the counters: when a picked session fails
  a check, no agent and no kernel status changes, the session is left for the next run while the
  loop goes on with the others, and the keypair's counter is what the running kernels make it.
\<close>
theorem failed_checks_roll_back:
  assumes "check_predicates env sess s = Inr (results, sess1, s1)" and "failed_predicates env results \<noteq> []"
    and "fin_kernels s" and "fin_slots (ps_requested_slots sess)"
    and "schedule_picked env sch sg candidates sess rest s = (Continue sch' rest' n, s')"
  shows "rest' = rest \<and> n = 0 \<and> db_agents s' = db_agents s \<and> map k_status (db_kernels s') = map k_status (db_kernels s) \<and>
    map_of (db_redis_stat s') (conc_key (ps_access_key sess)) = Some (sessions_counted (ps_access_key sess) s)"
proof -
  note h = check_predicates_harmless[OF assms(1,3,4)]
  obtain r where u: "update_failed_checks env sess1 results s1 = (r, s')" and c: "rest' = rest" "n = 0"
    using assms(1,2,5) by (auto simp: schedule_picked_def split: sum.splits prod.splits)
  note q = quiet_trans[OF harmless_quiet[OF h] update_failed_checks_quiet[OF u]]
  have "map k_status (db_kernels s) = map k_status (db_kernels s')"
    by (rule map_all2[of same_kernel]; use q in \<open>simp add: quiet_def same_kernel_fields\<close>)
  moreover have "map_of (db_redis_stat s') (conc_key (ps_access_key sess1)) = Some (sessions_counted (ps_access_key sess1) s1)"
    using u by (auto simp: update_failed_checks_def Let_def rollback_predicate_mutations_def recalc_counter split: sum.splits dest: try_update_redis)
  moreover have "ps_access_key sess1 = ps_access_key sess" "sessions_counted (ps_access_key sess) s1 = sessions_counted (ps_access_key sess) s"
    using h by (auto simp: harmless_def sessions_counted_def)
  ultimately show ?thesis using q c by (simp add: quiet_def)
qed

theorem failed_checks_roll_back_witness:
  "\<exists>s'. schedule_picked demo_env MOFScheduler ''default'' [] (demo_request []) [] (demo_db [] []) = (Continue MOFScheduler [] 0, s') \<and>
     map_of (db_redis_stat s') (conc_key ''AK'') = Some 0"
proof -
  let ?s = "demo_db [] []" and ?q = "demo_request []"
  have e: "map_sum id (\<lambda>(rs, _, _). failed_predicates demo_env rs \<noteq> []) (check_predicates demo_env ?q ?s) = Inr True" by code_simp
  obtain rs sess1 s1 where c: "check_predicates demo_env ?q ?s = Inr (rs, sess1, s1)" "failed_predicates demo_env rs \<noteq> []"
    using e by (cases "check_predicates demo_env ?q ?s") auto
  have "fst (schedule_picked demo_env MOFScheduler ''default'' [] ?q [] ?s) = Continue MOFScheduler [] 0" by code_simp
  then obtain s' where p: "schedule_picked demo_env MOFScheduler ''default'' [] ?q [] ?s = (Continue MOFScheduler [] 0, s')"
    by (metis prod.collapse)
  have f: "fin_kernels ?s" "fin_slots (ps_requested_slots ?q)" by code_simp+
  have "ps_access_key ?q = ''AK''" "sessions_counted ''AK'' ?s = 0"
    by (simp_all add: demo_request_def sessions_counted_def demo_db_def)
  with failed_checks_roll_back[OF c f p] p show ?thesis by auto
qed

end
