(* ===== verification/Preparation.thy ===== *)
theory Preparation
  imports SchedulingSafety
begin

text \<open>
  The second half of \<open>manager/scheduler/dispatcher.py\<close>: \<open>prepare\<close> moves the scheduled sessions to
  PREPARING and starts each of them; when a start fails the session is cancelled and what was created
  of it is destroyed (\<open>destroy_session_lowlevel\<close> of \<open>manager/registry.py\<close>).  The start itself
  (image checks, network set-up and the RPC calls that create the kernels) is the argument
  \<open>reg_start\<close>, the outcome of an RPC call that destroys kernels is the argument \<open>rpc\<close>.  The tasks
  of one \<open>prepare\<close> run one after another here.
\<close>

section \<open>Destroying kernels\<close>

record destroy_row =
  dr_id :: string
  dr_agent :: "string option"
  dr_agent_addr :: "string option"
  dr_container_id :: "string option"

text \<open>An RPC call: agent, address, and the kernels to destroy.\<close>

type_synonym rpc_call = "string option \<times> string \<times> string list"

definition destroyable :: "destroy_row \<Rightarrow> bool" where
  "destroyable k \<longleftrightarrow> dr_container_id k \<noteq> None \<and> dr_agent_addr k \<noteq> None"

definition destroy_key :: "destroy_row \<Rightarrow> string" where
  "destroy_key k = (case dr_agent k of Some a \<Rightarrow> a | None \<Rightarrow> [])"

fun destroy_groups :: "(string \<times> destroy_row list) list \<Rightarrow> rpc_call list" where
  "destroy_groups [] = []"
| "destroy_groups ((agent_id, grouped_kernels) # groups) =
     (case filter destroyable grouped_kernels of
        [] \<Rightarrow> []
      | k # ks \<Rightarrow> (dr_agent k, the (dr_agent_addr k), map dr_id (k # ks)) # destroy_groups groups)"

definition destroy_session_lowlevel :: "destroy_row list \<Rightarrow> rpc_call list" where
  "destroy_session_lowlevel rows = destroy_groups (groupby destroy_key (sort_key destroy_key rows))"

section \<open>Preparing\<close>

definition mark_preparing :: "sched_env \<Rightarrow> kernel_row \<Rightarrow> kernel_row" where
  "mark_preparing env r =
     r\<lparr>k_status := PREPARING, k_status_changed := Some (se_now env), k_status_info := Some [], k_status_data := Some (JObj []),
       k_status_history := history_entry PREPARING (se_now env) r\<rparr>"

definition mark_session_preparing :: "sched_env \<Rightarrow> db \<Rightarrow> (pending_session list \<times> db) res" where
  "mark_session_preparing env s =
     (let target_kernel_ids = map k_id (filter (\<lambda>r. k_status r = SCHEDULED) (db_kernels s));
          s1 = update_kernels (\<lambda>r. k_status r = SCHEDULED) (mark_preparing env) s
      in if target_kernel_ids = [] then Inr ([], s1)
         else bindE (pending_from_rows (pending_query (\<lambda>r. k_id r \<in> set target_kernel_ids) s1)) (\<lambda>sessions. Inr (sessions, s1)))"

section \<open>Starting a session\<close>

definition mark_failed :: "sched_env \<Rightarrow> py_exc \<Rightarrow> kernel_row \<Rightarrow> kernel_row" where
  "mark_failed env e r =
     r\<lparr>k_status := CANCELLED, k_status_changed := Some (se_now env), k_status_info := Some ''failed-to-start'',
       k_status_data := Some (convert_to_status_data env (se_debug env) e), k_terminated_at := Some (se_now env),
       k_status_history := history_entry CANCELLED (se_now env) r\<rparr>"

definition mark_session_cancelled :: "sched_env \<Rightarrow> py_exc \<Rightarrow> pending_session \<Rightarrow> db \<Rightarrow> db res" where
  "mark_session_cancelled env e sess s =
     bindE (foldE (\<lambda>s ag. case ag of None \<Rightarrow> Inr s | Some agent_id \<Rightarrow> recalc_agent_resource_occupancy agent_id s) s
              (remdups (map ki_agent_id (ps_kernels sess)))) (\<lambda>s1.
       Inr (update_kernels (\<lambda>r. k_session_id r = ps_session_id sess) (mark_failed env e) (rollback_predicate_mutations sess s1)))"

definition destroy_rows :: "pending_session \<Rightarrow> db \<Rightarrow> destroy_row list res" where
  "destroy_rows sess s =
     (let cid_map = map (\<lambda>r. (k_id r, k_container_id r)) (filter (\<lambda>r. k_session_id r = ps_session_id sess) (db_kernels s))
      in mapE (\<lambda>k. bindE (dget cid_map (ki_kernel_id k)) (\<lambda>cid.
           Inr \<lparr>dr_id = ki_kernel_id k, dr_agent = ki_agent_id k, dr_agent_addr = ki_agent_addr k, dr_container_id = cid\<rparr>)) (ps_kernels sess))"

text \<open>The clean-up after a failed start; an exception in it is logged and ends it.\<close>

definition cleanup_start_failure :: "sched_env \<Rightarrow> (rpc_call \<Rightarrow> unit res) \<Rightarrow> py_exc \<Rightarrow> pending_session \<Rightarrow> db \<Rightarrow> db" where
  "cleanup_start_failure env rpc e sess s =
     (case mark_session_cancelled env e sess s of
        Inl _ \<Rightarrow> s
      | Inr s1 \<Rightarrow>
          (let s2 = produce_event (SessionCancelledEvent (ps_session_id sess) (ps_session_creation_id sess) ''failed-to-start'') s1
           in case bindE (destroy_rows sess s2) (\<lambda>rows.
                bindE (foldE (\<lambda>_ c. rpc c) () (destroy_session_lowlevel rows)) (\<lambda>_. recalc_resource_usage False s2)) of
                Inl _ \<Rightarrow> s2
              | Inr s3 \<Rightarrow> s3))"

definition start_session :: "sched_env \<Rightarrow> (pending_session \<Rightarrow> db \<Rightarrow> unit res \<times> db) \<Rightarrow> (rpc_call \<Rightarrow> unit res) \<Rightarrow>
    pending_session \<Rightarrow> db \<Rightarrow> db" where
  "start_session env reg_start rpc sess s =
     (if ps_kernels sess = [] then cleanup_start_failure env rpc AssertionError sess s
      else case reg_start sess s of
             (Inl e, s1) \<Rightarrow> cleanup_start_failure env rpc e sess s1
           | (Inr _, s1) \<Rightarrow> s1)"

definition prepare :: "sched_env \<Rightarrow> (pending_session \<Rightarrow> db \<Rightarrow> unit res \<times> db) \<Rightarrow> (rpc_call \<Rightarrow> unit res) \<Rightarrow> db \<Rightarrow> unit res \<times> db" where
  "prepare env reg_start rpc s =
     (case mark_session_preparing env s of
        Inl e \<Rightarrow> (Inl e, s)
      | Inr (scheduled_sessions, s1) \<Rightarrow>
          (Inr (), fold (start_session env reg_start rpc) scheduled_sessions
             (fold (\<lambda>x. produce_event (SessionPreparingEvent (ps_session_id x) (ps_session_creation_id x))) scheduled_sessions s1)))"

section \<open>What a failed start leaves\<close>

lemma groupby_concat: "concat (map snd (groupby f xs)) = xs"
  by (induction f xs rule: groupby.induct) (simp_all add: takeWhile_dropWhile_id)

lemma groupby_nonempty: "(k, ys) \<in> set (groupby f xs) \<Longrightarrow> ys \<noteq> []"
  by (induction f xs rule: groupby.induct) auto

lemma destroy_groups_all:
  assumes "\<forall>(k, ys)\<in>set gs. ys \<noteq> [] \<and> (\<forall>y\<in>set ys. destroyable y)"
  shows "concat (map (\<lambda>(_, _, ids). ids) (destroy_groups gs)) = map dr_id (concat (map snd gs))"
  using assms
proof (induction gs)
  case (Cons g gs)
  obtain i ys where g: "g = (i, ys)" by (cases g)
  with Cons.prems have f: "filter destroyable ys = ys" "ys \<noteq> []" by (auto simp: filter_id_conv)
  then obtain k ks where "ys = k # ks" by (cases ys) auto
  with Cons g f show ?case by auto
qed simp

text \<open>
  When every kernel handed to \<open>destroy_session_lowlevel\<close> has a container and an agent address,
  each of them is destroyed by exactly one RPC call.
\<close>
theorem destroy_lowlevel_complete:
  assumes "\<forall>k\<in>set rows. destroyable k"
  shows "mset (concat (map (\<lambda>(_, _, ids). ids) (destroy_session_lowlevel rows))) = mset (map dr_id rows)"
proof -
  let ?gs = "groupby destroy_key (sort_key destroy_key rows)"
  have "set (concat (map snd ?gs)) = set rows" unfolding groupby_concat by simp
  then have "\<forall>(k, ys)\<in>set ?gs. ys \<noteq> [] \<and> (\<forall>y\<in>set ys. destroyable y)" using assms groupby_nonempty by fastforce
  from destroy_groups_all[OF this] show ?thesis unfolding destroy_session_lowlevel_def groupby_concat by simp
qed

definition demo_row :: "string \<Rightarrow> string \<Rightarrow> string option \<Rightarrow> destroy_row" where
  "demo_row i ag cid = \<lparr>dr_id = i, dr_agent = Some ag, dr_agent_addr = Some ''tcp'', dr_container_id = cid\<rparr>"

theorem destroy_lowlevel_complete_witness:
  "mset (concat (map (\<lambda>(_, _, ids). ids) (destroy_session_lowlevel [demo_row ''a'' ''j'' (Some ''c1''), demo_row ''b'' ''i'' (Some ''c2'')]))) =
     {#''a'', ''b''#}"
proof -
  have "\<forall>k\<in>set [demo_row ''a'' ''j'' (Some ''c1''), demo_row ''b'' ''i'' (Some ''c2'')]. destroyable k" by code_simp
  from destroy_lowlevel_complete[OF this] show ?thesis by (simp add: demo_row_def)
qed

text \<open>
  The loop over the agents returns, instead of going on, at the first agent none of whose kernels
  has a container: of a session that failed to start on agent \<open>i\<close>, the container that agent
  \<open>j\<close> did create is not destroyed.
\<close>
theorem destroy_lowlevel_skips:
  "destroy_session_lowlevel [demo_row ''a'' ''i'' None, demo_row ''b'' ''j'' (Some ''c'')] = [] \<and>
   destroyable (demo_row ''b'' ''j'' (Some ''c''))"
  by code_simp

lemma recalc_agents_fold:
  assumes "fin_kernels s"
  shows "\<exists>s'. foldE (\<lambda>s ag. case ag of None \<Rightarrow> Inr s | Some i \<Rightarrow> recalc_agent_resource_occupancy i s) s ags = Inr s' \<and>
    db_kernels s' = db_kernels s"
  using assms
proof (induction ags arbitrary: s)
  case (Cons ag ags)
  show ?case
  proof (cases ag)
    case None
    with Cons show ?thesis by simp
  next
    case (Some i)
    obtain s1 where s1: "recalc_agent_resource_occupancy i s = Inr s1" "db_kernels s1 = db_kernels s"
      by (rule recalc_agent_spec[OF Cons.prems, of i]) auto
    then have "fin_kernels s1" using Cons.prems by (simp add: fin_kernels_def)
    with Cons.IH[of s1] s1 Some show ?thesis by auto
  qed
qed simp

lemma mark_session_cancelled_spec:
  assumes "fin_kernels s"
  obtains s' where "mark_session_cancelled env e sess s = Inr s'"
    and "db_kernels s' = map (\<lambda>r. if k_session_id r = ps_session_id sess then mark_failed env e r else r) (db_kernels s)"
  using recalc_agents_fold[OF assms, of "remdups (map ki_agent_id (ps_kernels sess))"]
  by (auto simp: mark_session_cancelled_def rollback_predicate_mutations_def recalc_concurrency_used_def update_kernels_def)

lemma set_all_agents_kernels: "db_kernels (set_all_agents d s) = db_kernels s"
proof -
  have "db_kernels (fold (\<lambda>(aid, sl). case aid of None \<Rightarrow> id | Some i \<Rightarrow> update_agent i (\<lambda>r. r\<lparr>a_occupied_slots := sl\<rparr>)) d s) = db_kernels s" for s
    by (induction d arbitrary: s) (auto split: option.splits)
  then show ?thesis by (simp add: set_all_agents_def Let_def)
qed

lemma recalc_resource_usage_kernels: "recalc_resource_usage fs s = Inr s' \<Longrightarrow> db_kernels s' = db_kernels s"
  by (cases fs) (auto simp: recalc_resource_usage_def bindE_eq_Inr_iff Let_def set_all_agents_kernels)

lemma destroy_rows_total:
  assumes "\<forall>ki\<in>set (ps_kernels sess). \<exists>r\<in>set (db_kernels s). k_id r = ki_kernel_id ki \<and> k_session_id r = ps_session_id sess"
  shows "\<exists>rows. destroy_rows sess s = Inr rows"
proof -
  let ?m = "map (\<lambda>r. (k_id r, k_container_id r)) (filter (\<lambda>r. k_session_id r = ps_session_id sess) (db_kernels s))"
  have look: "\<exists>c. dget ?m (ki_kernel_id ki) = Inr c" if mem: "ki \<in> set (ps_kernels sess)" for ki
  proof -
    obtain r where "r \<in> set (db_kernels s)" "k_id r = ki_kernel_id ki" "k_session_id r = ps_session_id sess"
      using bspec[OF assms mem] by blast
    then have "(ki_kernel_id ki, k_container_id r) \<in> set ?m" by (force intro: rev_image_eqI)
    from weak_map_of_SomeI[OF this] show ?thesis by (auto simp: dget_def)
  qed
  have one: "\<exists>x. bindE (dget ?m (ki_kernel_id ki)) (\<lambda>cid. Inr \<lparr>dr_id = ki_kernel_id ki, dr_agent = ki_agent_id ki,
      dr_agent_addr = ki_agent_addr ki, dr_container_id = cid\<rparr>) = Inr x" if mem: "ki \<in> set (ps_kernels sess)" for ki
  proof -
    obtain c where "dget ?m (ki_kernel_id ki) = Inr c" using look[OF mem] by blast
    then show ?thesis by simp
  qed
  have all: "\<exists>ys. mapE f xs = Inr ys" if "\<And>x. x \<in> set xs \<Longrightarrow> \<exists>y. f x = Inr y" for f :: "kernel_info \<Rightarrow> destroy_row res" and xs
    using that by (induction xs) (auto, metis bindE_Inr)
  show ?thesis unfolding destroy_rows_def Let_def by (rule all) (rule one)
qed

lemma cleanup_recalculates:
  assumes "destroy_rows sess s = Inr rows" and "\<forall>c. rpc c = Inr ()"
  shows "bindE (destroy_rows sess s) (\<lambda>rows. bindE (foldE (\<lambda>_ c. rpc c) () (destroy_session_lowlevel rows)) (\<lambda>_. recalc_resource_usage False s)) =
    recalc_resource_usage False s"
proof -
  have r: "rpc c = Inr ()" for c using assms(2) by blast
  have "foldE (\<lambda>_ c. rpc c) () cs = Inr ()" for cs by (induction cs) (simp_all add: r)
  with assms(1) show ?thesis by simp
qed

text \<open>
  C26: The clean-up after a failed start, whatever the exception was, if the kernels' slots are finite:
  all kernels of the session end up CANCELLED and the rows of other sessions are as the failed start left
  them, even if an agent does not answer.  If all requests to destroy the session's kernels succeed, its
  kernels have rows, and kernels that occupy resources have agents, then the occupied slots of every agent
  that is alive are again what the kernels on it use.
\<close>
theorem start_failure_cleanup:
  assumes "ps_kernels sess \<noteq> []" and "reg_start sess s = (Inl e, s1)" and fin: "fin_kernels s1"
    and s': "start_session env reg_start rpc sess s = s'"
  shows "(\<forall>r\<in>set (db_kernels s'). k_session_id r = ps_session_id sess \<longrightarrow> k_status r = CANCELLED) \<and>
    map k_id (db_kernels s') = map k_id (db_kernels s1) \<and>
    filter (\<lambda>r. k_session_id r \<noteq> ps_session_id sess) (db_kernels s') = filter (\<lambda>r. k_session_id r \<noteq> ps_session_id sess) (db_kernels s1) \<and>
    ((\<forall>c. rpc c = Inr ()) \<and> all_placed s1 \<and>
       (\<forall>ki\<in>set (ps_kernels sess). \<exists>r\<in>set (db_kernels s1). k_id r = ki_kernel_id ki \<and> k_session_id r = ps_session_id sess) \<longrightarrow>
     (\<forall>a\<in>set (db_agents s'). a_status a = ALIVE \<longrightarrow> (\<forall>k. slot_amt (a_occupied_slots a) k = used_by (on_agent (a_id a)) s' k)))"
proof -
  obtain s2 where s2: "mark_session_cancelled env e sess s1 = Inr s2"
    "db_kernels s2 = map (\<lambda>r. if k_session_id r = ps_session_id sess then mark_failed env e r else r) (db_kernels s1)"
    using mark_session_cancelled_spec[OF fin] by metis
  let ?s = "produce_event (SessionCancelledEvent (ps_session_id sess) (ps_session_creation_id sess) ''failed-to-start'') s2"
  let ?x = "bindE (destroy_rows sess ?s) (\<lambda>rows. bindE (foldE (\<lambda>_ c. rpc c) () (destroy_session_lowlevel rows)) (\<lambda>_. recalc_resource_usage False ?s))"
  have st: "s' = (case ?x of Inl _ \<Rightarrow> ?s | Inr s3 \<Rightarrow> s3)"
    using assms(1,2) s2(1) s' by (simp add: start_session_def cleanup_start_failure_def Let_def)
  have ks: "db_kernels s' = db_kernels s2" unfolding st
    by (auto simp: bindE_eq_Inr_iff dest: recalc_resource_usage_kernels split: sum.splits)
  have m: "k_id (mark_failed env e r) = k_id r" "k_session_id (mark_failed env e r) = k_session_id r" "k_status (mark_failed env e r) = CANCELLED" for r
    by (simp_all add: mark_failed_def)
  have "filter (\<lambda>r. k_session_id r \<noteq> i) (map (\<lambda>r. if k_session_id r = i then mark_failed env e r else r) rs) = filter (\<lambda>r. k_session_id r \<noteq> i) rs" for i rs
    by (induction rs) (simp_all add: m)
  then have rows': "(\<forall>r\<in>set (db_kernels s'). k_session_id r = ps_session_id sess \<longrightarrow> k_status r = CANCELLED) \<and>
    map k_id (db_kernels s') = map k_id (db_kernels s1) \<and>
    filter (\<lambda>r. k_session_id r \<noteq> ps_session_id sess) (db_kernels s') = filter (\<lambda>r. k_session_id r \<noteq> ps_session_id sess) (db_kernels s1)"
    unfolding ks s2(2) by (auto simp: m comp_def)
  moreover have "\<forall>k. slot_amt (a_occupied_slots a) k = used_by (on_agent (a_id a)) s' k"
    if rpc: "\<forall>c. rpc c = Inr ()" and placed: "all_placed s1"
      and rows: "\<forall>ki\<in>set (ps_kernels sess). \<exists>r\<in>set (db_kernels s1). k_id r = ki_kernel_id ki \<and> k_session_id r = ps_session_id sess"
      and a: "a \<in> set (db_agents s')" "a_status a = ALIVE" for a
  proof -
    have fk: "fin_kernels ?s" using fin s2(2) by (auto simp: fin_kernels_def list_all_iff mark_failed_def)
    have pl: "all_placed ?s"
      using placed s2(2) by (auto simp: all_placed_def mark_failed_def agent_occupying_def AGENT_RESOURCE_OCCUPYING_KERNEL_STATUSES_def)
    have "\<exists>r\<in>set (db_kernels ?s). k_id r = ki_kernel_id ki \<and> k_session_id r = ps_session_id sess" if ki: "ki \<in> set (ps_kernels sess)" for ki
    proof -
      obtain r where r: "r \<in> set (db_kernels s1)" "k_id r = ki_kernel_id ki" "k_session_id r = ps_session_id sess" using bspec[OF rows ki] by blast
      have "mark_failed env e r \<in> set (db_kernels s2)" unfolding s2(2) set_map by (rule image_eqI[OF _ r(1)]) (simp add: r(3))
      then have "mark_failed env e r \<in> set (db_kernels ?s)" by simp
      with r m show ?thesis by metis
    qed
    then obtain dr where dr: "destroy_rows sess ?s = Inr dr" using destroy_rows_total by blast
    obtain s3 where s3: "recalc_resource_usage False ?s = Inr s3"
      "\<forall>a\<in>set (db_agents s3). a_status a = ALIVE \<and> all_placed ?s \<or> (\<exists>r\<in>set (db_kernels ?s). on_agent (a_id a) r) \<longrightarrow>
         (\<forall>k. slot_amt (a_occupied_slots a) k = used_by (on_agent (a_id a)) ?s k)"
      using recalc_resource_usage_spec[OF fk] by blast
    have "s' = s3" unfolding st cleanup_recalculates[OF dr rpc] by (simp add: s3(1))
    moreover have "used_by P s' k = used_by P ?s k" for P k using ks by (simp add: used_by_def)
    ultimately show ?thesis using s3(2) pl a by simp
  qed
  ultimately show ?thesis by blast
qed

text \<open>
  The same clean-up recalculates the keypair's session counter before it cancels the kernels, and
  the later recalculation skips keypairs without running kernels: after the only session of a keypair
  failed to start, nothing of it runs but the counter is still one.
\<close>
theorem start_failure_leaks_counter:
  "let row = demo_kernel ''k'' ''k'' ''main'' PREPARING [(''cpu'', Fin 2)] (Some ''i'');
       s = demo_db [row] [demo_agent ''i'' ALIVE [(''cpu'', Fin 4)] [(''cpu'', Fin 2)]]\<lparr>db_redis_stat := [(conc_key ''AK'', 1)]\<rparr>;
       sess = demo_request [(''cpu'', Fin 2)]\<lparr>ps_session_id := ''k'', ps_kernels := [kernel_info_from_row row]\<rparr>;
       s' = start_session demo_env (\<lambda>_ s. (Inl RuntimeError, s)) (\<lambda>_. Inr ()) sess s
   in map k_status (db_kernels s') = [CANCELLED] \<and> map a_occupied_slots (db_agents s') = [[]] \<and>
      sessions_counted ''AK'' s' = 0 \<and> map_of (db_redis_stat s') (conc_key ''AK'') = Some 1"
  unfolding Let_def by code_simp

theorem start_failure_cleanup_witness:
  "let row = demo_kernel ''k'' ''k'' ''main'' PREPARING [(''cpu'', Fin 2)] (Some ''i'');
       s = demo_db [row, demo_kernel ''l'' ''l'' ''main'' RUNNING [(''cpu'', Fin 1)] (Some ''i'')] [demo_agent ''i'' ALIVE [(''cpu'', Fin 4)] [(''cpu'', Fin 3)]];
       sess = demo_request [(''cpu'', Fin 2)]\<lparr>ps_session_id := ''k'', ps_kernels := [kernel_info_from_row row]\<rparr>;
       s' = start_session demo_env (\<lambda>_ s. (Inl RuntimeError, s)) (\<lambda>_. Inr ()) sess s
   in \<not> (\<exists>r\<in>set (db_kernels s'). k_session_id r = ''k'' \<and> k_status r \<noteq> CANCELLED) \<and>
      map (\<lambda>a. (a_status a, slot_amt (a_occupied_slots a) ''cpu'', used_by (on_agent (a_id a)) s' ''cpu'')) (db_agents s') = [(ALIVE, 1, 1)]"
proof -
  let ?row = "demo_kernel ''k'' ''k'' ''main'' PREPARING [(''cpu'', Fin 2)] (Some ''i'')"
  let ?s = "demo_db [?row, demo_kernel ''l'' ''l'' ''main'' RUNNING [(''cpu'', Fin 1)] (Some ''i'')] [demo_agent ''i'' ALIVE [(''cpu'', Fin 4)] [(''cpu'', Fin 3)]]"
  let ?q = "demo_request [(''cpu'', Fin 2)]\<lparr>ps_session_id := ''k'', ps_kernels := [kernel_info_from_row ?row]\<rparr>"
  let ?t = "start_session demo_env (\<lambda>_ s. (Inl RuntimeError, s)) (\<lambda>_. Inr ()) ?q ?s"
  have f: "fin_kernels ?s" and p: "all_placed ?s" by code_simp+
  have r: "\<forall>ki\<in>set (ps_kernels ?q). \<exists>r\<in>set (db_kernels ?s). k_id r = ki_kernel_id ki \<and> k_session_id r = ps_session_id ?q" by code_simp
  have n: "ps_kernels ?q \<noteq> []" and i: "ps_session_id ?q = ''k''" by simp_all
  have v: "map (\<lambda>a. (a_status a, slot_amt (a_occupied_slots a) ''cpu'')) (db_agents ?t) = [(ALIVE, 1)]" by code_simp
  then obtain a where a: "db_agents ?t = [a]" "a_status a = ALIVE" "slot_amt (a_occupied_slots a) ''cpu'' = 1" by auto
  note c = start_failure_cleanup[of ?q "\<lambda>_ s. (Inl RuntimeError, s)" ?s RuntimeError ?s demo_env "\<lambda>_. Inr ()" ?t, OF n refl f refl]
  have "slot_amt (a_occupied_slots a) ''cpu'' = used_by (on_agent (a_id a)) ?t ''cpu''" using c p r a(1,2) by simp
  then show ?thesis using c a i unfolding Let_def by auto
qed

end
