(* ===== verification/Lifecycle.thy ===== *)
theory Lifecycle
  imports SchedulingFailures Preparation "HOL-Library.Sublist"
begin

text \<open>
  How kernels and sessions end: the status updates of \<open>manager/registry.py\<close>
  (\<open>set_session_status\<close>, \<open>set_kernel_status\<close>, \<open>set_session_result\<close>, \<open>sync_kernel_stats\<close>,
  \<open>mark_kernel_terminated\<close>, \<open>check_session_terminated\<close>, \<open>destroy_session\<close>) and the event handlers
  of \<open>manager/api/session.py\<close> that call them.  The theorems say what a terminated kernel gives
  back, that a dead kernel stays dead under the guarded operations, that the end of a session is
  announced at most once, and what destroying a running session does.  An operation that may raise
  returns its result together with the database, since what was committed before stays.
\<close>

section \<open>Status updates\<close>

definition is_dead :: "kernel_row \<Rightarrow> bool" where
  "is_dead r \<longleftrightarrow> k_status r \<in> set DEAD_KERNEL_STATUSES"

definition status_values :: "int \<Rightarrow> kernel_status \<Rightarrow> string \<Rightarrow> kernel_row \<Rightarrow> kernel_row" where
  "status_values now status reason r =
     (let r1 = r\<lparr>k_status := status, k_status_info := Some reason, k_status_changed := Some now,
                 k_status_history := history_entry status now r\<rparr>
      in if status \<in> {CANCELLED, TERMINATED} then r1\<lparr>k_terminated_at := Some now\<rparr> else r1)"

text \<open>\<open>extra\<close> stands for \<open>data.update(extra_fields)\<close>.\<close>

definition set_session_status :: "int \<Rightarrow> string \<Rightarrow> string \<Rightarrow> kernel_status \<Rightarrow> string \<Rightarrow> (kernel_row \<Rightarrow> kernel_row) \<Rightarrow> db \<Rightarrow> db" where
  "set_session_status now session_id access_key status reason extra s =
     update_kernels (\<lambda>r. k_session_id r = session_id \<and> k_access_key r = access_key \<and> \<not> is_dead r)
       (\<lambda>r. extra (status_values now status reason r)) s"

definition set_kernel_status :: "int \<Rightarrow> string \<Rightarrow> kernel_status \<Rightarrow> string \<Rightarrow> db \<Rightarrow> db res" where
  "set_kernel_status now kernel_id status reason s =
     (if status = TERMINATED then Inl AssertionError
      else Inr (update_kernels (\<lambda>r. k_id r = kernel_id) (status_values now status reason) s))"

definition set_session_result :: "string \<Rightarrow> bool \<Rightarrow> db \<Rightarrow> db" where
  "set_session_result session_id success s =
     update_kernels (\<lambda>r. k_id r = session_id) (\<lambda>r. r\<lparr>k_result := if success then SUCCESS else FAILURE\<rparr>) s"

definition sync_kernel_stats :: "string list \<Rightarrow> db \<Rightarrow> db" where
  "sync_kernel_stats kernel_ids s =
     fold (\<lambda>(kid, st). update_kernels (\<lambda>r. k_id r = kid) (\<lambda>r. r\<lparr>k_last_stat := Some st\<rparr>))
       (fold (\<lambda>kid d. case map_of (db_kernel_stats s) kid of None \<Rightarrow> d | Some st \<Rightarrow> dset d kid st) kernel_ids []) s"

section \<open>The end of a kernel\<close>

text \<open>
  A kernel that has no agent makes the code sum up the kernels without agent and update no row.
  The task that waits for the kernel's creation, which the code cancels first, is no part of the
  state.
\<close>

definition recalc_kernel_agent :: "string option \<Rightarrow> db \<Rightarrow> db res" where
  "recalc_kernel_agent agent s =
     (case agent of
        Some agent_id \<Rightarrow> recalc_agent_resource_occupancy agent_id s
      | None \<Rightarrow> bindE (foldE rs_plus [] (map k_occupied_slots (filter (\<lambda>r. k_agent r = None \<and> agent_occupying r) (db_kernels s)))) (\<lambda>_. Inr s))"

definition find_kernel :: "db \<Rightarrow> string \<Rightarrow> kernel_row option" where
  "find_kernel s i = find (\<lambda>r. k_id r = i) (db_kernels s)"

definition json_opt_int :: "int option \<Rightarrow> json" where
  "json_opt_int n = (case n of None \<Rightarrow> JNull | Some i \<Rightarrow> JInt i)"

definition with_stat :: "db \<Rightarrow> kernel_row \<Rightarrow> kernel_row" where
  "with_stat s r = (case map_of (db_kernel_stats s) (k_id r) of None \<Rightarrow> r | Some st \<Rightarrow> r\<lparr>k_last_stat := Some st\<rparr>)"

definition terminated_values :: "int \<Rightarrow> string \<Rightarrow> int option \<Rightarrow> kernel_row \<Rightarrow> kernel_row" where
  "terminated_values now reason exit_code r =
     r\<lparr>k_status := TERMINATED, k_status_info := Some reason, k_status_changed := Some now,
       k_status_data := Some (sql_json_merge (k_status_data r) [''kernel''] (JObj [(''exit_code'', json_opt_int exit_code)])),
       k_status_history := history_entry TERMINATED now r, k_terminated_at := Some now\<rparr>"

definition mark_kernel_terminated :: "int \<Rightarrow> string \<Rightarrow> string \<Rightarrow> int option \<Rightarrow> db \<Rightarrow> unit res \<times> db" where
  "mark_kernel_terminated now kernel_id reason exit_code s =
     (case find_kernel s kernel_id of
        None \<Rightarrow> (Inr (), s)
      | Some kern \<Rightarrow>
          if k_status kern \<in> {CANCELLED, TERMINATED, RESTARTING} then (Inr (), s)
          else
            let s1 = update_kernels (\<lambda>r. k_id r = kernel_id) (\<lambda>r. with_stat s (terminated_values now reason exit_code r)) s;
                s2 = recalc_concurrency_used (k_access_key kern) s1
            in case recalc_kernel_agent (k_agent kern) s2 of
                 Inl e \<Rightarrow> (Inl e, s2)
               | Inr s3 \<Rightarrow> (Inr (), sync_kernel_stats [kernel_id] s3))"

section \<open>The end of a session\<close>

text \<open>
  \<open>nmget\<close> with the default \<open>None\<close>, on the components of the path.  On a text \<open>in\<close> asks for a
  substring and on a list for an element, and the following subscript raises; the components asked
  for are no part of a time stamp.
\<close>

fun nmget :: "json \<Rightarrow> string list \<Rightarrow> json option res" where
  "nmget j [] = Inr (if j = JNull then None else Some j)"
| "nmget JNull (p # ps) = Inr None"
| "nmget (JObj ob) (p # ps) = (case map_of ob p of None \<Rightarrow> Inr None | Some j \<Rightarrow> nmget j ps)"
| "nmget (JArr js) (p # ps) = (if JStr p \<in> set js then Inl TypeError else Inr None)"
| "nmget (JStr t) (p # ps) = (if sublist p t then Inl TypeError else Inr None)"
| "nmget (JTime t) (p # ps) = Inr None"
| "nmget (JBool b) (p # ps) = Inl TypeError"
| "nmget (JInt n) (p # ps) = Inl TypeError"

definition col_json :: "json option \<Rightarrow> json" where
  "col_json c = (case c of None \<Rightarrow> JNull | Some j \<Rightarrow> j)"

definition session_values :: "int \<Rightarrow> kernel_row \<Rightarrow> kernel_row" where
  "session_values now r =
     r\<lparr>k_status_data := Some (sql_json_merge (k_status_data r) [''session''] (JObj [(''status'', JStr ''terminated'')])),
       k_status_history := history_entry TERMINATED now r\<rparr>"

text \<open>The rows of the kernel's session; a kernel that does not exist makes the subquery NULL.\<close>

definition rows_of_session :: "db \<Rightarrow> string \<Rightarrow> kernel_row list" where
  "rows_of_session s kernel_id =
     (case find_kernel s kernel_id of
        None \<Rightarrow> []
      | Some kern \<Rightarrow> filter (\<lambda>r. k_session_id r = k_session_id kern) (db_kernels s))"

definition check_session_terminated :: "int \<Rightarrow> string \<Rightarrow> string \<Rightarrow> db \<Rightarrow> unit res \<times> db" where
  "check_session_terminated now kernel_id reason s =
     (case rows_of_session s kernel_id of
        [] \<Rightarrow> (Inr (), s)
      | row # rows \<Rightarrow>
          (case nmget (col_json (k_status_data row)) [''session'', ''status''] of
             Inl e \<Rightarrow> (Inl e, s)
           | Inr st \<Rightarrow>
               if st = Some (JStr ''terminated'') then (Inr (), s)
               else if list_all (\<lambda>r. k_status r \<in> {TERMINATED, CANCELLED}) (row # rows)
               then (Inr (), produce_event (SessionTerminatedEvent (k_session_id row) reason)
                      (update_kernels (\<lambda>r. k_session_id r = k_session_id row) (session_values now) s))
               else (Inr (), s)))"

section \<open>Event handlers\<close>

datatype creation_event = KernelPreparing | KernelPulling | KernelCreating | KernelStarted | KernelCancelled

text \<open>The started and cancelled events only wake up the tasks that wait for them.\<close>

definition handle_kernel_creation_lifecycle :: "int \<Rightarrow> creation_event \<Rightarrow> string \<Rightarrow> string \<Rightarrow> db \<Rightarrow> db res" where
  "handle_kernel_creation_lifecycle now event kernel_id reason s =
     (case event of
        KernelPreparing \<Rightarrow> Inr s
      | KernelPulling \<Rightarrow> set_kernel_status now kernel_id PULLING reason s
      | KernelCreating \<Rightarrow> set_kernel_status now kernel_id PREPARING reason s
      | KernelStarted \<Rightarrow> Inr s
      | KernelCancelled \<Rightarrow> Inr s)"

definition handle_kernel_terminated :: "int \<Rightarrow> string \<Rightarrow> string \<Rightarrow> int option \<Rightarrow> db \<Rightarrow> unit res \<times> db" where
  "handle_kernel_terminated now kernel_id reason exit_code s =
     (case mark_kernel_terminated now kernel_id reason exit_code s of
        (Inl e, s1) \<Rightarrow> (Inl e, s1)
      | (Inr _, s1) \<Rightarrow> check_session_terminated now kernel_id reason s1)"

section \<open>What a terminated kernel gives back\<close>

lemma sum_list_replaced:
  fixes g :: "kernel_row \<Rightarrow> 'b::ab_group_add"
  assumes "distinct (map k_id xs)" and "r \<in> set xs" and "\<not> P (f r)"
  shows "sum_list (map g (filter P (map (\<lambda>x. if k_id x = k_id r then f x else x) xs))) =
    sum_list (map g (filter P xs)) - (if P r then g r else 0)"
  using assms(1,2)
proof (induction xs)
  case (Cons x xs)
  show ?case
  proof (cases "x = r")
    case True
    with Cons.prems have "map (\<lambda>x. if k_id x = k_id r then f x else x) xs = xs" by (intro map_idI) (auto simp: rev_image_eqI)
    with True assms(3) show ?thesis by simp
  next
    case False
    with Cons.prems have "k_id x \<noteq> k_id r" "r \<in> set xs" "distinct (map k_id xs)" by (auto simp: rev_image_eqI)
    with Cons.IH show ?thesis by simp
  qed
qed simp

lemma int_length_filter: "int (length (filter P xs)) = sum_list (map (\<lambda>_. 1) (filter P xs))"
  by (induction xs) auto

lemma find_kernel_distinct:
  assumes "distinct (map k_id (db_kernels s))" and "r \<in> set (db_kernels s)"
  shows "find_kernel s (k_id r) = Some r"
proof -
  have "distinct (map k_id xs) \<Longrightarrow> r \<in> set xs \<Longrightarrow> find (\<lambda>q. k_id q = k_id r) xs = Some r" for xs
    by (induction xs) (auto simp: rev_image_eqI)
  with assms show ?thesis by (simp add: find_kernel_def)
qed

lemma find_kernel_Some: "find_kernel s i = Some r \<Longrightarrow> r \<in> set (db_kernels s) \<and> k_id r = i"
  unfolding find_kernel_def by (drule find_SomeD) simp

text \<open>An update that leaves who a kernel is and what it uses as it was.\<close>

definition keeps_kernel :: "(kernel_row \<Rightarrow> kernel_row) \<Rightarrow> bool" where
  "keeps_kernel f \<longleftrightarrow> (\<forall>r. k_id (f r) = k_id r \<and> k_session_id (f r) = k_session_id r \<and> k_access_key (f r) = k_access_key r \<and>
     k_agent (f r) = k_agent r \<and> k_occupied_slots (f r) = k_occupied_slots r \<and> k_result (f r) = k_result r)"

lemma with_stat_simps [simp]:
  "k_status (with_stat s r) = k_status r" "k_terminated_at (with_stat s r) = k_terminated_at r" "k_status_data (with_stat s r) = k_status_data r"
  by (simp_all add: with_stat_def split: option.splits)

lemma keeps_terminated: "keeps_kernel (\<lambda>r. with_stat s (terminated_values now reason ec r))"
  by (simp add: keeps_kernel_def with_stat_def terminated_values_def split: option.splits)

lemma sync_one:
  "sync_kernel_stats [kid] s = (case map_of (db_kernel_stats s) kid of None \<Rightarrow> s
     | Some st \<Rightarrow> update_kernels (\<lambda>r. k_id r = kid) (\<lambda>r. r\<lparr>k_last_stat := Some st\<rparr>) s)"
  by (simp add: sync_kernel_stats_def split: option.splits)

lemma sync_one_kernels: "db_kernels (sync_kernel_stats [kid] s) = map (\<lambda>r. if k_id r = kid then with_stat s r else r) (db_kernels s)"
  by (auto simp: sync_one update_kernels_def with_stat_def intro!: map_idI[symmetric] split: option.splits)

lemma sync_one_rest [simp]:
  "db_agents (sync_kernel_stats [kid] s) = db_agents s" "db_redis_stat (sync_kernel_stats [kid] s) = db_redis_stat s"
  "db_events (sync_kernel_stats [kid] s) = db_events s"
  by (simp_all add: sync_one split: option.splits)

lemma recalc_kernel_agent_kernels:
  "recalc_kernel_agent ag s = Inr s' \<Longrightarrow> db_kernels s' = db_kernels s \<and> db_redis_stat s' = db_redis_stat s \<and> db_events s' = db_events s"
  by (auto simp: recalc_kernel_agent_def recalc_agent_resource_occupancy_def bindE_eq_Inr_iff split: option.splits)

lemma recalc_concurrency_rest [simp]:
  "db_agents (recalc_concurrency_used ak s) = db_agents s" "db_kernels (recalc_concurrency_used ak s) = db_kernels s"
  "db_events (recalc_concurrency_used ak s) = db_events s"
  by (simp_all add: recalc_concurrency_used_def)

text \<open>Either the call skips, or it rewrites the row of the kernel.\<close>

lemma mark_kernel_terminated_shape:
  assumes "mark_kernel_terminated now kid reason ec s = (res, s')"
  obtains "s' = s" "res = Inr ()"
  | g where "db_kernels s' = map (\<lambda>r. if k_id r = kid then g r else r) (db_kernels s)" and "db_events s' = db_events s"
    and "keeps_kernel g" and "\<And>r. k_status (g r) = TERMINATED" and "\<And>r. k_terminated_at (g r) = Some now"
    and "\<And>r. k_status_data (g r) = k_status_data (terminated_values now reason ec r)"
    and "\<exists>r. find_kernel s kid = Some r \<and> k_status r \<notin> {CANCELLED, TERMINATED, RESTARTING}"
proof (cases "find_kernel s kid")
  case None
  with assms that(1) show ?thesis by (simp add: mark_kernel_terminated_def)
next
  case (Some kern)
  show ?thesis
  proof (cases "k_status kern \<in> {CANCELLED, TERMINATED, RESTARTING}")
    case True
    with assms Some that(1) show ?thesis by (simp add: mark_kernel_terminated_def)
  next
    case False
    let ?f = "\<lambda>r. with_stat s (terminated_values now reason ec r)"
    let ?s1 = "update_kernels (\<lambda>r. k_id r = kid) ?f s"
    let ?s2 = "recalc_concurrency_used (k_access_key kern) ?s1"
    have k2: "db_kernels ?s2 = map (\<lambda>r. if k_id r = kid then ?f r else r) (db_kernels s)" by (simp add: update_kernels_def)
    have ev2: "db_events ?s2 = db_events s" by simp
    have ex: "\<exists>r. find_kernel s kid = Some r \<and> k_status r \<notin> {CANCELLED, TERMINATED, RESTARTING}" using Some False by blast
    have tv: "k_status (terminated_values now reason ec r) = TERMINATED" "k_terminated_at (terminated_values now reason ec r) = Some now" for r
      by (simp_all add: terminated_values_def)
    show ?thesis
    proof (cases "recalc_kernel_agent (k_agent kern) ?s2")
      case (Inl e)
      with assms Some False have "s' = ?s2" by (simp add: mark_kernel_terminated_def Let_def)
      with that(2)[of ?f] k2 ev2 ex keeps_terminated tv show ?thesis by simp
    next
      case (Inr s3)
      with assms Some False have s': "s' = sync_kernel_stats [kid] s3" by (simp add: mark_kernel_terminated_def Let_def)
      note r3 = recalc_kernel_agent_kernels[OF Inr]
      have "keeps_kernel (\<lambda>r. with_stat s3 (?f r))"
        using keeps_terminated by (simp add: keeps_kernel_def with_stat_def split: option.splits)
      moreover have "db_kernels s' = map (\<lambda>r. if k_id r = kid then with_stat s3 (?f r) else r) (db_kernels s)"
        using keeps_terminated[of s now reason ec] unfolding s' sync_one_kernels conjunct1[OF r3] k2
        by (simp add: comp_def keeps_kernel_def)
      moreover have "db_events s' = db_events s" unfolding s' using r3 by simp
      ultimately show ?thesis using that(2)[of "\<lambda>r. with_stat s3 (?f r)"] ex tv by simp
    qed
  qed
qed

lemma recalc_kernel_agent_spec:
  assumes "fin_kernels s"
  shows "\<exists>s'. recalc_kernel_agent ag s = Inr s' \<and> map a_id (db_agents s') = map a_id (db_agents s) \<and>
    (\<forall>a\<in>set (db_agents s'). (ag = Some (a_id a) \<and> (\<forall>k. slot_amt (a_occupied_slots a) k = used_by (on_agent (a_id a)) s k)) \<or>
       (ag \<noteq> Some (a_id a) \<and> a \<in> set (db_agents s)))"
proof (cases ag)
  case None
  have "\<exists>x. foldE rs_plus [] (map k_occupied_slots (filter (\<lambda>r. k_agent r = None \<and> agent_occupying r) (db_kernels s))) = Inr x"
    using rs_sum_used[OF assms] by (simp add: rs_sum_def) blast
  with None show ?thesis by (auto simp: recalc_kernel_agent_def)
next
  case (Some i)
  obtain occ where o: "recalc_agent_resource_occupancy i s = Inr (update_agent i (\<lambda>r. r\<lparr>a_occupied_slots := occ\<rparr>) s)"
    "\<And>k. slot_amt occ k = used_by (on_agent i) s k" using recalc_agent_spec[OF assms] by metis
  have "(ag = Some (a_id a) \<and> (\<forall>k. slot_amt (a_occupied_slots a) k = used_by (on_agent (a_id a)) s k)) \<or>
      (ag \<noteq> Some (a_id a) \<and> a \<in> set (db_agents s))"
    if mem: "a \<in> set (db_agents (update_agent i (\<lambda>r. r\<lparr>a_occupied_slots := occ\<rparr>) s))" for a
  proof -
    obtain b where "b \<in> set (db_agents s)" "a = (if a_id b = i then b\<lparr>a_occupied_slots := occ\<rparr> else b)"
      using mem unfolding update_agent_def by auto
    with o(2) Some show ?thesis by (cases "a_id b = i") auto
  qed
  with o(1) Some show ?thesis by (simp add: recalc_kernel_agent_def)
qed

lemma dead_not_occupying: "k_status r = TERMINATED \<Longrightarrow> \<not> user_occupying r \<and> \<not> agent_occupying r"
  by (simp add: user_occupying_def agent_occupying_def USER_RESOURCE_OCCUPYING_KERNEL_STATUSES_def AGENT_RESOURCE_OCCUPYING_KERNEL_STATUSES_def)

lemma used_by_replaced:
  assumes "distinct (map k_id (db_kernels s))" and "r \<in> set (db_kernels s)" and "\<not> P (f r)"
    and "db_kernels s' = map (\<lambda>x. if k_id x = k_id r then f x else x) (db_kernels s)"
  shows "used_by P s' k = used_by P s k - (if P r then slot_amt (k_occupied_slots r) k else 0)"
  using sum_list_replaced[of _ r P f "\<lambda>r. slot_amt (k_occupied_slots r) k", OF assms(1-3)] by (simp only: used_by_def assms(4))

lemma sessions_counted_replaced:
  assumes "distinct (map k_id (db_kernels s))" and "r \<in> set (db_kernels s)" and "\<not> user_occupying (f r)"
    and "db_kernels s' = map (\<lambda>x. if k_id x = k_id r then f x else x) (db_kernels s)"
  shows "sessions_counted ak s' = sessions_counted ak s - (if k_access_key r = ak \<and> user_occupying r then 1 else 0)"
  using sum_list_replaced[OF assms(1,2), of "\<lambda>r. k_access_key r = ak \<and> user_occupying r" f "\<lambda>_. 1 :: int"] assms(3)
  by (simp only: sessions_counted_def int_length_filter assms(4)) simp

lemma filter_others:
  assumes "\<And>x. k_id (f x) = k_id x"
  shows "filter (\<lambda>x. k_id x \<noteq> i) (map (\<lambda>x. if k_id x = i then f x else x) xs) = filter (\<lambda>x. k_id x \<noteq> i) xs"
  by (induction xs) (simp_all add: assms)

text \<open>
  C16: Marking a kernel terminated releases what it held, exactly: the call succeeds on finite
  slots, the kernel's row is the only one that changes, the keypair's session counter is the number
  of its occupying kernels without this one, and of the agents only the kernel's own is touched,
  whose occupied slots are the sum over the kernels on it without this one.
\<close>
theorem kernel_end_releases:
  assumes "distinct (map k_id (db_kernels s))" and "r \<in> set (db_kernels s)" and "fin_kernels s"
    and "k_status r \<notin> {CANCELLED, TERMINATED, RESTARTING}"
  shows "\<exists>s'. mark_kernel_terminated now (k_id r) reason ec s = (Inr (), s') \<and>
    filter (\<lambda>x. k_id x \<noteq> k_id r) (db_kernels s') = filter (\<lambda>x. k_id x \<noteq> k_id r) (db_kernels s) \<and>
    map_option k_status (find_kernel s' (k_id r)) = Some TERMINATED \<and>
    map_of (db_redis_stat s') (conc_key (k_access_key r)) =
      Some (sessions_counted (k_access_key r) s - (if user_occupying r then 1 else 0)) \<and>
    (\<forall>a\<in>set (db_agents s'). if k_agent r = Some (a_id a)
       then \<forall>k. slot_amt (a_occupied_slots a) k =
              used_by (on_agent (a_id a)) s k - (if agent_occupying r then slot_amt (k_occupied_slots r) k else 0)
       else a \<in> set (db_agents s))"
proof -
  let ?f = "\<lambda>x. with_stat s (terminated_values now reason ec x)"
  let ?s1 = "update_kernels (\<lambda>x. k_id x = k_id r) ?f s"
  let ?s2 = "recalc_concurrency_used (k_access_key r) ?s1"
  have fk: "find_kernel s (k_id r) = Some r" by (rule find_kernel_distinct[OF assms(1,2)])
  have k2: "db_kernels ?s2 = map (\<lambda>x. if k_id x = k_id r then ?f x else x) (db_kernels s)" by (simp add: update_kernels_def)
  have dead: "\<not> user_occupying (?f x)" "\<not> agent_occupying (?f x)" for x
    using dead_not_occupying[of "?f x"] by (simp_all add: terminated_values_def)
  have kf: "keeps_kernel ?f" by (rule keeps_terminated)
  have "fin_kernels ?s2" using assms(3) kf unfolding fin_kernels_def k2 by (auto simp: keeps_kernel_def list_all_iff)
  then obtain s3 where s3: "recalc_kernel_agent (k_agent r) ?s2 = Inr s3"
    "\<forall>a\<in>set (db_agents s3). (k_agent r = Some (a_id a) \<and> (\<forall>k. slot_amt (a_occupied_slots a) k = used_by (on_agent (a_id a)) ?s2 k)) \<or>
       (k_agent r \<noteq> Some (a_id a) \<and> a \<in> set (db_agents ?s2))"
    using recalc_kernel_agent_spec by blast
  let ?s' = "sync_kernel_stats [k_id r] s3"
  have ev: "mark_kernel_terminated now (k_id r) reason ec s = (Inr (), ?s')"
    unfolding mark_kernel_terminated_def fk option.case if_not_P[OF assms(4)] Let_def s3(1) by simp
  have k3: "db_kernels s3 = db_kernels ?s2" "db_redis_stat s3 = db_redis_stat ?s2" using recalc_kernel_agent_kernels[OF s3(1)] by simp_all
  have k': "db_kernels ?s' = map (\<lambda>x. if k_id x = k_id r then with_stat s3 (?f x) else x) (db_kernels s)"
    using kf unfolding sync_one_kernels k3 k2 by (simp add: comp_def keeps_kernel_def)
  have kid: "k_id (with_stat s3 (?f x)) = k_id x" for x
    using kf by (simp add: keeps_kernel_def with_stat_def split: option.splits)
  have "filter (\<lambda>x. k_id x \<noteq> k_id r) (db_kernels ?s') = filter (\<lambda>x. k_id x \<noteq> k_id r) (db_kernels s)"
    unfolding k' by (rule filter_others[OF kid])
  moreover have "map_option k_status (find_kernel ?s' (k_id r)) = Some TERMINATED"
  proof -
    have "distinct (map k_id (db_kernels ?s'))" using assms(1) unfolding k' by (simp add: comp_def kid if_distrib cong: if_cong)
    moreover have "with_stat s3 (?f r) \<in> set (db_kernels ?s')" unfolding k' using assms(2) by force
    ultimately show ?thesis using find_kernel_distinct[of ?s' "with_stat s3 (?f r)", unfolded kid] by (simp add: terminated_values_def)
  qed
  moreover have "map_of (db_redis_stat ?s') (conc_key (k_access_key r)) =
      Some (sessions_counted (k_access_key r) s - (if user_occupying r then 1 else 0))"
    using recalc_counter[of "k_access_key r" ?s1]
      sessions_counted_replaced[OF assms(1,2), of ?f ?s1 "k_access_key r", OF dead(1)] k3(2) by (simp add: update_kernels_def)
  moreover have "used_by (on_agent i) ?s2 k = used_by (on_agent i) s k - (if on_agent i r then slot_amt (k_occupied_slots r) k else 0)" for i k
    by (rule used_by_replaced[OF assms(1,2) _ k2]) (simp add: on_agent_def dead)
  ultimately show ?thesis using ev s3(2) by (intro exI[of _ ?s']) (auto simp: on_agent_def)
qed

definition demo_two :: db where
  "demo_two = demo_db [demo_kernel ''k'' ''k'' ''main'' RUNNING [(''cpu'', Fin 2)] (Some ''i''),
      demo_kernel ''x'' ''x'' ''main'' RUNNING [(''cpu'', Fin 1)] (Some ''i'')] [demo_agent ''i'' ALIVE [(''cpu'', Fin 8)] [(''cpu'', Fin 3)]]"

theorem kernel_end_releases_witness:
  "\<exists>s'. mark_kernel_terminated 9 ''k'' ''self-terminated'' (Some 0) demo_two = (Inr (), s') \<and>
    map_of (db_redis_stat s') (conc_key ''AK'') = Some 1 \<and>
    \<not> (\<exists>a\<in>set (db_agents s'). a_id a = ''i'' \<and> slot_amt (a_occupied_slots a) ''cpu'' \<noteq> 1)"
proof -
  let ?r = "demo_kernel ''k'' ''k'' ''main'' RUNNING [(''cpu'', Fin 2)] (Some ''i'')"
  have h: "distinct (map k_id (db_kernels demo_two))" "fin_kernels demo_two" by code_simp+
  have r: "?r \<in> set (db_kernels demo_two)" by (simp add: demo_two_def demo_db_def)
  have st: "k_status ?r \<notin> {CANCELLED, TERMINATED, RESTARTING}" by code_simp
  have f: "k_id ?r = ''k''" "k_access_key ?r = ''AK''" "k_agent ?r = Some ''i''" "user_occupying ?r" "agent_occupying ?r"
    "slot_amt (k_occupied_slots ?r) ''cpu'' = 2" "sessions_counted ''AK'' demo_two = 2" "used_by (on_agent ''i'') demo_two ''cpu'' = 3"
    by code_simp+
  from kernel_end_releases[OF h(1) r h(2) st, of 9 "''self-terminated''" "Some 0", unfolded f] show ?thesis using f by fastforce
qed

section \<open>Dead kernels stay dead\<close>

text \<open>
  The operations on kernels that check the status they find.  \<open>set_session_status\<close> is called by
  \<open>handle_kernel_exception\<close> only, with a text and an error object.
\<close>

inductive life_step :: "db \<Rightarrow> db \<Rightarrow> bool" where
  kernel_terminated: "handle_kernel_terminated now kid reason ec s = (res, s') \<Longrightarrow> life_step s s'"
| session_error: "life_step s (set_session_status now sid ak ERROR []
    (\<lambda>r. r\<lparr>k_status_info := Some info, k_status_data := Some (JObj [(''error'', err)])\<rparr>) s)"
| session_result: "life_step s (set_session_result sid ok s)"
| kernel_stats: "life_step s (sync_kernel_stats kids s)"
| recalculation: "recalc_resource_usage fs s = Inr s' \<Longrightarrow> life_step s s'"

text \<open>
  \<open>status_data\<close> is NULL or an object, and so is its session entry; the kernel's session was
  announced as terminated.
\<close>

definition data_ok :: "kernel_row \<Rightarrow> bool" where
  "data_ok r \<longleftrightarrow> obj_or_null (k_status_data r) \<and> obj_or_null (col_path (k_status_data r) [''session''])"

definition marked_terminated :: "kernel_row \<Rightarrow> bool" where
  "marked_terminated r \<longleftrightarrow> nmget (col_json (k_status_data r)) [''session'', ''status''] = Inr (Some (JStr ''terminated''))"

lemma merge_object:
  assumes "obj_or_null col"
  obtains ob where "sql_json_merge col [k] obj = JObj ob"
    and "\<And>k'. map_of ob k' = (if k' = k then Some (jsonb_concat (coalesce_obj (col_path col [k])) obj) else col_path col [k'])"
proof -
  obtain top where top: "coalesce_obj col = JObj top" "\<And>k. map_of top k = Option.bind col (\<lambda>j. json_path j [k])"
    using obj_or_null_coalesce[OF assms] by blast
  have "coalesce_obj (col_path col []) = JObj top" using top(1) by (cases col) (simp_all add: col_path_def)
  then have "sql_json_merge col [k] obj = JObj (dict_merge top [(k, jsonb_concat (coalesce_obj (col_path col [k])) obj)])"
    by (simp add: sql_json_merge_def)
  with that show ?thesis using top(2) by (auto simp: map_of_dict_merge col_path_def)
qed

lemma session_values_marked: "data_ok r \<Longrightarrow> data_ok (session_values now r) \<and> marked_terminated (session_values now r)"
proof -
  assume "data_ok r"
  then have c: "obj_or_null (k_status_data r)" and p: "obj_or_null (col_path (k_status_data r) [''session''])" by (simp_all add: data_ok_def)
  obtain par where par: "coalesce_obj (col_path (k_status_data r) [''session'']) = JObj par" using obj_or_null_coalesce[OF p] by blast
  let ?new = "JObj [(''status'', JStr ''terminated'')]"
  obtain ob where ob: "sql_json_merge (k_status_data r) [''session''] ?new = JObj ob"
    "\<And>k. map_of ob k = (if k = ''session'' then Some (jsonb_concat (coalesce_obj (col_path (k_status_data r) [''session''])) ?new)
       else col_path (k_status_data r) [k])" by (rule merge_object[OF c, of "''session''" ?new], rule that)
  have "map_of ob ''session'' = Some (jsonb_concat (JObj par) ?new)" using ob(2)[of "''session''"] par by simp
  with ob(1) show ?thesis
    by (simp add: data_ok_def marked_terminated_def session_values_def col_json_def obj_or_null_def col_path_def map_of_dict_merge)
qed

lemma terminated_values_data: "data_ok r \<Longrightarrow> data_ok r'"
  if "k_status_data r' = k_status_data (terminated_values now reason ec r)"
proof -
  assume d: "data_ok r"
  then have c: "obj_or_null (k_status_data r)" by (simp add: data_ok_def)
  let ?new = "JObj [(''exit_code'', json_opt_int ec)]"
  obtain ob where m: "sql_json_merge (k_status_data r) [''kernel''] ?new = JObj ob"
    "\<And>k. map_of ob k = (if k = ''kernel'' then Some (jsonb_concat (coalesce_obj (col_path (k_status_data r) [''kernel''])) ?new)
       else col_path (k_status_data r) [k])" by (rule merge_object[OF c, of "''kernel''" ?new], rule that)
  have ob: "k_status_data r' = Some (JObj ob)" "map_of ob ''session'' = col_path (k_status_data r) [''session'']"
    using that m(1) m(2)[of "''session''"] by (simp_all add: terminated_values_def)
  have "col_path (k_status_data r') [''session''] = map_of ob ''session''"
    unfolding ob(1) by (simp add: col_path_def)
  with d ob show ?thesis by (simp add: data_ok_def obj_or_null_def)
qed

definition dead_kept :: "kernel_row \<Rightarrow> kernel_row \<Rightarrow> bool" where
  "dead_kept r r' \<longleftrightarrow> k_id r' = k_id r \<and> k_session_id r' = k_session_id r \<and> (data_ok r \<longrightarrow> data_ok r') \<and>
     (is_dead r \<longrightarrow> k_status r' = k_status r \<and> k_terminated_at r' = k_terminated_at r \<and>
        (data_ok r \<and> marked_terminated r \<longrightarrow> marked_terminated r'))"

lemma dead_kept_refl [simp]: "dead_kept r r"
  by (simp add: dead_kept_def)

lemma dead_kept_trans: "dead_kept a b \<Longrightarrow> dead_kept b c \<Longrightarrow> dead_kept a c"
  by (auto simp: dead_kept_def is_dead_def)

lemma dead_kept_list_trans: "list_all2 dead_kept xs ys \<Longrightarrow> list_all2 dead_kept ys zs \<Longrightarrow> list_all2 dead_kept xs zs"
  by (rule list_all2_trans[of dead_kept dead_kept dead_kept]) (rule dead_kept_trans)

lemma dead_kept_map: "(\<And>r. r \<in> set xs \<Longrightarrow> dead_kept r (f r)) \<Longrightarrow> list_all2 dead_kept xs (map f xs)"
  by (simp add: list.rel_map list.rel_refl_strong)

lemma dead_kept_refl_list [simp]: "list_all2 dead_kept xs xs"
  by (simp add: list.rel_refl)

lemma dead_kept_update:
  assumes "\<And>r. r \<in> set (db_kernels s) \<Longrightarrow> P r \<Longrightarrow> dead_kept r (f r)"
  shows "list_all2 dead_kept (db_kernels s) (db_kernels (update_kernels P f s))"
  unfolding update_kernels_def by (simp add: dead_kept_map assms)

lemma dead_kept_terminated:
  assumes "mark_kernel_terminated now kid reason ec s = (res, s')" and "distinct (map k_id (db_kernels s))"
  shows "list_all2 dead_kept (db_kernels s) (db_kernels s')"
  using assms(1)
proof (cases rule: mark_kernel_terminated_shape)
  case (2 g)
  from 2(7) obtain r0 where r0: "find_kernel s kid = Some r0" "k_status r0 \<notin> {CANCELLED, TERMINATED, RESTARTING}" by blast
  show ?thesis unfolding 2(1)
  proof (rule dead_kept_map)
    fix r assume r: "r \<in> set (db_kernels s)"
    show "dead_kept r (if k_id r = kid then g r else r)"
    proof (cases "k_id r = kid")
      case True
      with find_kernel_distinct[OF assms(2) r] r0 have "\<not> is_dead r" by (simp add: is_dead_def DEAD_KERNEL_STATUSES_def)
      with True 2(3) terminated_values_data[OF 2(6)] show ?thesis by (simp add: dead_kept_def keeps_kernel_def)
    qed simp
  qed
qed simp

lemma dead_kept_session: "dead_kept r (session_values now r)"
  using session_values_marked[of r now] by (simp add: dead_kept_def session_values_def)

lemma dead_kept_data: "k_id r' = k_id r \<Longrightarrow> k_session_id r' = k_session_id r \<Longrightarrow> k_status_data r' = k_status_data r \<Longrightarrow>
    k_status r' = k_status r \<Longrightarrow> k_terminated_at r' = k_terminated_at r \<Longrightarrow> dead_kept r r'"
  by (simp add: dead_kept_def data_ok_def marked_terminated_def)

lemma dead_kept_checked:
  "check_session_terminated now kid reason s = (res, s') \<Longrightarrow> list_all2 dead_kept (db_kernels s) (db_kernels s')"
  by (auto simp: check_session_terminated_def intro!: dead_kept_update dead_kept_session
      split: list.splits sum.splits if_splits)

lemma list_all2_ids: "list_all2 dead_kept xs ys \<Longrightarrow> map k_id ys = map k_id xs"
  by (induction xs ys rule: list_all2_induct) (simp_all add: dead_kept_def)

lemma sync_dead_kept: "list_all2 dead_kept (db_kernels s) (db_kernels (sync_kernel_stats kids s))"
proof -
  have "list_all2 dead_kept (db_kernels s) (db_kernels t) \<Longrightarrow>
      list_all2 dead_kept (db_kernels s) (db_kernels (fold (\<lambda>(kid, st). update_kernels (\<lambda>r. k_id r = kid) (\<lambda>r. r\<lparr>k_last_stat := Some st\<rparr>)) d t))" for d t
  proof (induction d arbitrary: t)
    case (Cons p d)
    have "list_all2 dead_kept (db_kernels t) (db_kernels (update_kernels (\<lambda>r. k_id r = fst p) (\<lambda>r. r\<lparr>k_last_stat := Some (snd p)\<rparr>) t))"
      by (rule dead_kept_update) (simp add: dead_kept_data)
    with Cons.prems have "list_all2 dead_kept (db_kernels s) (db_kernels (update_kernels (\<lambda>r. k_id r = fst p) (\<lambda>r. r\<lparr>k_last_stat := Some (snd p)\<rparr>) t))"
      by (rule dead_kept_list_trans)
    from Cons.IH[OF this] show ?case by (simp add: split_beta)
  qed simp
  then show ?thesis by (simp add: sync_kernel_stats_def)
qed

lemma life_step_dead_kept:
  assumes "life_step s s'" and "distinct (map k_id (db_kernels s))"
  shows "list_all2 dead_kept (db_kernels s) (db_kernels s')"
  using assms
proof (induction rule: life_step.induct)
  case (kernel_terminated now kid reason ec s res s')
  obtain res1 s1 where m: "mark_kernel_terminated now kid reason ec s = (res1, s1)" by fastforce
  note d = dead_kept_terminated[OF m kernel_terminated(2)]
  from kernel_terminated(1) m consider "s' = s1" | "check_session_terminated now kid reason s1 = (res, s')"
    by (auto simp: handle_kernel_terminated_def split: sum.splits)
  then show ?case using d dead_kept_list_trans[OF d dead_kept_checked] by cases auto
next
  case (session_error s now sid ak info err)
  show ?case unfolding set_session_status_def by (rule dead_kept_update) (simp add: dead_kept_def status_values_def data_ok_def obj_or_null_def col_path_def)
next
  case (session_result s sid ok)
  show ?case unfolding set_session_result_def by (rule dead_kept_update) (simp add: dead_kept_data)
next
  case (kernel_stats s kids)
  show ?case by (rule sync_dead_kept)
next
  case (recalculation fs s s')
  then show ?case using recalc_resource_usage_kernels by simp
qed

text \<open>
  C18: A kernel that is cancelled or terminated stays so: however often termination events arrive,
  sessions are put into the error state, results and statistics are recorded and the usage is
  recalculated, no dead kernel changes its status or its time of termination.
\<close>
theorem dead_stay_dead:
  assumes "life_step\<^sup>*\<^sup>* s s'" and "distinct (map k_id (db_kernels s))"
  shows "list_all2 (\<lambda>r r'. k_id r' = k_id r \<and>
      (is_dead r \<longrightarrow> k_status r' = k_status r \<and> k_terminated_at r' = k_terminated_at r)) (db_kernels s) (db_kernels s')"
proof -
  from assms have "list_all2 dead_kept (db_kernels s) (db_kernels s') \<and> distinct (map k_id (db_kernels s'))"
  proof (induction rule: rtranclp_induct)
    case (step t u)
    then have "list_all2 dead_kept (db_kernels t) (db_kernels u)" using life_step_dead_kept by blast
    with step.IH[OF step.prems] dead_kept_list_trans list_all2_ids show ?case by metis
  qed simp
  then have k: "list_all2 dead_kept (db_kernels s) (db_kernels s')" ..
  show ?thesis by (rule list.rel_mono_strong[OF k]) (simp add: dead_kept_def)
qed

theorem dead_stay_dead_witness:
  "map k_status (db_kernels (snd (handle_kernel_terminated 9 ''k'' ''late'' None
     (demo_db [demo_kernel ''k'' ''k'' ''main'' CANCELLED [] None] [])))) = [CANCELLED]"
proof -
  let ?s = "demo_db [demo_kernel ''k'' ''k'' ''main'' CANCELLED [] None] []"
  have "life_step\<^sup>*\<^sup>* ?s (snd (handle_kernel_terminated 9 ''k'' ''late'' None ?s))"
    by (rule r_into_rtranclp, rule kernel_terminated, rule prod.collapse[symmetric])
  moreover have "distinct (map k_id (db_kernels ?s))" by code_simp
  ultimately have "list_all2 (\<lambda>r r'. k_id r' = k_id r \<and> (is_dead r \<longrightarrow> k_status r' = k_status r \<and> k_terminated_at r' = k_terminated_at r))
      (db_kernels ?s) (db_kernels (snd (handle_kernel_terminated 9 ''k'' ''late'' None ?s)))" by (rule dead_stay_dead)
  moreover have k: "db_kernels ?s = [demo_kernel ''k'' ''k'' ''main'' CANCELLED [] None]" by (simp add: demo_db_def)
  moreover have "is_dead (demo_kernel ''k'' ''k'' ''main'' CANCELLED [] None)" "k_status (demo_kernel ''k'' ''k'' ''main'' CANCELLED [] None) = CANCELLED"
    by code_simp+
  ultimately show ?thesis unfolding k list_all2_Cons1 list_all2_Nil by auto
qed

section \<open>The end of a session is announced once\<close>

definition announces :: "string \<Rightarrow> event \<Rightarrow> bool" where
  "announces sid e = (case e of SessionTerminatedEvent i _ \<Rightarrow> i = sid | _ \<Rightarrow> False)"

definition announced :: "string \<Rightarrow> db \<Rightarrow> nat" where
  "announced sid s = length (filter (announces sid) (db_events s))"

definition once_inv :: "string \<Rightarrow> db \<Rightarrow> bool" where
  "once_inv sid s \<longleftrightarrow> distinct (map k_id (db_kernels s)) \<and> (\<forall>r\<in>set (db_kernels s). data_ok r) \<and>
     (announced sid s = 0 \<or> announced sid s = 1 \<and>
        (\<forall>r\<in>set (db_kernels s). k_session_id r = sid \<longrightarrow> is_dead r \<and> marked_terminated r))"

lemma once_inv_kept:
  assumes "once_inv sid s" and "list_all2 dead_kept (db_kernels s) (db_kernels s')" and "announced sid s' = announced sid s"
  shows "once_inv sid s'"
proof -
  have "data_ok r'" "k_session_id r' = sid \<Longrightarrow> announced sid s \<noteq> 0 \<Longrightarrow> is_dead r' \<and> marked_terminated r'"
    if mem: "r' \<in> set (db_kernels s')" for r'
  proof -
    obtain r where r: "r \<in> set (db_kernels s)" "dead_kept r r'" using all2_ball[OF assms(2) mem] by blast
    with assms(1) show "data_ok r'" by (simp add: once_inv_def dead_kept_def)
    show "is_dead r' \<and> marked_terminated r'" if "k_session_id r' = sid" "announced sid s \<noteq> 0"
      using assms(1) r that by (simp add: once_inv_def dead_kept_def is_dead_def)
  qed
  moreover have "distinct (map k_id (db_kernels s'))" using assms(1) list_all2_ids[OF assms(2)] by (simp add: once_inv_def)
  ultimately show ?thesis using assms(1,3) unfolding once_inv_def by simp blast
qed

lemma rows_of_session_set: "rows_of_session s kid = row # rows \<Longrightarrow> set (row # rows) = {r \<in> set (db_kernels s). k_session_id r = k_session_id row}"
proof -
  assume e: "rows_of_session s kid = row # rows"
  then obtain kern :: kernel_row where k: "filter (\<lambda>r. k_session_id r = k_session_id kern) (db_kernels s) = row # rows"
    by (auto simp: rows_of_session_def split: option.splits)
  then have "row \<in> set (filter (\<lambda>r. k_session_id r = k_session_id kern) (db_kernels s))" by (metis list.set_intros(1))
  then have "k_session_id row = k_session_id kern" by simp
  with k[symmetric] show ?thesis by simp
qed

lemma once_inv_checked:
  assumes "once_inv sid s" and c: "check_session_terminated now kid reason s = (res, s')"
  shows "once_inv sid s'"
proof (cases "s' = s")
  case False
  with c obtain row rows where rows: "rows_of_session s kid = row # rows"
    and nm: "\<not> marked_terminated row" and dead: "\<And>r. r \<in> set (row # rows) \<Longrightarrow> is_dead r"
    and s': "s' = produce_event (SessionTerminatedEvent (k_session_id row) reason)
        (update_kernels (\<lambda>r. k_session_id r = k_session_id row) (session_values now) s)"
    by (auto simp: check_session_terminated_def marked_terminated_def is_dead_def DEAD_KERNEL_STATUSES_def list_all_iff
        split: list.splits sum.splits if_splits)
  note kept = dead_kept_checked[OF c]
  note rs = rows_of_session_set[OF rows]
  show ?thesis
  proof (cases "k_session_id row = sid")
    case False
    then have "announced sid s' = announced sid s" by (simp add: s' announced_def announces_def produce_event_def)
    with once_inv_kept[OF assms(1) kept] show ?thesis .
  next
    case True
    have "row \<in> set (db_kernels s)" using rs by auto
    with nm True assms(1) have a0: "announced sid s = 0" by (auto simp: once_inv_def)
    then have a1: "announced sid s' = 1" using True by (simp add: s' announced_def announces_def produce_event_def)
    have "data_ok r'" "k_session_id r' = sid \<Longrightarrow> is_dead r' \<and> marked_terminated r'" if mem: "r' \<in> set (db_kernels s')" for r'
    proof -
      obtain r where r: "r \<in> set (db_kernels s)" "r' = (if k_session_id r = k_session_id row then session_values now r else r)"
        using mem by (auto simp: s' update_kernels_def)
      have d: "data_ok r" using assms(1) r(1) by (simp add: once_inv_def)
      with r session_values_marked show "data_ok r'" by simp
      show "is_dead r' \<and> marked_terminated r'" if "k_session_id r' = sid"
      proof -
        have "k_session_id r = k_session_id row" using that r(2) True by (simp add: session_values_def split: if_splits)
        moreover from this have "is_dead r" using dead rs r(1) by blast
        ultimately show ?thesis using r(2) session_values_marked[OF d, of now] by (simp add: is_dead_def session_values_def)
      qed
    qed
    moreover have "distinct (map k_id (db_kernels s'))" using assms(1) list_all2_ids[OF kept] by (simp add: once_inv_def)
    ultimately show ?thesis using a1 unfolding once_inv_def by simp
  qed
qed (use assms in simp)

lemma sync_events: "db_events (sync_kernel_stats kids s) = db_events s"
proof -
  have "db_events (fold (\<lambda>(kid, st). update_kernels (\<lambda>r. k_id r = kid) (\<lambda>r. r\<lparr>k_last_stat := Some st\<rparr>)) d t) = db_events t" for d t
    by (induction d arbitrary: t) auto
  then show ?thesis by (simp add: sync_kernel_stats_def)
qed

lemma recalc_resource_usage_rest:
  assumes "recalc_resource_usage fs s = Inr s'"
  shows "db_events s' = db_events s \<and> db_dependencies s' = db_dependencies s"
proof -
  let ?f = "\<lambda>(aid, sl). case aid of None \<Rightarrow> id | Some i \<Rightarrow> update_agent i (\<lambda>r. r\<lparr>a_occupied_slots := sl\<rparr>)"
  have "db_events (fold ?f d t) = db_events t \<and> db_dependencies (fold ?f d t) = db_dependencies t" for d t
    by (induction d arbitrary: t) (auto simp: update_agent_def split: option.splits)
  then have "db_events (set_all_agents d t) = db_events t \<and> db_dependencies (set_all_agents d t) = db_dependencies t" for d t
    by (simp add: set_all_agents_def Let_def)
  with assms show ?thesis by (cases fs) (auto simp: recalc_resource_usage_def redis_mset_def bindE_eq_Inr_iff Let_def)
qed

lemma life_step_once: "life_step s s' \<Longrightarrow> once_inv sid s \<Longrightarrow> once_inv sid s'"
proof (induction rule: life_step.induct)
  case (kernel_terminated now kid reason ec s res s')
  obtain res1 s1 where m: "mark_kernel_terminated now kid reason ec s = (res1, s1)" by fastforce
  have "distinct (map k_id (db_kernels s))" using kernel_terminated(2) by (simp add: once_inv_def)
  note d = dead_kept_terminated[OF m this]
  from m have "db_events s1 = db_events s" by (cases rule: mark_kernel_terminated_shape) auto
  then have "once_inv sid s1" by (intro once_inv_kept[OF kernel_terminated(2) d]) (simp add: announced_def)
  with kernel_terminated(1) m once_inv_checked show ?case
    by (auto simp: handle_kernel_terminated_def split: sum.splits)
next
  case (session_error s now sid' ak info err)
  show ?case
    by (rule once_inv_kept[OF session_error life_step_dead_kept[OF life_step.session_error]])
      (use session_error in \<open>simp_all add: once_inv_def announced_def set_session_status_def\<close>)
next
  case (session_result s sid' ok)
  show ?case
    by (rule once_inv_kept[OF session_result life_step_dead_kept[OF life_step.session_result]])
      (use session_result in \<open>simp_all add: once_inv_def announced_def set_session_result_def\<close>)
next
  case (kernel_stats s kids)
  show ?case
    by (rule once_inv_kept[OF kernel_stats life_step_dead_kept[OF life_step.kernel_stats]])
      (use kernel_stats in \<open>simp_all add: once_inv_def announced_def sync_events\<close>)
next
  case (recalculation fs s s')
  show ?case
    by (rule once_inv_kept[OF recalculation(2) life_step_dead_kept[OF life_step.recalculation[OF recalculation(1)]]])
      (use recalculation recalc_resource_usage_rest[OF recalculation(1)] in \<open>simp_all add: once_inv_def announced_def\<close>)
qed

text \<open>
  C17: The end of a session is announced at most once, and only when all its kernels are dead:
  from a state in which the status columns are well-formed and nothing was announced, whatever
  termination events arrive in whatever order, there is at most one \<open>SessionTerminatedEvent\<close> for a
  session, and once there is one every kernel of the session is dead.
\<close>
theorem session_end_announced_once:
  assumes "life_step\<^sup>*\<^sup>* s s'" and "distinct (map k_id (db_kernels s))" and "\<forall>r\<in>set (db_kernels s). data_ok r" and "announced sid s = 0"
  shows "announced sid s' \<le> 1 \<and> (announced sid s' = 1 \<longrightarrow> (\<forall>r\<in>set (db_kernels s'). k_session_id r = sid \<longrightarrow> is_dead r))"
proof -
  from assms(1) have "once_inv sid s'"
  proof (induction rule: rtranclp_induct)
    case base
    show ?case using assms(2-4) by (simp add: once_inv_def)
  qed (rule life_step_once)
  then show ?thesis by (auto simp: once_inv_def)
qed

theorem session_end_announced_once_witness:
  "announced ''k'' (snd (handle_kernel_terminated 9 ''k'' ''late'' None (snd (handle_kernel_terminated 8 ''k'' ''early'' None demo_two)))) = 1"
proof -
  let ?s = "snd (handle_kernel_terminated 8 ''k'' ''early'' None demo_two)" and ?h = "handle_kernel_terminated 9 ''k'' ''late'' None"
  have "life_step demo_two ?s" "life_step ?s (snd (?h ?s))" by (rule kernel_terminated, rule prod.collapse[symmetric])+
  then have "life_step\<^sup>*\<^sup>* demo_two (snd (?h ?s))" by simp
  moreover have "distinct (map k_id (db_kernels demo_two))" "\<forall>r\<in>set (db_kernels demo_two). data_ok r" "announced ''k'' demo_two = 0" by code_simp+
  ultimately have "announced ''k'' (snd (?h ?s)) \<le> 1" using session_end_announced_once by blast
  moreover have "announced ''k'' (snd (?h ?s)) \<noteq> 0" by code_simp
  ultimately show ?thesis by simp
qed

section \<open>A dead kernel that comes back\<close>

text \<open>
  \<open>set_kernel_status\<close> has no such check: a pulling event of an agent that arrives after the
  kernel was cancelled puts the dead kernel back among those that occupy the user's quota.
\<close>
theorem late_pulling_revives:
  "let s = demo_db [demo_kernel ''k'' ''k'' ''main'' CANCELLED [(''cpu'', Fin 2)] (Some ''i'')] [];
       s' = handle_kernel_creation_lifecycle 9 KernelPulling ''k'' ''pulling'' s
   in sessions_counted ''AK'' s = 0 \<and> map_sum id (\<lambda>t. map k_status (db_kernels t)) s' = Inr [PULLING] \<and>
      map_sum id (sessions_counted ''AK'') s' = Inr 1"
  unfolding Let_def by code_simp

end
