(* ===== verification/Destruction.thy ===== *)
theory Destruction
  imports Lifecycle
begin

text \<open>
  \<open>destroy_session\<close> of \<open>manager/registry.py\<close> with the exception handling around it, and the event
  handlers that call it.  The kernels are handled agent by agent, each in its own transaction, and
  the RPC calls are collected and made at the end; a call is recorded as agent, address and kernel
  ids.  The theorems say what happens to a session whose kernels all run, and show by example where
  the code leaves a session half destroyed or counts it down twice.
\<close>

section \<open>Destroying a session\<close>

definition DEFAULT_ROLE :: string where
  "DEFAULT_ROLE = ''main''"

text \<open>
  The answer to the client, the kernels collected for the current agent, and the database.
\<close>

type_synonym destroy_state = "(string, json) dict \<times> kernel_row list \<times> db"

definition incrby :: "string \<Rightarrow> int \<Rightarrow> db \<Rightarrow> db" where
  "incrby key n s = s\<lparr>db_redis_stat := dset (db_redis_stat s) key (dget_or (db_redis_stat s) key 0 + n)\<rparr>"

text \<open>Only the main kernel counts for the user's concurrency.\<close>

definition decr_concurrency :: "kernel_row \<Rightarrow> db \<Rightarrow> db" where
  "decr_concurrency kern s = (if k_cluster_role kern = DEFAULT_ROLE then incrby (conc_key (k_access_key kern)) (- 1) s else s)"

definition cancel_pending :: "int \<Rightarrow> string \<Rightarrow> kernel_row \<Rightarrow> db \<Rightarrow> db" where
  "cancel_pending now reason kern s =
     (let s1 = produce_event (KernelCancelledEvent (k_id kern) [] reason)
                 (update_kernels (\<lambda>r. k_id r = k_id kern) (status_values now CANCELLED reason) s)
      in if k_cluster_role kern = DEFAULT_ROLE
         then produce_event (SessionCancelledEvent (k_session_id kern) (k_session_creation_id kern) reason) s1 else s1)"

definition force_terminate :: "int \<Rightarrow> string \<Rightarrow> kernel_row \<Rightarrow> db \<Rightarrow> db" where
  "force_terminate now reason kern s =
     (let s1 = decr_concurrency kern s
      in produce_event (KernelTerminatedEvent (k_id kern) reason)
           (update_kernels (\<lambda>r. k_id r = k_id kern) (\<lambda>r. with_stat s (status_values now TERMINATED reason r)) s1))"

definition terminating_values :: "int \<Rightarrow> string \<Rightarrow> kernel_row \<Rightarrow> kernel_row" where
  "terminating_values now reason r =
     (status_values now TERMINATING reason r)\<lparr>k_status_data :=
        Some (JObj [(''kernel'', JObj [(''exit_code'', JNull)]), (''session'', JObj [(''status'', JStr ''terminating'')])])\<rparr>"

definition begin_termination :: "int \<Rightarrow> string \<Rightarrow> kernel_row \<Rightarrow> db \<Rightarrow> db" where
  "begin_termination now reason kern s =
     produce_event (KernelTerminatingEvent (k_id kern) reason)
       (update_kernels (\<lambda>r. k_id r = k_id kern) (terminating_values now reason) (decr_concurrency kern s))"

text \<open>The branches on the status the kernel had when the session was fetched.\<close>

definition destroy_by_status :: "int \<Rightarrow> bool \<Rightarrow> string \<Rightarrow> kernel_row \<Rightarrow> destroy_state \<Rightarrow> destroy_state res" where
  "destroy_by_status now forced reason kern st =
     (case st of (main_stat, destroyed_kernels, s) \<Rightarrow>
        if k_status kern = PENDING then
          Inr (if k_cluster_role kern = DEFAULT_ROLE then [(''status'', JStr ''cancelled'')] else main_stat,
               destroyed_kernels, cancel_pending now reason kern s)
        else if k_status kern = PULLING then Inl GenericForbidden
        else if k_status kern \<in> {SCHEDULED, PREPARING, TERMINATING, ERROR} then
          (if \<not> forced then Inl GenericForbidden
           else Inr (main_stat, if k_container_id kern \<noteq> None then destroyed_kernels @ [kern] else destroyed_kernels,
                     force_terminate now reason kern s))
        else Inr (main_stat, destroyed_kernels, begin_termination now reason kern s))"

definition destroy_kernel :: "int \<Rightarrow> bool \<Rightarrow> string \<Rightarrow> kernel_row \<Rightarrow> destroy_state \<Rightarrow> unit res \<times> destroy_state" where
  "destroy_kernel now forced reason kern st =
     (case destroy_by_status now forced reason kern st of
        Inl e \<Rightarrow> (Inl e, st)
      | Inr (main_stat, destroyed_kernels, s) \<Rightarrow>
          (case k_agent_addr kern of
             None \<Rightarrow>
               (case mark_kernel_terminated now (k_id kern) ''missing-agent-allocation'' None s of
                  (Inl e, s1) \<Rightarrow> (Inl e, (main_stat, destroyed_kernels, s1))
                | (Inr _, s1) \<Rightarrow>
                    (Inr (), (if k_cluster_role kern = DEFAULT_ROLE then [(''status'', JStr ''terminated'')] else main_stat,
                              destroyed_kernels, s1)))
           | Some _ \<Rightarrow> (Inr (), (main_stat, destroyed_kernels @ [kern], s))))"

fun destroy_kernels :: "int \<Rightarrow> bool \<Rightarrow> string \<Rightarrow> kernel_row list \<Rightarrow> destroy_state \<Rightarrow> unit res \<times> destroy_state" where
  "destroy_kernels now forced reason [] st = (Inr (), st)"
| "destroy_kernels now forced reason (kern # kerns) st =
     (case destroy_kernel now forced reason kern st of
        (Inl e, st1) \<Rightarrow> (Inl e, st1)
      | (Inr _, st1) \<Rightarrow> destroy_kernels now forced reason kerns st1)"

text \<open>The agents one after another; each with kernels to destroy gives a task that runs at the end.\<close>

fun destroy_agents :: "int \<Rightarrow> bool \<Rightarrow> string \<Rightarrow> (string \<times> kernel_row list) list \<Rightarrow> (string, json) dict \<Rightarrow> db \<Rightarrow>
    ((string, json) dict \<times> kernel_row list list) res \<times> db" where
  "destroy_agents now forced reason [] main_stat s = (Inr (main_stat, []), s)"
| "destroy_agents now forced reason ((agent_id, grouped_kernels) # groups) main_stat s =
     (case destroy_kernels now forced reason grouped_kernels (main_stat, [], s) of
        (Inl e, (_, _, s1)) \<Rightarrow> (Inl e, s1)
      | (Inr _, (main_stat1, destroyed_kernels, s1)) \<Rightarrow>
          (case destroy_agents now forced reason groups main_stat1 s1 of
             (Inl e, s2) \<Rightarrow> (Inl e, s2)
           | (Inr (main_stat2, tasks), s2) \<Rightarrow>
               (Inr (main_stat2, if destroyed_kernels = [] then tasks else destroyed_kernels # tasks), s2)))"

definition agent_key :: "kernel_row \<Rightarrow> string" where
  "agent_key r = (case k_agent r of Some a \<Rightarrow> a | None \<Rightarrow> [])"

text \<open>
  An RPC call names agent, address and the kernels to destroy.  \<open>connects\<close> tells whether the agent
  can be reached; errors of the calls are logged and dropped.
\<close>

type_synonym destroy_call = "string option \<times> string option \<times> string list"

definition destroy_task :: "kernel_row list \<Rightarrow> destroy_call" where
  "destroy_task ks = (k_agent (hd ks), k_agent_addr (hd ks), map k_id (filter (\<lambda>k. k_status k \<noteq> SCHEDULED) ks))"

definition task_stat :: "db \<Rightarrow> kernel_row list \<Rightarrow> (string, json) dict \<Rightarrow> (string, json) dict" where
  "task_stat s ks main_stat =
     fold (\<lambda>k ms. if k_cluster_role k = DEFAULT_ROLE
             then dset (case map_of (db_kernel_stats s) (k_id k) of Some (JObj st) \<Rightarrow> dset st ''version'' (JInt 2) | _ \<Rightarrow> [])
                    ''status'' (JStr ''terminated'')
             else ms) ks main_stat"

definition run_tasks :: "(destroy_call \<Rightarrow> bool) \<Rightarrow> db \<Rightarrow> kernel_row list list \<Rightarrow> (string, json) dict \<Rightarrow>
    (string, json) dict \<times> destroy_call list" where
  "run_tasks connects s tasks main_stat =
     fold (\<lambda>ks (ms, calls). if connects (destroy_task ks) then (task_stat s ks ms, calls @ [destroy_task ks]) else (ms, calls))
       tasks (main_stat, [])"

definition is_backend_error :: "py_exc \<Rightarrow> bool" where
  "is_backend_error e \<longleftrightarrow> e \<in> {GenericBadRequest, GenericForbidden, RejectedByHook, SessionNotFound, InstanceNotAvailable, TooManySessionsMatched,
     TooManyKernelsFound, SessionAlreadyExists, QuotaExceeded, InvalidAPIParameters, ScalingGroupNotFound, ImageNotFound, BackendError,
     UnknownImageReferenceError, InternalServerError, InvalidAuthParameters, AuthorizationFailed, InvalidCredentials, InsufficientPrivilege,
     ObjectNotFound, TaskTemplateNotFound, VFolderNotFound, TooManyVFoldersFound, VFolderCreationFailed, VFolderAlreadyExists,
     VFolderOperationFailed, VFolderFilterStatusFailed, VFolderFilterStatusNotAvailable, StorageProxyError}"

text \<open>\<open>handle_kernel_exception\<close> with \<open>set_error\<close> and without callbacks.\<close>

definition handle_kernel_exception :: "sched_env \<Rightarrow> string \<Rightarrow> string \<Rightarrow> 'a res \<times> 'b \<times> db \<Rightarrow> 'a res \<times> 'b \<times> db" where
  "handle_kernel_exception env session_id access_key out =
     (case out of
        (Inl e, c, s) \<Rightarrow>
          if is_backend_error e then out
          else (Inl e, c, set_session_status (se_now env) session_id access_key ERROR []
                  (\<lambda>r. r\<lparr>k_status_info := Some (''other-error ('' @ se_repr env e @ '')''),
                         k_status_data := Some (JObj [(''error'', JObj [(''src'', JStr ''other''), (''name'', JStr (exc_name e)),
                           (''repr'', JStr (se_repr env e))])])\<rparr>) s)
      | _ \<Rightarrow> out)"

definition get_session_by_session_id :: "string \<Rightarrow> db \<Rightarrow> kernel_row res" where
  "get_session_by_session_id session_id s =
     (case find (\<lambda>r. k_session_id r = session_id \<and> k_cluster_role r = DEFAULT_ROLE) (db_kernels s) of
        None \<Rightarrow> Inl SessionNotFound
      | Some r \<Rightarrow> Inr r)"

definition destroy_body :: "sched_env \<Rightarrow> (destroy_call \<Rightarrow> bool) \<Rightarrow> bool \<Rightarrow> string \<Rightarrow> kernel_row \<Rightarrow> db \<Rightarrow>
    (string, json) dict res \<times> destroy_call list \<times> db" where
  "destroy_body env connects forced reason session s =
     (let kernel_list = filter (\<lambda>r. k_session_id r = k_id session) (db_kernels s)
      in case destroy_agents (se_now env) forced reason (groupby agent_key (sort_key agent_key kernel_list)) [] s of
           (Inl e, s1) \<Rightarrow> (Inl e, [], s1)
         | (Inr (main_stat, tasks), s1) \<Rightarrow>
             (case run_tasks connects s1 tasks main_stat of (main_stat1, calls) \<Rightarrow>
                if forced then
                  (case recalc_resource_usage False s1 of
                     Inl e \<Rightarrow> (Inl e, calls, s1)
                   | Inr s2 \<Rightarrow> (Inr main_stat1, calls, s2))
                else (Inr main_stat1, calls, s1)))"

text \<open>\<open>hook\<close> tells whether the PRE_DESTROY_SESSION hooks agree.\<close>

definition destroy_session :: "sched_env \<Rightarrow> (kernel_row \<Rightarrow> bool) \<Rightarrow> (destroy_call \<Rightarrow> bool) \<Rightarrow> string \<Rightarrow> bool \<Rightarrow> string \<Rightarrow> db \<Rightarrow>
    (string, json) dict res \<times> destroy_call list \<times> db" where
  "destroy_session env hook connects session_id forced reason s =
     (case get_session_by_session_id session_id s of
        Inl e \<Rightarrow> (Inl e, [], s)
      | Inr session \<Rightarrow>
          (let reason = (if reason \<noteq> [] then reason else if forced then ''force-terminated'' else ''user-requested'')
           in if \<not> hook session then (Inl RejectedByHook, [], s)
              else handle_kernel_exception env (k_id session) (k_access_key session)
                     (destroy_body env connects forced reason session s)))"

definition handle_destroy_session :: "sched_env \<Rightarrow> (kernel_row \<Rightarrow> bool) \<Rightarrow> (destroy_call \<Rightarrow> bool) \<Rightarrow> string \<Rightarrow> string \<Rightarrow> db \<Rightarrow>
    (string, json) dict res \<times> destroy_call list \<times> db" where
  "handle_destroy_session env hook connects session_id reason s =
     destroy_session env hook connects session_id False (if reason \<noteq> [] then reason else ''killed-by-event'') s"

definition handle_batch_result :: "sched_env \<Rightarrow> (kernel_row \<Rightarrow> bool) \<Rightarrow> (destroy_call \<Rightarrow> bool) \<Rightarrow> string \<Rightarrow> bool \<Rightarrow> db \<Rightarrow>
    (string, json) dict res \<times> destroy_call list \<times> db" where
  "handle_batch_result env hook connects session_id success s =
     destroy_session env hook connects session_id False ''task-finished'' (set_session_result session_id success s)"

section \<open>Destroying a running session\<close>

text \<open>A kernel that the last branch handles and that has an agent to talk to.\<close>

definition can_end :: "kernel_row \<Rightarrow> bool" where
  "can_end r \<longleftrightarrow> k_status r \<notin> {PENDING, PULLING, SCHEDULED, PREPARING, TERMINATING, ERROR} \<and> k_agent_addr r \<noteq> None"

lemma destroy_kernels_running:
  "list_all can_end ks \<Longrightarrow> destroy_kernels now forced reason ks (ms, dk, s) = (Inr (), (ms, dk @ ks, fold (begin_termination now reason) ks s))"
proof (induction ks arbitrary: dk s)
  case (Cons k ks)
  then have "destroy_kernel now forced reason k (ms, dk, s) = (Inr (), (ms, dk @ [k], begin_termination now reason k s))"
    by (auto simp: can_end_def destroy_kernel_def destroy_by_status_def)
  with Cons show ?case by simp
qed simp

lemma destroy_agents_running:
  "\<forall>(i, ks)\<in>set gs. ks \<noteq> [] \<and> list_all can_end ks \<Longrightarrow>
     destroy_agents now forced reason gs ms s = (Inr (ms, map snd gs), fold (begin_termination now reason) (concat (map snd gs)) s)"
proof (induction gs arbitrary: s)
  case (Cons g gs)
  obtain i ks where g: "g = (i, ks)" by (cases g)
  with Cons.prems have "list_all can_end ks" "ks \<noteq> []" by auto
  with Cons g show ?case by (simp add: destroy_kernels_running)
qed simp

lemma terminating_fields [simp]:
  "k_id (terminating_values now reason r) = k_id r" "k_session_id (terminating_values now reason r) = k_session_id r"
  "k_status (terminating_values now reason r) = TERMINATING" "k_result (terminating_values now reason r) = k_result r"
  by (simp_all add: terminating_values_def status_values_def)

lemma begin_termination_fold_kernels:
  "distinct (map k_id ks) \<Longrightarrow> db_kernels (fold (begin_termination now reason) ks s) =
     map (\<lambda>r. if k_id r \<in> k_id ` set ks then terminating_values now reason r else r) (db_kernels s)"
proof (induction ks arbitrary: s)
  case (Cons k ks)
  have "db_kernels (begin_termination now reason k s) = map (\<lambda>r. if k_id r = k_id k then terminating_values now reason r else r) (db_kernels s)"
    by (simp add: begin_termination_def decr_concurrency_def incrby_def update_kernels_def)
  with Cons show ?case by auto
qed simp

lemma begin_termination_counter:
  "dget_or (db_redis_stat (begin_termination now reason k s)) (conc_key ak) 0 =
     dget_or (db_redis_stat s) (conc_key ak) 0 - (if k_cluster_role k = DEFAULT_ROLE \<and> k_access_key k = ak then 1 else 0)"
  by (simp add: begin_termination_def decr_concurrency_def incrby_def dget_or_def update_conv)

lemma begin_termination_fold_counter:
  "dget_or (db_redis_stat (fold (begin_termination now reason) ks s)) (conc_key ak) 0 =
     dget_or (db_redis_stat s) (conc_key ak) 0 - int (length (filter (\<lambda>k. k_cluster_role k = DEFAULT_ROLE \<and> k_access_key k = ak) ks))"
  by (induction ks arbitrary: s) (simp_all add: begin_termination_counter)

lemma run_tasks_all:
  "\<forall>c. connects c \<Longrightarrow> \<exists>ms'. run_tasks connects s tasks ms = (ms', map destroy_task tasks)"
proof -
  assume "\<forall>c. connects c"
  then have c: "connects c" for c by blast
  have "\<exists>ms'. fold (\<lambda>ks (ms, calls). if connects (destroy_task ks) then (task_stat s ks ms, calls @ [destroy_task ks]) else (ms, calls))
      tasks (ms, cs) = (ms', cs @ map destroy_task tasks)" for cs
  proof (induction tasks arbitrary: ms cs)
    case (Cons ks tasks)
    show ?case using Cons[of "task_stat s ks ms" "cs @ [destroy_task ks]"] by (simp add: c)
  qed simp
  from this[of "[]"] show ?thesis by (simp add: run_tasks_def)
qed

lemma destroy_tasks_ids:
  "\<forall>ks\<in>set tasks. list_all can_end ks \<Longrightarrow> concat (map (\<lambda>(_, _, ids). ids) (map destroy_task tasks)) = map k_id (concat tasks)"
proof (induction tasks)
  case (Cons ks tasks)
  then have "filter (\<lambda>k. k_status k \<noteq> SCHEDULED) ks = ks" by (auto simp: filter_id_conv list_all_iff can_end_def)
  with Cons show ?case by (simp add: destroy_task_def)
qed simp

text \<open>
  C19: Destroying a session whose kernels all run: the call succeeds, each of its kernels is asked
  to be destroyed exactly once, exactly the kernels of the session are TERMINATING afterwards and
  every other row is as before, and each keypair's session counter goes down by the number of main
  kernels of the session it owns.
\<close>
theorem destroy_running_session:
  assumes "get_session_by_session_id sid s = Inr session" and "k_id session = sid" and "hook session" and "\<forall>c. connects c"
    and "distinct (map k_id (db_kernels s))" and "\<forall>r\<in>set (db_kernels s). k_session_id r = sid \<longrightarrow> can_end r"
    and "destroy_session env hook connects sid False reason s = (res, calls, s')"
  shows "(\<exists>ms. res = Inr ms) \<and>
    mset (concat (map (\<lambda>(_, _, ids). ids) calls)) = mset (map k_id (filter (\<lambda>r. k_session_id r = sid) (db_kernels s))) \<and>
    list_all2 (\<lambda>r r'. if k_session_id r = sid then k_id r' = k_id r \<and> k_status r' = TERMINATING else r' = r) (db_kernels s) (db_kernels s') \<and>
    dget_or (db_redis_stat s') (conc_key ak) 0 = dget_or (db_redis_stat s) (conc_key ak) 0 -
      int (length (filter (\<lambda>r. k_session_id r = sid \<and> k_cluster_role r = DEFAULT_ROLE \<and> k_access_key r = ak) (db_kernels s)))"
proof -
  let ?ks = "filter (\<lambda>r. k_session_id r = sid) (db_kernels s)"
  let ?gs = "groupby agent_key (sort_key agent_key ?ks)"
  let ?reason = "if reason \<noteq> [] then reason else if False then ''force-terminated'' else ''user-requested''"
  let ?all = "sort_key agent_key ?ks"
  have cc: "concat (map snd ?gs) = ?all" by (rule groupby_concat)
  have can: "list_all can_end ?all" using assms(6) by (simp add: list_all_iff)
  have gs: "\<forall>(i, ks)\<in>set ?gs. ks \<noteq> [] \<and> list_all can_end ks"
  proof (intro ballI, clarify)
    fix i ks assume g: "(i, ks) \<in> set ?gs"
    have "set ks \<subseteq> set (concat (map snd ?gs))" using g by force
    then have "list_all can_end ks" using can unfolding cc list_all_iff by blast
    then show "ks \<noteq> [] \<and> list_all can_end ks" using groupby_nonempty[OF g] by simp
  qed
  let ?s' = "fold (begin_termination (se_now env) ?reason) ?all s"
  obtain ms' where ms': "run_tasks connects ?s' (map snd ?gs) [] = (ms', map destroy_task (map snd ?gs))" using run_tasks_all[OF assms(4)] by blast
  have "destroy_session env hook connects sid False reason s = (Inr ms', map destroy_task (map snd ?gs), ?s')"
    using assms(1-3) destroy_agents_running[OF gs, of "se_now env" False ?reason "[]" s] ms' unfolding cc
    by (simp add: destroy_session_def destroy_body_def handle_kernel_exception_def Let_def)
  then have out: "res = Inr ms'" "calls = map destroy_task (map snd ?gs)" "s' = ?s'" using assms(7) by simp_all
  have "mset (concat (map (\<lambda>(_, _, ids). ids) calls)) = mset (map k_id ?ks)"
    unfolding out(2) using destroy_tasks_ids[of "map snd ?gs"] gs unfolding cc by force
  moreover have "list_all2 (\<lambda>r r'. if k_session_id r = sid then k_id r' = k_id r \<and> k_status r' = TERMINATING else r' = r) (db_kernels s) (db_kernels s')"
  proof -
    have "distinct (map k_id ?all)" using assms(5) by (simp add: distinct_map inj_on_def)
    from begin_termination_fold_kernels[OF this, of "se_now env" ?reason s]
    have "db_kernels s' = map (\<lambda>r. if k_id r \<in> k_id ` set ?ks then terminating_values (se_now env) ?reason r else r) (db_kernels s)"
      unfolding out(3) by simp
    moreover have "k_id r \<in> k_id ` set ?ks \<longleftrightarrow> k_session_id r = sid" if "r \<in> set (db_kernels s)" for r
      using that assms(5) by (auto simp: distinct_map inj_on_def)
    ultimately show ?thesis by (simp add: list.rel_map list.rel_refl_strong)
  qed
  moreover have "length (filter (\<lambda>k. k_cluster_role k = DEFAULT_ROLE \<and> k_access_key k = ak) ?all) =
      length (filter (\<lambda>r. k_session_id r = sid \<and> k_cluster_role r = DEFAULT_ROLE \<and> k_access_key r = ak) (db_kernels s))"
    by (simp add: filter_sort conj_ac cong: conj_cong)
  ultimately show ?thesis using out begin_termination_fold_counter[of "se_now env" ?reason ?all s ak] by simp
qed


text \<open>Kernels placed on an agent, for the examples.\<close>

definition demo_placed :: "string \<Rightarrow> string \<Rightarrow> string \<Rightarrow> kernel_status \<Rightarrow> string \<Rightarrow> kernel_row" where
  "demo_placed i sid role st ag = demo_kernel i sid role st [(''cpu'', Fin 1)] (Some ag)\<lparr>k_agent_addr := Some ''tcp'', k_container_id := Some ''c''\<rparr>"

definition demo_pair :: db where
  "demo_pair = demo_db [demo_placed ''k'' ''k'' ''main'' RUNNING ''j'', demo_placed ''l'' ''k'' ''sub'' RUNNING ''i'',
     demo_placed ''x'' ''x'' ''main'' RUNNING ''i''] []"

theorem destroy_running_session_witness:
  "\<exists>ms calls s'. destroy_session demo_env (\<lambda>_. True) (\<lambda>_. True) ''k'' False [] demo_pair = (Inr ms, calls, s') \<and>
     mset (concat (map (\<lambda>(_, _, ids). ids) calls)) = {#''k'', ''l''#} \<and> dget_or (db_redis_stat s') (conc_key ''AK'') 0 = 4"
proof -
  obtain res calls s' where out: "destroy_session demo_env (\<lambda>_. True) (\<lambda>_. True) ''k'' False [] demo_pair = (res, calls, s')"
    by (metis prod_cases3)
  have h: "get_session_by_session_id ''k'' demo_pair = Inr (demo_placed ''k'' ''k'' ''main'' RUNNING ''j'')"
    "k_id (demo_placed ''k'' ''k'' ''main'' RUNNING ''j'') = ''k''"
    by (simp_all add: get_session_by_session_id_def demo_pair_def demo_db_def demo_placed_def demo_kernel_def DEFAULT_ROLE_def)
  have d: "distinct (map k_id (db_kernels demo_pair))" "\<forall>r\<in>set (db_kernels demo_pair). k_session_id r = ''k'' \<longrightarrow> can_end r" by code_simp+
  have v: "map k_id (filter (\<lambda>r. k_session_id r = ''k'') (db_kernels demo_pair)) = [''k'', ''l'']"
    "dget_or (db_redis_stat demo_pair) (conc_key ''AK'') 0 = 5"
    "length (filter (\<lambda>r. k_session_id r = ''k'' \<and> k_cluster_role r = DEFAULT_ROLE \<and> k_access_key r = ''AK'') (db_kernels demo_pair)) = 1"
    by code_simp+
  have t: "(\<lambda>_ :: kernel_row. True) (demo_placed ''k'' ''k'' ''main'' RUNNING ''j'')" "\<forall>c. (\<lambda>_ :: destroy_call. True) c" by simp_all
  from destroy_running_session[OF h t d out, of "''AK''", unfolded v] out show ?thesis by auto
qed

section \<open>Where a destruction goes wrong\<close>

text \<open>
  The kernels of a session are updated one after another before the RPC calls are made: when a
  later kernel is being pulled, the call is refused with the earlier kernels already TERMINATING and
  nobody told to destroy them.
\<close>
theorem destroy_half_done:
  "let s = demo_db [demo_placed ''k'' ''k'' ''main'' RUNNING ''i'', demo_placed ''l'' ''k'' ''sub'' PULLING ''j''] [];
       out = destroy_session demo_env (\<lambda>_. True) (\<lambda>_. True) ''k'' False [] s
   in map_sum id (\<lambda>_. ()) (fst out) = Inl GenericForbidden \<and> fst (snd out) = [] \<and>
      map k_status (db_kernels (snd (snd out))) = [TERMINATING, PULLING]"
  unfolding Let_def by code_simp

text \<open>
  A session that is destroyed twice is counted down twice: the counter of a keypair whose only
  session is forced to terminate while it is terminating ends at minus one, with the destruction of
  its kernel requested twice; and destroying a session that has terminated already brings its kernel
  back to TERMINATING and counts down as well.
\<close>
theorem destroy_twice_undercounts:
  "let once = (\<lambda>forced s. destroy_session demo_env (\<lambda>_. True) (\<lambda>_. True) ''k'' forced [] s);
       s = demo_db [demo_placed ''k'' ''k'' ''main'' RUNNING ''i''] []\<lparr>db_redis_stat := [(conc_key ''AK'', 1)]\<rparr>;
       out = once True (snd (snd (once False s)));
       t = demo_db [demo_placed ''k'' ''k'' ''main'' TERMINATED ''i''] []\<lparr>db_redis_stat := [(conc_key ''AK'', 0)]\<rparr>
   in map k_status (db_kernels (snd (snd out))) = [TERMINATED] \<and> concat (map (\<lambda>(_, _, ids). ids) (fst (snd out))) = [''k'', ''k''] \<and>
      map_of (db_redis_stat (snd (snd out))) (conc_key ''AK'') = Some (- 1) \<and>
      map k_status (db_kernels (snd (snd (once False t)))) = [TERMINATING] \<and>
      map_of (db_redis_stat (snd (snd (once False t)))) (conc_key ''AK'') = Some (- 1)"
  unfolding Let_def by code_simp

section \<open>Dependencies on sessions of several containers\<close>

text \<open>What the dependency check sees of the database.\<close>

definition results_view :: "db \<Rightarrow> (string \<times> string \<times> string \<times> session_result) list \<times> (string \<times> string) list" where
  "results_view s = (map (\<lambda>r. (k_id r, k_session_id r, k_session_name r, k_result r)) (db_kernels s), db_dependencies s)"

lemma view_update:
  assumes "\<And>r. k_id (f r) = k_id r \<and> k_session_id (f r) = k_session_id r \<and> k_session_name (f r) = k_session_name r \<and> k_result (f r) = k_result r"
  shows "results_view (update_kernels P f s) = results_view s"
  by (simp add: results_view_def update_kernels_def comp_def if_distrib assms cong: if_cong)

lemma view_event [simp]: "results_view (produce_event e s) = results_view s"
  by (simp add: results_view_def produce_event_def)

lemma view_decr [simp]: "results_view (decr_concurrency k s) = results_view s"
  by (simp add: results_view_def decr_concurrency_def incrby_def)

lemma view_recalc_agent: "recalc_kernel_agent ag s = Inr s' \<Longrightarrow> results_view s' = results_view s"
  by (auto simp: results_view_def recalc_kernel_agent_def recalc_agent_resource_occupancy_def update_agent_def bindE_eq_Inr_iff split: option.splits)

lemma view_mark_terminated:
  assumes "mark_kernel_terminated now kid reason ec s = (res, s')"
  shows "results_view s' = results_view s"
proof -
  have f: "results_view (update_kernels P (\<lambda>r. with_stat t (terminated_values now reason ec r)) s) = results_view s" for P t
    by (rule view_update) (simp add: with_stat_def terminated_values_def split: option.splits)
  have c: "results_view (recalc_concurrency_used ak t) = results_view t" for ak t
    by (simp add: results_view_def recalc_concurrency_used_def)
  have y: "results_view (sync_kernel_stats [kid] t) = results_view t" for t
    by (simp add: sync_one view_update split: option.splits)
  show ?thesis using assms f c y view_recalc_agent
    by (auto simp: mark_kernel_terminated_def Let_def split: option.splits if_splits sum.splits)
qed

lemma view_by_status:
  "destroy_by_status now forced reason k (ms, dk, s) = Inr (ms', dk', s') \<Longrightarrow> results_view s' = results_view s"
proof -
  have "results_view (update_kernels P (\<lambda>r. with_stat t (status_values now st reason r)) u) = results_view u"
    "results_view (update_kernels P (status_values now st reason) u) = results_view u"
    "results_view (update_kernels P (terminating_values now reason) u) = results_view u" for P t u st
    by (rule view_update, simp add: with_stat_def terminating_values_def status_values_def Let_def split: option.splits)+
  then show "destroy_by_status now forced reason k (ms, dk, s) = Inr (ms', dk', s') \<Longrightarrow> results_view s' = results_view s"
    by (auto simp: destroy_by_status_def cancel_pending_def force_terminate_def begin_termination_def Let_def split: if_splits)
qed

lemma view_destroy_kernel:
  "destroy_kernel now forced reason k (ms, dk, s) = (res, (ms', dk', s')) \<Longrightarrow> results_view s' = results_view s"
  by (auto simp: destroy_kernel_def split: sum.splits option.splits prod.splits dest!: view_by_status view_mark_terminated)

lemma view_destroy_kernels:
  "destroy_kernels now forced reason ks (ms, dk, s) = (res, (ms', dk', s')) \<Longrightarrow> results_view s' = results_view s"
proof (induction ks arbitrary: ms dk s)
  case (Cons k ks)
  obtain res1 ms1 dk1 s1 where k: "destroy_kernel now forced reason k (ms, dk, s) = (res1, (ms1, dk1, s1))" by (metis prod_cases4)
  with Cons.prems Cons.IH[of ms1 dk1 s1] view_destroy_kernel[OF k] show ?case by (auto split: sum.splits)
qed simp

lemma view_destroy_agents: "destroy_agents now forced reason gs ms s = (res, s') \<Longrightarrow> results_view s' = results_view s"
proof (induction gs arbitrary: ms s res s')
  case (Cons g gs)
  obtain i ks where g: "g = (i, ks)" by (cases g)
  obtain res1 ms1 dk1 s1 where k: "destroy_kernels now forced reason ks (ms, [], s) = (res1, (ms1, dk1, s1))" by (metis prod_cases4)
  obtain res2 s2 where a: "destroy_agents now forced reason gs ms1 s1 = (res2, s2)" by fastforce
  from Cons.prems g k a Cons.IH[OF a] view_destroy_kernels[OF k] show ?case by (auto split: sum.splits)
qed simp

lemma view_recalc_usage: "recalc_resource_usage fs s = Inr s' \<Longrightarrow> results_view s' = results_view s"
  using recalc_resource_usage_kernels[of fs s s'] recalc_resource_usage_rest[of fs s s'] by (simp add: results_view_def)

lemma view_destroy_body:
  assumes "destroy_body env connects forced reason session s = (res, calls, s')"
  shows "results_view s' = results_view s"
  using assms by (auto simp: destroy_body_def Let_def split: prod.splits sum.splits if_splits dest!: view_destroy_agents view_recalc_usage)

lemma view_exception: "results_view (snd (snd (handle_kernel_exception env i ak out))) = results_view (snd (snd out))"
proof -
  have e: "results_view (set_session_status now i ak st x (\<lambda>r. r\<lparr>k_status_info := a, k_status_data := b\<rparr>) t) = results_view t" for now st x a b t
    unfolding set_session_status_def by (rule view_update) (simp add: status_values_def Let_def)
  show ?thesis by (auto simp: handle_kernel_exception_def e split: prod.splits sum.splits)
qed

lemma view_destroy_session:
  assumes "destroy_session env hook connects sid forced reason s = (res, calls, s')"
  shows "results_view s' = results_view s"
proof -
  show ?thesis
  proof (cases "get_session_by_session_id sid s")
    case (Inr session)
    let ?reason = "if reason \<noteq> [] then reason else if forced then ''force-terminated'' else ''user-requested''"
    obtain res1 calls1 s1 where b: "destroy_body env connects forced ?reason session s = (res1, calls1, s1)" by (metis prod_cases3)
    show ?thesis
    proof (cases "hook session")
      case True
      then have "(res, calls, s') = handle_kernel_exception env (k_id session) (k_access_key session) (res1, calls1, s1)"
        using assms Inr unfolding destroy_session_def by (simp add: Let_def b)
      then have "s' = snd (snd (handle_kernel_exception env (k_id session) (k_access_key session) (res1, calls1, s1)))" by (metis snd_conv)
      with view_destroy_body[OF b] show ?thesis by (simp add: view_exception)
    qed (use assms Inr in \<open>simp add: destroy_session_def Let_def\<close>)
  qed (use assms in \<open>simp add: destroy_session_def\<close>)
qed

lemma dependency_rows_view:
  assumes "results_view s' = results_view s"
  shows "map (\<lambda>r. (k_id r, k_session_id r, k_session_name r, k_result r)) (dependency_rows sid s') =
    map (\<lambda>r. (k_id r, k_session_id r, k_session_name r, k_result r)) (dependency_rows sid s)"
proof -
  let ?v = "\<lambda>r. (k_id r, k_session_id r, k_session_name r, k_result r)"
  have "map ?v (filter (\<lambda>r. k_session_id r = dep) xs) = filter (\<lambda>(_, i, _). i = dep) (map ?v xs)" for dep and xs :: "kernel_row list"
    by (simp add: filter_map comp_def)
  with assms show ?thesis by (auto simp: dependency_rows_def results_view_def map_concat comp_def split_beta)
qed

text \<open>
  A batch session of several containers never satisfies a dependency: its success is recorded on
  the main kernel only, while the check asks for the success of every kernel.  After the success
  event, whatever becomes of the destruction it starts, a session that depends on one with a sub
  kernel of undefined result still fails the check.
\<close>
theorem multi_container_dependency_stuck:
  assumes "(ps_session_id sess, dep) \<in> set (db_dependencies s)" and "r \<in> set (db_kernels s)" and "k_session_id r = dep"
    and "k_id r \<noteq> dep" and "k_result r = UNDEFINED"
    and "handle_batch_result env hook connects dep True s = (res, calls, s')"
  shows "\<exists>p. check_dependencies sess s' = Inr (p, sess, s') \<and> \<not> pr_passed p"
proof -
  let ?s = "set_session_result dep True s" and ?v = "\<lambda>r. (k_id r, k_session_id r, k_session_name r, k_result r)"
  have v: "results_view s' = results_view ?s" using assms(6) view_destroy_session by (simp add: handle_batch_result_def)
  have "r \<in> set (db_kernels ?s)" using assms(2,4) by (force simp: set_session_result_def update_kernels_def)
  moreover have "db_dependencies ?s = db_dependencies s" by (simp add: set_session_result_def update_kernels_def)
  ultimately have "r \<in> set (dependency_rows (ps_session_id sess) ?s)"
    unfolding dependency_rows_def using assms(1,3) by force
  then have "?v r \<in> set (map ?v (dependency_rows (ps_session_id sess) s'))" unfolding dependency_rows_view[OF v] by simp
  then obtain r' where "r' \<in> set (dependency_rows (ps_session_id sess) s')" "k_result r' = UNDEFINED" using assms(5) by auto
  then have "filter (\<lambda>r. k_result r \<noteq> SUCCESS) (dependency_rows (ps_session_id sess) s') \<noteq> []" by (force simp: filter_empty_conv)
  then show ?thesis by (auto simp: check_dependencies_def Let_def failed_def)
qed

theorem multi_container_dependency_stuck_witness:
  "\<exists>res calls s' p. handle_batch_result demo_env (\<lambda>_. True) (\<lambda>_. True) ''k'' True (demo_pair\<lparr>db_dependencies := [(''x'', ''k'')]\<rparr>) = (res, calls, s') \<and>
     check_dependencies (demo_request []) s' = Inr (p, demo_request [], s') \<and> \<not> pr_passed p"
proof -
  let ?s = "demo_pair\<lparr>db_dependencies := [(''x'', ''k'')]\<rparr>" and ?r = "demo_placed ''l'' ''k'' ''sub'' RUNNING ''i''"
  obtain res calls s' where out: "handle_batch_result demo_env (\<lambda>_. True) (\<lambda>_. True) ''k'' True ?s = (res, calls, s')" by (metis prod_cases3)
  have "(ps_session_id (demo_request []), ''k'') \<in> set (db_dependencies ?s)" by (simp add: demo_request_def)
  moreover have "?r \<in> set (db_kernels ?s)" by (simp add: demo_pair_def demo_db_def)
  moreover have "k_session_id ?r = ''k''" "k_id ?r \<noteq> ''k''" "k_result ?r = UNDEFINED" by code_simp+
  ultimately show ?thesis using multi_container_dependency_stuck[OF _ _ _ _ _ out] out by metis
qed

end
