(* ===== verification/AgentLife.thy ===== *)
theory AgentLife
  imports Destruction
begin

text \<open>
  The life of an agent as the manager sees it: heartbeats, loss and return (\<open>handle_heartbeat\<close>,
  \<open>mark_agent_terminated\<close>, \<open>update_instance\<close> of \<open>manager/registry.py\<close>,
  \<open>update_resource_slots\<close> of \<open>manager/config.py\<close>) and the event handlers and the periodic check of
  \<open>manager/api/session.py\<close>.  A heartbeat is the record \<open>agent_info\<close>; what may be missing in the
  dictionary the agent sends is an \<open>option\<close>, amounts are the values of the decimals.  The canonical
  name of an image (\<open>ImageRef\<close>) is the argument \<open>canonical\<close>.
\<close>

record agent_info =
  ai_addr :: string
  ai_region :: string
  ai_scaling_group :: "string option"
  ai_resource_slots :: "(string, string \<times> decimal) dict"
  ai_version :: string
  ai_compute_plugins :: json
  ai_architecture :: "string option"
  ai_images :: "string list"

definition INTRINSIC_SLOTS :: "(string, string) dict" where
  "INTRINSIC_SLOTS = [(''cpu'', ''count''), (''mem'', ''bytes'')]"

text \<open>The configuration in etcd is written at once, whatever becomes of the transaction around the call.\<close>

definition update_resource_slots :: "(string, string) dict \<Rightarrow> db \<Rightarrow> db" where
  "update_resource_slots slot_key_and_units s =
     (let known_slots = dict_merge INTRINSIC_SLOTS (db_slot_types s)
      in s\<lparr>db_slot_types := dict_merge (db_slot_types s) (filter (\<lambda>(k, v). map_of known_slots k \<noteq> Some v) slot_key_and_units)\<rparr>)"

definition slot_types_of :: "agent_info \<Rightarrow> (string, string) dict res" where
  "slot_types_of info =
     mapE (\<lambda>(k, v). if fst v \<in> {''count'', ''bytes'', ''unique''} then Inr (k, fst v) else Inl ValueError) (ai_resource_slots info)"

definition available_of :: "agent_info \<Rightarrow> slots" where
  "available_of info = map (\<lambda>(k, v). (k, snd v)) (ai_resource_slots info)"

definition sgroup_of :: "agent_info \<Rightarrow> string" where
  "sgroup_of info = (case ai_scaling_group info of None \<Rightarrow> ''default'' | Some g \<Rightarrow> g)"

definition new_agent :: "int \<Rightarrow> string \<Rightarrow> agent_info \<Rightarrow> agent_row" where
  "new_agent now agent_id info =
     \<lparr> a_id = agent_id, a_status = ALIVE, a_status_changed = None, a_region = ai_region info, a_scaling_group = sgroup_of info,
       a_schedulable = True, a_available_slots = available_of info, a_occupied_slots = [], a_addr = ai_addr info,
       a_first_contact = now, a_lost_at = None, a_version = ai_version info,
       a_architecture = (case ai_architecture info of None \<Rightarrow> ''x86_64'' | Some a \<Rightarrow> a), a_compute_plugins = ai_compute_plugins info \<rparr>"

text \<open>The comparison of the slots gives both sides the keys of the other, so that zeros may be written.\<close>

definition alive_updates :: "agent_info \<Rightarrow> string \<Rightarrow> agent_row \<Rightarrow> agent_row" where
  "alive_updates info arch row =
     (case rs_ne (a_available_slots row) (available_of info) of (differs, _, available_slots) \<Rightarrow>
        row\<lparr>a_available_slots := if differs then available_slots else a_available_slots row,
            a_scaling_group := sgroup_of info, a_addr := ai_addr info, a_version := ai_version info,
            a_compute_plugins := ai_compute_plugins info, a_architecture := arch\<rparr>)"

definition revived :: "agent_info \<Rightarrow> string \<Rightarrow> agent_row \<Rightarrow> agent_row" where
  "revived info arch row =
     row\<lparr>a_status := ALIVE, a_region := ai_region info, a_scaling_group := sgroup_of info, a_addr := ai_addr info, a_lost_at := None,
         a_available_slots := available_of info, a_version := ai_version info, a_compute_plugins := ai_compute_plugins info,
         a_architecture := arch\<rparr>"

text \<open>
  The transaction, with whether the agent rejoins.  The scaling group of a written row has to exist.
\<close>

definition heartbeat_update :: "int \<Rightarrow> string \<Rightarrow> agent_info \<Rightarrow> (string, string) dict \<Rightarrow> db \<Rightarrow> bool res \<times> db" where
  "heartbeat_update now agent_id info types s =
     (let s1 = update_resource_slots types s; known = (sgroup_of info \<in> set (keys (db_scaling_groups s)))
      in case find_agent s agent_id of
           None \<Rightarrow>
             if known then (Inr False, s1\<lparr>db_agents := db_agents s1 @ [new_agent now agent_id info]\<rparr>) else (Inl IntegrityError, s1)
         | Some row \<Rightarrow>
             (case a_status row of
                ALIVE \<Rightarrow>
                  (case ai_architecture info of
                     None \<Rightarrow> (Inl KeyError, s)
                   | Some arch \<Rightarrow>
                       if alive_updates info arch row = row then (Inr False, s)
                       else if a_scaling_group row \<noteq> sgroup_of info \<and> \<not> known then (Inl IntegrityError, s1)
                       else (Inr False, update_agent agent_id (alive_updates info arch) s1))
              | AG_RESTARTING \<Rightarrow> (Inr False, s)
              | _ \<Rightarrow>
                  (case ai_architecture info of
                     None \<Rightarrow> (Inl KeyError, s1)
                   | Some arch \<Rightarrow>
                       if known then (Inr True, update_agent agent_id (revived info arch) s1) else (Inl IntegrityError, s1))))"

definition sadd :: "string \<Rightarrow> string \<Rightarrow> db \<Rightarrow> db" where
  "sadd img agent_id s =
     s\<lparr>db_image_agents := dset (db_image_agents s) img (List.insert agent_id (dget_or (db_image_agents s) img []))\<rparr>"

definition add_images :: "(string \<Rightarrow> string \<Rightarrow> string res) \<Rightarrow> string \<Rightarrow> agent_info \<Rightarrow> db \<Rightarrow> unit res \<times> db" where
  "add_images canonical agent_id info s =
     (case (if ai_images info = [] then Inr [] else
              case ai_architecture info of
                None \<Rightarrow> Inl KeyError
              | Some arch \<Rightarrow> mapE (\<lambda>img. canonical img arch) (ai_images info)) of
        Inl e \<Rightarrow> (Inl e, s)
      | Inr names \<Rightarrow> (Inr (), fold (\<lambda>n. sadd n agent_id) names s))"

definition handle_heartbeat :: "(string \<Rightarrow> string \<Rightarrow> string res) \<Rightarrow> int \<Rightarrow> string \<Rightarrow> agent_info \<Rightarrow> db \<Rightarrow> unit res \<times> db" where
  "handle_heartbeat canonical now agent_id info s =
     (case slot_types_of info of
        Inl e \<Rightarrow> (Inl e, s)
      | Inr types \<Rightarrow>
          (case heartbeat_update now agent_id info types (s\<lparr>db_last_seen := dset (db_last_seen s) agent_id now\<rparr>) of
             (Inl e, s1) \<Rightarrow> if e = IntegrityError then (Inr (), s1) else (Inl e, s1)
           | (Inr rejoin, s1) \<Rightarrow>
               add_images canonical agent_id info (if rejoin then produce_event (AgentStartedEvent agent_id ''revived'') s1 else s1)))"

text \<open>Removing from all image sets; Redis drops a set that gets empty.  An unknown agent's row is \<open>None\<close>.\<close>

definition mark_agent_terminated :: "int \<Rightarrow> string \<Rightarrow> agent_status \<Rightarrow> db \<Rightarrow> unit res \<times> db" where
  "mark_agent_terminated now agent_id status s =
     (let s1 = s\<lparr>db_last_seen := filter (\<lambda>(i, _). i \<noteq> agent_id) (db_last_seen s),
                 db_image_agents := filter (\<lambda>(_, ags). ags \<noteq> []) (map (\<lambda>(n, ags). (n, removeAll agent_id ags)) (db_image_agents s))\<rparr>
      in case find_agent s agent_id of
           None \<Rightarrow> (Inl TypeError, s1)
         | Some row \<Rightarrow>
             if a_status row \<in> {LOST, AG_TERMINATED} then (Inr (), s1)
             else (Inr (), update_agent agent_id (\<lambda>r. r\<lparr>a_status := status, a_status_changed := Some now, a_lost_at := Some now\<rparr>) s1))"

definition update_instance :: "string \<Rightarrow> (agent_row \<Rightarrow> agent_row) \<Rightarrow> db \<Rightarrow> db" where
  "update_instance inst_id updated_fields s = update_agent inst_id updated_fields s"

datatype agent_event = AgentStarted | AgentTerminated

definition handle_agent_lifecycle :: "int \<Rightarrow> string \<Rightarrow> agent_event \<Rightarrow> string \<Rightarrow> db \<Rightarrow> unit res \<times> db" where
  "handle_agent_lifecycle now source event reason s =
     (case event of
        AgentStarted \<Rightarrow> (Inr (), update_instance source (\<lambda>r. r\<lparr>a_status := ALIVE\<rparr>) s)
      | AgentTerminated \<Rightarrow>
          if reason = ''agent-lost'' then mark_agent_terminated now source LOST s
          else if reason = ''agent-restart'' then (Inr (), update_instance source (\<lambda>r. r\<lparr>a_status := AG_RESTARTING\<rparr>) s)
          else mark_agent_terminated now source AG_TERMINATED s)"

definition check_agent_lost :: "int \<Rightarrow> int \<Rightarrow> db \<Rightarrow> db" where
  "check_agent_lost now timeout s =
     fold (\<lambda>(agent_id, prev). if now - prev > timeout then produce_event (AgentTerminatedEvent agent_id ''agent-lost'') else id) (db_last_seen s) s"

section \<open>What a heartbeat establishes\<close>

lemma update_resource_slots_simps [simp]:
  "db_agents (update_resource_slots t s) = db_agents s" "db_last_seen (update_resource_slots t s) = db_last_seen s"
  "db_scaling_groups (update_resource_slots t s) = db_scaling_groups s" "find_agent (update_resource_slots t s) i = find_agent s i"
  by (simp_all add: update_resource_slots_def Let_def find_agent_def)

lemma update_agent_last_seen [simp]: "db_last_seen (update_agent i f s) = db_last_seen s"
  by (simp add: update_agent_def)

lemma add_images_simps:
  "add_images canonical i info s = (res, s') \<Longrightarrow> db_agents s' = db_agents s \<and> db_last_seen s' = db_last_seen s"
proof -
  have "db_agents (fold (\<lambda>n. sadd n i) ns t) = db_agents t \<and> db_last_seen (fold (\<lambda>n. sadd n i) ns t) = db_last_seen t" for ns t
    by (induction ns arbitrary: t) (simp_all add: sadd_def)
  then show "add_images canonical i info s = (res, s') \<Longrightarrow> db_agents s' = db_agents s \<and> db_last_seen s' = db_last_seen s"
    by (auto simp: add_images_def split: sum.splits)
qed

text \<open>
  The row says what the heartbeat said.  The occupied slots and whether it is schedulable come from the
  agent's earlier row; a row that was alive also keeps its region, which the heartbeat does not update.
\<close>

definition registered :: "agent_info \<Rightarrow> string \<Rightarrow> agent_row option \<Rightarrow> agent_row \<Rightarrow> bool" where
  "registered info arch old a \<longleftrightarrow> a_status a = ALIVE \<and> slot_val (a_available_slots a) = slot_val (available_of info) \<and>
     a_addr a = ai_addr info \<and> a_scaling_group a = sgroup_of info \<and> a_version a = ai_version info \<and>
     a_compute_plugins a = ai_compute_plugins info \<and> a_architecture a = arch \<and>
     (case old of
        None \<Rightarrow> a_region a = ai_region info \<and> a_occupied_slots a = [] \<and> a_schedulable a \<and> a_lost_at a = None
      | Some r \<Rightarrow> a_region a = (if a_status r = ALIVE then a_region r else ai_region info) \<and> a_occupied_slots a = a_occupied_slots r \<and>
          a_schedulable a = a_schedulable r \<and> a_lost_at a = (if a_status r = ALIVE then a_lost_at r else None))"

lemma alive_updates_registered:
  assumes "wf_dict (a_available_slots row)" and "wf_dict (available_of info)" and "a_status row = ALIVE"
  shows "registered info arch (Some row) (alive_updates info arch row)"
proof -
  obtain d x av where n: "rs_ne (a_available_slots row) (available_of info) = (d, x, av)" by (metis prod_cases3)
  have "slot_val av = slot_val (available_of info)"
    using n by (auto simp: rs_ne_def rs_eq_def Let_def split: prod.splits dest!: sync_keys_val)
  moreover have "d \<longleftrightarrow> slot_val (a_available_slots row) \<noteq> slot_val (available_of info)" using slots_ne_iff[OF assms(1,2)] n by simp
  ultimately show ?thesis using assms(3) n by (simp add: registered_def alive_updates_def)
qed

lemma filter_other_agents:
  assumes "\<And>r. a_id (f r) = a_id r"
  shows "filter (\<lambda>r. a_id r \<noteq> i) (db_agents (update_agent i f s)) = filter (\<lambda>r. a_id r \<noteq> i) (db_agents s)"
proof -
  have "filter (\<lambda>r. a_id r \<noteq> i) (map (\<lambda>r. if a_id r = i then f r else r) xs) = filter (\<lambda>r. a_id r \<noteq> i) xs" for xs
    by (induction xs) (simp_all add: assms)
  then show ?thesis by (simp add: update_agent_def)
qed

lemma find_append: "find P (xs @ ys) = (case find P xs of None \<Rightarrow> find P ys | Some x \<Rightarrow> Some x)"
  by (induction xs) simp_all

lemma heartbeat_update_spec:
  assumes arch: "ai_architecture info = Some arch" and sg: "sgroup_of info \<in> set (keys (db_scaling_groups s))"
    and wf: "wf_dict (available_of info)"
    and row: "\<And>a. find_agent s i = Some a \<Longrightarrow> a_status a \<noteq> AG_RESTARTING \<and> wf_dict (a_available_slots a)"
  obtains rejoin s1 a where "heartbeat_update now i info types s = (Inr rejoin, s1)" and "find_agent s1 i = Some a"
    and "registered info arch (find_agent s i) a" and "filter (\<lambda>r. a_id r \<noteq> i) (db_agents s1) = filter (\<lambda>r. a_id r \<noteq> i) (db_agents s)"
    and "db_last_seen s1 = db_last_seen s"
proof (cases "find_agent s i")
  case None
  let ?s1 = "update_resource_slots types s\<lparr>db_agents := db_agents s @ [new_agent now i info]\<rparr>"
  have "find_agent ?s1 i = Some (new_agent now i info)" using None by (simp add: find_agent_def find_append new_agent_def)
  moreover have "registered info arch (find_agent s i) (new_agent now i info)"
    using None arch by (simp add: registered_def new_agent_def)
  ultimately show ?thesis using that[of False ?s1] None sg by (simp add: heartbeat_update_def new_agent_def)
next
  case (Some r)
  note r = row[OF Some]
  let ?s1 = "update_resource_slots types s"
  show ?thesis
  proof (cases "a_status r = ALIVE")
    case True
    have reg: "registered info arch (find_agent s i) (alive_updates info arch r)"
      using alive_updates_registered[OF _ wf True] r Some by simp
    show ?thesis
    proof (cases "alive_updates info arch r = r")
      case eq: True
      with reg that[of False s r] Some True arch show ?thesis by (simp add: heartbeat_update_def)
    next
      case False
      have k: "a_id (alive_updates info arch x) = a_id x" for x by (simp add: alive_updates_def split: prod.splits)
      show ?thesis
        by (rule that[of False "update_agent i (alive_updates info arch) ?s1" "alive_updates info arch r"])
          (use False True Some arch sg reg in \<open>simp_all add: heartbeat_update_def find_agent_update k filter_other_agents\<close>)
    qed
  next
    case False
    with r have st: "a_status r = LOST \<or> a_status r = AG_TERMINATED" by (cases "a_status r") auto
    have k: "a_id (revived info arch x) = a_id x" for x by (simp add: revived_def)
    show ?thesis
      by (rule that[of True "update_agent i (revived info arch) ?s1" "revived info arch r"])
        (use st Some arch sg in \<open>auto simp: heartbeat_update_def find_agent_update k filter_other_agents registered_def revived_def\<close>)
  qed
qed

text \<open>
  C23: A heartbeat that names its architecture and an existing scaling group, with readable slots,
  registers the agent as it reported itself: unless the agent is restarting, its row is then alive
  with the reported slots, address, scaling group, version, plug-ins and architecture.  A new or
  revived agent also gets the reported region, while an agent that was alive keeps the region of its
  row.  The occupied slots and the schedulable flag are kept (a new agent has nothing occupied and is
  schedulable), no other agent's row changes, and the time of the heartbeat is recorded.  The
  heartbeat of a restarting agent changes no row.
\<close>
theorem heartbeat_registers:
  assumes "ai_architecture info = Some arch" and "sgroup_of info \<in> set (keys (db_scaling_groups s))" and "wf_dict (available_of info)"
    and "slot_types_of info = Inr types" and "\<And>a. find_agent s i = Some a \<Longrightarrow> wf_dict (a_available_slots a)"
    and "handle_heartbeat canonical now i info s = (res, s')"
  shows "(if map_option a_status (find_agent s i) = Some AG_RESTARTING then db_agents s' = db_agents s
      else \<exists>a. find_agent s' i = Some a \<and> registered info arch (find_agent s i) a) \<and>
    filter (\<lambda>r. a_id r \<noteq> i) (db_agents s') = filter (\<lambda>r. a_id r \<noteq> i) (db_agents s) \<and> map_of (db_last_seen s') i = Some now"
proof -
  let ?s = "s\<lparr>db_last_seen := dset (db_last_seen s) i now\<rparr>"
  have f: "find_agent ?s = find_agent s" by (simp add: fun_eq_iff find_agent_def)
  obtain rejoin s1 where h: "heartbeat_update now i info types ?s = (Inr rejoin, s1)"
    "if map_option a_status (find_agent s i) = Some AG_RESTARTING then db_agents s1 = db_agents s
      else \<exists>a. find_agent s1 i = Some a \<and> registered info arch (find_agent s i) a"
    "filter (\<lambda>r. a_id r \<noteq> i) (db_agents s1) = filter (\<lambda>r. a_id r \<noteq> i) (db_agents s)" "db_last_seen s1 = db_last_seen ?s"
  proof (cases "map_option a_status (find_agent s i) = Some AG_RESTARTING")
    case True
    then have "heartbeat_update now i info types ?s = (Inr False, ?s)" by (auto simp: heartbeat_update_def f)
    with True that[of False ?s] show ?thesis by simp
  next
    case False
    then have row: "a_status a \<noteq> AG_RESTARTING \<and> wf_dict (a_available_slots a)" if "find_agent ?s i = Some a" for a
      using that assms(5) unfolding f by auto
    have sg: "sgroup_of info \<in> set (keys (db_scaling_groups ?s))" using assms(2) by simp
    obtain rejoin s1 a where u: "heartbeat_update now i info types ?s = (Inr rejoin, s1)" "find_agent s1 i = Some a"
      "registered info arch (find_agent s i) a" "filter (\<lambda>r. a_id r \<noteq> i) (db_agents s1) = filter (\<lambda>r. a_id r \<noteq> i) (db_agents ?s)"
      "db_last_seen s1 = db_last_seen ?s" by (rule heartbeat_update_spec[OF assms(1) sg assms(3) row, unfolded f])
    show ?thesis by (rule that[OF u(1)]) (use u False in \<open>auto split: if_splits\<close>)
  qed
  let ?s2 = "if rejoin then produce_event (AgentStartedEvent i ''revived'') s1 else s1"
  have "add_images canonical i info ?s2 = (res, s')" using assms(4,6) h(1) by (simp add: handle_heartbeat_def)
  from add_images_simps[OF this] have s': "db_agents s' = db_agents s1" "db_last_seen s' = db_last_seen s1"
    by (simp_all add: produce_event_def split: if_splits)
  with h show ?thesis by (auto simp: find_agent_def update_conv split: if_splits)
qed

definition demo_info :: agent_info where
  "demo_info = \<lparr>ai_addr = ''tcp2'', ai_region = ''local'', ai_scaling_group = None, ai_resource_slots = [(''cpu'', ''count'', Fin 8)],
     ai_version = ''22.09'', ai_compute_plugins = JObj [], ai_architecture = Some ''x86_64'', ai_images = [''python'']\<rparr>"

theorem heartbeat_registers_witness:
  "\<exists>a. find_agent (snd (handle_heartbeat (\<lambda>n _. Inr n) 7 ''i'' demo_info (demo_db [] [demo_agent ''i'' LOST [(''cpu'', Fin 4)] [(''cpu'', Fin 3)]]))) ''i'' = Some a \<and>
     a_status a = ALIVE \<and> slot_amt (a_available_slots a) ''cpu'' = 8 \<and> a_occupied_slots a = [(''cpu'', Fin 3)] \<and> a_region a = ''local''"
proof -
  let ?s = "demo_db [] [demo_agent ''i'' LOST [(''cpu'', Fin 4)] [(''cpu'', Fin 3)]]"
  obtain res s' where out: "handle_heartbeat (\<lambda>n _. Inr n) 7 ''i'' demo_info ?s = (res, s')" by fastforce
  have old: "find_agent ?s ''i'' = Some (demo_agent ''i'' LOST [(''cpu'', Fin 4)] [(''cpu'', Fin 3)])"
    by (simp add: find_agent_def demo_db_def demo_agent_def)
  have h: "ai_architecture demo_info = Some ''x86_64''" "sgroup_of demo_info \<in> set (keys (db_scaling_groups ?s))" "wf_dict (available_of demo_info)"
    "slot_types_of demo_info = Inr [(''cpu'', ''count'')]" by code_simp+
  have wf: "wf_dict (a_available_slots a)" if "find_agent ?s ''i'' = Some a" for a
    using that unfolding old by (auto simp: demo_agent_def)
  have o: "slot_amt (available_of demo_info) ''cpu'' = 8" "ai_region demo_info = ''local''" by code_simp+
  from heartbeat_registers[OF h wf out] out o old show ?thesis by (auto simp: registered_def slot_amt_def demo_agent_def)
qed

section \<open>Lost agents\<close>

lemma check_agent_lost_events:
  "check_agent_lost now timeout s = s\<lparr>db_events := db_events s @
     map (\<lambda>(i, _). AgentTerminatedEvent i ''agent-lost'') (filter (\<lambda>(_, prev). now - prev > timeout) (db_last_seen s))\<rparr>"
proof -
  have "fold (\<lambda>(agent_id, prev). if now - prev > timeout then produce_event (AgentTerminatedEvent agent_id ''agent-lost'') else id) xs t =
      t\<lparr>db_events := db_events t @ map (\<lambda>(i, _). AgentTerminatedEvent i ''agent-lost'') (filter (\<lambda>(_, prev). now - prev > timeout) xs)\<rparr>" for xs t
    by (induction xs arbitrary: t) (auto simp: produce_event_def)
  then show ?thesis by (simp add: check_agent_lost_def)
qed

text \<open>
  The periodic check reports exactly the agents whose last heartbeat is older than the timeout,
  once each and in the order of the table, and handling such a report takes the agent out of the
  scheduler's sight: it is lost, while its occupied slots are kept for its return.
\<close>
theorem lost_agents_reported:
  assumes "distinct (map a_id (db_agents s))" and "a \<in> set (db_agents s)" and "a_status a = ALIVE"
    and "handle_agent_lifecycle now (a_id a) AgentTerminated ''agent-lost'' (check_agent_lost t timeout s) = (res, s')"
  shows "db_events (check_agent_lost t timeout s) = db_events s @
      map (\<lambda>(i, _). AgentTerminatedEvent i ''agent-lost'') (filter (\<lambda>(_, prev). t - prev > timeout) (db_last_seen s)) \<and>
    res = Inr () \<and> find_agent s' (a_id a) = Some (a\<lparr>a_status := LOST, a_status_changed := Some now, a_lost_at := Some now\<rparr>) \<and>
    \<not> (\<exists>c\<in>set (list_agents_by_sgroup (a_scaling_group a) s'). ac_agent_id c = a_id a)"
proof -
  let ?s = "check_agent_lost t timeout s" and ?f = "\<lambda>r. r\<lparr>a_status := LOST, a_status_changed := Some now, a_lost_at := Some now\<rparr>"
  have fs: "find_agent ?s (a_id a) = Some a"
    using find_agent_distinct[OF assms(1,2)] by (simp add: check_agent_lost_events find_agent_def)
  let ?s1 = "?s\<lparr>db_last_seen := filter (\<lambda>(i, _). i \<noteq> a_id a) (db_last_seen ?s),
      db_image_agents := filter (\<lambda>(_, ags). ags \<noteq> []) (map (\<lambda>(n, ags). (n, removeAll (a_id a) ags)) (db_image_agents ?s))\<rparr>"
  have out: "res = Inr ()" "s' = update_agent (a_id a) ?f ?s1"
    using assms(3,4) fs by (simp_all add: handle_agent_lifecycle_def mark_agent_terminated_def Let_def)
  have f1: "find_agent ?s1 = find_agent ?s" by (simp add: fun_eq_iff find_agent_def)
  have "find_agent s' (a_id a) = Some (?f a)" unfolding out(2) using fs by (simp add: find_agent_update f1)
  moreover have "a_status r = LOST" if "r \<in> set (db_agents s')" "a_id r = a_id a" for r
    using that unfolding out(2) update_agent_def by auto
  then have "\<not> (\<exists>c\<in>set (list_agents_by_sgroup (a_scaling_group a) s'). ac_agent_id c = a_id a)"
    by (auto simp: list_agents_by_sgroup_def agent_ctx_def)
  moreover have "db_events ?s = db_events s @
      map (\<lambda>(i, _). AgentTerminatedEvent i ''agent-lost'') (filter (\<lambda>(_, prev). t - prev > timeout) (db_last_seen s))"
    unfolding check_agent_lost_events by simp
  ultimately show ?thesis using out(1) by blast
qed

theorem lost_agents_reported_witness:
  "map a_status (db_agents (snd (handle_agent_lifecycle 9 ''i'' AgentTerminated ''agent-lost'' (check_agent_lost 9 5
     (demo_db [] [demo_agent ''i'' ALIVE [] []]\<lparr>db_last_seen := [(''i'', 3), (''j'', 8)]\<rparr>))))) = [LOST]"
proof -
  let ?s = "demo_db [] [demo_agent ''i'' ALIVE [] []]\<lparr>db_last_seen := [(''i'', 3), (''j'', 8)]\<rparr>" and ?a = "demo_agent ''i'' ALIVE [] []"
  obtain res s' where out: "handle_agent_lifecycle 9 (a_id ?a) AgentTerminated ''agent-lost'' (check_agent_lost 9 5 ?s) = (res, s')" by fastforce
  have "distinct (map a_id (db_agents ?s))" "?a \<in> set (db_agents ?s)" "a_status ?a = ALIVE" and i: "a_id ?a = ''i''"
    by (simp_all add: demo_db_def demo_agent_def)
  note r = lost_agents_reported[OF this(1-3) out]
  have "length (db_agents (snd (handle_agent_lifecycle 9 ''i'' AgentTerminated ''agent-lost'' (check_agent_lost 9 5 ?s)))) = 1" by code_simp
  then obtain b where "db_agents s' = [b]" using out i by (auto simp: length_Suc_conv)
  with r out i show ?thesis by (auto simp: find_agent_def split: if_splits)
qed

end
