(* ===== verification/IdleCheckers.thy ===== *)
theory IdleCheckers
  imports AgentLife
begin

text \<open>
  The idle checkers of \<open>manager/idle.py\<close>: the host that asks all checkers about every running
  session and requests the termination of those that one rejects, and the checkers for session
  lifetime, idle time and utilisation.  Python's floats are rationals here.  The live state in Redis
  is the record \<open>live\<close>; a key with an expiry is gone from that time on.  \<open>decodes\<close> tells whether the
  Redis client returns text (\<open>decode_responses\<close>); without it replies are bytes, which no text equals.
\<close>

section \<open>Live state\<close>

record live =
  lv_last_access :: "(string, rat \<times> rat option) dict"
  lv_connections :: "(string, nat) dict"
  lv_util_series :: "(string, (string, rat list) dict \<times> rat option) dict"
  lv_util_collected :: "(string, rat \<times> rat option) dict"

definition redis_get :: "rat \<Rightarrow> (string, 'v \<times> rat option) dict \<Rightarrow> string \<Rightarrow> 'v option" where
  "redis_get t d k =
     (case map_of d k of
        None \<Rightarrow> None
      | Some (v, ex) \<Rightarrow> (case ex of None \<Rightarrow> Some v | Some e \<Rightarrow> if t < e then Some v else None))"

section \<open>Idle time\<close>

datatype app_streaming_status = NO_ACTIVE_CONNECTIONS | HAS_ACTIVE_CONNECTIONS

text \<open>\<open>SET key 0 XX\<close>: only where the key exists, and without expiry.\<close>

definition disable_timeout :: "rat \<Rightarrow> string \<Rightarrow> live \<Rightarrow> live" where
  "disable_timeout t session_id lv =
     (if redis_get t (lv_last_access lv) session_id \<noteq> None
      then lv\<lparr>lv_last_access := dset (lv_last_access lv) session_id (0, None)\<rparr> else lv)"

definition timeout_ex :: "rat \<Rightarrow> rat" where
  "timeout_ex seconds = max 86400 (of_int (trunc_int (seconds * 2)))"

definition update_timeout :: "rat \<Rightarrow> rat \<Rightarrow> string \<Rightarrow> live \<Rightarrow> live" where
  "update_timeout idle_timeout t session_id lv =
     lv\<lparr>lv_last_access := dset (lv_last_access lv) session_id (t, Some (t + timeout_ex idle_timeout))\<rparr>"

definition update_app_streaming_status :: "rat \<Rightarrow> rat \<Rightarrow> string \<Rightarrow> app_streaming_status \<Rightarrow> live \<Rightarrow> live" where
  "update_app_streaming_status idle_timeout t session_id status lv =
     (case status of
        HAS_ACTIVE_CONNECTIONS \<Rightarrow> disable_timeout t session_id lv
      | NO_ACTIVE_CONNECTIONS \<Rightarrow> update_timeout idle_timeout t session_id lv)"

datatype execution_event = SessionStarted | ExecutionStarted | ExecutionFinished | ExecutionTimeout | ExecutionCancelled

definition execution_cb :: "rat \<Rightarrow> rat \<Rightarrow> string \<Rightarrow> execution_event \<Rightarrow> live \<Rightarrow> live" where
  "execution_cb idle_timeout t session_id event lv =
     (case event of
        ExecutionStarted \<Rightarrow> disable_timeout t session_id lv
      | _ \<Rightarrow> update_timeout idle_timeout t session_id lv)"

text \<open>The policy's timeout counts unless it is negative; zero means unlimited.\<close>

definition effective_timeout :: "rat \<Rightarrow> policy_row \<Rightarrow> rat" where
  "effective_timeout idle_timeout policy = (if p_idle_timeout policy \<ge> 0 then of_int (p_idle_timeout policy) else idle_timeout)"

definition timeout_check :: "bool \<Rightarrow> rat \<Rightarrow> rat \<Rightarrow> kernel_row \<Rightarrow> policy_row \<Rightarrow> live \<Rightarrow> bool" where
  "timeout_check decodes idle_timeout t session policy lv =
     (if k_session_type session = BATCH then True
      else if dget_or (lv_connections lv) (k_id session) 0 > 0 then True
      else case redis_get t (lv_last_access lv) (k_id session) of
             None \<Rightarrow> True
           | Some last_access \<Rightarrow>
               if decodes \<and> last_access = 0 then True
               else let timeout = effective_timeout idle_timeout policy
                    in timeout \<le> 0 \<or> t - last_access \<le> timeout)"

section \<open>Lifetime\<close>

definition lifetime_check :: "rat \<Rightarrow> kernel_row \<Rightarrow> policy_row \<Rightarrow> bool" where
  "lifetime_check now session policy =
     (if p_max_session_lifetime policy > 0 \<and> now - of_int (k_created_at session) \<ge> of_int (p_max_session_lifetime policy)
      then False else True)"

section \<open>Utilisation\<close>

datatype threshold_operator = OpAnd | OpOr

record util_config =
  uc_resource_thresholds :: "(string, rat option) dict"
  uc_operator :: threshold_operator
  uc_time_window :: rat
  uc_initial_grace_period :: rat

definition check_interval :: rat where
  "check_interval = 15"

definition slot_resource_map :: "(string, string list) dict" where
  "slot_resource_map = [(''cpu'', [''cpu_util'']), (''mem'', [''mem'']), (''cuda'', [''cuda_util'', ''cuda_mem''])]"

text \<open>\<open>float()\<close> of a decoded statistic; infinities and NaN do not occur in statistics.\<close>

definition json_float :: "json \<Rightarrow> rat res" where
  "json_float j =
     (case j of
        JInt n \<Rightarrow> Inr (of_int n)
      | JBool b \<Rightarrow> Inr (of_bool b)
      | JStr s \<Rightarrow> (case parse_decimal s of Inr (Num d) \<Rightarrow> (case dvalue d of Fin x \<Rightarrow> Inr x | _ \<Rightarrow> Inl ValueError) | _ \<Rightarrow> Inl ValueError)
      | JTime _ \<Rightarrow> Inl ValueError
      | _ \<Rightarrow> Inl TypeError)"

definition stat_float :: "json \<Rightarrow> string list \<Rightarrow> rat res" where
  "stat_float live_stat path =
     bindE (nmget live_stat path) (\<lambda>v. case v of None \<Rightarrow> Inr 0 | Some j \<Rightarrow> json_float j)"

definition add_kernel_util :: "string list \<Rightarrow> db \<Rightarrow> (string, rat) dict \<times> json \<Rightarrow> string \<Rightarrow> ((string, rat) dict \<times> json) res" where
  "add_kernel_util resources s acc kernel_id =
     (case map_of (db_kernel_stats s) kernel_id of
        None \<Rightarrow> Inl TypeError
      | Some live_stat \<Rightarrow>
          bindE (mapE (\<lambda>k. bindE (stat_float live_stat [k, ''pct'']) (\<lambda>u. Inr (k, dget_or (fst acc) k 0 + u))) resources) (\<lambda>utils.
            Inr (utils, live_stat)))"

text \<open>Every exception makes the result \<open>None\<close>; the memory in use is that of the last kernel.\<close>

definition get_current_utilization :: "string list \<Rightarrow> string list \<Rightarrow> slots \<Rightarrow> db \<Rightarrow> (string, rat) dict option" where
  "get_current_utilization resources kernel_ids occupied_slots s =
     (case foldE (add_kernel_util resources s) (map (\<lambda>k. (k, 0)) resources, JObj []) kernel_ids of
        Inl e \<Rightarrow> None
      | Inr (totals, live_stat) \<Rightarrow>
          if kernel_ids = [] \<and> resources \<noteq> [] then None
          else
            (case (stat_float live_stat [''mem'', ''current''], slot_val occupied_slots ''mem'') of
               (Inr mem_current, Fin mem_slots) \<Rightarrow>
                 Some (dset (map (\<lambda>(k, u). (k, u / of_nat (length kernel_ids))) totals) ''mem''
                        (if mem_slots > 0 then mem_current / mem_slots * 100 else 0))
             | (Inr mem_current, _) \<Rightarrow> Some (dset (map (\<lambda>(k, u). (k, u / of_nat (length kernel_ids))) totals) ''mem'' 0)
             | (Inl e, _) \<Rightarrow> None))"

definition unique_res_map :: "slots \<Rightarrow> slots res" where
  "unique_res_map occupied_slots =
     foldE (\<lambda>d (k, v). let u = takeWhile (\<lambda>c. c \<noteq> CHR ''.'') k in bindE (dec_add (dget_or d u 0) v) (\<lambda>x. Inr (dset d u x))) [] occupied_slots"

definition unavailable_resources :: "slots \<Rightarrow> string list res" where
  "unavailable_resources unique_res =
     foldE (\<lambda>acc (slot, v). if v = 0 then bindE (dget slot_resource_map slot) (\<lambda>rs. Inr (acc @ rs)) else Inr acc) [] unique_res"

text \<open>One more sample for each resource; the oldest goes when the window is full.\<close>

definition push_sample :: "int \<Rightarrow> (string, rat) dict \<Rightarrow> string \<times> rat list \<Rightarrow> (string \<times> rat list) res" where
  "push_sample window_size current p =
     bindE (dget current (fst p)) (\<lambda>u.
       let xs = snd p @ [u] in Inr (fst p, if int (length xs) > window_size then tl xs else xs))"

definition not_enough_data :: "int \<Rightarrow> (string, rat list) dict \<Rightarrow> bool" where
  "not_enough_data window_size series = list_ex (\<lambda>(k, xs). int (length xs + 1) \<le> window_size) series"

definition avg_util :: "rat list \<Rightarrow> rat" where
  "avg_util xs = sum_list xs / of_nat (length xs)"

text \<open>The verdict on the averages of the resources that have a threshold and are allocated.\<close>

definition judge_utilization :: "util_config \<Rightarrow> string list \<Rightarrow> (string, rat list) dict \<Rightarrow> bool res" where
  "judge_utilization cfg unavailable series =
     bindE (mapE (\<lambda>(k, threshold). bindE (dget series k) (\<lambda>xs. Inr (avg_util xs \<ge> the threshold)))
              (filter (\<lambda>(k, threshold). threshold \<noteq> None \<and> k \<notin> set unavailable) (uc_resource_thresholds cfg))) (\<lambda>sufficient.
       Inr (if sufficient = [] then True
            else case uc_operator cfg of OpOr \<Rightarrow> list_all id sufficient | OpAnd \<Rightarrow> list_ex id sufficient))"

definition window_of :: "util_config \<Rightarrow> policy_row \<Rightarrow> int" where
  "window_of cfg policy =
     trunc_int ((if p_idle_timeout policy \<ge> 0 then of_int (p_idle_timeout policy) else uc_time_window cfg) / check_interval)"

definition live_kernels :: "kernel_row \<Rightarrow> db \<Rightarrow> string list" where
  "live_kernels session s =
     (if k_cluster_size session > 1
      then map k_id (filter (\<lambda>r. k_session_id r = k_id session \<and> k_status r \<in> set LIVE_STATUS) (db_kernels s))
      else [k_id session])"

definition store_series :: "util_config \<Rightarrow> rat \<Rightarrow> string \<Rightarrow> (string, rat list) dict \<Rightarrow> live \<Rightarrow> live" where
  "store_series cfg t session_id series lv =
     (let ex = Some (t + timeout_ex (uc_time_window cfg))
      in lv\<lparr>lv_util_series := dset (lv_util_series lv) session_id (series, ex),
            lv_util_collected := dset (lv_util_collected lv) session_id (t, ex)\<rparr>)"

definition utilization_check :: "util_config \<Rightarrow> rat \<Rightarrow> kernel_row \<Rightarrow> policy_row \<Rightarrow> db \<Rightarrow> live \<Rightarrow> bool res \<times> live" where
  "utilization_check cfg t session policy s lv =
     (let sid = k_id session;
          last = (case redis_get t (lv_util_collected lv) sid of None \<Rightarrow> 0 | Some x \<Rightarrow> x)
      in if t - last < check_interval then (Inr True, lv)
         else if t - of_int (k_created_at session) \<le> uc_initial_grace_period cfg then (Inr True, lv)
         else case bindE (unique_res_map (k_occupied_slots session)) unavailable_resources of
                Inl e \<Rightarrow> (Inl e, lv)
              | Inr unavailable \<Rightarrow>
                  let window_size = window_of cfg policy
                  in if window_size \<le> 0 then (Inr True, lv)
                     else case get_current_utilization (keys (uc_resource_thresholds cfg)) (live_kernels session s) (k_occupied_slots session) s of
                            None \<Rightarrow> (Inr True, lv)
                          | Some current \<Rightarrow>
                              let series = (case redis_get t (lv_util_series lv) sid of
                                              None \<Rightarrow> map (\<lambda>k. (k, [])) (keys (uc_resource_thresholds cfg)) | Some x \<Rightarrow> x)
                              in case mapE (push_sample window_size current) series of
                                   Inl e \<Rightarrow> (Inl e, lv)
                                 | Inr series' \<Rightarrow>
                                     let lv' = store_series cfg t sid series' lv
                                     in if not_enough_data window_size series then (Inr True, lv')
                                        else (judge_utilization cfg unavailable series', lv'))"

section \<open>The host\<close>

datatype checker = SessionLifetimeChecker | TimeoutIdleChecker rat | UtilizationIdleChecker util_config

fun checker_name :: "checker \<Rightarrow> string" where
  "checker_name SessionLifetimeChecker = ''session_lifetime''"
| "checker_name (TimeoutIdleChecker _) = ''timeout''"
| "checker_name (UtilizationIdleChecker _) = ''utilization''"

fun check_session :: "bool \<Rightarrow> rat \<Rightarrow> checker \<Rightarrow> kernel_row \<Rightarrow> policy_row \<Rightarrow> db \<Rightarrow> live \<Rightarrow> bool res \<times> live" where
  "check_session decodes t SessionLifetimeChecker session policy s lv = (Inr (lifetime_check t session policy), lv)"
| "check_session decodes t (TimeoutIdleChecker idle_timeout) session policy s lv = (Inr (timeout_check decodes idle_timeout t session policy lv), lv)"
| "check_session decodes t (UtilizationIdleChecker cfg) session policy s lv = utilization_check cfg t session policy s lv"

text \<open>The first checker that rejects the session, if any.\<close>

fun first_rejection :: "bool \<Rightarrow> rat \<Rightarrow> checker list \<Rightarrow> kernel_row \<Rightarrow> policy_row \<Rightarrow> db \<Rightarrow> live \<Rightarrow> checker option res \<times> live" where
  "first_rejection decodes t [] session policy s lv = (Inr None, lv)"
| "first_rejection decodes t (c # cs) session policy s lv =
     (case check_session decodes t c session policy s lv of
        (Inl e, lv1) \<Rightarrow> (Inl e, lv1)
      | (Inr ok, lv1) \<Rightarrow> if ok then first_rejection decodes t cs session policy s lv1 else (Inr (Some c), lv1))"

definition session_policy :: "db \<Rightarrow> string \<Rightarrow> policy_row option" where
  "session_policy s access_key = Option.bind (map_of (db_keypair_policy s) access_key) (map_of (db_policies s))"

fun idle_check_rows :: "bool \<Rightarrow> rat \<Rightarrow> checker list \<Rightarrow> kernel_row list \<Rightarrow> db \<Rightarrow> live \<Rightarrow> unit res \<times> db \<times> live" where
  "idle_check_rows decodes t cs [] s lv = (Inr (), s, lv)"
| "idle_check_rows decodes t cs (session # rows) s lv =
     (case session_policy s (k_access_key session) of
        None \<Rightarrow> (Inl AssertionError, s, lv)
      | Some policy \<Rightarrow>
          (case first_rejection decodes t cs session policy s lv of
             (Inl e, lv1) \<Rightarrow> (Inl e, s, lv1)
           | (Inr None, lv1) \<Rightarrow> idle_check_rows decodes t cs rows s lv1
           | (Inr (Some c), lv1) \<Rightarrow>
               idle_check_rows decodes t cs rows (produce_event (DoTerminateSessionEvent (k_id session) (''idle-'' @ checker_name c)) s) lv1))"

definition running_mains :: "db \<Rightarrow> kernel_row list" where
  "running_mains s = filter (\<lambda>r. k_status r \<in> set LIVE_STATUS \<and> k_cluster_role r = DEFAULT_ROLE) (db_kernels s)"

definition do_idle_check :: "bool \<Rightarrow> rat \<Rightarrow> checker list \<Rightarrow> db \<Rightarrow> live \<Rightarrow> unit res \<times> db \<times> live" where
  "do_idle_check decodes t checkers s lv = idle_check_rows decodes t checkers (running_mains s) s lv"

fun split_comma :: "string \<Rightarrow> string list" where
  "split_comma [] = [[]]"
| "split_comma (c # cs) = (if c = CHR '','' then [] # split_comma cs
     else case split_comma cs of [] \<Rightarrow> [[c]] | x # xs \<Rightarrow> (c # x) # xs)"

text \<open>The lifetime checker is always on; unknown names are ignored.\<close>

definition init_idle_checkers :: "rat \<Rightarrow> util_config \<Rightarrow> string option \<Rightarrow> checker list" where
  "init_idle_checkers idle_timeout cfg enabled_checkers =
     SessionLifetimeChecker #
     (case enabled_checkers of
        None \<Rightarrow> []
      | Some e \<Rightarrow> if e = [] then [] else
          List.map_filter (\<lambda>n. if n = ''timeout'' then Some (TimeoutIdleChecker idle_timeout)
                               else if n = ''utilization'' then Some (UtilizationIdleChecker cfg) else None) (split_comma e))"

section \<open>When idle sessions are rejected\<close>

lemma redis_get_update: "redis_get t (lv_last_access (update_timeout T t0 sid lv)) sid = (if t < t0 + timeout_ex T then Some t0 else None)"
  by (simp add: redis_get_def update_timeout_def update_conv)

lemma redis_get_disable:
  "redis_get t1 (lv_last_access lv) sid \<noteq> None \<Longrightarrow> redis_get t (lv_last_access (disable_timeout t1 sid lv)) sid = Some 0"
  by (simp add: redis_get_def disable_timeout_def update_conv)

lemma update_timeout_connections [simp]: "lv_connections (update_timeout T t0 sid lv) = lv_connections lv"
  by (simp add: update_timeout_def)

lemma disable_timeout_connections [simp]: "lv_connections (disable_timeout t0 sid lv) = lv_connections lv"
  by (simp add: disable_timeout_def)

text \<open>
  C25: An interactive session without connections, last used at a time \<open>t0\<close> (an execution ended, a
  connection closed, or the session started) and not since, is rejected exactly while its idle time
  exceeds the effective timeout and the record of its last use has not expired.  That record lives
  for a day or twice the checker's own timeout, so a policy with a longer timeout has no effect.
\<close>
theorem idle_timeout_window:
  assumes "k_session_type session = INTERACTIVE" and "dget_or (lv_connections lv) (k_id session) 0 = 0" and "t0 \<noteq> 0"
    and "effective_timeout T policy > 0" and "event \<noteq> ExecutionStarted"
  shows "\<not> timeout_check decodes T t session policy (execution_cb T t0 (k_id session) event lv) \<longleftrightarrow>
    t - t0 > effective_timeout T policy \<and> t - t0 < timeout_ex T"
proof -
  have "execution_cb T t0 (k_id session) event lv = update_timeout T t0 (k_id session) lv"
    using assms(5) by (cases event) (simp_all add: execution_cb_def)
  with assms show ?thesis by (auto simp: timeout_check_def redis_get_update Let_def)
qed

definition demo_policy :: "int \<Rightarrow> policy_row" where
  "demo_policy n = \<lparr>p_default_for_unspecified = LIMITED, p_total_resource_slots = [], p_max_concurrent_sessions = 2, p_max_containers_per_session = 8,
     p_max_session_lifetime = 0, p_idle_timeout = n, p_allowed_vfolder_hosts = [], p_max_vfolder_count = 0, p_max_vfolder_size = 0\<rparr>"

definition demo_live :: live where
  "demo_live = \<lparr>lv_last_access = [], lv_connections = [], lv_util_series = [], lv_util_collected = []\<rparr>"

theorem idle_timeout_window_witness:
  "\<not> timeout_check False 600 2000 (demo_placed ''k'' ''k'' ''main'' RUNNING ''i'') (demo_policy 600)
       (execution_cb 600 1000 ''k'' ExecutionFinished demo_live) \<and>
   timeout_check False 600 300000 (demo_placed ''k'' ''k'' ''main'' RUNNING ''i'') (demo_policy 172800)
       (execution_cb 600 1000 ''k'' ExecutionFinished demo_live)"
proof -
  let ?r = "demo_placed ''k'' ''k'' ''main'' RUNNING ''i''"
  have r: "k_session_type ?r = INTERACTIVE" "dget_or (lv_connections demo_live) (k_id ?r) 0 = 0" "k_id ?r = ''k''" by code_simp+
  have e: "effective_timeout 600 (demo_policy 600) = 600" "effective_timeout 600 (demo_policy 172800) = 172800" "timeout_ex 600 = 86400"
    by code_simp+
  show ?thesis
    using idle_timeout_window[OF r(1,2), of 1000 600 "demo_policy 600" ExecutionFinished False 2000]
      idle_timeout_window[OF r(1,2), of 1000 600 "demo_policy 172800" ExecutionFinished False 300000]
    by (simp add: r(3) e)
qed

text \<open>
  Starting an execution is to suspend the timeout, by writing a zero for the last use.  The
  check for the zero compares with a text: a session that executes is protected if and only if the
  Redis client decodes its replies; with a client that returns bytes, the zero is taken for a time
  and the executing session is rejected as soon as the clock exceeds the timeout.
\<close>
theorem executing_session_protected_iff:
  assumes "k_session_type session = INTERACTIVE" and "dget_or (lv_connections lv) (k_id session) 0 = 0"
    and "t1 < t0 + timeout_ex T" and "effective_timeout T policy > 0" and "t > effective_timeout T policy"
  shows "timeout_check decodes T t session policy
      (execution_cb T t1 (k_id session) ExecutionStarted (execution_cb T t0 (k_id session) SessionStarted lv)) \<longleftrightarrow> decodes"
proof -
  let ?lv = "update_timeout T t0 (k_id session) lv"
  have "redis_get t1 (lv_last_access ?lv) (k_id session) \<noteq> None" using assms(3) by (simp add: redis_get_update)
  note g = redis_get_disable[OF this, of t]
  show ?thesis using assms(1,2,4,5) by (auto simp: execution_cb_def timeout_check_def g Let_def)
qed

theorem executing_session_protected_iff_witness:
  "\<not> timeout_check False 600 2000 (demo_placed ''k'' ''k'' ''main'' RUNNING ''i'') (demo_policy 600)
       (execution_cb 600 1990 ''k'' ExecutionStarted (execution_cb 600 1000 ''k'' SessionStarted demo_live))"
proof -
  let ?r = "demo_placed ''k'' ''k'' ''main'' RUNNING ''i''"
  have r: "k_session_type ?r = INTERACTIVE" "dget_or (lv_connections demo_live) (k_id ?r) 0 = 0" "k_id ?r = ''k''" by code_simp+
  have e: "(1990 :: rat) < 1000 + timeout_ex 600" "0 < effective_timeout 600 (demo_policy 600)" "effective_timeout 600 (demo_policy 600) < (2000 :: rat)"
    by code_simp+
  from executing_session_protected_iff[OF r(1,2) e, of False] show ?thesis by (simp add: r(3))
qed

section \<open>When sessions are rejected for their utilisation\<close>

lemma utilization_check_False:
  assumes "utilization_check cfg t session policy s lv = (Inr False, lv')"
  obtains unavailable current series series' where "bindE (unique_res_map (k_occupied_slots session)) unavailable_resources = Inr unavailable"
    and "mapE (push_sample (window_of cfg policy) current) series = Inr series'" and "\<not> not_enough_data (window_of cfg policy) series"
    and "judge_utilization cfg unavailable series' = Inr False" and "lv' = store_series cfg t (k_id session) series' lv"
  using assms unfolding utilization_check_def Let_def by (auto split: if_splits sum.splits option.splits)

lemma pushed_length:
  assumes "mapE (push_sample w current) series = Inr series'" and "\<not> not_enough_data w series" and "(k, xs) \<in> set series'"
  shows "int (length xs) \<ge> w"
proof -
  obtain p where p: "p \<in> set series" "push_sample w current p = Inr (k, xs)"
    using all2_ball[OF assms(1)[unfolded mapE_Inr_iff] assms(3)] by blast
  have "\<not> int (length (snd p) + 1) \<le> w" using assms(2) p(1) by (force simp: not_enough_data_def list_ex_iff)
  with p(2) show ?thesis by (auto simp: push_sample_def bindE_eq_Inr_iff Let_def)
qed

lemma judge_False:
  assumes "judge_utilization cfg unavailable series = Inr False"
  defines "judged \<equiv> filter (\<lambda>(k, th). th \<noteq> None \<and> k \<notin> set unavailable) (uc_resource_thresholds cfg)"
  defines "underused \<equiv> (\<lambda>(k, th). \<exists>xs. map_of series k = Some xs \<and> avg_util xs < the th)"
  shows "judged \<noteq> [] \<and> (case uc_operator cfg of OpAnd \<Rightarrow> \<forall>p\<in>set judged. underused p | OpOr \<Rightarrow> \<exists>p\<in>set judged. underused p)"
proof -
  obtain bs where bs: "mapE (\<lambda>(k, th). bindE (dget series k) (\<lambda>xs. Inr (avg_util xs \<ge> the th))) judged = Inr bs" "bs \<noteq> []"
    "case uc_operator cfg of OpOr \<Rightarrow> \<not> list_all id bs | OpAnd \<Rightarrow> \<not> list_ex id bs"
    using assms(1) unfolding judge_utilization_def judged_def[symmetric]
    by (auto simp: bindE_eq_Inr_iff split: if_splits threshold_operator.splits)
  note a = bs(1)[unfolded mapE_Inr_iff]
  have u: "underused p \<longleftrightarrow> \<not> b" if "(\<lambda>(k, th). bindE (dget series k) (\<lambda>xs. Inr (avg_util xs \<ge> the th))) p = Inr b" for p b
    using that by (cases p) (auto simp: underused_def dget_def bindE_eq_Inr_iff split: option.splits)
  have "judged \<noteq> []" using a bs(2) by auto
  moreover have "\<forall>p\<in>set judged. underused p" if "\<not> list_ex id bs"
    using that all2_bex[OF a] u by (fastforce simp: list_ex_iff)
  moreover have "\<exists>p\<in>set judged. underused p" if "\<not> list_all id bs"
    using that all2_ball[OF a] u by (fastforce simp: list_all_iff)
  ultimately show ?thesis using bs(3) by (cases "uc_operator cfg") simp_all
qed

text \<open>
  The utilisation checker rejects a session only on full evidence: some allocated resource has a
  threshold, every series recorded now holds at least as many samples as the window asks for, and
  the averages are below the thresholds: all of them under the operator AND, one of them under OR.
\<close>
theorem utilization_rejects_underused:
  assumes "utilization_check cfg t session policy s lv = (Inr False, lv')"
  shows "\<exists>series unavailable. fst (the (map_of (lv_util_series lv') (k_id session))) = series \<and>
    bindE (unique_res_map (k_occupied_slots session)) unavailable_resources = Inr unavailable \<and>
    (\<forall>(k, xs)\<in>set series. int (length xs) \<ge> window_of cfg policy) \<and>
    (let judged = filter (\<lambda>(k, th). th \<noteq> None \<and> k \<notin> set unavailable) (uc_resource_thresholds cfg);
         underused = (\<lambda>(k, th). \<exists>xs. map_of series k = Some xs \<and> avg_util xs < the th)
     in judged \<noteq> [] \<and> (case uc_operator cfg of OpAnd \<Rightarrow> \<forall>p\<in>set judged. underused p | OpOr \<Rightarrow> \<exists>p\<in>set judged. underused p))"
proof -
  obtain unavailable current series series' where h: "bindE (unique_res_map (k_occupied_slots session)) unavailable_resources = Inr unavailable"
    "mapE (push_sample (window_of cfg policy) current) series = Inr series'" "\<not> not_enough_data (window_of cfg policy) series"
    "judge_utilization cfg unavailable series' = Inr False" "lv' = store_series cfg t (k_id session) series' lv"
    by (rule utilization_check_False[OF assms])
  have "fst (the (map_of (lv_util_series lv') (k_id session))) = series'" by (simp add: h(5) store_series_def Let_def update_conv)
  moreover have "\<forall>(k, xs)\<in>set series'. int (length xs) \<ge> window_of cfg policy" using pushed_length[OF h(2,3)] by blast
  ultimately show ?thesis using h(1) judge_False[OF h(4)] unfolding Let_def by blast
qed

definition demo_util :: util_config where
  "demo_util = \<lparr>uc_resource_thresholds = [(''cpu_util'', Some 30), (''mem'', None)], uc_operator = OpAnd, uc_time_window = 15, uc_initial_grace_period = 0\<rparr>"

definition demo_busy :: "string \<Rightarrow> db" where
  "demo_busy pct = demo_db [demo_placed ''k'' ''k'' ''main'' RUNNING ''i''] []\<lparr>db_kernel_stats := [(''k'', JObj [(''cpu_util'', JObj [(''pct'', JStr pct)])])]\<rparr>"

theorem utilization_rejects_underused_witness:
  "\<exists>lv' series. utilization_check demo_util 200 (demo_placed ''k'' ''k'' ''main'' RUNNING ''i'') (demo_policy (- 1)) (demo_busy ''12.5'')
      (demo_live\<lparr>lv_util_series := [(''k'', [(''cpu_util'', [20]), (''mem'', [0])], None)]\<rparr>) = (Inr False, lv') \<and>
    fst (the (map_of (lv_util_series lv') ''k'')) = series \<and> (\<exists>xs. map_of series ''cpu_util'' = Some xs \<and> avg_util xs < 30)"
proof -
  let ?r = "demo_placed ''k'' ''k'' ''main'' RUNNING ''i''" and ?lv = "demo_live\<lparr>lv_util_series := [(''k'', [(''cpu_util'', [20]), (''mem'', [0])], None)]\<rparr>"
  have "fst (utilization_check demo_util 200 ?r (demo_policy (- 1)) (demo_busy ''12.5'') ?lv) = Inr False" by code_simp
  then obtain lv' where c: "utilization_check demo_util 200 ?r (demo_policy (- 1)) (demo_busy ''12.5'') ?lv = (Inr False, lv')" by (metis prod.collapse)
  have i: "k_id ?r = ''k''" "bindE (unique_res_map (k_occupied_slots ?r)) unavailable_resources = Inr []" by code_simp+
  from utilization_rejects_underused[OF c] i have "\<exists>xs. map_of (fst (the (map_of (lv_util_series lv') ''k''))) ''cpu_util'' = Some xs \<and> avg_util xs < 30"
    by (auto simp: Let_def demo_util_def)
  with c show ?thesis by blast
qed

section \<open>A round of the host\<close>









lemma session_policy_events [simp]: "session_policy (s\<lparr>db_events := es\<rparr>) = session_policy s"
  by (simp add: session_policy_def fun_eq_iff)




section \<open>A checker that stops the others\<close>

text \<open>
  The utilisation checker knows CPU, memory and CUDA only: a running session that has none of
  another accelerator raises KeyError, which ends the whole round, so that the idle session after
  it is never looked at, although it would be rejected.
\<close>
theorem unknown_accelerator_blocks:
  "let rocm = demo_placed ''a'' ''a'' ''main'' RUNNING ''i''\<lparr>k_occupied_slots := [(''cpu'', Fin 1), (''rocm.device'', Fin 0)]\<rparr>;
       s = demo_db [rocm, demo_placed ''k'' ''k'' ''main'' RUNNING ''i''] [];
       lv = execution_cb 600 1000 ''k'' ExecutionFinished demo_live;
       checkers = init_idle_checkers 600 demo_util (Some ''utilization,timeout'')
   in fst (do_idle_check False 2000 checkers s lv) = Inl KeyError \<and> db_events (fst (snd (do_idle_check False 2000 checkers s lv))) = [] \<and>
      db_events (fst (snd (do_idle_check False 2000 checkers (s\<lparr>db_kernels := tl (db_kernels s)\<rparr>) lv))) =
        [DoTerminateSessionEvent ''k'' ''idle-timeout'']"
  unfolding Let_def by code_simp

end
