(* ===== verification/ImageRefs.thy ===== *)
theory ImageRefs
  imports SlotInput Sessions "HOL-Library.Sublist"
begin

text \<open>
  Image references (\<open>common/docker.py\<close>): parsing \<open>registry/name:tag\<close>, the platform tags, the canonical
  text, the order of references and the aliases generated for an image.  What is not decided by the
  text itself is an argument: \<open>is_ip\<close> tells whether the host part of a registry is an IP address
  (\<open>yarl\<close> and \<open>ipaddress\<close>), \<open>ver_lt\<close> and \<open>ver_ne\<close> compare versions (\<open>packaging.version\<close>).
\<close>

section \<open>Texts\<close>

definition ascii_alpha :: "char \<Rightarrow> bool" where
  "ascii_alpha c \<longleftrightarrow> list_ex (\<lambda>(lo, hi). lo \<le> c \<and> c \<le> hi) [(CHR ''A'', CHR ''Z''), (CHR ''a'', CHR ''z'')]"

definition is_alnum :: "char \<Rightarrow> bool" where
  "is_alnum c \<longleftrightarrow> ascii_alpha c \<or> is_digit c"

text \<open>The regular expressions end in a dollar sign, which also matches before a final line feed.\<close>

definition drop_newline :: "string \<Rightarrow> string" where
  "drop_newline s = (if s \<noteq> [] \<and> last s = CHR 10 then butlast s else s)"

text \<open>\<open>_rx_slug\<close>.\<close>

definition slug :: "string \<Rightarrow> bool" where
  "slug s0 \<longleftrightarrow> (let s = drop_newline s0 in
     s \<noteq> [] \<and> is_alnum (hd s) \<and> is_alnum (last s) \<and> list_all (\<lambda>c. is_alnum c \<or> c \<in> set ''-._'') s)"

text \<open>The version of a platform tag: digits, more digits after points, then lower-case letters and digits.\<close>

definition ver_tail :: "string \<Rightarrow> bool" where
  "ver_tail s \<longleftrightarrow> list_all (\<lambda>c. CHR ''a'' \<le> c \<and> c \<le> CHR ''z'' \<or> is_digit c) s"

function ver_rest :: "string \<Rightarrow> bool" where
  "ver_rest s =
     (let r = dropWhile is_digit s
      in ver_tail r \<or> (case r of c # d # ds \<Rightarrow> c = CHR ''.'' \<and> is_digit d \<and> ver_rest ds | _ \<Rightarrow> False))"
  by pat_completeness auto
termination
proof (relation "measure length")
  fix s r c l d ds
  assume "r = dropWhile is_digit s" and "r = c # l" and "l = d # ds"
  then have "dropWhile is_digit s = c # d # ds" by simp
  with length_dropWhile_le[of is_digit s] show "(ds, s) \<in> measure length" by simp
qed simp

declare ver_rest.simps [simp del]

definition version_ok :: "string \<Rightarrow> bool" where
  "version_ok s = (case s of d # ds \<Rightarrow> is_digit d \<and> ver_rest ds | [] \<Rightarrow> False)"

section \<open>Platform tags\<close>

definition platform_tag :: "string \<Rightarrow> (string \<times> string) res" where
  "platform_tag t0 =
     (let t = drop_newline t0; key = takeWhile ascii_alpha t; ver = dropWhile ascii_alpha t
      in if key \<noteq> [] \<and> (ver = [] \<or> version_ok ver) then Inr (key, ver) else Inl ValueError)"

definition PlatformTagSet :: "string list \<Rightarrow> (string, string) dict res" where
  "PlatformTagSet tags =
     foldE (\<lambda>d t. bindE (platform_tag t) (\<lambda>(k, v). if k \<in> set (keys d) then Inl ValueError else Inr (dset d k v))) [] tags"

section \<open>References\<close>

record parsed_ref =
  pi_registry :: string
  pi_name :: string
  pi_tag :: string
  pi_arch :: string
  pi_tag_set :: "string \<times> (string, string) dict"

definition default_registry :: string where
  "default_registry = ''index.docker.io''"

definition default_repository :: string where
  "default_repository = ''lablup''"

definition arch_name_aliases :: "(string, string) dict" where
  "arch_name_aliases = [(''arm64'', ''aarch64''), (''amd64'', ''x86_64''), (''x64'', ''x86_64''), (''x32'', ''x86''), (''i686'', ''x86'')]"

definition is_known_registry :: "(string \<Rightarrow> bool) \<Rightarrow> string \<Rightarrow> string list option \<Rightarrow> bool" where
  "is_known_registry is_ip val known =
     (val = default_registry \<or> (case known of None \<Rightarrow> False | Some ks \<Rightarrow> val \<in> set ks) \<or> is_ip val)"

definition parse_image_tag :: "string \<Rightarrow> bool \<Rightarrow> (string \<times> string) res" where
  "parse_image_tag s using_default =
     (case split_last CHR '':'' s of (nm, t) \<Rightarrow>
        if nm = [] then Inl ValueError
        else Inr (if CHR ''/'' \<notin> set nm \<and> using_default then default_repository @ ''/'' @ nm else nm,
                  case t of None \<Rightarrow> ''latest'' | Some tag \<Rightarrow> tag))"

definition docker_io :: "string \<Rightarrow> bool" where
  "docker_io r \<longleftrightarrow> ends_with r ''.docker.io'' \<or> r = ''docker.io''"

definition registry_and_name :: "(string \<Rightarrow> bool) \<Rightarrow> string list option \<Rightarrow> string \<Rightarrow> (string \<times> string \<times> string) res" where
  "registry_and_name is_ip known val =
     (case split_first CHR ''/'' val of
        (_, None) \<Rightarrow> bindE (parse_image_tag val True) (\<lambda>nt. Inr (default_registry, nt))
      | (reg, Some rest) \<Rightarrow>
          if is_known_registry is_ip reg known then bindE (parse_image_tag rest (docker_io reg)) (\<lambda>nt. Inr (reg, nt))
          else if known = Some [''*''] then bindE (parse_image_tag rest False) (\<lambda>nt. Inr (reg, nt))
          else bindE (parse_image_tag val True) (\<lambda>nt. Inr (default_registry, nt)))"

definition tag_set_of :: "string \<Rightarrow> (string \<times> (string, string) dict) res" where
  "tag_set_of tag = (let tags = split_on CHR ''-'' tag in bindE (PlatformTagSet (tl tags)) (\<lambda>d. Inr (hd tags, d)))"

definition ImageRef :: "(string \<Rightarrow> bool) \<Rightarrow> string list option \<Rightarrow> string \<Rightarrow> string \<Rightarrow> parsed_ref res" where
  "ImageRef is_ip known architecture val =
     (if is_infix ''://'' val \<or> take 2 val = ''//'' then Inl ValueError
      else bindE (registry_and_name is_ip known val) (\<lambda>(reg, nm, tag).
        if \<not> slug tag then Inl ValueError
        else bindE (tag_set_of tag) (\<lambda>ts.
          Inr \<lparr>pi_registry = reg, pi_name = nm, pi_tag = tag, pi_arch = dget_or arch_name_aliases architecture architecture,
               pi_tag_set = ts\<rparr>)))"

definition canonical :: "parsed_ref \<Rightarrow> string" where
  "canonical r = pi_registry r @ ''/'' @ pi_name r @ '':'' @ pi_tag r"

section \<open>The order of references\<close>

definition ref_eq :: "parsed_ref \<Rightarrow> parsed_ref \<Rightarrow> bool" where
  "ref_eq a b \<longleftrightarrow> pi_registry a = pi_registry b \<and> pi_name a = pi_name b \<and> pi_tag a = pi_tag b \<and> pi_arch a = pi_arch b"

text \<open>The first platform tag that both have, with versions that differ, decides.\<close>

fun ptags_lt :: "(string \<Rightarrow> string \<Rightarrow> bool) \<Rightarrow> (string \<Rightarrow> string \<Rightarrow> bool) \<Rightarrow> (string, string) dict \<Rightarrow> (string, string) dict \<Rightarrow> bool option" where
  "ptags_lt ver_lt ver_ne [] other = None"
| "ptags_lt ver_lt ver_ne ((k, v) # rest) other =
     (case map_of other k of
        Some w \<Rightarrow> if v \<noteq> [] \<and> w \<noteq> [] \<and> ver_ne v w then Some (ver_lt v w) else ptags_lt ver_lt ver_ne rest other
      | None \<Rightarrow> ptags_lt ver_lt ver_ne rest other)"

definition ref_lt :: "(string \<Rightarrow> string \<Rightarrow> bool) \<Rightarrow> (string \<Rightarrow> string \<Rightarrow> bool) \<Rightarrow> parsed_ref \<Rightarrow> parsed_ref \<Rightarrow> bool res" where
  "ref_lt ver_lt ver_ne a b =
     (if ref_eq a b then Inr False
      else if pi_name a \<noteq> pi_name b then Inl ValueError
      else if fst (pi_tag_set a) \<noteq> fst (pi_tag_set b) then Inr (ver_lt (fst (pi_tag_set a)) (fst (pi_tag_set b)))
      else Inr (case ptags_lt ver_lt ver_ne (snd (pi_tag_set a)) (snd (pi_tag_set b)) of
          Some r \<Rightarrow> r
        | None \<Rightarrow> length (snd (pi_tag_set b)) < length (snd (pi_tag_set a))))"

section \<open>Aliases\<close>

definition possible_names :: "parsed_ref \<Rightarrow> string list" where
  "possible_names r =
     (let basename = last (split_on CHR ''/'' (pi_name r)); parts = split_on CHR ''-'' basename
      in case parts of _ # second # _ \<Rightarrow> [basename, second] | _ \<Rightarrow> parts)"

definition ptag_list :: "string \<times> string \<Rightarrow> string list" where
  "ptag_list kv =
     (case kv of (k, ver) \<Rightarrow>
        [[], k, k @ ver] @
        (if CHR ''.'' \<in> set ver then [k @ hd (split_on CHR ''.'' ver)]
         else if k = ''py'' \<and> length ver > 1 then [k @ [hd ver]] else []) @
        (if is_infix ''cuda'' k then [''gpu''] else []))"

definition possible_ptags :: "parsed_ref \<Rightarrow> string list list" where
  "possible_ptags r =
     (if fst (pi_tag_set r) = [] then [] else [fst (pi_tag_set r)] # map ptag_list (snd (pi_tag_set r)))"

definition alias_names :: "parsed_ref \<Rightarrow> string list" where
  "alias_names r =
     possible_names r @
     concat (map (\<lambda>nm. map (\<lambda>ptags. nm @ '':'' @ join ''-'' (filter (\<lambda>t. t \<noteq> []) ptags)) (product_lists (possible_ptags r)))
       (possible_names r))"

definition generate_aliases :: "parsed_ref \<Rightarrow> (string, parsed_ref) dict" where
  "generate_aliases r = fold (\<lambda>a d. dset d a r) (alias_names r) []"

text \<open>\<open>max(a, b)\<close> asks \<open>b > a\<close>, which is answered by \<open>a < b\<close>.\<close>

definition merge_aliases :: "(string \<Rightarrow> string \<Rightarrow> bool) \<Rightarrow> (string \<Rightarrow> string \<Rightarrow> bool) \<Rightarrow> (string, parsed_ref) dict \<Rightarrow>
    (string, parsed_ref) dict \<Rightarrow> (string, parsed_ref) dict res" where
  "merge_aliases ver_lt ver_ne d1 d2 =
     (let dup = filter (\<lambda>k. k \<in> set (keys d2)) (keys d1)
      in bindE (foldE (\<lambda>d k. bindE (dget d1 k) (\<lambda>a. bindE (dget d2 k) (\<lambda>b.
             bindE (ref_lt ver_lt ver_ne a b) (\<lambda>lt. Inr (dset d k (if lt then b else a)))))) [] dup) (\<lambda>ret.
         Inr (ret @ filter (\<lambda>(k, _). k \<notin> set dup) d1 @ filter (\<lambda>(k, _). k \<notin> set dup) d2)))"

section \<open>Reading a canonical name back\<close>

lemma while_not: "c \<notin> set a \<Longrightarrow> takeWhile (\<lambda>x. x \<noteq> c) (a @ c # b) = a" "c \<notin> set a \<Longrightarrow> dropWhile (\<lambda>x. x \<noteq> c) (a @ c # b) = c # b"
  by (induction a) auto

lemma split_last_append: "c \<notin> set b \<Longrightarrow> split_last c (a @ c # b) = (a, Some b)"
  using while_not[of c "rev b" "rev a"] by (simp add: split_last_def)

lemma split_first_SomeD: "split_first c s = (a, Some b) \<Longrightarrow> s = a @ c # b \<and> c \<notin> set a"
proof -
  assume *: "split_first c s = (a, Some b)"
  then have c: "c \<in> set s" by (auto simp: split_first_def split: if_splits)
  then obtain u v where "s = u @ c # v" "c \<notin> set u" by (meson split_list_first)
  with split_first_append[of c u v] * show ?thesis by simp
qed

lemma split_last_SomeD: "split_last c s = (a, Some b) \<Longrightarrow> s = a @ c # b \<and> c \<notin> set b"
proof -
  assume *: "split_last c s = (a, Some b)"
  then have c: "c \<in> set s" by (auto simp: split_last_def split: if_splits)
  then obtain u v where "s = u @ c # v" "c \<notin> set v" by (meson split_list_last)
  with split_last_append[of c v u] * show ?thesis by simp
qed

lemma split_NoneD: "split_first c s = (a, None) \<Longrightarrow> a = s \<and> c \<notin> set s" "split_last c s = (a, None) \<Longrightarrow> a = s \<and> c \<notin> set s"
  by (auto simp: split_first_def split_last_def split: if_splits)

lemma is_infix_iff: "is_infix p s \<longleftrightarrow> sublist p s"
proof (induction s)
  case (Cons c s)
  have "take (length p) (c # s) = p \<longleftrightarrow> prefix p (c # s)" by (metis append_eq_conv_conj append_take_drop_id prefix_def)
  with Cons show ?case by (simp add: sublist_Cons_right)
qed auto

lemma slug_chars: "slug t \<Longrightarrow> CHR '':'' \<notin> set t \<and> CHR ''/'' \<notin> set t"
proof -
  assume s: "slug t"
  have "c \<in> set (drop_newline t) \<or> c = CHR 10" if "c \<in> set t" for c
    using that by (cases t rule: rev_cases) (auto simp: drop_newline_def)
  moreover have "c \<in> set (drop_newline t) \<Longrightarrow> is_alnum c \<or> c \<in> set ''-._''" for c
    using s by (auto simp: slug_def Let_def list_all_iff)
  moreover have "\<not> (is_alnum CHR '':'' \<or> CHR '':'' \<in> set ''-._'')" "\<not> (is_alnum CHR ''/'' \<or> CHR ''/'' \<in> set ''-._'')" by code_simp+
  ultimately show ?thesis by force
qed

text \<open>What the parser makes of the part after the registry.\<close>

lemma parse_image_tag_cases:
  assumes "parse_image_tag s dflt = Inr (nm, tag)"
  obtains im where "im \<noteq> []" and "s = im \<or> s = im @ '':'' @ tag"
    and "nm = (if CHR ''/'' \<notin> set im \<and> dflt then default_repository @ ''/'' @ im else im)"
proof -
  obtain im t where sp: "split_last CHR '':'' s = (im, t)" by (cases "split_last CHR '':'' s")
  have n: "im \<noteq> []" "nm = (if CHR ''/'' \<notin> set im \<and> dflt then default_repository @ ''/'' @ im else im)"
    "tag = (case t of None \<Rightarrow> ''latest'' | Some x \<Rightarrow> x)"
    using assms sp by (auto simp: parse_image_tag_def split: if_splits)
  show ?thesis
  proof (cases t)
    case None
    with sp split_NoneD(2) have "s = im" by blast
    with n that show ?thesis by blast
  next
    case (Some x)
    with sp n split_last_SomeD[of "CHR '':''" s im x] have "s = im @ '':'' @ tag" by simp
    with n that show ?thesis by blast
  qed
qed

lemma parse_image_tag_again:
  assumes "nm \<noteq> []" and "CHR '':'' \<notin> set tag" and "CHR ''/'' \<in> set nm \<or> \<not> dflt"
  shows "parse_image_tag (nm @ '':'' @ tag) dflt = Inr (nm, tag)"
  using assms split_last_append[of "CHR '':''" tag nm] by (auto simp: parse_image_tag_def)

text \<open>A reference that was parsed: no scheme in what precedes the tag, and the registry is a plain segment.\<close>

lemma sublist_colon:
  "sublist ''://'' (a @ b) \<longleftrightarrow> sublist ''://'' a \<or> sublist ''://'' b \<or> suffix '':'' a \<and> prefix ''//'' b \<or> suffix '':/'' a \<and> prefix ''/'' b"
  unfolding sublist_append by (auto simp: Cons_eq_append_conv)

lemma sublist_colon_left: "CHR '':'' \<notin> set a \<Longrightarrow> sublist ''://'' (a @ b) \<longleftrightarrow> sublist ''://'' b"
  by (induction a) (auto simp: sublist_Cons_right)

lemma sublist_colon_right: "CHR ''/'' \<notin> set b \<Longrightarrow> sublist ''://'' (a @ b) \<longleftrightarrow> sublist ''://'' a"
  by (auto simp: sublist_colon dest: set_mono_prefix set_mono_sublist)

definition plain_ref :: "string \<Rightarrow> string \<Rightarrow> bool" where
  "plain_ref reg nm \<longleftrightarrow> CHR ''/'' \<notin> set reg \<and> nm \<noteq> [] \<and> \<not> sublist ''://'' (reg @ ''/'' @ nm) \<and> take 2 (reg @ ''/'' @ nm) \<noteq> ''//''"

lemma plain_ref_default:
  assumes "\<not> sublist ''://'' im" and "im \<noteq> []"
  shows "plain_ref default_registry im" "plain_ref default_registry (default_repository @ ''/'' @ im)"
proof -
  have "sublist ''://'' ((default_registry @ ''/'') @ im) = sublist ''://'' im"
    "sublist ''://'' ((default_registry @ ''/'' @ default_repository @ ''/'') @ im) = sublist ''://'' im"
    by (rule sublist_colon_left, simp add: default_registry_def default_repository_def)+
  with assms show "plain_ref default_registry im" "plain_ref default_registry (default_repository @ ''/'' @ im)"
    by (simp_all add: plain_ref_def default_registry_def default_repository_def)
qed

lemma plain_ref_repository:
  assumes "CHR ''/'' \<notin> set reg" and "CHR ''/'' \<notin> set im"
  shows "plain_ref reg (default_repository @ ''/'' @ im)"
proof -
  have "\<not> sublist ''://'' (reg @ ''/lablup/'')" using assms(1)
    by (auto simp: sublist_colon sublist_Cons_right suffix_def dest: set_mono_sublist)
  then have "\<not> sublist ''://'' ((reg @ ''/lablup/'') @ im)" using sublist_colon_right[OF assms(2)] by blast
  with assms show ?thesis by (cases reg) (auto simp: plain_ref_def default_repository_def take_Cons')
qed

text \<open>What is known of the registry and the name of a parsed reference.\<close>

lemma registry_and_name_cases:
  assumes "registry_and_name is_ip known val = Inr (reg, nm, tag)" and "\<not> sublist ''://'' val" and "take 2 val \<noteq> ''//''"
  shows "plain_ref reg nm \<and> (CHR ''/'' \<in> set nm \<or> \<not> docker_io reg \<or> known = Some [''*''])"
proof -
  have dflt: ?thesis if p: "parse_image_tag val True = Inr (nm, tag)" and r: "reg = default_registry"
  proof -
    obtain im where im: "im \<noteq> []" "val = im \<or> val = im @ '':'' @ tag"
      "nm = (if CHR ''/'' \<notin> set im \<and> True then default_repository @ ''/'' @ im else im)" by (rule parse_image_tag_cases[OF p])
    have "\<not> sublist ''://'' im" using assms(2) im(2) by (auto simp: sublist_colon)
    from plain_ref_default[OF this im(1)] im(3) r show ?thesis by simp
  qed
  obtain a rest where ar: "split_first CHR ''/'' val = (a, rest)" by (cases "split_first CHR ''/'' val")
  show ?thesis
  proof (cases rest)
    case None
    then show ?thesis using assms(1) ar by (intro dflt) (auto simp: registry_and_name_def bindE_eq_Inr_iff)
  next
    case (Some r)
    then have v: "val = a @ ''/'' @ r" "CHR ''/'' \<notin> set a" using split_first_SomeD[of _ val a r] ar by auto
    have own: ?thesis if p: "parse_image_tag r d = Inr (nm, tag)" and reg: "reg = a" and d: "d = docker_io a \<or> known = Some [''*''] \<and> d = False" for d
    proof -
      obtain im where im: "im \<noteq> []" "r = im \<or> r = im @ '':'' @ tag"
        "nm = (if CHR ''/'' \<notin> set im \<and> d then default_repository @ ''/'' @ im else im)" by (rule parse_image_tag_cases[OF p])
      have "\<exists>t. val = (a @ ''/'' @ im) @ t" using v(1) im(2) by auto
      then obtain t where t: "val = (a @ ''/'' @ im) @ t" ..
      then have "\<not> sublist ''://'' (a @ ''/'' @ im)" using assms(2) by (auto simp only: sublist_colon)
      moreover have "take 2 (a @ ''/'' @ im) \<noteq> ''//''"
        using assms(3) t im(1) by (cases a; cases im) (auto simp: take_Cons' split: if_splits)
      ultimately have "plain_ref a im" using v(2) im(1) by (simp add: plain_ref_def)
      with im(3) d plain_ref_repository[OF v(2), of im] reg show ?thesis by auto
    qed
    have "reg = a \<and> parse_image_tag r (docker_io a) = Inr (nm, tag) \<or> reg = a \<and> known = Some [''*''] \<and> parse_image_tag r False = Inr (nm, tag) \<or>
        reg = default_registry \<and> parse_image_tag val True = Inr (nm, tag)"
      using assms(1) ar Some by (auto simp: registry_and_name_def bindE_eq_Inr_iff split: if_splits)
    then show ?thesis using own dflt by blast
  qed
qed

lemma arch_alias_idem: "dget_or arch_name_aliases (dget_or arch_name_aliases x x) (dget_or arch_name_aliases x x) = dget_or arch_name_aliases x x"
  by (auto simp: arch_name_aliases_def dget_or_def)

text \<open>
  C35: An image reference survives its canonical name: for whatever text, list of registries and
  architecture a reference was made from, the constructor applied to its canonical name, with its
  registry known, gives the same reference; only a registry below \<open>docker.io\<close> accepted through the
  wild card is excepted.
\<close>
theorem image_ref_roundtrip:
  assumes "ImageRef is_ip known architecture val = Inr r" and "known \<noteq> Some [''*''] \<or> \<not> docker_io (pi_registry r)"
  shows "ImageRef is_ip (Some [pi_registry r]) (pi_arch r) (canonical r) = Inr r"
proof -
  obtain reg nm tag ts where
    p: "\<not> is_infix ''://'' val" "take 2 val \<noteq> ''//''" "registry_and_name is_ip known val = Inr (reg, nm, tag)"
      "slug tag" "tag_set_of tag = Inr ts"
    and r: "r = \<lparr>pi_registry = reg, pi_name = nm, pi_tag = tag, pi_arch = dget_or arch_name_aliases architecture architecture, pi_tag_set = ts\<rparr>"
    using assms(1) by (auto simp: ImageRef_def bindE_eq_Inr_iff split: if_splits)
  have pl: "plain_ref reg nm" "CHR ''/'' \<in> set nm \<or> \<not> docker_io reg"
    using registry_and_name_cases[OF p(3) _ p(2)] p(1) assms(2) r by (auto simp: is_infix_iff)
  have "CHR ''/'' \<notin> set ('':'' @ tag)" using slug_chars[OF p(4)] by simp
  from sublist_colon_right[OF this, of "reg @ ''/'' @ nm"] pl(1)
  have 1: "\<not> is_infix ''://'' (canonical r)" by (simp add: is_infix_iff canonical_def r plain_ref_def)
  have 2: "take 2 (canonical r) \<noteq> ''//''" using pl(1) by (cases reg; cases nm) (auto simp: plain_ref_def canonical_def r take_Cons' split: if_splits)
  have "split_first CHR ''/'' (canonical r) = (reg, Some (nm @ '':'' @ tag))"
    using split_first_append[of "CHR ''/''" reg] pl(1) by (simp add: canonical_def r plain_ref_def)
  moreover have "parse_image_tag (nm @ '':'' @ tag) (docker_io reg) = Inr (nm, tag)"
    using pl slug_chars[OF p(4)] by (intro parse_image_tag_again) (auto simp: plain_ref_def)
  ultimately have "registry_and_name is_ip (Some [reg]) (canonical r) = Inr (reg, nm, tag)"
    by (simp add: registry_and_name_def is_known_registry_def)
  with 1 2 p(4,5) show ?thesis by (simp add: ImageRef_def r arch_alias_idem)
qed

theorem image_ref_roundtrip_witness:
  "\<exists>r. ImageRef (\<lambda>_. False) (Some [''cr.backend.ai'']) ''amd64'' ''cr.backend.ai/stable/python:3.9-ubuntu20.04'' = Inr r \<and>
     ImageRef (\<lambda>_. False) (Some [''cr.backend.ai'']) ''x86_64'' ''cr.backend.ai/stable/python:3.9-ubuntu20.04'' = Inr r"
proof -
  let ?r = "\<lparr>pi_registry = ''cr.backend.ai'', pi_name = ''stable/python'', pi_tag = ''3.9-ubuntu20.04'', pi_arch = ''x86_64'',
    pi_tag_set = (''3.9'', [(''ubuntu'', ''20.04'')])\<rparr>"
  have "ImageRef (\<lambda>_. False) (Some [''cr.backend.ai'']) ''amd64'' ''cr.backend.ai/stable/python:3.9-ubuntu20.04'' = Inr ?r" by code_simp
  from image_ref_roundtrip[OF this] this show ?thesis by (simp add: canonical_def)
qed

text \<open>
  The wild card loses the round trip: a reference to \<open>foo.docker.io/python\<close> accepted through
  it has the name \<open>python\<close>, but reading its canonical name with the registry known gives
  \<open>lablup/python\<close>.
\<close>
lemma wildcard_not_roundtrip:
  "map_sum id pi_name (ImageRef (\<lambda>_. False) (Some [''*'']) ''x86_64'' ''foo.docker.io/python'') = Inr ''python'' \<and>
   map_sum id pi_name (ImageRef (\<lambda>_. False) (Some [''foo.docker.io'']) ''x86_64'' ''foo.docker.io/python:latest'') = Inr ''lablup/python''"
  by code_simp

section \<open>Comparing references\<close>

lemma ref_lt_other_name: "pi_name a \<noteq> pi_name b \<Longrightarrow> ref_lt ver_lt ver_ne a b = Inl ValueError"
  by (simp add: ref_lt_def ref_eq_def)

lemma ref_lt_total: "pi_name a = pi_name b \<Longrightarrow> \<exists>r. ref_lt ver_lt ver_ne a b = Inr r"
  by (auto simp: ref_lt_def)

text \<open>
  Aliases of images that share a base name: every alias generated for both is a conflict that
  \<open>merge_aliases\<close> resolves with the order, which raises when the full names differ.
\<close>

lemma foldE_fail: "x \<in> set xs \<Longrightarrow> (\<And>d. \<exists>e. f d x = Inl e) \<Longrightarrow> \<exists>e. foldE f d xs = Inl e"
proof (induction xs arbitrary: d)
  case (Cons y ys)
  show ?case
  proof (cases "f d y")
    case (Inr d')
    with Cons.prems(2)[of d] have "x \<noteq> y" by auto
    with Cons Inr show ?thesis by simp
  qed simp
qed simp

theorem merge_aliases_names_clash:
  assumes "map_of d1 k = Some a" and "map_of d2 k = Some b" and "pi_name a \<noteq> pi_name b"
  shows "\<exists>e. merge_aliases ver_lt ver_ne d1 d2 = Inl e"
proof -
  let ?f = "\<lambda>d k. bindE (dget d1 k) (\<lambda>a. bindE (dget d2 k) (\<lambda>b. bindE (ref_lt ver_lt ver_ne a b) (\<lambda>lt. Inr (dset d k (if lt then b else a)))))"
  have "k \<in> set (filter (\<lambda>k. k \<in> set (keys d2)) (keys d1))"
    using assms(1,2) by (auto dest!: map_of_SomeD intro: rev_image_eqI)
  then have "\<exists>e. foldE ?f [] (filter (\<lambda>k. k \<in> set (keys d2)) (keys d1)) = Inl e"
    by (rule foldE_fail) (simp add: dget_def assms ref_lt_other_name)
  then show ?thesis by (auto simp: merge_aliases_def Let_def)
qed

text \<open>
  Two corners of the generated aliases: the short name of \<open>lablup/r-base-ml\<close> is its middle component,
  not the last one, and the tag of an accelerator may be left out.
\<close>
lemma alias_corners:
  "map_sum id possible_names (ImageRef (\<lambda>_. False) None ''x86_64'' ''lablup/r-base-ml:4.1'') = Inr [''r-base-ml'', ''base'']"
  "map_sum id (\<lambda>r. alias_names r ! 1) (ImageRef (\<lambda>_. False) None ''x86_64'' ''lablup/tf:1.5-cuda10.0'') = Inr ''tf:1.5''"
  by code_simp+

end
