(* ===== verification/ServicePorts.thy ===== *)
theory ServicePorts
  imports ImageRefs
begin

text \<open>
  Service ports of an image (\<open>common/service_ports.py\<close>): the text \<open>name:protocol:port\<close> or
  \<open>name:protocol:[port,port]\<close>, several separated by commas, parsed with a regular expression until
  nothing is left; the exception class is an argument, as in the source.
\<close>

datatype service_port_protocol = SP_HTTP | SP_TCP | SP_PREOPEN

record service_port =
  sp_name :: string
  sp_protocol :: service_port_protocol
  sp_container_ports :: "nat list"
  sp_host_ports :: "nat option list"

section \<open>Matching one port\<close>

definition word_char :: "char \<Rightarrow> bool" where
  "word_char c \<longleftrightarrow> is_alnum c \<or> c = CHR ''_''"

definition name_char :: "char \<Rightarrow> bool" where
  "name_char c \<longleftrightarrow> word_char c \<or> c = CHR ''-''"

text \<open>A run of characters followed by a colon.\<close>

definition take_field :: "(char \<Rightarrow> bool) \<Rightarrow> string \<Rightarrow> (string \<times> string) option" where
  "take_field P s =
     (let w = takeWhile P s
      in case dropWhile P s of c # r \<Rightarrow> if w \<noteq> [] \<and> c = CHR '':'' then Some (w, r) else None | [] \<Rightarrow> None)"

text \<open>The port numbers: a bracketed list, or one number.\<close>

definition take_ports :: "string \<Rightarrow> (string list \<times> string) option" where
  "take_ports s =
     (if s \<noteq> [] \<and> hd s = CHR ''['' then
        (let inside = takeWhile (\<lambda>c. is_digit c \<or> c = CHR '','') (tl s); nums = split_on CHR '','' inside
         in case dropWhile (\<lambda>c. is_digit c \<or> c = CHR '','') (tl s) of
              c # r \<Rightarrow> if c = CHR '']'' \<and> [] \<notin> set nums then Some (nums, r) else None
            | [] \<Rightarrow> None)
      else let num = takeWhile is_digit s in if num = [] then None else Some ([num], dropWhile is_digit s))"

text \<open>A comma, which is consumed, or the end, which may be a final line feed.\<close>

definition take_end :: "string \<Rightarrow> string option" where
  "take_end s = (case s of [] \<Rightarrow> Some [] | c # r \<Rightarrow> if c = CHR '','' then Some r else if s = [CHR 10] then Some s else None)"

definition rx_service_ports :: "string \<Rightarrow> (string \<times> string \<times> string list \<times> string) option" where
  "rx_service_ports s =
     Option.bind (take_field name_char s) (\<lambda>(nm, r1).
     Option.bind (take_field word_char r1) (\<lambda>(proto, r2).
     Option.bind (take_ports r2) (\<lambda>(nums, r3).
     Option.bind (take_end r3) (\<lambda>r4. Some (nm, proto, nums, r4)))))"

lemma take_field_shorter: "take_field P s = Some (w, r) \<Longrightarrow> length r < length s"
proof -
  assume "take_field P s = Some (w, r)"
  then have "dropWhile P s = CHR '':'' # r" by (auto simp: take_field_def Let_def split: list.splits if_splits)
  with length_dropWhile_le[of P s] show ?thesis by simp
qed

lemma take_ports_shorter: "take_ports s = Some (n, r) \<Longrightarrow> length r \<le> length s"
proof -
  assume *: "take_ports s = Some (n, r)"
  show ?thesis
  proof (cases "s \<noteq> [] \<and> hd s = CHR ''[''")
    case True
    let ?P = "\<lambda>c. is_digit c \<or> c = CHR '',''"
    have "\<exists>c. dropWhile ?P (tl s) = c # r" using * True by (auto simp: take_ports_def Let_def split: list.splits if_splits)
    then have "length r < length (tl s)" using length_dropWhile_le[of ?P "tl s"] by auto
    then show ?thesis by simp
  next
    case False
    with * have "r = dropWhile is_digit s" by (auto simp: take_ports_def Let_def split: if_splits)
    then show ?thesis by (simp add: length_dropWhile_le)
  qed
qed

lemma take_end_shorter: "take_end s = Some r \<Longrightarrow> length r \<le> length s"
  by (auto simp: take_end_def split: list.splits if_splits)

lemma rx_shorter: "rx_service_ports s = Some (nm, proto, nums, r) \<Longrightarrow> length r < length s"
  by (auto simp: rx_service_ports_def bind_eq_Some_conv dest!: take_field_shorter take_ports_shorter take_end_shorter)

section \<open>Parsing\<close>

definition port_number :: "string \<Rightarrow> nat" where
  "port_number s = (case parse_nat s of Some n \<Rightarrow> n | None \<Rightarrow> 0)"

definition reserved_ports :: "nat list" where
  "reserved_ports = [2000, 2001, 2002, 2003, 2200, 7681]"

definition check_port :: "py_exc \<Rightarrow> nat list \<Rightarrow> nat \<Rightarrow> nat list res" where
  "check_port exc used p =
     (if p \<in> set used then Inl exc
      else if p \<le> 1024 then Inl exc
      else if p \<ge> 65535 then Inl exc
      else if p \<in> set reserved_ports then Inl exc
      else Inr (used @ [p]))"

definition protocol_of :: "string \<Rightarrow> service_port_protocol option" where
  "protocol_of s = map_of [(''tcp'', SP_TCP), (''http'', SP_HTTP), (''preopen'', SP_PREOPEN)] s"

function parse_ports :: "py_exc \<Rightarrow> string \<Rightarrow> service_port list \<Rightarrow> nat list \<Rightarrow> service_port list res" where
  "parse_ports exc s items used =
     (case rx_service_ports s of
        None \<Rightarrow> if s = [] then Inr items else Inl exc
      | Some (nm, proto, nums, rest) \<Rightarrow>
          if proto = ''pty'' then parse_ports exc rest items used
          else (case protocol_of proto of
                  None \<Rightarrow> Inl exc
                | Some p \<Rightarrow>
                    (let ports = map port_number nums
                     in case foldE (check_port exc) used ports of
                          Inl e \<Rightarrow> Inl e
                        | Inr used' \<Rightarrow>
                            parse_ports exc rest
                              (items @ [\<lparr>sp_name = nm, sp_protocol = p, sp_container_ports = ports,
                                         sp_host_ports = replicate (length ports) None\<rparr>]) used')))"
  by pat_completeness auto
termination
  by (relation "measure (\<lambda>(exc, s, items, used). length s)") (auto dest: rx_shorter)

declare parse_ports.simps [simp del]

definition parse_service_ports :: "string \<Rightarrow> py_exc \<Rightarrow> service_port list res" where
  "parse_service_ports s exception_cls = parse_ports exception_cls s [] []"

section \<open>Accepted ports\<close>

definition usable_port :: "nat \<Rightarrow> bool" where
  "usable_port p \<longleftrightarrow> 1024 < p \<and> p < 65535 \<and> p \<notin> set reserved_ports"

lemma check_port_fold:
  assumes "foldE (check_port exc) used ps = Inr used'" and "distinct used"
  shows "used' = used @ ps \<and> distinct used' \<and> list_all usable_port ps"
  using assms
proof (induction ps arbitrary: used)
  case (Cons p ps)
  have "check_port exc used p = (if p \<in> set used \<or> \<not> usable_port p then Inl exc else Inr (used @ [p]))"
    by (auto simp: check_port_def usable_port_def)
  with Cons.prems(1) have p: "p \<notin> set used" "usable_port p" "foldE (check_port exc) (used @ [p]) ps = Inr used'"
    by (auto split: if_splits)
  from Cons.IH[OF p(3)] p(1,2) Cons.prems(2) show ?case by auto
qed simp

definition all_ports :: "service_port list \<Rightarrow> nat list" where
  "all_ports items = concat (map sp_container_ports items)"

definition ports_ok :: "service_port list \<Rightarrow> nat list \<Rightarrow> bool" where
  "ports_ok items used \<longleftrightarrow> used = all_ports items \<and> distinct used \<and> list_all usable_port used \<and>
     list_all (\<lambda>i. length (sp_host_ports i) = length (sp_container_ports i)) items"

lemma parse_ports_accepted:
  assumes "parse_ports exc s items used = Inr items'" and "ports_ok items used"
  shows "\<exists>used'. ports_ok items' used'"
  using assms
proof (induction exc s items used rule: parse_ports.induct)
  case (1 exc s items used)
  show ?case
  proof (cases "rx_service_ports s")
    case None
    with 1 show ?thesis by (auto simp: parse_ports.simps[of exc s] split: if_splits)
  next
    case (Some m)
    obtain nm proto nums rest where m: "m = (nm, proto, nums, rest)" by (cases m)
    show ?thesis
    proof (cases "proto = ''pty''")
      case True
      with 1 Some m show ?thesis by (simp add: parse_ports.simps[of exc s])
    next
      case False
      let ?ports = "map port_number nums"
      from False 1(3) Some m obtain p used' where pu: "protocol_of proto = Some p" "foldE (check_port exc) used ?ports = Inr used'"
        "parse_ports exc rest (items @ [\<lparr>sp_name = nm, sp_protocol = p, sp_container_ports = ?ports,
            sp_host_ports = replicate (length ?ports) None\<rparr>]) used' = Inr items'"
        by (auto simp: parse_ports.simps[of exc s] Let_def split: option.splits sum.splits)
      have "distinct used" using 1(4) unfolding ports_ok_def by blast
      from check_port_fold[OF pu(2) this] 1(4)
      have "ports_ok (items @ [\<lparr>sp_name = nm, sp_protocol = p, sp_container_ports = ?ports, sp_host_ports = replicate (length ?ports) None\<rparr>]) used'"
        unfolding ports_ok_def by (elim conjE) (simp only: all_ports_def map_append concat_append list_all_append; simp)
      from 1(2)[OF Some _ _ _ False pu(1) refl pu(2) pu(3) this] m show ?thesis by simp
    qed
  qed
qed

text \<open>
  Whatever the label says, the service ports that are accepted are usable: no port number
  occurs twice in the whole list, each lies strictly between 1024 and 65535 and is not one of those
  reserved for the kernel runner, and every container port has a place for its host port.
\<close>
theorem service_ports_accepted:
  assumes "parse_service_ports s exc = Inr items"
  shows "distinct (all_ports items) \<and> list_all usable_port (all_ports items) \<and>
    list_all (\<lambda>i. length (sp_host_ports i) = length (sp_container_ports i)) items"
proof -
  have "ports_ok [] []" by (simp add: ports_ok_def all_ports_def)
  from parse_ports_accepted[OF assms[unfolded parse_service_ports_def] this] show ?thesis by (auto simp: ports_ok_def)
qed

lemmas ports_eval = parse_service_ports_def parse_ports.simps rx_service_ports_def take_field_def take_ports_def take_end_def name_char_def
  word_char_def is_alnum_def ascii_alpha_def is_digit_def digit_val_def port_number_def parse_nat_def check_port_def reserved_ports_def protocol_of_def
  less_eq_char_def

theorem service_ports_accepted_witness:
  "\<exists>items. parse_service_ports ''jupyter:http:8080,tb:http:[6006,6007]'' BackendError = Inr items \<and> distinct (all_ports items) \<and>
     all_ports items = [8080, 6006, 6007]"
proof -
  let ?i = "[\<lparr>sp_name = ''jupyter'', sp_protocol = SP_HTTP, sp_container_ports = [8080], sp_host_ports = [None]\<rparr>,
    \<lparr>sp_name = ''tb'', sp_protocol = SP_HTTP, sp_container_ports = [6006, 6007], sp_host_ports = [None, None]\<rparr>]"
  have "parse_service_ports ''jupyter:http:8080,tb:http:[6006,6007]'' BackendError = Inr ?i"
    by (simp add: ports_eval)
  from service_ports_accepted[OF this] this show ?thesis by (intro exI[of _ ?i]) (simp add: all_ports_def)
qed

end
