(* ===== verification/ClientIps.thy ===== *)
theory ClientIps
  imports ImageRefs "HOL-Library.Word"
begin

text \<open>
  Networks of client addresses (\<open>ReadableCIDR\<close> of \<open>common/types.py\<close>): texts such as \<open>192.10.*.*\<close> or
  \<open>10.0.0.0/8\<close> as networks, and membership of an address.  The parser of addresses and
  networks follows the \<open>ipaddress\<close> module: decimal octets without leading zeros, networks without
  host bits, a prefix given as a length, as a netmask or as a hostmask (IPv4), and IPv6 hextets with
  at most one omission.
\<close>

unbundle bit_operations_syntax

section \<open>Addresses\<close>

datatype ip_addr = IPv4 "32 word" | IPv6 "128 word"

datatype ip_net = Net4 "32 word" nat | Net6 "128 word" nat

definition octet :: "string \<Rightarrow> nat option" where
  "octet s = (if length s > 3 \<or> (s \<noteq> ''0'' \<and> take 1 s = ''0'') then None
     else Option.bind (parse_nat s) (\<lambda>n. if n > 255 then None else Some n))"

fun mapO :: "('a \<Rightarrow> 'b option) \<Rightarrow> 'a list \<Rightarrow> 'b list option" where
  "mapO f [] = Some []"
| "mapO f (x # xs) = Option.bind (f x) (\<lambda>y. map_option ((#) y) (mapO f xs))"

text \<open>Digits in base \<open>b\<close>, most significant first.\<close>

definition from_digits :: "nat \<Rightarrow> nat list \<Rightarrow> nat" where
  "from_digits b ds = foldl (\<lambda>acc d. acc * b + d) 0 ds"

definition ip4_of :: "nat list \<Rightarrow> 32 word" where
  "ip4_of os = of_nat (from_digits 256 os)"

definition parse_ip4 :: "string \<Rightarrow> 32 word option" where
  "parse_ip4 s =
     (let parts = split_on CHR ''.'' s
      in if length parts \<noteq> 4 then None else map_option ip4_of (mapO octet parts))"

definition hex_digit :: "char \<Rightarrow> nat option" where
  "hex_digit c =
     (if is_digit c then digit_val c
      else case List.find (\<lambda>(x, _). x = char_lower c) (zip ''abcdef'' [10..<16]) of Some (_, d) \<Rightarrow> Some d | None \<Rightarrow> None)"

definition hextet :: "string \<Rightarrow> nat option" where
  "hextet s = (if s = [] \<or> length s > 4 then None else map_option (from_digits 16) (mapO hex_digit s))"

text \<open>A last part with a point is an IPv4 address and stands for two hextets.\<close>

definition ip6_parts :: "string list \<Rightarrow> nat option list option" where
  "ip6_parts parts =
     (let hex = map hextet
      in if CHR ''.'' \<in> set (last parts) then
           map_option (\<lambda>v. hex (butlast parts) @ [Some (unat v div 65536), Some (unat v mod 65536)]) (parse_ip4 (last parts))
         else Some (hex parts))"

definition parse_ip6 :: "string \<Rightarrow> 128 word option" where
  "parse_ip6 s0 =
     (let s = takeWhile (\<lambda>c. c \<noteq> CHR ''%'') s0; scope = drop (length s) s0; texts = split_on CHR '':'' s
      in if s0 \<noteq> s \<and> (scope = ''%'' \<or> CHR ''%'' \<in> set (tl scope)) \<or> length texts < 3 then None
         else Option.bind (ip6_parts texts) (\<lambda>parts.
           let n = length parts;
               empty = map (\<lambda>t. t = []) texts @ (if length texts < n then [False] else []);
               skips = filter (\<lambda>i. empty ! i) [1..<n - 1];
               value = (\<lambda>os. map_option (\<lambda>ds. of_nat (from_digits 65536 ds)) (mapO id os))
           in if n > 9 \<or> length skips > 1 then None
              else case skips of
                     [] \<Rightarrow> if n \<noteq> 8 \<or> hd empty \<or> last empty then None else value parts
                   | i # _ \<Rightarrow>
                       let hi = (if hd empty then i - 1 else i); lo = (if last empty then n - i - 2 else n - i - 1)
                       in if hd empty \<and> hi > 0 \<or> last empty \<and> lo > 0 \<or> hi + lo > 7 then None
                          else value (take hi parts @ replicate (8 - hi - lo) (Some 0) @ drop (n - lo) parts)))"

definition ip_address :: "string \<Rightarrow> ip_addr res" where
  "ip_address s =
     (case parse_ip4 s of Some v \<Rightarrow> Inr (IPv4 v)
      | None \<Rightarrow> (case parse_ip6 s of Some v \<Rightarrow> Inr (IPv6 v) | None \<Rightarrow> Inl ValueError))"

section \<open>Networks\<close>

definition prefix_length :: "nat \<Rightarrow> string \<Rightarrow> nat option" where
  "prefix_length width s = Option.bind (parse_nat s) (\<lambda>n. if n > width then None else Some n)"

definition netmask4 :: "nat \<Rightarrow> 32 word" where
  "netmask4 p = NOT (mask (32 - p))"

definition netmask6 :: "nat \<Rightarrow> 128 word" where
  "netmask6 p = NOT (mask (128 - p))"

definition prefix4 :: "string \<Rightarrow> nat option" where
  "prefix4 s =
     (case prefix_length 32 s of Some p \<Rightarrow> Some p
      | None \<Rightarrow> Option.bind (parse_ip4 s) (\<lambda>v.
          case List.find (\<lambda>p. netmask4 p = v) [0..<33] of Some p \<Rightarrow> Some p
          | None \<Rightarrow> List.find (\<lambda>p. netmask4 p = NOT v) [0..<33]))"

definition network4 :: "string \<Rightarrow> string option \<Rightarrow> ip_net res option" where
  "network4 addr pfx =
     (case (parse_ip4 addr, case pfx of None \<Rightarrow> Some 32 | Some t \<Rightarrow> prefix4 t) of
        (Some v, Some p) \<Rightarrow> Some (if v AND netmask4 p \<noteq> v then Inl ValueError else Inr (Net4 v p))
      | _ \<Rightarrow> None)"

definition network6 :: "string \<Rightarrow> string option \<Rightarrow> ip_net res option" where
  "network6 addr pfx =
     (case (parse_ip6 addr, case pfx of None \<Rightarrow> Some 128 | Some t \<Rightarrow> prefix_length 128 t) of
        (Some v, Some p) \<Rightarrow> Some (if v AND netmask6 p \<noteq> v then Inl ValueError else Inr (Net6 v p))
      | _ \<Rightarrow> None)"

definition ip_network :: "string \<Rightarrow> ip_net res" where
  "ip_network s =
     (case split_first CHR ''/'' s of (addr, pfx) \<Rightarrow>
        (case network4 addr pfx of Some r \<Rightarrow> r
         | None \<Rightarrow> (case network6 addr pfx of Some r \<Rightarrow> r | None \<Rightarrow> Inl ValueError)))"

fun in_network :: "ip_addr \<Rightarrow> ip_net \<Rightarrow> bool" where
  "in_network (IPv4 a) (Net4 v p) \<longleftrightarrow> a AND netmask4 p = v"
| "in_network (IPv6 a) (Net6 v p) \<longleftrightarrow> a AND netmask6 p = v"
| "in_network _ _ \<longleftrightarrow> False"

section \<open>ReadableCIDR\<close>

definition to_ip_network :: "string \<Rightarrow> ip_net res" where
  "to_ip_network v = (case ip_network v of Inl e \<Rightarrow> Inl (if e = ValueError then InvalidIpAddressValue else e) | Inr n \<Rightarrow> Inr n)"

definition index_of :: "'a \<Rightarrow> 'a list \<Rightarrow> nat res" where
  "index_of x xs = (case List.find (\<lambda>i. xs ! i = x) [0..<length xs] of Some i \<Rightarrow> Inr i | None \<Rightarrow> Inl ValueError)"

definition convert_to_cidr :: "string \<Rightarrow> ip_net res" where
  "convert_to_cidr s =
     (if CHR ''*'' \<in> set s then
        (case split_first CHR ''/'' s of (ip, given_cidr) \<Rightarrow>
           let filtered = map (\<lambda>c. if c = CHR ''*'' then CHR ''0'' else c) ip
           in (case given_cidr of
                Some (c # cs) \<Rightarrow> to_ip_network (filtered @ ''/'' @ c # cs)
              | _ \<Rightarrow> bindE (index_of ''*'' (split_on CHR ''.'' ip)) (\<lambda>i. to_ip_network (filtered @ ''/'' @ show_nat (i * 8)))))
      else to_ip_network s)"

section \<open>What a wildcard means\<close>

text \<open>The text \<open>o1.(...).ok.*.(...).*\<close> that gives the first octets of an address.\<close>

definition wildcard :: "nat list \<Rightarrow> string" where
  "wildcard os = join ''.'' (map show_nat os @ replicate (4 - length os) ''*'')"

lemma show_nat_chars: "c \<in> set (show_nat n) \<Longrightarrow> is_digit c"
  using show_nat_plain[of n] by (auto simp: list_all_iff plain_digit_def)

lemma octet_show:
  assumes "n < 256"
  shows "octet (show_nat n) = Some n"
proof -
  have lead: "digit_char d \<noteq> CHR ''0''" if "d < 10" "d \<noteq> 0" for d
  proof -
    have "list_all (\<lambda>d. digit_char d \<noteq> CHR ''0'') [1..<10]" by code_simp
    with that show ?thesis by (auto simp: list_all_iff)
  qed
  consider "n < 10" | "10 \<le> n" "n < 100" | "100 \<le> n" by linarith
  then have "length (show_nat n) \<le> 3 \<and> (show_nat n \<noteq> ''0'' \<longrightarrow> take 1 (show_nat n) \<noteq> ''0'')"
  proof cases
    case 2
    then have "show_nat n = [digit_char (n div 10), digit_char (n mod 10)]" by (simp add: show_nat.simps)
    with 2 show ?thesis by (simp add: lead)
  next
    case 3
    with assms have "n div 100 < 10" "\<not> n div 10 < 10" by arith+
    with 3 have "show_nat n = [digit_char (n div 100), digit_char (n div 10 mod 10), digit_char (n mod 10)]"
      by (simp add: show_nat.simps div_mult2_eq[symmetric])
    with 3 assms show ?thesis by (simp add: lead)
  qed (simp add: show_nat.simps)
  with assms show ?thesis by (auto simp: octet_def)
qed

lemma mapO_map: "\<forall>x\<in>set xs. f (g x) = Some x \<Longrightarrow> mapO f (map g xs) = Some xs"
  by (induction xs) auto

lemma from_digits_snoc: "from_digits b (ds @ [d]) = from_digits b ds * b + d"
  by (simp add: from_digits_def)

lemma from_digits_Nil [simp]: "from_digits b [] = 0"
  by (simp add: from_digits_def)

lemma from_digits_append: "from_digits b (xs @ ys) = from_digits b xs * b ^ length ys + from_digits b ys"
  by (induction ys rule: rev_induct) (simp_all add: from_digits_snoc algebra_simps flip: append_assoc)

lemma from_digits_less: "\<forall>d\<in>set ds. d < b \<Longrightarrow> from_digits b ds < b ^ length ds"
proof (induction ds rule: rev_induct)
  case (snoc d ds)
  then have "from_digits b ds + 1 \<le> b ^ length ds" "d < b" by auto
  then have "(from_digits b ds + 1) * b \<le> b ^ length ds * b" by (intro mult_le_mono1)
  with \<open>d < b\<close> show ?case by (simp add: from_digits_snoc algebra_simps)
qed simp

lemma from_digits_inj:
  assumes "length xs = length ys" "\<forall>d\<in>set xs. d < b" "\<forall>d\<in>set ys. d < b" "from_digits b xs = from_digits b ys"
  shows "xs = ys"
  using assms
proof (induction xs arbitrary: ys rule: rev_induct)
  case (snoc x xs)
  then obtain zs z where ys: "ys = zs @ [z]" by (cases ys rule: rev_cases) auto
  with snoc.prems have b: "x < b" "z < b" by auto
  have eq: "from_digits b xs * b + x = from_digits b zs * b + z" using snoc.prems(4) by (simp add: ys from_digits_snoc)
  then have "(from_digits b xs * b + x) div b = (from_digits b zs * b + z) div b" by simp
  with b have "from_digits b xs = from_digits b zs" by simp
  moreover from this eq have "x = z" by simp
  ultimately show ?case using snoc.IH[of zs] snoc.prems ys by simp
qed simp

lemma from_digits_zeros: "from_digits b (replicate n 0) = 0"
  by (induction n) (simp_all add: replicate_append_same[symmetric] from_digits_snoc del: replicate_append_same)

lemma unat_ip4_of: "length os = 4 \<Longrightarrow> \<forall>x\<in>set os. x < 256 \<Longrightarrow> unat (ip4_of os) = from_digits 256 os"
  using from_digits_less[of os 256] by (simp add: ip4_of_def unat_of_nat take_bit_eq_mod)

lemma and_netmask4: "unat (v AND netmask4 p) = unat v div 2 ^ (32 - p) * 2 ^ (32 - p)"
proof -
  have m: "v AND netmask4 p = push_bit (32 - p) (drop_bit (32 - p) v)"
    by (rule bit_eqI) (auto simp: netmask4_def bit_and_iff bit_not_iff bit_mask_iff bit_push_bit_iff bit_drop_bit_eq)
  have v: "unat v < 2 ^ 32" using unsigned_less[of v, where ?'a = nat] by simp
  then have "unat v div 2 ^ (32 - p) * 2 ^ (32 - p) < 2 ^ 32" by (rule le_less_trans[OF div_times_less_eq_dividend])
  moreover have "unat (drop_bit (32 - p) v) = unat v div 2 ^ (32 - p)" by (subst unat_drop_bit_eq) (rule drop_bit_eq_div)
  moreover have "unat (push_bit (32 - p) w) = (unat w * 2 ^ (32 - p)) mod 2 ^ 32" for w :: "32 word"
    by (subst unsigned_push_bit_eq) (simp add: push_bit_eq_mult take_bit_eq_mod)
  ultimately show ?thesis unfolding m by simp
qed

lemma pow256: "(2::nat) ^ (32 - 8 * k) = 256 ^ (4 - k)"
proof -
  have "32 - 8 * k = 8 * (4 - k)" by simp
  then show ?thesis by (simp only: power_mult) simp
qed

abbreviation padded :: "nat list \<Rightarrow> nat list" where
  "padded os \<equiv> os @ replicate (4 - length os) 0"

lemma show_zero: "show_nat 0 = ''0''"
  by code_simp

lemma digits_no_sep: "is_digit c \<Longrightarrow> c \<noteq> CHR ''.'' \<and> c \<noteq> CHR ''/'' \<and> c \<noteq> CHR ''*''"
  by (auto simp: is_digit_def digit_val_def)

lemma parse_ip4_join:
  assumes "length os = 4" "\<forall>x\<in>set os. x < 256"
  shows "parse_ip4 (join ''.'' (map show_nat os)) = Some (ip4_of os)"
proof -
  have "split_on CHR ''.'' (join ''.'' (map show_nat os)) = map show_nat os"
    using assms(1) digits_no_sep show_nat_chars by (intro split_on_join) auto
  moreover have "mapO octet (map show_nat os) = Some os" using assms(2) by (intro mapO_map) (simp add: octet_show)
  ultimately show ?thesis using assms(1) by (simp add: parse_ip4_def)
qed

lemma no_slash_join: "CHR ''/'' \<notin> set (join ''.'' (map show_nat ns))"
  using set_join[of "''.''" "map show_nat ns"] digits_no_sep[OF show_nat_chars, of "CHR ''/''"] by auto

lemma index_of_append: "x \<notin> set xs \<Longrightarrow> index_of x (xs @ x # ys) = Inr (length xs)"
proof -
  assume x: "x \<notin> set xs"
  have "List.find (\<lambda>i. (xs @ x # ys) ! i = x) [0..<length (xs @ x # ys)] = Some (length xs)"
    unfolding find_Some_iff using x by (intro exI[of _ "length xs"]) (auto simp: nth_append)
  then show ?thesis by (simp add: index_of_def)
qed

lemma network_of_prefix:
  assumes os: "length os \<le> 4" "\<forall>x\<in>set os. x < 256"
  shows "network4 (join ''.'' (map show_nat (padded os))) (Some (show_nat (8 * length os))) = Some (Inr (Net4 (ip4_of (padded os)) (8 * length os)))"
    and "length os = 4 \<Longrightarrow> network4 (join ''.'' (map show_nat os)) None = Some (Inr (Net4 (ip4_of os) 32))"
proof -
  have pad: "length (padded os) = 4" "\<forall>x\<in>set (padded os). x < 256" using os by auto
  have "prefix4 (show_nat (8 * length os)) = Some (8 * length os)" using os(1) by (simp add: prefix4_def prefix_length_def)
  moreover have "ip4_of (padded os) AND netmask4 (8 * length os) = ip4_of (padded os)"
  proof (rule word_unat_eq_iff[THEN iffD2])
    note pow256[of "length os"]
    then show "unat (ip4_of (padded os) AND netmask4 (8 * length os)) = unat (ip4_of (padded os))"
      unfolding and_netmask4 unat_ip4_of[OF pad] by (simp add: from_digits_append from_digits_zeros)
  qed
  ultimately show "network4 (join ''.'' (map show_nat (padded os))) (Some (show_nat (8 * length os))) = Some (Inr (Net4 (ip4_of (padded os)) (8 * length os)))"
    using parse_ip4_join[OF pad] by (simp add: network4_def)
  show "network4 (join ''.'' (map show_nat os)) None = Some (Inr (Net4 (ip4_of os) 32))" if "length os = 4"
    using parse_ip4_join[OF that os(2)] by (simp add: network4_def netmask4_def)
qed

lemma convert_wildcard:
  assumes os: "length os \<le> 4" "\<forall>x\<in>set os. x < 256"
  shows "convert_to_cidr (wildcard os) = Inr (Net4 (ip4_of (padded os)) (8 * length os))"
proof -
  let ?ps = "map show_nat os @ replicate (4 - length os) ''*''" and ?f = "\<lambda>c. if c = CHR ''*'' then CHR ''0'' else c"
  have chars: "c = CHR ''.'' \<or> is_digit c \<or> c = CHR ''*''" if "c \<in> set (wildcard os)" for c
  proof -
    from that have "c = CHR ''.'' \<or> (\<exists>p\<in>set ?ps. c \<in> set p)" using set_join[of "''.''" ?ps] unfolding wildcard_def by fastforce
    then show ?thesis by (auto dest: show_nat_chars)
  qed
  have noslash: "CHR ''/'' \<notin> set (wildcard os)" using chars[of "CHR ''/''"] by (auto simp: is_digit_def digit_val_def)
  have "map ?f (show_nat n) = show_nat n" for n
  proof (rule map_idI)
    fix c assume "c \<in> set (show_nat n)"
    then have "c \<noteq> CHR ''*''" using digits_no_sep[OF show_nat_chars] by simp
    then show "?f c = c" by simp
  qed
  then have mp: "map (map ?f) ?ps = map show_nat (padded os)" by (simp add: show_zero)
  have filtered: "map ?f (wildcard os) = join ''.'' (map show_nat (padded os))"
    unfolding wildcard_def map_join mp by simp
  show ?thesis
  proof (cases "length os = 4")
    case True
    then have "CHR ''*'' \<notin> set (wildcard os)"
      using set_join[of "''.''" ?ps] digits_no_sep[of "CHR ''*''"] by (auto simp: wildcard_def dest: show_nat_chars)
    with True noslash network_of_prefix(2)[OF os True] show ?thesis
      by (simp add: convert_to_cidr_def to_ip_network_def ip_network_def split_first_def wildcard_def)
  next
    case False
    with os have k: "length os < 4" by simp
    have split: "split_on CHR ''.'' (wildcard os) = ?ps"
      unfolding wildcard_def using k digits_no_sep show_nat_chars by (intro split_on_join) auto
    have "4 - length os = Suc (3 - length os)" using k by simp
    then have ps: "?ps = map show_nat os @ ''*'' # replicate (3 - length os) ''*''" by simp
    have "''*'' \<notin> set (map show_nat os)" using digits_no_sep show_nat_chars by (metis in_set_conv_nth image_iff list.set_intros(1) set_map)
    then have ix: "index_of ''*'' (split_on CHR ''.'' (wildcard os)) = Inr (length os)"
      unfolding split ps by (subst index_of_append) simp_all
    have "CHR ''*'' \<in> set (wildcard os)" unfolding wildcard_def using k by (intro subsetD[OF parts_in_join, of "''*''"]) auto
    moreover have "split_first CHR ''/'' (join ''.'' (map show_nat (padded os)) @ CHR ''/'' # t) = (join ''.'' (map show_nat (padded os)), Some t)" for t
      by (rule split_first_append[OF no_slash_join])
    ultimately show ?thesis
      using ix noslash filtered network_of_prefix(1)[OF os]
      by (simp add: convert_to_cidr_def to_ip_network_def ip_network_def split_first_def[of _ "wildcard os"] mult.commute)
  qed
qed

text \<open>
  C36: An allowed network given as its first octets and asterisks (such as \<open>192.10.*.*\<close>) is accepted, and
  an IPv4 address belongs to it exactly when it begins with these octets.
\<close>
theorem wildcard_network:
  assumes "length os \<le> 4" "\<forall>x\<in>set os. x < 256" and "length xs = 4" "\<forall>x\<in>set xs. x < 256"
  shows "\<exists>net. convert_to_cidr (wildcard os) = Inr net \<and>
    (\<exists>a. ip_address (join ''.'' (map show_nat xs)) = Inr a \<and> (in_network a net \<longleftrightarrow> take (length os) xs = os))"
proof -
  let ?k = "length os"
  have len: "length (padded os) = 4" "\<forall>x\<in>set (padded os). x < 256" "length (take ?k xs) = ?k" using assms by auto
  have small: "from_digits 256 (drop ?k xs) < 256 ^ (4 - ?k)" using from_digits_less[of "drop ?k xs" 256] assms by (auto dest: in_set_dropD)
  have "from_digits 256 xs = from_digits 256 (take ?k xs) * 256 ^ (4 - ?k) + from_digits 256 (drop ?k xs)"
    using from_digits_append[of 256 "take ?k xs" "drop ?k xs"] assms(3) by simp
  with small have "from_digits 256 xs div 256 ^ (4 - ?k) = from_digits 256 (take ?k xs)" by simp
  then have "ip4_of xs AND netmask4 (8 * ?k) = ip4_of (padded os) \<longleftrightarrow> from_digits 256 (take ?k xs) * 256 ^ (4 - ?k) = from_digits 256 (padded os)"
    by (simp add: word_unat_eq_iff and_netmask4 unat_ip4_of[OF assms(3,4)] unat_ip4_of[OF len(1,2)] pow256)
  also have "\<dots> \<longleftrightarrow> from_digits 256 (take ?k xs) = from_digits 256 os" by (simp add: from_digits_append from_digits_zeros)
  also have "\<dots> \<longleftrightarrow> take ?k xs = os" using from_digits_inj[OF len(3), of 256] assms by (metis in_set_takeD)
  finally show ?thesis using convert_wildcard[OF assms(1,2)] parse_ip4_join[OF assms(3,4)] by (simp add: ip_address_def)
qed

theorem wildcard_network_witness:
  "\<exists>net. convert_to_cidr (wildcard [192, 10]) = Inr net \<and>
    (\<exists>a. ip_address (join ''.'' (map show_nat [192, 10, 3, 7])) = Inr a \<and> in_network a net)"
  using wildcard_network[of "[192, 10]" "[192, 10, 3, 7]"] by auto

end
