(* ===== verification/Images.thy ===== *)
theory Images
  imports ServicePorts ClientIps Dispatcher
begin

text \<open>
  The image table (\<open>manager/models/image.py\<close>): finding the row of a reference or an alias, and the
  range of slots an image accepts; the registry entries of etcd (\<open>common/docker.py\<close>).
\<close>

section \<open>Rows\<close>

text \<open>\<open>resources\<close> maps a slot to its minimum and maximum, texts that may be absent.\<close>

record image_row =
  im_name :: string
  im_registry :: string
  im_architecture :: string
  im_config_digest :: string
  im_labels :: "(string, string) dict"
  im_resources :: "(string, string option \<times> string option) dict"

text \<open>
  Accounts (\<open>manager/models/user.py\<close>, \<open>group.py\<close>, \<open>domain.py\<close>, \<open>keypair.py\<close>): the columns that
  the authorization of requests reads.
\<close>

datatype user_role = SUPERADMIN | ADMIN | USER | MONITOR

text \<open>A dotfile, as it is unpacked from its column.\<close>

record dotfile =
  df_path :: string
  df_perm :: string
  df_data :: string

record user_row =
  u_uuid :: string
  u_email :: string
  u_domain_name :: "string option"
  u_role :: user_role
  u_allowed_client_ip :: "ip_net list option"

record keypair_row =
  kp_access_key :: string
  kp_user :: string
  kp_user_id :: string
  kp_is_active :: bool
  kp_is_admin :: bool
  kp_secret_key :: string
  kp_resource_policy :: string
  kp_bootstrap_script :: string
  kp_ssh_public_key :: "string option"
  kp_ssh_private_key :: "string option"
  kp_dotfiles :: "dotfile list"

record group_row =
  g_id :: string
  g_name :: string
  g_domain_name :: string
  g_is_active :: bool
  g_allowed_vfolder_hosts :: "string list"
  g_dotfiles :: "dotfile list"

record domain_row =
  d_name :: string
  d_is_active :: bool
  d_allowed_docker_registries :: "string list"
  d_allowed_vfolder_hosts :: "string list"
  d_dotfiles :: "dotfile list"

text \<open>On whose behalf a session is created (\<open>manager/types.py\<close>).\<close>

record user_scope =
  us_domain_name :: string
  us_group_id :: string
  us_user_uuid :: string
  us_user_role :: user_role

text \<open>
  The tables that the requests to create a session only read; a pair of \<open>ct_agus\<close> is a user and a
  group the user belongs to.
\<close>

record catalog =
  ct_images :: "image_row list"
  ct_image_aliases :: "(string, image_row) dict"
  ct_registries :: "(string, (string, string) dict) dict"
  ct_users :: "user_row list"
  ct_keypairs :: "keypair_row list"
  ct_domains :: "domain_row list"
  ct_groups :: "group_row list"
  ct_agus :: "(string \<times> string) list"
  ct_sgroups_for_domains :: "(string \<times> string) list"
  ct_sgroups_for_groups :: "(string \<times> string) list"
  ct_sgroups_for_keypairs :: "(string \<times> string) list"

section \<open>Resolving a reference\<close>

datatype image_reference = RefAlias string | RefImage image_ref

definition from_alias :: "catalog \<Rightarrow> string \<Rightarrow> image_row res" where
  "from_alias ct alias = (case map_of (ct_image_aliases ct) alias of Some row \<Rightarrow> Inr row | None \<Rightarrow> Inl UnknownImageReference)"

definition from_image_ref :: "catalog \<Rightarrow> bool \<Rightarrow> image_ref \<Rightarrow> image_row res" where
  "from_image_ref ct strict_arch ref =
     (let candidates = filter (\<lambda>row. im_name row = ir_image ref) (ct_images ct)
      in if candidates = [] then Inl UnknownImageReference
         else if length candidates = 1 \<and> \<not> strict_arch then Inr (hd candidates)
         else case find (\<lambda>row. im_architecture row = ir_architecture ref) candidates of
                Some row \<Rightarrow> Inr row
              | None \<Rightarrow> Inl UnknownImageReference)"

fun image_resolve :: "catalog \<Rightarrow> bool \<Rightarrow> image_reference list \<Rightarrow> image_row res" where
  "image_resolve ct strict_arch [] = Inl ImageNotFound"
| "image_resolve ct strict_arch (reference # rest) =
     (case (case reference of RefAlias a \<Rightarrow> from_alias ct a | RefImage ref \<Rightarrow> from_image_ref ct strict_arch ref) of
        Inr row \<Rightarrow> Inr row
      | Inl e \<Rightarrow> if e = UnknownImageReference then image_resolve ct strict_arch rest else Inl e)"

definition get_registry_info :: "catalog \<Rightarrow> string \<Rightarrow> (string \<times> (string, string) dict) res" where
  "get_registry_info ct name =
     (case map_of (ct_registries ct) name of
        None \<Rightarrow> Inl UnknownImageRegistry
      | Some item \<Rightarrow>
          if item = [] then Inl UnknownImageRegistry
          else bindE (dget item []) (\<lambda>addr.
            if addr = [] then Inl UnknownImageRegistry
            else Inr (addr, filter (\<lambda>(k, _). k \<in> {''username'', ''password''}) item)))"

section \<open>Slot ranges\<close>

text \<open>A number as the value of a slot.  A NaN, on which the first comparison would raise, is refused here.\<close>

definition slot_number :: "num \<Rightarrow> decimal res" where
  "slot_number n = (case num_val n of Some d \<Rightarrow> Inr d | None \<Rightarrow> Inl InvalidOperation)"

definition range_value :: "string \<Rightarrow> decimal \<Rightarrow> string option \<Rightarrow> decimal res" where
  "range_value unit dflt v =
     (case v of
        None \<Rightarrow> Inr dflt
      | Some s \<Rightarrow>
          if unit = ''bytes'' then
            bindE (binsize_from_str (SStr s)) (\<lambda>r. Inr (case r of BSize n \<Rightarrow> Fin (of_int n) | BInf \<Rightarrow> PInf))
          else bindE (parse_decimal s) slot_number)"

definition range_step :: "(string, string) dict \<Rightarrow> slots \<times> slots \<Rightarrow> string \<times> string option \<times> string option \<Rightarrow> (slots \<times> slots) res" where
  "range_step slot_units acc e =
     (case (acc, e) of ((min_slot, max_slot), (slot_key, mn, mx)) \<Rightarrow>
        (case map_of slot_units slot_key of
           None \<Rightarrow> Inr acc
         | Some unit \<Rightarrow>
             bindE (range_value unit 0 mn) (\<lambda>min_value. bindE (range_value unit PInf mx) (\<lambda>max_value.
               Inr (dset min_slot slot_key min_value, dset max_slot slot_key max_value)))))"

definition fill_slots :: "(string, string) dict \<Rightarrow> decimal \<Rightarrow> slots \<Rightarrow> slots" where
  "fill_slots types v d = fold (\<lambda>k d. if k \<in> set (keys d) then d else dset d k v) (keys types) d"

definition get_slot_ranges :: "(string, string) dict \<Rightarrow> image_row \<Rightarrow> (slots \<times> slots) res" where
  "get_slot_ranges slot_units row =
     bindE (foldE (range_step slot_units) ([], []) (im_resources row)) (\<lambda>(min_slot, max_slot).
       Inr (fill_slots slot_units 0 min_slot, fill_slots slot_units PInf max_slot))"

text \<open>The keys of the ranges are exactly the known slots; an image says nothing about other slots.\<close>

lemma fill_slots_keys: "set (keys (fill_slots types v d)) = set (keys d) \<union> set (keys types)"
proof -
  have "set (keys (fold (\<lambda>k d. if k \<in> set (keys d) then d else dset d k v) ks d)) = set (keys d) \<union> set ks" for ks
    by (induction ks arbitrary: d) (auto simp: keys_dset simp del: set_map)
  then show ?thesis by (simp add: fill_slots_def)
qed

lemma range_fold_keys:
  assumes "foldE (range_step units) acc es = Inr acc'" and "set (keys (fst acc)) \<union> set (keys (snd acc)) \<subseteq> set (keys units)"
  shows "set (keys (fst acc')) \<union> set (keys (snd acc')) \<subseteq> set (keys units)"
  using assms
proof (induction es arbitrary: acc)
  case (Cons e es)
  obtain acc1 where a1: "range_step units acc e = Inr acc1" "foldE (range_step units) acc1 es = Inr acc'"
    using Cons.prems(1) by (auto simp: bindE_eq_Inr_iff)
  obtain mn mx k lo hi where sp: "acc = (mn, mx)" "e = (k, lo, hi)" by (cases acc; cases e) auto
  have "set (keys (fst acc1)) \<union> set (keys (snd acc1)) \<subseteq> set (keys units)"
  proof (cases "map_of units k")
    case (Some u)
    then have "k \<in> set (keys units)" by (force dest: map_of_SomeD)
    then show ?thesis using a1(1) Some Cons.prems(2) sp by (auto simp: range_step_def bindE_eq_Inr_iff keys_dset simp del: set_map)
  qed (use a1(1) Cons.prems(2) sp in \<open>simp add: range_step_def\<close>)
  from Cons.IH[OF a1(2) this] show ?case .
qed simp

lemma slot_ranges_keys:
  assumes "get_slot_ranges units row = Inr (mn, mx)"
  shows "set (keys mn) = set (keys units)" "set (keys mx) = set (keys units)"
proof -
  obtain a b where ab: "foldE (range_step units) ([], []) (im_resources row) = Inr (a, b)"
    and m: "mn = fill_slots units 0 a" "mx = fill_slots units PInf b"
    using assms by (auto simp: get_slot_ranges_def bindE_eq_Inr_iff)
  have "set (keys a) \<union> set (keys b) \<subseteq> set (keys units)" using range_fold_keys[OF ab] by simp
  then show "set (keys mn) = set (keys units)" "set (keys mx) = set (keys units)"
    unfolding m fill_slots_keys by blast+
qed

text \<open>
  The image found for a reference has its canonical name; with several rows of that name it has the
  architecture asked for too.
\<close>
lemma from_image_ref_matches:
  assumes "from_image_ref ct strict ref = Inr row"
  shows "row \<in> set (ct_images ct) \<and> im_name row = ir_image ref \<and>
    (im_architecture row = ir_architecture ref \<or> \<not> strict \<and> filter (\<lambda>row. im_name row = ir_image ref) (ct_images ct) = [row])"
proof -
  let ?c = "filter (\<lambda>row. im_name row = ir_image ref) (ct_images ct)"
  show ?thesis
  proof (cases "length ?c = 1 \<and> \<not> strict")
    case True
    then obtain x where "?c = [x]" by (auto simp: length_Suc_conv)
    moreover from this have "x \<in> set ?c" by simp
    then have "x \<in> set (ct_images ct)" "im_name x = ir_image ref" by simp_all
    ultimately show ?thesis using assms True by (auto simp: from_image_ref_def)
  next
    case False
    then have "find (\<lambda>row. im_architecture row = ir_architecture ref) ?c = Some row"
      using assms by (auto simp: from_image_ref_def Let_def split: if_splits option.splits)
    from find_SomeD[OF this] show ?thesis by auto
  qed
qed

section \<open>Examples\<close>

text \<open>A user who may connect from \<open>10.*.*.*\<close>, and the user's keypair.\<close>

definition demo_user :: user_row where
  "demo_user = \<lparr>u_uuid = ''u'', u_email = ''u@x'', u_domain_name = Some ''d'', u_role = USER, u_allowed_client_ip = Some [Net4 (ip4_of [10, 0, 0, 0]) 8]\<rparr>"

definition demo_keypair :: keypair_row where
  "demo_keypair = \<lparr>kp_access_key = ''AK'', kp_user = ''u'', kp_user_id = ''u@x'', kp_is_active = True, kp_is_admin = False, kp_secret_key = ''s'',
     kp_resource_policy = ''default'', kp_bootstrap_script = [], kp_ssh_public_key = None, kp_ssh_private_key = None, kp_dotfiles = []\<rparr>"

end
