(* ===== verification/Auth.thy ===== *)
theory Auth
  imports Images "HOL-Library.Code_Target_Nat"
begin

text \<open>
  Authorization of API requests (\<open>manager/api/auth.py\<close>, \<open>manager/api/utils.py\<close>): the middleware that
  checks date, signature and client address, the guards of handlers, and on whose behalf a request may act.
  The clock, the date parser, the hash functions and the hook are arguments (\<open>auth_env\<close>); a
  date is its local time in seconds, its offset from UTC if it has one, and the text of its day.
  Header names are compared without regard to case.
\<close>

section \<open>Requests\<close>

record http_request =
  hr_headers :: "(string, string) dict"
  hr_method :: string
  hr_raw_path :: string
  hr_host :: string
  hr_content_type :: string
  hr_can_read_body :: bool
  hr_body :: string
  hr_remote :: "string option"

record parsed_date =
  pd_local :: int
  pd_offset :: "int option"
  pd_day :: string

datatype hook_result = HookRejected | HookPassed "string option"

record auth_env =
  ae_now :: int
  ae_dtparse :: "string \<Rightarrow> parsed_date res"
  ae_hexdigest :: "string \<Rightarrow> string \<Rightarrow> string res"
  ae_hmac :: "string \<Rightarrow> string \<Rightarrow> string \<Rightarrow> string"
  ae_hex :: "string \<Rightarrow> string"
  ae_hook :: "http_request \<Rightarrow> hook_result"

definition header :: "http_request \<Rightarrow> string \<Rightarrow> string option" where
  "header rq n = map_option snd (List.find (\<lambda>(k, _). str_lower k = str_lower n) (hr_headers rq))"

text \<open>\<open>a or b\<close> for texts that may be absent.\<close>

definition or_else :: "string option \<Rightarrow> string option \<Rightarrow> string option" where
  "or_else a b = (case a of Some (c # cs) \<Rightarrow> a | _ \<Rightarrow> b)"

definition truthy :: "string option \<Rightarrow> bool" where
  "truthy a \<longleftrightarrow> a \<noteq> None \<and> a \<noteq> Some []"

section \<open>The authorization header\<close>

definition auth_pair :: "string \<Rightarrow> (string \<times> string) res" where
  "auth_pair param = (case split_first CHR ''='' param of (k, Some v) \<Rightarrow> Inr (str_strip k, str_strip v) | _ \<Rightarrow> Inl ValueError)"

definition extract_auth_params :: "http_request \<Rightarrow> (string \<times> string \<times> string) option res" where
  "extract_auth_params rq =
     (if \<not> truthy (header rq ''Authorization'') then Inr None
      else case split_first CHR '' '' (the (header rq ''Authorization'')) of
             (_, None) \<Rightarrow> Inl InvalidAuthParameters
           | (auth_type, Some auth_str) \<Rightarrow>
               if auth_type \<notin> {''BackendAI'', ''Sorna''} then Inl InvalidAuthParameters
               else bindE (mapE auth_pair (map str_strip (split_on CHR '','' auth_str))) (\<lambda>pairs.
                      let params = dict_merge [] pairs
                      in case (map_of params ''credential'', map_of params ''signMethod'') of
                           (Some cred, sign_method) \<Rightarrow>
                             (case (split_first CHR '':'' cred, sign_method) of
                                ((access_key, Some signature), Some m) \<Rightarrow> Inr (Some (m, access_key, signature))
                              | _ \<Rightarrow> Inl InvalidAuthParameters)
                         | _ \<Rightarrow> Inl InvalidAuthParameters))"

section \<open>The date\<close>

definition raw_date :: "http_request \<Rightarrow> string option" where
  "raw_date rq =
     or_else (header rq ''Date'') (case header rq ''X-BackendAI-Date'' of Some d \<Rightarrow> Some d | None \<Rightarrow> header rq ''X-Sorna-Date'')"

definition instant :: "parsed_date \<Rightarrow> int" where
  "instant d = pd_local d - (case pd_offset d of Some z \<Rightarrow> z | None \<Rightarrow> 0)"

definition check_date :: "auth_env \<Rightarrow> http_request \<Rightarrow> (parsed_date \<times> string) option res" where
  "check_date env rq =
     (if \<not> truthy (raw_date rq) then Inr None
      else case ae_dtparse env (the (raw_date rq)) of
             Inl e \<Rightarrow> if e = ValueError then Inr None else Inl e
           | Inr d \<Rightarrow>
               if ae_now env - 15 * 60 < instant d \<and> instant d < ae_now env + 15 * 60 then Inr (Some (d, the (raw_date rq)))
               else Inr None)"

section \<open>The signature\<close>

definition algorithms_guaranteed :: "string list" where
  "algorithms_guaranteed =
     [''md5'', ''sha1'', ''sha224'', ''sha256'', ''sha384'', ''sha512'', ''sha3_224'', ''sha3_256'', ''sha3_384'', ''sha3_512'',
      ''shake_128'', ''shake_256'', ''blake2b'', ''blake2s'']"

definition signed_body :: "http_request \<Rightarrow> string \<Rightarrow> string" where
  "signed_body rq api_version =
     (if api_version < ''v4.20181215'' \<and> hr_can_read_body rq \<and> hr_content_type rq \<noteq> ''multipart/form-data'' then hr_body rq else [])"

definition sign_text :: "http_request \<Rightarrow> string \<Rightarrow> string \<Rightarrow> string \<Rightarrow> string" where
  "sign_text rq date api_version body_hash =
     join [CHR 10] [hr_method rq, hr_raw_path rq, date, ''host:'' @ hr_host rq, ''content-type:'' @ hr_content_type rq,
       ''x-'' @ (if header rq ''X-BackendAI-Version'' \<noteq> None then ''backendai'' else ''sorna'') @ ''-version:'' @ api_version, body_hash]"

definition sign_request :: "auth_env \<Rightarrow> string \<Rightarrow> http_request \<Rightarrow> parsed_date \<Rightarrow> string \<Rightarrow> string \<Rightarrow> string res" where
  "sign_request env sign_method rq date raw secret_key =
     (case map str_lower (split_on CHR ''-'' sign_method) of
        [mac_type, hash_type] \<Rightarrow>
          if mac_type \<noteq> ''hmac'' \<or> hash_type \<notin> set algorithms_guaranteed then Inl InvalidAuthParameters
          else (case or_else (header rq ''X-BackendAI-Version'') (header rq ''X-Sorna-Version'') of
                  None \<Rightarrow> Inl InvalidAuthParameters
                | Some api_version \<Rightarrow>
                    (case ae_hexdigest env hash_type (signed_body rq api_version) of
                       Inl e \<Rightarrow> Inl (if e = ValueError then AuthorizationFailed else if e = AssertionError then InvalidAuthParameters else e)
                     | Inr body_hash \<Rightarrow>
                         let sign_key = ae_hmac env hash_type (ae_hmac env hash_type secret_key (pd_day date)) (hr_host rq)
                         in Inr (ae_hex env (ae_hmac env hash_type sign_key (sign_text rq raw api_version body_hash)))))
      | _ \<Rightarrow> Inl AuthorizationFailed)"

section \<open>The client's address\<close>

definition validate_ip :: "http_request \<Rightarrow> user_row \<Rightarrow> unit res" where
  "validate_ip rq u =
     (case u_allowed_client_ip u of
        Some (n # ns) \<Rightarrow>
          (case or_else (header rq ''X-Forwarded-For'') (hr_remote rq) of
             None \<Rightarrow> Inl AuthorizationFailed
           | Some raw \<Rightarrow>
               (case ip_address raw of
                  Inl e \<Rightarrow> Inl (if e = InvalidIpAddressValue then InvalidAuthParameters else e)
                | Inr a \<Rightarrow> if list_ex (in_network a) (n # ns) then Inr () else Inl AuthorizationFailed))
      | _ \<Rightarrow> Inr ())"

section \<open>The middleware\<close>

record auth_state =
  as_is_authorized :: bool
  as_is_admin :: bool
  as_is_superadmin :: bool
  as_keypair :: "keypair_row option"
  as_user :: "user_row option"
  as_resource_policy :: "policy_row option"

definition anonymous :: auth_state where
  "anonymous = \<lparr>as_is_authorized = False, as_is_admin = False, as_is_superadmin = False, as_keypair = None, as_user = None, as_resource_policy = None\<rparr>"

type_synonym credential = "keypair_row \<times> user_row \<times> policy_row"

text \<open>The join of an active keypair with its user and its resource policy.\<close>

definition query_cred :: "catalog \<Rightarrow> db \<Rightarrow> string \<Rightarrow> credential res" where
  "query_cred ct s access_key =
     (case List.find (\<lambda>kp. kp_access_key kp = access_key \<and> kp_is_active kp) (ct_keypairs ct) of
        None \<Rightarrow> Inl AuthorizationFailed
      | Some kp \<Rightarrow>
          (case (List.find (\<lambda>u. u_uuid u = kp_user kp) (ct_users ct), map_of (db_policies s) (kp_resource_policy kp)) of
             (Some u, Some policy) \<Rightarrow> Inr (kp, u, policy)
           | _ \<Rightarrow> Inl AuthorizationFailed))"

definition count_query :: "string \<Rightarrow> db \<Rightarrow> db" where
  "count_query access_key s =
     (let key = ''kp:'' @ access_key @ '':num_queries'' in s\<lparr>db_redis_stat := dset (db_redis_stat s) key (dget_or (db_redis_stat s) key 0 + 1)\<rparr>)"

text \<open>\<open>compare_digest\<close> refuses texts that are not ASCII.\<close>

definition compare_digest :: "string \<Rightarrow> string \<Rightarrow> bool res" where
  "compare_digest a b = (if list_all (\<lambda>c. of_char c < (128::nat)) (a @ b) then Inr (a = b) else Inl TypeError)"

definition authenticate :: "auth_env \<Rightarrow> catalog \<Rightarrow> http_request \<Rightarrow> parsed_date \<Rightarrow> string \<Rightarrow> db \<Rightarrow> credential option res \<times> db" where
  "authenticate env ct rq date raw s =
     (case ae_hook env rq of
        HookRejected \<Rightarrow> (Inl RejectedByHook, s)
      | HookPassed result \<Rightarrow>
          if truthy result then
            (case query_cred ct s (the result) of Inl e \<Rightarrow> (Inl e, s) | Inr cred \<Rightarrow> (Inr (Some cred), count_query (the result) s))
          else
            (case extract_auth_params rq of
               Inl e \<Rightarrow> (Inl e, s)
             | Inr None \<Rightarrow> (Inr None, s)
             | Inr (Some (sign_method, access_key, signature)) \<Rightarrow>
                 (case bindE (query_cred ct s access_key) (\<lambda>cred.
                       bindE (sign_request env sign_method rq date raw (kp_secret_key (fst cred))) (\<lambda>my_signature.
                       bindE (compare_digest my_signature signature) (\<lambda>same.
                         if same then Inr cred else Inl AuthorizationFailed))) of
                    Inl e \<Rightarrow> (Inl e, s)
                  | Inr cred \<Rightarrow> (Inr (Some cred), count_query access_key s))))"

definition authorized :: "credential \<Rightarrow> auth_state" where
  "authorized cred =
     (case cred of (kp, u, policy) \<Rightarrow>
        \<lparr>as_is_authorized = True, as_is_admin = kp_is_admin kp, as_is_superadmin = (u_role u = SUPERADMIN),
         as_keypair = Some (kp\<lparr>kp_secret_key := []\<rparr>), as_user = Some u, as_resource_policy = Some policy\<rparr>)"

definition auth_middleware :: "auth_env \<Rightarrow> catalog \<Rightarrow> bool \<Rightarrow> http_request \<Rightarrow> db \<Rightarrow> auth_state res \<times> db" where
  "auth_middleware env ct needs_auth rq s =
     (if \<not> needs_auth then (Inr anonymous, s)
      else case check_date env rq of
             Inl e \<Rightarrow> (Inl e, s)
           | Inr None \<Rightarrow> (Inl InvalidAuthParameters, s)
           | Inr (Some (date, raw)) \<Rightarrow>
               (case authenticate env ct rq date raw s of
                  (Inl e, s1) \<Rightarrow> (Inl e, s1)
                | (Inr None, s1) \<Rightarrow> (Inr anonymous, s1)
                | (Inr (Some cred), s1) \<Rightarrow>
                    (case validate_ip rq (fst (snd cred)) of Inl e \<Rightarrow> (Inl e, s1) | Inr _ \<Rightarrow> (Inr (authorized cred), s1))))"

section \<open>Guards of handlers\<close>

text \<open>Each guard also marks its handler as one that needs authorization.\<close>

definition auth_required :: "auth_state \<Rightarrow> unit res" where
  "auth_required st = (if as_is_authorized st then Inr () else Inl AuthorizationFailed)"

definition admin_required :: "auth_state \<Rightarrow> unit res" where
  "admin_required st = (if as_is_authorized st \<and> as_is_admin st then Inr () else Inl AuthorizationFailed)"

definition superadmin_required :: "auth_state \<Rightarrow> unit res" where
  "superadmin_required st = (if as_is_authorized st \<and> as_is_superadmin st then Inr () else Inl AuthorizationFailed)"

definition guarded :: "auth_env \<Rightarrow> catalog \<Rightarrow> (auth_state \<Rightarrow> unit res) \<Rightarrow> http_request \<Rightarrow> db \<Rightarrow> auth_state res \<times> db" where
  "guarded env ct guard rq s =
     (case auth_middleware env ct True rq s of (Inl e, s1) \<Rightarrow> (Inl e, s1) | (Inr st, s1) \<Rightarrow> (bindE (guard st) (\<lambda>_. Inr st), s1))"

section \<open>Acting for others\<close>

definition get_access_key_scopes :: "catalog \<Rightarrow> auth_state \<Rightarrow> string option \<Rightarrow> (string \<times> string) res" where
  "get_access_key_scopes ct st owner =
     (case (as_is_authorized st, as_keypair st, as_user st) of
        (True, Some kp, Some me) \<Rightarrow>
          (case owner of
             Some owner_access_key \<Rightarrow>
               if owner_access_key = kp_access_key kp then Inr (kp_access_key kp, kp_access_key kp)
               else (case Option.bind (List.find (\<lambda>k. kp_access_key k = owner_access_key) (ct_keypairs ct)) (\<lambda>k.
                           List.find (\<lambda>u. u_uuid u = kp_user k) (ct_users ct)) of
                       None \<Rightarrow> Inl InvalidAPIParameters
                     | Some u \<Rightarrow>
                         if as_is_superadmin st then Inr (kp_access_key kp, owner_access_key)
                         else if as_is_admin st then
                           (if u_domain_name me \<noteq> u_domain_name u then Inl GenericForbidden
                            else if u_role u = SUPERADMIN then Inl GenericForbidden
                            else Inr (kp_access_key kp, owner_access_key))
                         else Inl GenericForbidden)
           | None \<Rightarrow> Inr (kp_access_key kp, kp_access_key kp))
      | _ \<Rightarrow> Inl GenericForbidden)"

definition get_user_scopes :: "catalog \<Rightarrow> auth_state \<Rightarrow> string option \<Rightarrow> (string \<times> user_role) res" where
  "get_user_scopes ct st owner_email =
     (case (as_is_authorized st, as_user st) of
        (True, Some me) \<Rightarrow>
          (case owner_email of
             None \<Rightarrow> Inr (u_uuid me, u_role me)
           | Some email \<Rightarrow>
               if \<not> as_is_superadmin st then Inl InvalidAPIParameters
               else (case List.find (\<lambda>u. u_email u = email) (ct_users ct) of
                       None \<Rightarrow> Inl InvalidAPIParameters
                     | Some u \<Rightarrow>
                         if as_is_superadmin st then Inr (u_uuid u, u_role u)
                         else if as_is_admin st then
                           (if u_domain_name me \<noteq> u_domain_name u then Inl GenericForbidden
                            else if u_role u = SUPERADMIN then Inl GenericForbidden
                            else Inr (u_uuid u, u_role u))
                         else Inl GenericForbidden))
      | _ \<Rightarrow> Inl GenericForbidden)"

section \<open>What the middleware guarantees\<close>

definition signed_by :: "auth_env \<Rightarrow> catalog \<Rightarrow> http_request \<Rightarrow> keypair_row \<Rightarrow> bool" where
  "signed_by env ct rq kp \<longleftrightarrow>
     (\<exists>d raw m signature. raw_date rq = Some raw \<and> ae_dtparse env raw = Inr d \<and> \<bar>instant d - ae_now env\<bar> < 15 * 60 \<and>
        extract_auth_params rq = Inr (Some (m, kp_access_key kp, signature)) \<and>
        sign_request env m rq d raw (kp_secret_key kp) = Inr signature)"

definition address_allowed :: "http_request \<Rightarrow> user_row \<Rightarrow> bool" where
  "address_allowed rq u \<longleftrightarrow>
     (case u_allowed_client_ip u of
        Some (n # ns) \<Rightarrow> (\<exists>t a. or_else (header rq ''X-Forwarded-For'') (hr_remote rq) = Some t \<and> ip_address t = Inr a \<and>
                              (\<exists>n'\<in>set (n # ns). in_network a n'))
      | _ \<Rightarrow> True)"

lemma validate_ip_iff: "validate_ip rq u = Inr () \<longleftrightarrow> address_allowed rq u"
  by (auto simp: validate_ip_def address_allowed_def list_ex_iff split: option.splits list.splits sum.splits)

lemma query_credD:
  assumes "query_cred ct s ak = Inr (kp, u, policy)"
  shows "kp \<in> set (ct_keypairs ct) \<and> kp_access_key kp = ak \<and> kp_is_active kp \<and> u \<in> set (ct_users ct) \<and> u_uuid u = kp_user kp"
  using assms by (auto simp: query_cred_def find_Some_iff split: option.splits)

lemma check_dateD:
  assumes "check_date env rq = Inr (Some (d, raw))"
  shows "raw_date rq = Some raw \<and> ae_dtparse env raw = Inr d \<and> \<bar>instant d - ae_now env\<bar> < 15 * 60"
  using assms by (auto simp: check_date_def truthy_def split: if_splits sum.splits)

lemma authenticateD:
  assumes "authenticate env ct rq d raw s = (Inr (Some (kp, u, policy)), s')" and "ae_hook env rq = HookPassed None"
  shows "query_cred ct s (kp_access_key kp) = Inr (kp, u, policy) \<and>
    (\<exists>m signature. extract_auth_params rq = Inr (Some (m, kp_access_key kp, signature)) \<and> sign_request env m rq d raw (kp_secret_key kp) = Inr signature)"
proof -
  from assms obtain m ak signature where p: "extract_auth_params rq = Inr (Some (m, ak, signature))"
    and c: "bindE (query_cred ct s ak) (\<lambda>cred. bindE (sign_request env m rq d raw (kp_secret_key (fst cred))) (\<lambda>mine.
      bindE (compare_digest mine signature) (\<lambda>same. if same then Inr cred else Inl AuthorizationFailed))) = Inr (kp, u, policy)"
    by (auto simp: authenticate_def truthy_def split: sum.splits option.splits)
  from c have "query_cred ct s ak = Inr (kp, u, policy)" "sign_request env m rq d raw (kp_secret_key kp) = Inr signature"
    by (auto simp: bindE_eq_Inr_iff compare_digest_def split: if_splits)
  with p query_credD show ?thesis by metis
qed

text \<open>
  C6: Without an authenticating hook, a handler behind one of the guards runs only for a request that
  was signed, within the last or next quarter of an hour, with the secret of an active keypair, and
  came from an allowed address; what the handler is told is that keypair and its user, and for
  \<open>superadmin_required\<close> the user is a super-administrator.
\<close>
theorem guarded_requests_authentic:
  assumes "guarded env ct guard rq s = (Inr st, s')" and "guard \<in> {auth_required, admin_required, superadmin_required}"
    and "ae_hook env rq = HookPassed None"
  shows "\<exists>kp u. kp \<in> set (ct_keypairs ct) \<and> kp_is_active kp \<and> signed_by env ct rq kp \<and>
    u \<in> set (ct_users ct) \<and> u_uuid u = kp_user kp \<and> address_allowed rq u \<and>
    as_keypair st = Some (kp\<lparr>kp_secret_key := []\<rparr>) \<and> as_user st = Some u \<and>
    (guard = admin_required \<longrightarrow> kp_is_admin kp) \<and> (guard = superadmin_required \<longrightarrow> u_role u = SUPERADMIN)"
proof -
  from assms(1) have mw: "auth_middleware env ct True rq s = (Inr st, s')" and g: "guard st = Inr ()"
    by (auto simp: guarded_def bindE_eq_Inr_iff split: prod.splits sum.splits)
  from g assms(2) have "as_is_authorized st"
    by (auto simp: auth_required_def admin_required_def superadmin_required_def split: if_splits)
  with mw obtain d raw kp u policy where d: "check_date env rq = Inr (Some (d, raw))"
    and a: "authenticate env ct rq d raw s = (Inr (Some (kp, u, policy)), s')"
    and ip: "validate_ip rq u = Inr ()" and st: "st = authorized (kp, u, policy)"
    by (auto simp: auth_middleware_def anonymous_def split: sum.splits option.splits prod.splits)
  have "signed_by env ct rq kp" using check_dateD[OF d] authenticateD[OF a assms(3)] unfolding signed_by_def by blast
  moreover have "as_is_admin st = kp_is_admin kp" "as_is_superadmin st = (u_role u = SUPERADMIN)" by (simp_all add: st authorized_def)
  then have "guard = admin_required \<longrightarrow> kp_is_admin kp" "guard = superadmin_required \<longrightarrow> u_role u = SUPERADMIN"
    using g by (auto simp: admin_required_def superadmin_required_def split: if_splits)
  ultimately show ?thesis
    using query_credD[of ct s "kp_access_key kp" kp u policy] authenticateD[OF a assms(3)] ip[unfolded validate_ip_iff]
    by (intro exI[of _ kp] exI[of _ u]) (simp add: st authorized_def)
qed

text \<open>
  C7: A request acts for the keypair that signed it, or for another one only if it was made by a
  super-administrator, or by an administrator of the same domain for someone who is none.
\<close>
theorem access_key_scopes_confined:
  assumes "get_access_key_scopes ct st owner = Inr (requester, owner_key)"
  shows "\<exists>kp me. as_keypair st = Some kp \<and> as_user st = Some me \<and> requester = kp_access_key kp \<and>
    (owner_key = requester \<or> owner = Some owner_key \<and> (as_is_superadmin st \<or>
       as_is_admin st \<and> (\<exists>k u. k \<in> set (ct_keypairs ct) \<and> kp_access_key k = owner_key \<and> u \<in> set (ct_users ct) \<and> u_uuid u = kp_user k \<and>
         u_domain_name u = u_domain_name me \<and> u_role u \<noteq> SUPERADMIN)))"
  using assms unfolding get_access_key_scopes_def
  by (auto simp: find_Some_iff bind_eq_Some_conv split: option.splits bool.splits if_splits) (metis nth_mem)+

lemma user_scopes_self:
  "get_user_scopes ct st email = Inr (uuid, role) \<Longrightarrow> \<not> as_is_superadmin st \<Longrightarrow> \<exists>me. as_user st = Some me \<and> uuid = u_uuid me \<and> role = u_role me"
  by (auto simp: get_user_scopes_def split: option.splits bool.splits if_splits)

text \<open>
  The address is the one the client puts into \<open>X-Forwarded-For\<close>: whoever names an address of
  an allowed network passes the check, wherever the connection comes from.
\<close>
theorem forwarded_for_trusted:
  assumes "u_allowed_client_ip u = Some ns" "n \<in> set ns" "ip_address t = Inr a" "in_network a n" "t \<noteq> []"
  shows "validate_ip (rq\<lparr>hr_headers := (''X-Forwarded-For'', t) # hr_headers rq\<rparr>) u = Inr ()"
proof -
  have "or_else (header (rq\<lparr>hr_headers := (''X-Forwarded-For'', t) # hr_headers rq\<rparr>) ''X-Forwarded-For'') r = Some t" for r
    using assms(5) by (cases t) (simp_all add: header_def or_else_def)
  then show ?thesis unfolding validate_ip_iff using assms(1-4) by (cases ns) (auto simp: address_allowed_def)
qed

text \<open>From API version \<open>v4.20181215\<close> on the body is no part of what is signed.\<close>

theorem body_not_signed:
  assumes "or_else (header rq ''X-BackendAI-Version'') (header rq ''X-Sorna-Version'') = Some v" and "\<not> v < ''v4.20181215''"
  shows "sign_request env m (rq\<lparr>hr_body := b, hr_can_read_body := True\<rparr>) d raw key = sign_request env m rq d raw key"
proof -
  define rq' where "rq' = rq\<lparr>hr_body := b, hr_can_read_body := True\<rparr>"
  have h: "header rq' n = header rq n" for n by (simp add: header_def rq'_def)
  have "sign_text rq' r v' bh = sign_text rq r v' bh" for r v' bh unfolding sign_text_def h by (simp add: rq'_def)
  moreover have "signed_body rq' v = signed_body rq v" using assms(2) by (simp add: signed_body_def)
  moreover have "hr_host rq' = hr_host rq" by (simp add: rq'_def)
  ultimately have "sign_request env m rq' d raw key = sign_request env m rq d raw key" unfolding sign_request_def h assms(1) by (auto split: list.split sum.split)
  then show ?thesis by (simp add: rq'_def)
qed

section \<open>Examples\<close>

text \<open>The user may connect from \<open>10.*.*.*\<close>; a signature is the text it signs.\<close>

definition demo_accounts :: catalog where
  "demo_accounts = \<lparr>ct_images = [], ct_image_aliases = [], ct_registries = [], ct_users = [demo_user], ct_keypairs = [demo_keypair],
     ct_domains = [], ct_groups = [], ct_agus = [], ct_sgroups_for_domains = [], ct_sgroups_for_groups = [], ct_sgroups_for_keypairs = []\<rparr>"

definition demo_date :: parsed_date where
  "demo_date = \<lparr>pd_local = 950, pd_offset = None, pd_day = ''20230101''\<rparr>"

definition demo_auth :: auth_env where
  "demo_auth = \<lparr>ae_now = 1000, ae_dtparse = (\<lambda>_. Inr demo_date),
     ae_hexdigest = (\<lambda>_ _. Inr ''e3''), ae_hmac = (\<lambda>_ k m. k @ m), ae_hex = map char_lower, ae_hook = (\<lambda>_. HookPassed None)\<rparr>"

definition demo_signature :: string where
  "demo_signature = ''s20230101hget'' @ [CHR 10] @ ''/'' @ [CHR 10] @ ''now'' @ [CHR 10] @ ''host:h'' @ [CHR 10] @ ''content-type:'' @ [CHR 10] @
     ''x-backendai-version:v6.20220615'' @ [CHR 10] @ ''e3''"

definition demo_http :: http_request where
  "demo_http = \<lparr>hr_headers = [(''Date'', ''now''), (''X-BackendAI-Version'', ''v6.20220615''), (''X-Forwarded-For'', ''10.1.2.3''),
       (''Authorization'', ''BackendAI signMethod=HMAC-SHA256, credential=AK:'' @ demo_signature)],
     hr_method = ''GET'', hr_raw_path = ''/'', hr_host = ''h'', hr_content_type = [], hr_can_read_body = False, hr_body = [], hr_remote = None\<rparr>"

definition demo_state :: db where
  "demo_state = demo_db [] []"

lemma demo_authorized:
  "case guarded demo_auth demo_accounts auth_required demo_http demo_state of
     (Inr st, s) \<Rightarrow> as_is_authorized st \<and> dget_or (db_redis_stat s) ''kp:AK:num_queries'' 0 = 1 | _ \<Rightarrow> False"
  by code_simp

theorem guarded_requests_authentic_witness:
  "ae_hook demo_auth demo_http = HookPassed None \<and>
   (\<exists>st s'. guarded demo_auth demo_accounts auth_required demo_http demo_state = (Inr st, s') \<and>
     (\<exists>kp u. kp \<in> set (ct_keypairs demo_accounts) \<and> kp_is_active kp \<and> signed_by demo_auth demo_accounts demo_http kp \<and> as_user st = Some u))"
proof -
  obtain st s' where g: "guarded demo_auth demo_accounts auth_required demo_http demo_state = (Inr st, s')"
    using demo_authorized by (auto split: prod.splits sum.splits)
  moreover have h: "ae_hook demo_auth demo_http = HookPassed None" by (simp add: demo_auth_def)
  ultimately show ?thesis using guarded_requests_authentic[OF g _ h] by blast
qed

text \<open>An administrator acts for the keypair of another user of the same domain.\<close>

definition demo_two :: catalog where
  "demo_two = demo_accounts\<lparr>ct_users := [demo_user, demo_user\<lparr>u_uuid := ''w''\<rparr>],
     ct_keypairs := [demo_keypair, demo_keypair\<lparr>kp_access_key := ''BK'', kp_user := ''w''\<rparr>]\<rparr>"

definition demo_admin :: auth_state where
  "demo_admin = authorized (demo_keypair\<lparr>kp_is_admin := True\<rparr>, demo_user\<lparr>u_role := ADMIN\<rparr>, the (map_of (db_policies demo_state) ''default''))"

theorem access_key_scopes_confined_witness:
  "get_access_key_scopes demo_two demo_admin (Some ''BK'') = Inr (''AK'', ''BK'') \<and>
   (\<exists>k u. k \<in> set (ct_keypairs demo_two) \<and> kp_access_key k = ''BK'' \<and> u \<in> set (ct_users demo_two) \<and> u_uuid u = kp_user k \<and>
      u_domain_name u = u_domain_name demo_user \<and> u_role u \<noteq> SUPERADMIN)"
proof -
  have r: "get_access_key_scopes demo_two demo_admin (Some ''BK'') = Inr (''AK'', ''BK'')" by code_simp
  have a: "\<not> as_is_superadmin demo_admin" "as_user demo_admin = Some (demo_user\<lparr>u_role := ADMIN\<rparr>)"
    by (simp_all add: demo_admin_def authorized_def)
  from access_key_scopes_confined[OF r] a r show ?thesis by auto
qed

theorem forwarded_for_trusted_witness:
  "validate_ip (demo_http\<lparr>hr_headers := (''X-Forwarded-For'', ''10.9.9.9'') # hr_headers demo_http\<rparr>) demo_user = Inr ()"
  by (rule forwarded_for_trusted[where n = "Net4 (ip4_of [10, 0, 0, 0]) 8" and a = "IPv4 (ip4_of [10, 9, 9, 9])"]) (simp_all add: demo_user_def, code_simp+)

theorem body_not_signed_witness:
  "sign_request demo_auth ''HMAC-SHA256'' (demo_http\<lparr>hr_body := ''forged'', hr_can_read_body := True\<rparr>) demo_date ''now'' ''s'' =
   sign_request demo_auth ''HMAC-SHA256'' demo_http demo_date ''now'' ''s''"
proof (rule body_not_signed)
  show "or_else (header demo_http ''X-BackendAI-Version'') (header demo_http ''X-Sorna-Version'') = Some ''v6.20220615''" by code_simp
  show "\<not> ''v6.20220615'' < ''v4.20181215''" by code_simp
qed

end
