(* ===== verification/Creation.thy ===== *)
theory Creation
  imports Images Lifecycle
begin

text \<open>
  Starting a scheduled session (\<open>start_session\<close> of \<open>manager/registry.py\<close>): the images and the network,
  one RPC call per agent that creates its kernels (\<open>create_kernels\<close> of \<open>agent/server.py\<close>), the
  finalisation of each kernel row once its container runs, and the settlement of the agents' occupied
  slots.  It is what the argument \<open>reg_start\<close> of the dispatcher's \<open>start_session\<close> stands for.

  The outside world is the record \<open>start_env\<close>: the hook plug-ins, the networks, the connections, the
  agent's creation of one container (\<open>st_create\<close>), whether the kernel's started event arrives
  (\<open>st_started\<close>; otherwise the creation was cancelled), and the parsing of an agent address.  The
  calls to several agents run concurrently in the source; they work on different rows, and are taken
  here in the order of the agent ids.
\<close>

section \<open>What goes to an agent and comes back\<close>

record cluster_info =
  cl_mode :: cluster_mode
  cl_size :: int
  cl_replicas :: "(string, nat) dict"
  cl_network_name :: "string option"
  cl_ssh_keypair :: "(string \<times> string) option"

record kernel_config =
  kc_registry_name :: string
  kc_registry_url :: string
  kc_registry_creds :: "(string, string) dict"
  kc_digest :: string
  kc_canonical :: string
  kc_architecture :: string
  kc_labels :: "(string, string) dict"
  kc_session_type :: session_types
  kc_cluster_role :: string
  kc_cluster_idx :: int
  kc_cluster_hostname :: string
  kc_idle_timeout :: int
  kc_mounts :: "vfolder_mount list"
  kc_environ :: "(string, string) dict"
  kc_resource_slots :: slots
  kc_resource_opts :: "(string, opt_val) dict"
  kc_bootstrap_script :: "string option"
  kc_startup_command :: "string option"
  kc_internal_data :: "json option"
  kc_auto_pull :: "string option"
  kc_preopen_ports :: "int list"

text \<open>Per device type and slot, the amount taken from each device, as text.\<close>

type_synonym spec_allocations = "(string, (string, (string, string) dict) dict) dict"

record created_info =
  ci_id :: string
  ci_kernel_host :: "string option"
  ci_repl_in_port :: int
  ci_repl_out_port :: int
  ci_stdin_port :: int
  ci_stdout_port :: int
  ci_service_ports :: "json option"
  ci_container_id :: string
  ci_allocations :: spec_allocations
  ci_attached_devices :: "json option"

text \<open>An exception raised by an agent is known to the manager by its name and its \<open>repr\<close>.\<close>

type_synonym 'a agent_res = "(string \<times> string) + 'a"

record start_env =
  st_now :: int
  st_hook :: "string \<Rightarrow> bool"
  st_is_ip :: "string \<Rightarrow> bool"
  st_ver_lt :: "string \<Rightarrow> string \<Rightarrow> bool"
  st_ver_ne :: "string \<Rightarrow> string \<Rightarrow> bool"
  st_network :: "string option \<Rightarrow> string \<Rightarrow> unit res"
  st_ssh_keypair :: "string \<times> string"
  st_auto_pull :: "string option"
  st_connect :: "string \<Rightarrow> string option \<Rightarrow> unit res"
  st_create :: "string \<Rightarrow> cluster_info \<Rightarrow> string \<Rightarrow> kernel_config \<Rightarrow> created_info agent_res"
  st_started :: "string \<Rightarrow> bool"
  st_url_host :: "string option \<Rightarrow> string option"

section \<open>The agent's side of the call\<close>

text \<open>All kernels are created; one failure is raised as it is, several as a group of errors.\<close>

definition create_kernels :: "(string \<Rightarrow> kernel_config \<Rightarrow> created_info agent_res) \<Rightarrow> (string \<times> kernel_config) list \<Rightarrow>
    created_info list agent_res" where
  "create_kernels create_kernel requests =
     (let results = map (\<lambda>(kid, cfg). create_kernel kid cfg) requests;
          errors = concat (map (\<lambda>r. case r of Inl e \<Rightarrow> [e] | Inr _ \<Rightarrow> []) results)
      in case errors of
           [] \<Rightarrow> Inr (concat (map (\<lambda>r. case r of Inl _ \<Rightarrow> [] | Inr x \<Rightarrow> [x]) results))
         | [e] \<Rightarrow> Inl e
         | _ \<Rightarrow> Inl (''TaskGroupError'', ''agent.create_kernels() failed''))"

section \<open>Actual allocations\<close>

definition alloc_amount :: "string \<Rightarrow> decimal res" where
  "alloc_amount allocation =
     (if allocation = [] then Inl IndexError
      else if map_of suffix_map (char_lower (last allocation)) \<noteq> None then
        bindE (binsize_from_str (SStr allocation)) (\<lambda>r. Inr (case r of BSize n \<Rightarrow> Fin (of_int n) | BInf \<Rightarrow> PInf))
      else bindE (parse_decimal allocation) slot_number)"

definition sum_allocs :: "(string, string) dict \<Rightarrow> decimal res" where
  "sum_allocs by_device = bindE (mapE (\<lambda>(_, a). alloc_amount a) by_device) (foldE dec_add 0)"

text \<open>The sums are kept as the texts \<open>str(sum)\<close>, which \<open>ResourceSlot.from_json\<close> reads back as the same numbers.\<close>

definition convert_resource_spec_to_resource_slot :: "spec_allocations \<Rightarrow> slots res" where
  "convert_resource_spec_to_resource_slot allocations =
     foldE (\<lambda>sl alloc_map. foldE (\<lambda>sl (slot_name, by_device). bindE (sum_allocs by_device) (\<lambda>x. Inr (dset sl slot_name x))) sl alloc_map)
       [] (map snd allocations)"

section \<open>Finalising a kernel\<close>

definition running_values :: "start_env \<Rightarrow> agent_allocation_context \<Rightarrow> string option \<Rightarrow> created_info \<Rightarrow> slots \<Rightarrow> kernel_row \<Rightarrow> kernel_row" where
  "running_values env ctx agent_addr info actual r =
     r\<lparr>k_scaling_group := Some (aac_scaling_group ctx), k_status := RUNNING, k_container_id := Some (ci_container_id info),
       k_attached_devices := (case ci_attached_devices info of Some d \<Rightarrow> d | None \<Rightarrow> JObj []),
       k_kernel_host := (case ci_kernel_host info of Some h \<Rightarrow> Some h | None \<Rightarrow> st_url_host env agent_addr),
       k_repl_in_port := ci_repl_in_port info, k_repl_out_port := ci_repl_out_port info,
       k_stdin_port := ci_stdin_port info, k_stdout_port := ci_stdout_port info,
       k_service_ports := Some (case ci_service_ports info of Some p \<Rightarrow> p | None \<Rightarrow> JArr []),
       k_status_history := history_entry RUNNING (st_now env) r, k_occupied_slots := actual\<rparr>"

text \<open>
  \<open>_post_create_kernel\<close>: when the creation was cancelled nothing is done; an exception of the
  finalisation ends the task and is dropped by \<open>gather(..., return_exceptions=True)\<close>.
\<close>

definition post_create_kernel :: "start_env \<Rightarrow> agent_allocation_context \<Rightarrow> string option \<Rightarrow> created_info \<Rightarrow> db \<Rightarrow> db" where
  "post_create_kernel env ctx agent_addr info s =
     (if \<not> st_started env (ci_id info) then s
      else case convert_resource_spec_to_resource_slot (ci_allocations info) of
             Inl _ \<Rightarrow> s
           | Inr actual \<Rightarrow>
               update_kernels (\<lambda>r. k_id r = ci_id info) (running_values env ctx agent_addr info actual)
                 (s\<lparr>db_actual_allocs := dset (db_actual_allocs s) (ci_id info) actual\<rparr>))"

section \<open>One agent\<close>

type_synonym image_infos = "(image_ref \<times> image_row) list"

record image_info =
  ii_infos :: image_infos
  ii_registry_url :: string
  ii_registry_creds :: "(string, string) dict"
  ii_policy :: "policy_row option"

definition kernel_config_of :: "start_env \<Rightarrow> pending_session \<Rightarrow> image_info \<Rightarrow> kernel_info \<Rightarrow> kernel_config res" where
  "kernel_config_of env sess ii k =
     bindE (dget (ii_infos ii) (ki_image_ref k)) (\<lambda>img.
       case ii_policy ii of
         None \<Rightarrow> Inl TypeError
       | Some policy \<Rightarrow> Inr
           \<lparr>kc_registry_name = ir_registry (ki_image_ref k), kc_registry_url = ii_registry_url ii, kc_registry_creds = ii_registry_creds ii,
            kc_digest = im_config_digest img, kc_canonical = ir_image (ki_image_ref k), kc_architecture = ir_architecture (ki_image_ref k),
            kc_labels = im_labels img, kc_session_type = ps_session_type sess, kc_cluster_role = ki_cluster_role k,
            kc_cluster_idx = ki_cluster_idx k, kc_cluster_hostname = ki_cluster_hostname k, kc_idle_timeout = p_idle_timeout policy,
            kc_mounts = ps_vfolder_mounts sess,
            kc_environ = fold (\<lambda>(n, v) d. dset d n v)
              [(''BACKENDAI_KERNEL_ID'', ki_kernel_id k), (''BACKENDAI_KERNEL_IMAGE'', ir_image (ki_image_ref k)),
               (''BACKENDAI_CLUSTER_ROLE'', ki_cluster_role k), (''BACKENDAI_CLUSTER_IDX'', show_int (ki_cluster_idx k)),
               (''BACKENDAI_CLUSTER_HOST'', ki_cluster_hostname k)] (ps_environ sess),
            kc_resource_slots = ki_requested_slots k, kc_resource_opts = ki_resource_opts k, kc_bootstrap_script = ki_bootstrap_script k,
            kc_startup_command = ki_startup_command k, kc_internal_data = ps_internal_data sess, kc_auto_pull = st_auto_pull env,
            kc_preopen_ports = ps_preopen_ports sess\<rparr>)"

text \<open>
  An agent's failure reaches the manager as an \<open>AgentError\<close>; no kernel of the group is finalised then.
  The agent reports its kernels in the order they were asked for.
\<close>

definition create_kernels_in_one_agent :: "start_env \<Rightarrow> pending_session \<Rightarrow> image_info \<Rightarrow> cluster_info \<Rightarrow>
    string \<times> kernel_agent_binding list \<Rightarrow> db \<Rightarrow> unit res \<times> db" where
  "create_kernels_in_one_agent env sess ii cl g s =
     (case g of (agent_id, items) \<Rightarrow>
        let ctx = kab_agent_alloc_ctx (hd items); addr = ki_agent_addr (kab_kernel (hd items))
        in case bindE (st_connect env agent_id addr) (\<lambda>_. mapE (\<lambda>b. kernel_config_of env sess ii (kab_kernel b)) items) of
             Inl e \<Rightarrow> (Inl e, s)
           | Inr configs \<Rightarrow>
               (case create_kernels (st_create env agent_id cl) (zip (map (\<lambda>b. ki_kernel_id (kab_kernel b)) items) configs) of
                  Inl (n, r) \<Rightarrow> (Inl (AgentError agent_id n r), s)
                | Inr created_infos \<Rightarrow> (Inr (), fold (post_create_kernel env ctx addr) created_infos s)))"

section \<open>The images of a session\<close>

text \<open>Sorting with a comparison that may raise; \<open>image_ref\<close> objects are compared as parsed references.\<close>

fun insertE :: "('a \<Rightarrow> 'a \<Rightarrow> bool res) \<Rightarrow> 'a \<Rightarrow> 'a list \<Rightarrow> 'a list res" where
  "insertE lt x [] = Inr [x]"
| "insertE lt x (y # ys) = bindE (lt x y) (\<lambda>b. if b then Inr (x # y # ys) else bindE (insertE lt x ys) (\<lambda>zs. Inr (y # zs)))"

definition sortE :: "('a \<Rightarrow> 'a \<Rightarrow> bool res) \<Rightarrow> 'a list \<Rightarrow> 'a list res" where
  "sortE lt xs = foldE (\<lambda>ys x. insertE lt x ys) [] xs"

definition parsed_image :: "start_env \<Rightarrow> image_ref \<Rightarrow> parsed_ref res" where
  "parsed_image env ref = ImageRef (st_is_ip env) (Some [ir_registry ref]) (ir_architecture ref) (ir_image ref)"

definition image_ref_lt :: "start_env \<Rightarrow> image_ref \<Rightarrow> image_ref \<Rightarrow> bool res" where
  "image_ref_lt env a b =
     bindE (parsed_image env a) (\<lambda>pa. bindE (parsed_image env b) (\<lambda>pb. ref_lt (st_ver_lt env) (st_ver_ne env) pa pb))"

text \<open>The rows of the images; the registry of the last one is used for all of them.\<close>

definition add_image :: "catalog \<Rightarrow> image_infos \<times> (string \<times> (string, string) dict) option \<Rightarrow> image_ref \<Rightarrow>
    (image_infos \<times> (string \<times> (string, string) dict) option) res" where
  "add_image ct acc ref =
     bindE (image_resolve ct False [RefImage ref]) (\<lambda>row.
     bindE (get_registry_info ct (ir_registry ref)) (\<lambda>info. Inr (dset (fst acc) ref row, Some info)))"

definition collect_images :: "start_env \<Rightarrow> catalog \<Rightarrow> pending_session \<Rightarrow> db \<Rightarrow> image_info res" where
  "collect_images env ct sess s =
     bindE (sortE (image_ref_lt env) (map ki_image_ref (ps_kernels sess))) (\<lambda>refs.
     bindE (foldE (add_image ct) ([], None) (map fst (groupby id refs))) (\<lambda>(infos, reg).
       case reg of
         None \<Rightarrow> Inl UnboundLocalError
       | Some (url, creds) \<Rightarrow> Inr \<lparr>ii_infos = infos, ii_registry_url = url, ii_registry_creds = creds,
           ii_policy = map_of (db_policies s) (ps_resource_policy sess)\<rparr>))"

section \<open>The network and the environment\<close>

definition prepare_network :: "start_env \<Rightarrow> pending_session \<Rightarrow> string option res" where
  "prepare_network env sess =
     (case ps_cluster_mode sess of
        SINGLE_NODE \<Rightarrow>
          if ps_cluster_size sess > 1 then
            (case ps_kernels sess of
               [] \<Rightarrow> Inl IndexError
             | k # _ \<Rightarrow>
                 if ki_agent_id k = None then Inl AssertionError
                 else let network_name = ''bai-singlenode-'' @ ps_session_id sess
                      in bindE (st_network env (ki_agent_id k) network_name) (\<lambda>_. Inr (Some network_name)))
          else Inr None
      | MULTI_NODE \<Rightarrow>
          (let network_name = ''bai-multinode-'' @ ps_session_id sess
           in bindE (st_network env None network_name) (\<lambda>_. Inr (Some network_name))))"

definition replicas_of :: "pending_session \<Rightarrow> (string, nat) dict" where
  "replicas_of sess =
     map (\<lambda>(role, ks). (role, length ks)) (groupby ki_cluster_role (sort_key ki_cluster_role (ps_kernels sess)))"

definition cluster_info_of :: "start_env \<Rightarrow> pending_session \<Rightarrow> string option \<Rightarrow> cluster_info" where
  "cluster_info_of env sess network_name =
     \<lparr>cl_mode = ps_cluster_mode sess, cl_size = ps_cluster_size sess, cl_replicas = replicas_of sess, cl_network_name = network_name,
      cl_ssh_keypair = (if ps_cluster_size sess > 1 then Some (st_ssh_keypair env) else None)\<rparr>"

definition with_environ :: "pending_session \<Rightarrow> pending_session" where
  "with_environ sess =
     sess\<lparr>ps_environ := fold (\<lambda>(n, v) d. dset d n v)
       [(''BACKENDAI_SESSION_ID'', ps_session_id sess), (''BACKENDAI_SESSION_NAME'', ps_session_name sess),
        (''BACKENDAI_CLUSTER_SIZE'', show_int (ps_cluster_size sess)),
        (''BACKENDAI_CLUSTER_REPLICAS'', join '','' (map (\<lambda>(k, v). k @ '':'' @ show_nat v) (replicas_of sess))),
        (''BACKENDAI_CLUSTER_HOSTS'', join '','' (map ki_cluster_hostname (ps_kernels sess))),
        (''BACKENDAI_ACCESS_KEY'', ps_access_key sess)] (ps_environ sess)\<rparr>"

section \<open>Starting\<close>

definition binding_of :: "pending_session \<Rightarrow> kernel_info \<Rightarrow> kernel_agent_binding" where
  "binding_of sess k =
     \<lparr>kab_kernel = k,
      kab_agent_alloc_ctx = \<lparr>aac_agent_id = (case ki_agent_id k of Some a \<Rightarrow> a | None \<Rightarrow> []),
        aac_agent_addr = (case ki_agent_addr k of Some a \<Rightarrow> a | None \<Rightarrow> []),
        aac_scaling_group = (case ps_scaling_group sess of Some g \<Rightarrow> g | None \<Rightarrow> [])\<rparr>\<rparr>"

fun create_on_agents :: "start_env \<Rightarrow> pending_session \<Rightarrow> image_info \<Rightarrow> cluster_info \<Rightarrow> (string \<times> kernel_agent_binding list) list \<Rightarrow>
    db \<Rightarrow> py_exc list \<times> db" where
  "create_on_agents env sess ii cl [] s = ([], s)"
| "create_on_agents env sess ii cl (g # gs) s =
     (case create_kernels_in_one_agent env sess ii cl g s of
        (r, s1) \<Rightarrow> (case create_on_agents env sess ii cl gs s1 of
           (es, s2) \<Rightarrow> ((case r of Inl e \<Rightarrow> [e] | Inr _ \<Rightarrow> []) @ es, s2)))"

text \<open>
  A kernel without an agent: ordering the agents of several kernels raises, and creating the only
  kernel fails its assertion.
\<close>

definition registry_start_session :: "start_env \<Rightarrow> catalog \<Rightarrow> pending_session \<Rightarrow> db \<Rightarrow> unit res \<times> db" where
  "registry_start_session env ct sess s =
     (if \<not> st_hook env (ps_session_id sess) then (Inl RejectedByHook, s)
      else case bindE (collect_images env ct sess s) (\<lambda>ii. bindE (prepare_network env sess) (\<lambda>nw. Inr (ii, nw))) of
             Inl e \<Rightarrow> (Inl e, s)
           | Inr (ii, nw) \<Rightarrow>
               if list_ex (\<lambda>k. ki_agent_id k = None) (ps_kernels sess) then
                 (Inl (if length (ps_kernels sess) = 1 then MultiAgentError [AssertionError] else TypeError), s)
               else
                 (let bindings = map (binding_of sess) (ps_kernels sess); keyfunc = (\<lambda>b. aac_agent_id (kab_agent_alloc_ctx b))
                  in case create_on_agents env (with_environ sess) ii (cluster_info_of env sess nw)
                            (groupby keyfunc (sort_key keyfunc bindings)) s of
                       (e # es, s1) \<Rightarrow> (Inl (MultiAgentError (e # es)), s1)
                     | ([], s1) \<Rightarrow>
                         (case settle_agent_alloc bindings s1 of
                            Inl e \<Rightarrow> (Inl e, s1)
                          | Inr s2 \<Rightarrow> (Inr (), produce_event (SessionStartedEvent (ps_session_id sess) (ps_session_creation_id sess)) s2))))"

end
