(* ===== verification/SessionControl.thy ===== *)
theory SessionControl
  imports Creation Destruction
begin

text \<open>
  Finding sessions by id, name or prefix (\<open>match_session_ids\<close>, \<open>get_main_kernels\<close>, \<open>get_all_kernels\<close> of
  \<open>manager/models/kernel.py\<close> and the getters of \<open>manager/registry.py\<close>), and the operations on a
  session found this way: renaming, restarting, cleaning up its network.  Where a query has no ORDER
  BY, rows come in the order of the table.
\<close>

section \<open>The LIKE operator\<close>

fun sql_like :: "string \<Rightarrow> string \<Rightarrow> bool" where
  "sql_like [] s = (s = [])"
| "sql_like (c # p) s =
     (if c = CHR ''%'' then sql_like p s \<or> (case s of [] \<Rightarrow> False | _ # t \<Rightarrow> sql_like (c # p) t)
      else if c = CHR ''_'' then (case s of [] \<Rightarrow> False | _ # t \<Rightarrow> sql_like p t)
      else if c = CHR 92 then (case (p, s) of (d # q, x # t) \<Rightarrow> x = d \<and> sql_like q t | _ \<Rightarrow> False)
      else (case s of [] \<Rightarrow> False | x # t \<Rightarrow> x = c \<and> sql_like p t))"

section \<open>Matching sessions\<close>

record session_info =
  si_session_id :: string
  si_session_name :: string
  si_status :: kernel_status
  si_created_at :: int

definition session_info_of :: "kernel_row \<Rightarrow> session_info" where
  "session_info_of r =
     \<lparr>si_session_id = k_session_id r, si_session_name = k_session_name r, si_status = k_status r, si_created_at = k_created_at r\<rparr>"

text \<open>The main kernels, latest first, of the sessions (ten at most) that have a kernel with the condition.\<close>

definition match_query :: "nat \<Rightarrow> (kernel_row \<Rightarrow> bool) \<Rightarrow> db \<Rightarrow> kernel_row list" where
  "match_query max_matches cond s =
     (let ids = take max_matches (remdups (map k_session_id (filter cond (db_kernels s))))
      in sort_key (\<lambda>r. - k_created_at r) (filter (\<lambda>r. k_session_id r \<in> set ids \<and> k_cluster_role r = DEFAULT_ROLE) (db_kernels s)))"

definition match_conds :: "string \<Rightarrow> string \<Rightarrow> (kernel_row \<Rightarrow> bool) \<Rightarrow> (kernel_row \<Rightarrow> bool) list" where
  "match_conds x access_key extra_cond =
     [\<lambda>r. sql_like (x @ ''%'') (k_session_id r) \<and> k_access_key r = access_key \<and> extra_cond r,
      \<lambda>r. k_session_name r = x \<and> k_access_key r = access_key \<and> extra_cond r,
      \<lambda>r. sql_like (x @ ''%'') (k_session_name r) \<and> k_access_key r = access_key \<and> extra_cond r,
      \<lambda>r. sql_like (x @ ''%'') (k_id r) \<and> k_access_key r = access_key \<and> extra_cond r]"

fun first_matches :: "nat \<Rightarrow> (kernel_row \<Rightarrow> bool) list \<Rightarrow> db \<Rightarrow> kernel_row list" where
  "first_matches n [] s = []"
| "first_matches n (cond # conds) s = (case match_query n cond s of [] \<Rightarrow> first_matches n conds s | rows \<Rightarrow> rows)"

definition match_session_ids :: "string \<Rightarrow> string \<Rightarrow> (kernel_row \<Rightarrow> bool) \<Rightarrow> db \<Rightarrow> session_info list" where
  "match_session_ids x access_key extra_cond s = map session_info_of (first_matches 10 (match_conds x access_key extra_cond) s)"

definition get_main_kernels :: "string list \<Rightarrow> db \<Rightarrow> kernel_row option list" where
  "get_main_kernels session_ids s =
     map snd (fold (\<lambda>r d. dset d (k_session_id r) (Some r))
       (filter (\<lambda>r. k_session_id r \<in> set session_ids \<and> k_cluster_role r = DEFAULT_ROLE) (db_kernels s))
       (map (\<lambda>i. (i, None)) (remdups session_ids)))"

definition get_all_kernels :: "string list \<Rightarrow> db \<Rightarrow> kernel_row list list" where
  "get_all_kernels session_ids s =
     map snd (fold (\<lambda>i d. dset d i (dget_or d i [] @ filter (\<lambda>r. k_session_id r = i) (db_kernels s))) session_ids
       (map (\<lambda>i. (i, [])) (remdups session_ids)))"

section \<open>The registry's getters\<close>

definition alive_agent :: "db \<Rightarrow> kernel_row \<Rightarrow> bool" where
  "alive_agent s r \<longleftrightarrow> (\<exists>a\<in>set (db_agents s). k_agent r = Some (a_id a) \<and> a_status a = ALIVE)"

definition get_kernel :: "string \<Rightarrow> bool \<Rightarrow> db \<Rightarrow> kernel_row res" where
  "get_kernel kern_id allow_stale s =
     (case find (\<lambda>r. k_id r = kern_id \<and> (allow_stale \<or> k_status r \<notin> set DEAD_KERNEL_STATUSES \<and> alive_agent s r)) (db_kernels s) of
        None \<Rightarrow> Inl SessionNotFound
      | Some r \<Rightarrow> Inr r)"

definition get_kernels :: "string \<Rightarrow> string \<Rightarrow> bool \<Rightarrow> string option \<Rightarrow> db \<Rightarrow> kernel_row list res" where
  "get_kernels x access_key allow_stale cluster_role s =
     (let cond = (\<lambda>P r. P r \<and> k_access_key r = access_key \<and> (case cluster_role of None \<Rightarrow> True | Some c \<Rightarrow> k_cluster_role r = c) \<and>
            (allow_stale \<or> k_status r \<notin> set DEAD_KERNEL_STATUSES));
          query = (\<lambda>P n. take n (sort_key (\<lambda>r. - k_created_at r) (filter (cond P) (db_kernels s))));
          by_id = query (\<lambda>r. sql_like (x @ ''%'') (k_id r)) 10;
          by_session_id = query (\<lambda>r. sql_like (x @ ''%'') (k_session_id r)) 10;
          by_name = query (\<lambda>r. sql_like (x @ ''%'') (k_session_name r)) (if allow_stale then 10 else 1)
      in if by_id \<noteq> [] then Inr by_id else if by_session_id \<noteq> [] then Inr by_session_id
         else if by_name \<noteq> [] then Inr by_name else Inl SessionNotFound)"

text \<open>\<open>allow_stale\<close> is a parameter that is not handed on.\<close>

definition get_session_kernels :: "string \<Rightarrow> string \<Rightarrow> bool \<Rightarrow> string option \<Rightarrow> db \<Rightarrow> kernel_row list res" where
  "get_session_kernels session_id access_key allow_stale cluster_role s = get_kernels session_id access_key False cluster_role s"

definition get_session_by_kernel_id :: "string \<Rightarrow> db \<Rightarrow> kernel_row res" where
  "get_session_by_kernel_id kernel_id s =
     (case find_kernel s kernel_id of
        None \<Rightarrow> Inl SessionNotFound
      | Some k \<Rightarrow> get_session_by_session_id (k_session_id k) s)"

definition get_session :: "string \<Rightarrow> string \<Rightarrow> bool \<Rightarrow> db \<Rightarrow> kernel_row res" where
  "get_session x access_key allow_stale s =
     (case match_session_ids x access_key (\<lambda>r. allow_stale \<or> k_status r \<notin> set DEAD_KERNEL_STATUSES) s of
        [] \<Rightarrow> Inl SessionNotFound
      | [info] \<Rightarrow>
          (case get_main_kernels [si_session_id info] s of
             Some r # _ \<Rightarrow> Inr r
           | _ \<Rightarrow> Inl TypeError)
      | _ \<Rightarrow> Inl TooManySessionsMatched)"

definition get_sessions :: "string list \<Rightarrow> bool \<Rightarrow> db \<Rightarrow> kernel_row list" where
  "get_sessions session_names allow_stale s =
     filter (\<lambda>r. k_session_id r \<in> set session_names \<and> k_cluster_role r = DEFAULT_ROLE \<and> (allow_stale \<or> alive_agent s r)) (db_kernels s)"

section \<open>Renaming\<close>

text \<open>
  \<open>ix_kernels_unique_sess_token\<close>: among the main kernels that are not dead, key and name identify a
  session.  A statement that breaks the index raises \<open>IntegrityError\<close>.
\<close>

definition holds_name :: "kernel_row \<Rightarrow> bool" where
  "holds_name r \<longleftrightarrow> k_status r \<notin> {TERMINATED, CANCELLED} \<and> k_cluster_role r = DEFAULT_ROLE"

definition unique_sess_token :: "kernel_row list \<Rightarrow> bool" where
  "unique_sess_token ks \<longleftrightarrow> distinct (map (\<lambda>r. (k_access_key r, k_session_name r)) (filter holds_name ks))"

definition checked_kernels :: "kernel_row list \<Rightarrow> db \<Rightarrow> db res" where
  "checked_kernels ks s = (if unique_sess_token ks then Inr (s\<lparr>db_kernels := ks\<rparr>) else Inl IntegrityError)"

definition rename_session :: "string \<Rightarrow> string \<Rightarrow> string \<Rightarrow> db \<Rightarrow> db res" where
  "rename_session session_name access_key new_name s =
     bindE (get_session session_name access_key True s) (\<lambda>compute_session.
       if k_status compute_session \<noteq> RUNNING then Inl InvalidAPIParameters
       else checked_kernels
         (map (\<lambda>r. if k_session_id r = k_session_id compute_session then r\<lparr>k_session_name := new_name\<rparr> else r) (db_kernels s)) s)"

section \<open>Restarting\<close>

text \<open>\<open>restart_rpc\<close> is the agent's answer to \<open>restart_kernel\<close>, an error also when the started event does not arrive.\<close>

definition restarting_values :: "int \<Rightarrow> kernel_row \<Rightarrow> kernel_row" where
  "restarting_values now r = r\<lparr>k_status := RESTARTING, k_status_history := history_entry RESTARTING now r\<rparr>"

definition restarted_values :: "int \<Rightarrow> created_info \<Rightarrow> kernel_row \<Rightarrow> kernel_row" where
  "restarted_values now info r =
     r\<lparr>k_status := RUNNING, k_container_id := Some (ci_container_id info), k_repl_in_port := ci_repl_in_port info,
       k_repl_out_port := ci_repl_out_port info, k_stdin_port := ci_stdin_port info, k_stdout_port := ci_stdout_port info,
       k_service_ports := Some (case ci_service_ports info of Some p \<Rightarrow> p | None \<Rightarrow> JArr []), k_status_history := history_entry RUNNING now r\<rparr>"

definition restart_kernel :: "int \<Rightarrow> (kernel_row \<Rightarrow> created_info res) \<Rightarrow> kernel_row \<Rightarrow> db \<Rightarrow> db" where
  "restart_kernel now restart_rpc k s =
     (let s1 = update_kernels (\<lambda>r. k_id r = k_id k) (restarting_values now) s
      in case restart_rpc k of
           Inl _ \<Rightarrow> s1
         | Inr info \<Rightarrow> update_kernels (\<lambda>r. k_id r = k_id k) (restarted_values now info) s1)"

definition restart_session :: "int \<Rightarrow> (kernel_row \<Rightarrow> created_info res) \<Rightarrow> string \<Rightarrow> string \<Rightarrow> string \<Rightarrow> db \<Rightarrow> unit res \<times> db" where
  "restart_session now restart_rpc session_creation_id x access_key s =
     (case match_session_ids x access_key (\<lambda>_. True) s of
        [] \<Rightarrow> (Inl SessionNotFound, s)
      | [info] \<Rightarrow>
          (let session_id = si_session_id info; kernel_list = hd (get_all_kernels [session_id] s)
           in (Inr (), produce_event (SessionStartedEvent session_id session_creation_id) (fold (restart_kernel now restart_rpc) kernel_list s)))
      | _ \<Rightarrow> (Inl TooManySessionsMatched, s))"

section \<open>Cleaning up\<close>

datatype network_call = DestroyLocal "string option" "string option" string | DeleteOverlay string

definition clean_session :: "string \<Rightarrow> db \<Rightarrow> network_call option" where
  "clean_session session_id s =
     (case find (\<lambda>r. k_session_id r = session_id \<and> k_cluster_role r = DEFAULT_ROLE) (db_kernels s) of
        None \<Rightarrow> None
      | Some r \<Rightarrow>
          if k_cluster_mode r = SINGLE_NODE \<and> k_cluster_size r > 1 then
            Some (DestroyLocal (k_agent r) (k_agent_addr r) (''bai-singlenode-'' @ k_session_id r))
          else if k_cluster_mode r = MULTI_NODE then Some (DeleteOverlay (''bai-multinode-'' @ k_session_id r))
          else None)"

definition kill_all_sessions :: "db \<Rightarrow> (string \<times> string) list" where
  "kill_all_sessions s = map (\<lambda>a. (a_id a, a_addr a)) (filter (\<lambda>a. a_status a = ALIVE) (db_agents s))"

section \<open>What a lookup finds\<close>

definition like_plain :: "string \<Rightarrow> bool" where
  "like_plain p \<longleftrightarrow> list_all (\<lambda>c. c \<noteq> CHR ''%'' \<and> c \<noteq> CHR ''_'' \<and> c \<noteq> CHR 92) p"

lemma like_percent [simp]: "sql_like ''%'' s"
  by (induction s) auto

lemma like_prefix: "like_plain p \<Longrightarrow> sql_like (p @ ''%'') s \<longleftrightarrow> prefix p s"
proof (induction p arbitrary: s)
  case (Cons c p)
  then show ?case by (cases s) (auto simp: like_plain_def)
qed (simp del: sql_like.simps)

lemma match_query_mem:
  assumes "r \<in> set (match_query n cond s)"
  shows "r \<in> set (db_kernels s) \<and> k_cluster_role r = DEFAULT_ROLE \<and> (\<exists>q\<in>set (db_kernels s). k_session_id q = k_session_id r \<and> cond q)"
  using assms by (auto simp: match_query_def Let_def dest!: in_set_takeD) blast

lemma first_matches_mem: "r \<in> set (first_matches n conds s) \<Longrightarrow> \<exists>c\<in>set conds. r \<in> set (match_query n c s)"
  by (induction conds) (auto split: list.splits)

lemma main_rows_fold:
  "\<forall>r\<in>set rows. k_session_id r = i \<Longrightarrow>
   fold (\<lambda>r d. dset d (k_session_id r) (Some r)) rows [(i, x)] = [(i, if rows = [] then x else Some (last rows))]"
  by (induction rows arbitrary: x) auto

lemma get_main_kernels_one:
  "get_main_kernels [i] s =
     [let rows = filter (\<lambda>r. k_session_id r = i \<and> k_cluster_role r = DEFAULT_ROLE) (db_kernels s) in if rows = [] then None else Some (last rows)]"
  using main_rows_fold[of "filter (\<lambda>r. k_session_id r = i \<and> k_cluster_role r = DEFAULT_ROLE) (db_kernels s)" i None]
  by (simp add: get_main_kernels_def Let_def)

text \<open>
  C21: Whatever is looked up, the row found is a main kernel, and some kernel of its session (not
  necessarily the main one) belongs to the access key, is not dead unless stale sessions are asked
  for, and matches the text: the text begins its session id, is or begins its session name, or begins
  its kernel id, where the text may hold SQL wild cards.
\<close>
theorem get_session_owned:
  assumes "get_session x access_key allow_stale s = Inr r"
  shows "r \<in> set (db_kernels s) \<and> k_cluster_role r = DEFAULT_ROLE \<and>
    (\<exists>q\<in>set (db_kernels s). k_session_id q = k_session_id r \<and> k_access_key q = access_key \<and>
       (allow_stale \<or> k_status q \<notin> set DEAD_KERNEL_STATUSES) \<and>
       (sql_like (x @ ''%'') (k_session_id q) \<or> k_session_name q = x \<or> sql_like (x @ ''%'') (k_session_name q) \<or> sql_like (x @ ''%'') (k_id q)))"
proof -
  let ?cond = "\<lambda>r. allow_stale \<or> k_status r \<notin> set DEAD_KERNEL_STATUSES"
  obtain info where m: "match_session_ids x access_key ?cond s = [info]" and g: "get_main_kernels [si_session_id info] s = [Some r]"
    using assms by (auto simp: get_session_def get_main_kernels_one split: list.splits option.splits)
  let ?rows = "filter (\<lambda>r. k_session_id r = si_session_id info \<and> k_cluster_role r = DEFAULT_ROLE) (db_kernels s)"
  have "?rows \<noteq> []" "r = last ?rows" using g by (auto simp: get_main_kernels_one Let_def split: if_splits)
  then have "r \<in> set ?rows" using last_in_set by blast
  then have r: "r \<in> set (db_kernels s)" "k_session_id r = si_session_id info" "k_cluster_role r = DEFAULT_ROLE" by auto
  obtain r0 where r0: "r0 \<in> set (first_matches 10 (match_conds x access_key ?cond) s)" "info = session_info_of r0"
    using m by (auto simp: match_session_ids_def)
  obtain c where c: "c \<in> set (match_conds x access_key ?cond)" "r0 \<in> set (match_query 10 c s)" using first_matches_mem[OF r0(1)] by blast
  obtain q where q: "q \<in> set (db_kernels s)" "k_session_id q = k_session_id r0" "c q" using match_query_mem[OF c(2)] by blast
  have "k_access_key q = access_key" "?cond q"
    "sql_like (x @ ''%'') (k_session_id q) \<or> k_session_name q = x \<or> sql_like (x @ ''%'') (k_session_name q) \<or> sql_like (x @ ''%'') (k_id q)"
    using c(1) q(3) by (auto simp: match_conds_def)
  with q(1,2) r r0(2) show ?thesis by (auto simp: session_info_of_def)
qed

text \<open>The case of exactly one matching session, through any of the four conditions.\<close>

lemma match_query_one:
  assumes "filter (\<lambda>r. k_session_id r = i \<and> k_cluster_role r = DEFAULT_ROLE) (db_kernels s) = [r]"
    and "cond q" "q \<in> set (db_kernels s)" and "\<forall>q\<in>set (db_kernels s). cond q \<longrightarrow> k_session_id q = i" and "n > 0"
  shows "match_query n cond s = [r]"
proof -
  have "set (remdups (map k_session_id (filter cond (db_kernels s)))) = {i}" using assms(2-4) by auto
  moreover have "distinct (remdups (map k_session_id (filter cond (db_kernels s))))" by simp
  ultimately have "remdups (map k_session_id (filter cond (db_kernels s))) = [i]"
    by (metis distinct_card length_0_conv length_Suc_conv One_nat_def card.empty card_insert_disjoint empty_iff finite.emptyI list.set_intros(1) singletonD)
  then have "match_query n cond s = sort_key (\<lambda>r. - k_created_at r) (filter (\<lambda>r. k_session_id r \<in> {i} \<and> k_cluster_role r = DEFAULT_ROLE) (db_kernels s))"
    using assms(5) by (simp add: match_query_def take_Cons')
  then show ?thesis using assms(1) by simp
qed

lemma match_query_none: "\<forall>q\<in>set (db_kernels s). \<not> cond q \<Longrightarrow> match_query n cond s = []"
  by (simp add: match_query_def filter_empty_conv)

text \<open>
  A session is found by its full id: when no other session's id begins with it and the session
  has one main kernel, owned by the key and alive, \<open>get_session\<close> returns exactly that kernel.
\<close>
theorem get_session_by_id:
  assumes main: "filter (\<lambda>q. k_session_id q = x \<and> k_cluster_role q = DEFAULT_ROLE) (db_kernels s) = [r]" and "like_plain x"
    and "k_access_key r = access_key" and "k_status r \<notin> set DEAD_KERNEL_STATUSES"
    and "\<forall>q\<in>set (db_kernels s). prefix x (k_session_id q) \<longrightarrow> k_session_id q = x"
  shows "get_session x access_key allow_stale s = Inr r"
proof -
  have "r \<in> set (filter (\<lambda>q. k_session_id q = x \<and> k_cluster_role q = DEFAULT_ROLE) (db_kernels s))" using main by simp
  then have r: "r \<in> set (db_kernels s)" "k_session_id r = x" by auto
  let ?ex = "\<lambda>r. allow_stale \<or> k_status r \<notin> set DEAD_KERNEL_STATUSES"
  have "match_query 10 (\<lambda>r. sql_like (x @ ''%'') (k_session_id r) \<and> k_access_key r = access_key \<and> ?ex r) s = [r]"
    by (rule match_query_one[OF main _ r(1)]) (use r(2) assms(2-5) in \<open>auto simp: like_prefix\<close>)
  then have "match_session_ids x access_key ?ex s = [session_info_of r]" by (simp add: match_session_ids_def match_conds_def)
  then show ?thesis using main r(2) by (simp add: get_session_def get_main_kernels_one session_info_of_def)
qed

theorem get_session_owned_witness:
  "\<exists>r. get_session ''s'' ''AK'' False (demo_db [demo_kernel ''s1'' ''s1'' ''main'' RUNNING [] None] []) = Inr r \<and> k_cluster_role r = DEFAULT_ROLE"
proof -
  let ?s = "demo_db [demo_kernel ''s1'' ''s1'' ''main'' RUNNING [] None] []"
  have "map_sum id k_id (get_session ''s'' ''AK'' False ?s) = Inr ''s1''" by code_simp
  then obtain r where r: "get_session ''s'' ''AK'' False ?s = Inr r" by (cases "get_session ''s'' ''AK'' False ?s") auto
  from get_session_owned[OF r] r show ?thesis by blast
qed

theorem get_session_by_id_witness:
  "\<exists>r. get_session ''s1'' ''AK'' False (demo_db [demo_kernel ''s1'' ''s1'' ''main'' RUNNING [] None, demo_kernel ''k2'' ''s1'' ''sub'' RUNNING [] None] []) = Inr r \<and> k_id r = ''s1''"
proof -
  let ?r = "demo_kernel ''s1'' ''s1'' ''main'' RUNNING [] None"
  let ?s = "demo_db [?r, demo_kernel ''k2'' ''s1'' ''sub'' RUNNING [] None] []"
  have "get_session ''s1'' ''AK'' False ?s = Inr ?r"
  proof (rule get_session_by_id)
    show "filter (\<lambda>q. k_session_id q = ''s1'' \<and> k_cluster_role q = DEFAULT_ROLE) (db_kernels ?s) = [?r]"
      by (simp add: demo_db_def demo_kernel_def DEFAULT_ROLE_def)
    show "\<forall>q\<in>set (db_kernels ?s). prefix ''s1'' (k_session_id q) \<longrightarrow> k_session_id q = ''s1''" by (simp add: demo_db_def demo_kernel_def)
  qed (simp_all add: like_plain_def demo_kernel_def DEAD_KERNEL_STATUSES_def)
  then show ?thesis by (auto simp: demo_kernel_def)
qed

text \<open>
  A name can lose to the beginning of an id: with a session named \<open>cafe\<close> and another session of
  the same key whose id begins with \<open>cafe\<close>, asking for \<open>cafe\<close> gives the other session.
\<close>
theorem name_shadowed_by_id:
  "map_sum id k_session_id (get_session ''cafe'' ''AK'' False (demo_db
     [(demo_kernel ''1234'' ''1234'' ''main'' RUNNING [] None)\<lparr>k_session_name := ''cafe''\<rparr>,
      (demo_kernel ''cafe5678'' ''cafe5678'' ''main'' RUNNING [] None)\<lparr>k_session_name := ''other''\<rparr>] [])) = Inr ''cafe5678''"
  by code_simp

text \<open>A session that ended still counts as a match by its name: the live session of the same name cannot be restarted by name.\<close>

lemma restart_blocked_by_dead_name:
  "fst (restart_session 5 (\<lambda>_. Inl RuntimeError) ''c'' ''train'' ''AK'' (demo_db
     [(demo_kernel ''a1'' ''a1'' ''main'' TERMINATED [] None)\<lparr>k_session_name := ''train''\<rparr>,
      (demo_kernel ''b2'' ''b2'' ''main'' RUNNING [] None)\<lparr>k_session_name := ''train''\<rparr>] [])) = Inl TooManySessionsMatched"
  by code_simp

section \<open>Renamed sessions\<close>

text \<open>
  A renamed session is found under its new name: if no session's id begins with the name, no
  other session of the key ever had it, and the session has one main kernel, then after the renaming
  \<open>get_session\<close> returns the session's main kernel, which carries the new name.
\<close>
theorem rename_then_found:
  assumes found: "get_session x access_key True s = Inr r" and ren: "rename_session x access_key new_name s = Inr s'"
    and main: "filter (\<lambda>q. k_session_id q = k_session_id r \<and> k_cluster_role q = DEFAULT_ROLE) (db_kernels s) = [r]"
    and "k_access_key r = access_key"
    and ids: "\<forall>q\<in>set (db_kernels s). \<not> sql_like (new_name @ ''%'') (k_session_id q)"
    and others: "\<forall>q\<in>set (db_kernels s). k_session_name q = new_name \<and> k_access_key q = access_key \<longrightarrow> k_session_id q = k_session_id r"
  shows "get_session new_name access_key False s' = Inr (r\<lparr>k_session_name := new_name\<rparr>)"
proof -
  let ?f = "\<lambda>q. if k_session_id q = k_session_id r then q\<lparr>k_session_name := new_name\<rparr> else q"
  let ?r = "r\<lparr>k_session_name := new_name\<rparr>"
  have st: "k_status r = RUNNING" and ks: "db_kernels s' = map ?f (db_kernels s)"
    using ren found by (auto simp: rename_session_def checked_kernels_def split: if_splits)
  have "r \<in> set (filter (\<lambda>q. k_session_id q = k_session_id r \<and> k_cluster_role q = DEFAULT_ROLE) (db_kernels s))" using main by simp
  then have r: "r \<in> set (db_kernels s)" by simp
  then have r': "?r \<in> set (db_kernels s')" by (auto simp: ks rev_image_eqI)
  have "filter (\<lambda>q. k_session_id q = k_session_id r \<and> k_cluster_role q = DEFAULT_ROLE) (map ?f xs) =
      map ?f (filter (\<lambda>q. k_session_id q = k_session_id r \<and> k_cluster_role q = DEFAULT_ROLE) xs)" for xs :: "kernel_row list"
    by (induction xs) auto
  then have main': "filter (\<lambda>q. k_session_id q = k_session_id r \<and> k_cluster_role q = DEFAULT_ROLE) (db_kernels s') = [?r]"
    using main by (simp add: ks)
  let ?ex = "\<lambda>r. False \<or> k_status r \<notin> set DEAD_KERNEL_STATUSES"
  have "match_query 10 (\<lambda>r. sql_like (new_name @ ''%'') (k_session_id r) \<and> k_access_key r = access_key \<and> ?ex r) s' = []"
    by (rule match_query_none) (use ids in \<open>auto simp: ks\<close>)
  moreover have "match_query 10 (\<lambda>r. k_session_name r = new_name \<and> k_access_key r = access_key \<and> ?ex r) s' = [?r]"
  proof (rule match_query_one[OF main' _ r'])
    show "\<forall>q\<in>set (db_kernels s'). k_session_name q = new_name \<and> k_access_key q = access_key \<and> ?ex q \<longrightarrow> k_session_id q = k_session_id r"
      using others by (simp add: ks ball_Un)
  qed (use assms(4) st in \<open>simp_all add: DEAD_KERNEL_STATUSES_def\<close>)
  ultimately have "match_session_ids new_name access_key ?ex s' = [session_info_of ?r]"
    by (simp add: match_session_ids_def match_conds_def)
  then show ?thesis using main' by (simp add: get_session_def get_main_kernels_one session_info_of_def)
qed

theorem rename_then_found_witness:
  "map_sum id k_session_name (bindE (rename_session ''n'' ''AK'' ''fresh'' (demo_db [demo_kernel ''s1'' ''s1'' ''main'' RUNNING [] None] []))
     (get_session ''fresh'' ''AK'' False)) = Inr ''fresh''"
proof -
  let ?r = "demo_kernel ''s1'' ''s1'' ''main'' RUNNING [] None"
  let ?s = "demo_db [?r] []"
  have f: "get_session ''n'' ''AK'' True ?s = Inr ?r" by code_simp
  have "map_sum id (\<lambda>_. ()) (rename_session ''n'' ''AK'' ''fresh'' ?s) = Inr ()" by code_simp
  then obtain s' where s': "rename_session ''n'' ''AK'' ''fresh'' ?s = Inr s'" by (cases "rename_session ''n'' ''AK'' ''fresh'' ?s") auto
  have "get_session ''fresh'' ''AK'' False s' = Inr (?r\<lparr>k_session_name := ''fresh''\<rparr>)"
    by (rule rename_then_found[OF f s']) (simp_all add: demo_db_def demo_kernel_def DEFAULT_ROLE_def)
  with s' show ?thesis by simp
qed

section \<open>Restarted sessions\<close>

lemma restart_fold_rows:
  assumes "\<And>k. restart_rpc k = Inl (e k)"
  shows "list_all2 (\<lambda>r r'. k_session_id r' = k_session_id r \<and> k_id r' = k_id r \<and>
      k_status r' = (if k_id r \<in> k_id ` set ks then RESTARTING else k_status r)) (db_kernels s) (db_kernels (fold (restart_kernel now restart_rpc) ks s))"
proof (induction ks arbitrary: s)
  case (Cons k ks)
  let ?s1 = "restart_kernel now restart_rpc k s"
  have "db_kernels ?s1 = map (\<lambda>r. if k_id r = k_id k then restarting_values now r else r) (db_kernels s)"
    using assms by (simp add: restart_kernel_def update_kernels_def)
  then have "list_all2 (\<lambda>r r'. k_session_id r' = k_session_id r \<and> k_id r' = k_id r \<and>
      k_status r' = (if k_id r = k_id k then RESTARTING else k_status r)) (db_kernels s) (db_kernels ?s1)"
    by (simp add: list_all2_map2 list_all2_same restarting_values_def)
  from list_all2_trans[OF _ this Cons.IH] show ?case by (auto elim!: list_all2_mono)
qed (simp add: list_all2_same)

lemma get_all_kernels_one: "get_all_kernels [i] s = [filter (\<lambda>r. k_session_id r = i) (db_kernels s)]"
  by (simp add: get_all_kernels_def dget_or_def)

text \<open>
  A failed restart is not noticed: when the agents refuse to restart every kernel, the exceptions
  are dropped inside the tasks, so the call succeeds and announces the session as started, while all
  its kernels - also those that had ended - are left RESTARTING.
\<close>
theorem restart_failure_hidden:
  assumes "match_session_ids x access_key (\<lambda>_. True) s = [info]" and "\<And>k. restart_rpc k = Inl (e k)"
  shows "fst (restart_session now restart_rpc cid x access_key s) = Inr () \<and>
    last (db_events (snd (restart_session now restart_rpc cid x access_key s))) = SessionStartedEvent (si_session_id info) cid \<and>
    (\<forall>r\<in>set (db_kernels (snd (restart_session now restart_rpc cid x access_key s))). k_session_id r = si_session_id info \<longrightarrow> k_status r = RESTARTING)"
proof -
  let ?ks = "filter (\<lambda>r. k_session_id r = si_session_id info) (db_kernels s)"
  let ?s' = "fold (restart_kernel now restart_rpc) ?ks s"
  have res: "restart_session now restart_rpc cid x access_key s = (Inr (), produce_event (SessionStartedEvent (si_session_id info) cid) ?s')"
    using assms(1) by (simp add: restart_session_def get_all_kernels_one Let_def)
  have "k_status r' = RESTARTING" if r': "r' \<in> set (db_kernels ?s')" "k_session_id r' = si_session_id info" for r'
  proof -
    obtain r where "r \<in> set (db_kernels s)" "k_session_id r' = k_session_id r" "k_status r' = (if k_id r \<in> k_id ` set ?ks then RESTARTING else k_status r)"
      using all2_ball[OF restart_fold_rows[OF assms(2), where s = s and now = now and ks = ?ks] r'(1)] by blast
    with r'(2) show ?thesis by auto
  qed
  then show ?thesis unfolding res by (simp add: produce_event_def)
qed

theorem restart_failure_hidden_witness:
  "fst (restart_session 5 (\<lambda>_. Inl RuntimeError) ''c'' ''a1'' ''AK'' (demo_db [demo_kernel ''a1'' ''a1'' ''main'' TERMINATED [] None] [])) = Inr () \<and>
   map k_status (db_kernels (snd (restart_session 5 (\<lambda>_. Inl RuntimeError) ''c'' ''a1'' ''AK'' (demo_db [demo_kernel ''a1'' ''a1'' ''main'' TERMINATED [] None] [])))) = [RESTARTING]"
proof -
  let ?s = "demo_db [demo_kernel ''a1'' ''a1'' ''main'' TERMINATED [] None] []"
  have "match_session_ids ''a1'' ''AK'' (\<lambda>_. True) ?s = [\<lparr>si_session_id = ''a1'', si_session_name = ''n'', si_status = TERMINATED, si_created_at = 0\<rparr>]" by code_simp
  from restart_failure_hidden[OF this, of "\<lambda>_. Inl RuntimeError" "\<lambda>_. RuntimeError" 5 "''c''"] show ?thesis by code_simp
qed

end
