(* ===== verification/Settlement.thy ===== *)
theory Settlement
  imports Creation
begin

text \<open>
  How starting a session changes what the agents hold: the settlement moves each agent by the
  difference between actual and requested slots, the finalisation moves the use of the kernels on it
  by the same difference.
\<close>

section \<open>What the settlement does to the agents\<close>

text \<open>How much the actual allocation of a bound kernel differs from its request, as far as one is remembered.\<close>

definition delta :: "(string, slots) dict \<Rightarrow> kernel_agent_binding \<Rightarrow> string \<Rightarrow> rat" where
  "delta allocs b k =
     (case map_of allocs (bound_id b) of None \<Rightarrow> 0 | Some x \<Rightarrow> slot_amt x k - slot_amt (ki_requested_slots (kab_kernel b)) k)"

definition net :: "(string, slots) dict \<Rightarrow> kernel_agent_binding list \<Rightarrow> string \<Rightarrow> string \<Rightarrow> rat" where
  "net allocs bs i k = sum_list (map (\<lambda>b. if bound_agent b = i then delta allocs b k else 0) bs)"

definition good_slots :: "slots \<Rightarrow> bool" where
  "good_slots x \<longleftrightarrow> fin_slots x \<and> wf_dict x"

definition good_allocs :: "(string, slots) dict \<Rightarrow> bool" where
  "good_allocs allocs \<longleftrightarrow> (\<forall>i x. map_of allocs i = Some x \<longrightarrow> good_slots x)"

lemma good_slots_Nil [simp]: "good_slots []"
  by (simp add: good_slots_def)

lemma rs_plus_good:
  assumes "rs_plus a b = Inr r" and "good_slots a" and "good_slots b"
  shows "good_slots r \<and> (\<forall>k. slot_amt r k = slot_amt a k + slot_amt b k)"
proof -
  obtain a' b' where s: "sync_keys a b = (a', b')" by (cases "sync_keys a b")
  have m: "map fst ys = xs" if "mapE (\<lambda>k. bindE (dec_add (slot_val a' k) (slot_val b' k)) (\<lambda>v. Inr (k, v))) xs = Inr ys" for xs ys
    using that by (induction xs arbitrary: ys) (auto simp: bindE_eq_Inr_iff)
  have "keys r = keys a'" using assms(1) s by (auto simp: rs_plus_def rs_add_def bindE_eq_Inr_iff intro: m)
  moreover have "wf_dict a'" using sync_keys_wf[OF _ _ s] assms(2,3) by (simp add: good_slots_def)
  ultimately have "wf_dict r" by simp
  with rs_plus_fin[of a b] assms show ?thesis by (auto simp: good_slots_def)
qed

lemma settle_kernel_step:
  assumes "settle_kernel (A, R, allocs) b = Inr (A1, R1, allocs1)" and "good_slots (ki_requested_slots (kab_kernel b))" and "good_allocs allocs"
    and "good_slots A" and "good_slots R"
  shows "good_slots A1 \<and> good_slots R1 \<and> (\<forall>k. slot_amt A1 k - slot_amt R1 k = slot_amt A k - slot_amt R k + delta allocs b k) \<and>
    map_of allocs1 = (map_of allocs)(bound_id b := None)"
proof -
  let ?q = "ki_requested_slots (kab_kernel b)"
  have R1: "rs_plus R ?q = Inr R1" using assms(1) by (auto simp: settle_kernel_def Let_def bindE_eq_Inr_iff split: option.splits)
  note r = rs_plus_good[OF R1 assms(5,2)]
  show ?thesis
  proof (cases "map_of allocs (bound_id b)")
    case None
    then have A1: "rs_plus A ?q = Inr A1" "allocs1 = allocs" using assms(1) R1 by (auto simp: settle_kernel_def Let_def bindE_eq_Inr_iff)
    note a = rs_plus_good[OF A1(1) assms(4,2)]
    have "map_of allocs1 = (map_of allocs)(bound_id b := None)" using None A1(2) by (simp add: fun_upd_idem)
    with r a None show ?thesis by (simp add: delta_def)
  next
    case (Some x)
    then have A1: "rs_plus A x = Inr A1" "allocs1 = AList.delete (bound_id b) allocs"
      using assms(1) R1 by (auto simp: settle_kernel_def Let_def bindE_eq_Inr_iff)
    have "good_slots x" using assms(3) Some by (simp add: good_allocs_def)
    from rs_plus_good[OF A1(1) assms(4) this] r Some A1(2) show ?thesis by (simp add: delta_def delete_conv')
  qed
qed

lemma delta_forget: "bound_id c \<noteq> i \<Longrightarrow> map_of allocs1 = (map_of allocs)(i := None) \<Longrightarrow> delta allocs1 c k = delta allocs c k"
  by (simp add: delta_def)

lemma good_allocs_forget: "good_allocs allocs \<Longrightarrow> (\<And>j. map_of allocs1 j = None \<or> map_of allocs1 j = map_of allocs j) \<Longrightarrow> good_allocs allocs1"
  unfolding good_allocs_def by (metis option.distinct(1))

lemma settle_kernels:
  assumes "foldE settle_kernel (A, R, allocs) bs = Inr (A', R', allocs')" and "distinct (map bound_id bs)"
    and "\<forall>b\<in>set bs. good_slots (ki_requested_slots (kab_kernel b))" and "good_allocs allocs" and "good_slots A" and "good_slots R"
  shows "good_slots A' \<and> good_slots R' \<and>
    (\<forall>k. slot_amt A' k - slot_amt R' k = slot_amt A k - slot_amt R k + sum_list (map (\<lambda>b. delta allocs b k) bs)) \<and>
    (\<forall>j. map_of allocs' j = (if j \<in> bound_id ` set bs then None else map_of allocs j))"
  using assms
proof (induction bs arbitrary: A R allocs)
  case (Cons b bs)
  obtain A1 R1 allocs1 where s1: "settle_kernel (A, R, allocs) b = Inr (A1, R1, allocs1)"
    and rest: "foldE settle_kernel (A1, R1, allocs1) bs = Inr (A', R', allocs')"
    using Cons.prems(1) by (auto simp: bindE_eq_Inr_iff)
  have st: "good_slots A1" "good_slots R1" "\<And>k. slot_amt A1 k - slot_amt R1 k = slot_amt A k - slot_amt R k + delta allocs b k"
    "map_of allocs1 = (map_of allocs)(bound_id b := None)"
    using settle_kernel_step[OF s1 _ Cons.prems(4-6)] Cons.prems(3) by auto
  have "good_allocs allocs1" by (rule good_allocs_forget[OF Cons.prems(4)]) (simp add: st(4))
  from Cons.IH[OF rest _ _ this st(1,2)] Cons.prems(2,3)
  have ih: "good_slots A'" "good_slots R'" "\<And>k. slot_amt A' k - slot_amt R' k = slot_amt A1 k - slot_amt R1 k + sum_list (map (\<lambda>b. delta allocs1 b k) bs)"
    "\<And>j. map_of allocs' j = (if j \<in> bound_id ` set bs then None else map_of allocs1 j)" by auto
  have "map (\<lambda>b. delta allocs1 b k) bs = map (\<lambda>b. delta allocs b k) bs" for k
    using Cons.prems(2) by (intro map_cong refl delta_forget[OF _ st(4)]) (force simp: image_iff)
  with ih st(3,4) show ?case by simp
qed simp

lemma settle_agent_grown:
  assumes "settle_agent s (i, bs) = Inr s'" and "base_inv s" and "distinct (map bound_id bs)"
    and "\<forall>b\<in>set bs. good_slots (ki_requested_slots (kab_kernel b))" and "good_allocs (db_actual_allocs s)"
  shows "grown (\<lambda>j k. if j = i then sum_list (map (\<lambda>b. delta (db_actual_allocs s) b k) bs) else 0) s s' \<and> db_kernels s' = db_kernels s \<and>
    (\<forall>j. map_of (db_actual_allocs s') j = (if j \<in> bound_id ` set bs then None else map_of (db_actual_allocs s) j))"
proof -
  obtain A R allocs where f: "foldE settle_kernel ([], [], db_actual_allocs s) bs = Inr (A, R, allocs)"
    using assms(1) by (auto simp: settle_agent_def bindE_eq_Inr_iff)
  have st: "good_slots A" "good_slots R" "\<And>k. slot_amt A k - slot_amt R k = sum_list (map (\<lambda>b. delta (db_actual_allocs s) b k) bs)"
    "\<And>j. map_of allocs j = (if j \<in> bound_id ` set bs then None else map_of (db_actual_allocs s) j)"
    using settle_kernels[OF f assms(3-5)] by auto
  let ?s1 = "s\<lparr>db_actual_allocs := allocs\<rparr>"
  obtain d A' R' where ne: "rs_ne A R = (d, A', R')" by (cases "rs_ne A R")
  have self: "fin_slots (a_occupied_slots a)" if "a \<in> set (db_agents s)" for a using assms(2) that by (simp add: base_inv_def)
  show ?thesis
  proof (cases d)
    case False
    then have "s' = ?s1" using assms(1) f ne by (simp add: settle_agent_def Let_def)
    moreover have "slot_val A = slot_val R" using slots_ne_iff[of A R] st(1,2) ne False by (simp add: good_slots_def)
    then have "slot_amt A k = slot_amt R k" for k by (simp add: slot_amt_def)
    then have "sum_list (map (\<lambda>b. delta (db_actual_allocs s) b k) bs) = 0" for k using st(3)[of k] by simp
    ultimately show ?thesis using st(4) self by (simp add: grown_def list_all2_same)
  next
    case True
    have vals: "slot_val A' = slot_val A" "slot_val R' = slot_val R" "fin_slots A'" "fin_slots R'"
    proof -
      obtain a1 r1 where y1: "sync_keys A R = (a1, r1)" by (cases "sync_keys A R")
      obtain a2 r2 where y2: "sync_keys a1 r1 = (a2, r2)" by (cases "sync_keys a1 r1")
      have eq: "A' = a2" "R' = r2" using ne y1 y2 by (auto simp: rs_ne_def rs_eq_def Let_def)
      show "slot_val A' = slot_val A" "slot_val R' = slot_val R" using sync_keys_val[OF y1] sync_keys_val[OF y2] eq by simp_all
      show "fin_slots A'" "fin_slots R'"
        using sync_keys_fin[OF _ _ y1] sync_keys_fin[OF _ _ y2] st(1,2) eq by (simp_all add: good_slots_def)
    qed
    then have amts: "slot_amt A' k = slot_amt A k" "slot_amt R' k = slot_amt R k" for k by (simp_all add: slot_amt_def)
    obtain ag diff occ where ag: "find_agent ?s1 i = Some ag" "rs_minus A' R' = Inr diff" "rs_plus (a_occupied_slots ag) diff = Inr occ"
      and s': "s' = update_agent i (\<lambda>r. r\<lparr>a_occupied_slots := occ\<rparr>) ?s1"
      using assms(1) f ne True by (auto simp: settle_agent_def Let_def bindE_eq_Inr_iff split: option.splits)
    have in_s: "ag \<in> set (db_agents s)" "a_id ag = i" using find_agent_Some[OF ag(1)] by auto
    have df: "fin_slots diff" "\<And>k. slot_amt diff k = slot_amt A k - slot_amt R k" using rs_minus_fin[OF vals(3,4)] ag(2) amts by auto
    have oc: "fin_slots occ" "\<And>k. slot_amt occ k = slot_amt (a_occupied_slots ag) k + slot_amt diff k"
      using rs_plus_fin[OF self[OF in_s(1)] df(1)] ag(3) by auto
    have "a = ag" if "a \<in> set (db_agents s)" "a_id a = i" for a
      using that in_s assms(2) by (metis base_inv_def distinct_map inj_on_eq_iff)
    then have "grown (\<lambda>j k. if j = i then sum_list (map (\<lambda>b. delta (db_actual_allocs s) b k) bs) else 0) s s'"
      using oc df st(3) self unfolding grown_def s' by (auto simp: update_agent_def list_all2_map2 list_all2_same)
    with st(4) s' show ?thesis by (simp add: update_agent_def)
  qed
qed

lemma net_append: "net allocs (xs @ ys) i k = net allocs xs i k + net allocs ys i k"
  by (simp add: net_def)

lemma net_group: "\<forall>b\<in>set bs. bound_agent b = i \<Longrightarrow> net allocs bs j k = (if j = i then sum_list (map (\<lambda>b. delta allocs b k) bs) else 0)"
  by (induction bs) (auto simp: net_def)

lemma net_cong: "(\<And>b. b \<in> set bs \<Longrightarrow> map_of allocs1 (bound_id b) = map_of allocs (bound_id b)) \<Longrightarrow> net allocs1 bs i k = net allocs bs i k"
  unfolding net_def by (intro arg_cong[where f = sum_list] map_cong refl) (simp add: delta_def)

lemma settle_groups_grown:
  assumes "foldE settle_agent s gs = Inr s'" and "base_inv s" and "distinct (map bound_id (concat (map snd gs)))"
    and "\<forall>b\<in>set (concat (map snd gs)). good_slots (ki_requested_slots (kab_kernel b))" and "good_allocs (db_actual_allocs s)"
    and "\<forall>(i, bs)\<in>set gs. \<forall>b\<in>set bs. bound_agent b = i"
  shows "grown (net (db_actual_allocs s) (concat (map snd gs))) s s' \<and> db_kernels s' = db_kernels s"
  using assms
proof (induction gs arbitrary: s)
  case Nil
  then show ?case by (auto simp: grown_def list_all2_same base_inv_def net_def)
next
  case (Cons g gs)
  obtain i bs where g: "g = (i, bs)" by (cases g)
  obtain s1 where s1: "settle_agent s (i, bs) = Inr s1" "foldE settle_agent s1 gs = Inr s'"
    using Cons.prems(1) g by (auto simp: bindE_eq_Inr_iff)
  have st: "grown (\<lambda>j k. if j = i then sum_list (map (\<lambda>b. delta (db_actual_allocs s) b k) bs) else 0) s s1" "db_kernels s1 = db_kernels s"
    "\<And>j. map_of (db_actual_allocs s1) j = (if j \<in> bound_id ` set bs then None else map_of (db_actual_allocs s) j)"
    using settle_agent_grown[OF s1(1) Cons.prems(2) _ _ Cons.prems(5)] Cons.prems(3,4) g by auto
  have "good_allocs (db_actual_allocs s1)" by (rule good_allocs_forget[OF Cons.prems(5)]) (simp add: st(3))
  from Cons.IH[OF s1(2) grown_base[OF st(1) Cons.prems(2) st(2)] _ _ this] Cons.prems(3,4,6) g
  have ih: "grown (net (db_actual_allocs s1) (concat (map snd gs))) s1 s'" "db_kernels s' = db_kernels s1" by auto
  have "net (db_actual_allocs s1) (concat (map snd gs)) j k = net (db_actual_allocs s) (concat (map snd gs)) j k" for j k
    using Cons.prems(3) g by (intro net_cong) (auto simp: st(3))
  moreover have "net (db_actual_allocs s) bs j k = (if j = i then sum_list (map (\<lambda>b. delta (db_actual_allocs s) b k) bs) else 0)" for j k
    using Cons.prems(6) g by (intro net_group) auto
  ultimately have "(\<lambda>j k. (if j = i then sum_list (map (\<lambda>b. delta (db_actual_allocs s) b k) bs) else 0) + net (db_actual_allocs s1) (concat (map snd gs)) j k) =
      net (db_actual_allocs s) (concat (map snd (g # gs)))" by (simp add: g net_append fun_eq_iff)
  with grown_trans[OF st(1) ih(1)] ih(2) st(2) show ?case by simp
qed

section \<open>Kernels being finalised\<close>

text \<open>The slots a bound kernel holds: its actual allocation once that is known, its request before.\<close>

definition taken :: "(string, slots) dict \<Rightarrow> kernel_agent_binding \<Rightarrow> slots" where
  "taken allocs b = (case map_of allocs (bound_id b) of None \<Rightarrow> ki_requested_slots (kab_kernel b) | Some x \<Rightarrow> x)"

lemma delta_taken: "delta allocs b k = slot_amt (taken allocs b) k - slot_amt (ki_requested_slots (kab_kernel b)) k"
  by (simp add: delta_def taken_def split: option.splits)

lemma net_dset:
  assumes "distinct (map bound_id bs)" and "b \<in> set bs"
  shows "net (dset allocs (bound_id b) x) bs j k = net allocs bs j k + (if bound_agent b = j then slot_amt x k - slot_amt (taken allocs b) k else 0)"
  using assms
proof (induction bs)
  case (Cons c bs)
  show ?case
  proof (cases "c = b")
    case True
    with Cons.prems have "bound_id b \<notin> bound_id ` set bs" by auto
    then have "net (dset allocs (bound_id b) x) bs j k = net allocs bs j k" by (intro net_cong) (force simp: update_conv' image_iff)
    with True show ?thesis by (simp add: net_def delta_taken) (simp add: taken_def update_conv')
  next
    case False
    with Cons.prems have "b \<in> set bs" "bound_id c \<noteq> bound_id b" by (auto simp: rev_image_eqI)
    then have "delta (dset allocs (bound_id b) x) c k = delta allocs c k" by (simp add: delta_def update_conv')
    with Cons.IH Cons.prems(1) \<open>b \<in> set bs\<close> show ?thesis by (simp add: net_def)
  qed
qed simp

lemma sum_list_changed:
  fixes g :: "kernel_row \<Rightarrow> rat"
  assumes "distinct (map k_id xs)" and "r \<in> set xs" and "P (f r) \<longleftrightarrow> P r"
  shows "sum_list (map g (filter P (map (\<lambda>x. if k_id x = k_id r then f x else x) xs))) =
    sum_list (map g (filter P xs)) + (if P r then g (f r) - g r else 0)"
  using assms(1,2)
proof (induction xs)
  case (Cons x xs)
  show ?case
  proof (cases "x = r")
    case True
    with Cons.prems have "map (\<lambda>x. if k_id x = k_id r then f x else x) xs = xs" by (intro map_idI) (auto simp: rev_image_eqI)
    with True assms(3) show ?thesis by simp
  next
    case False
    with Cons.prems have "k_id x \<noteq> k_id r" "r \<in> set xs" "distinct (map k_id xs)" by (auto simp: rev_image_eqI)
    with Cons.IH show ?thesis by simp
  qed
qed simp

text \<open>
  The state while the kernels of the bindings are created: the agents are untouched, and the use of
  each has changed by the difference between actual and requested slots known so far.
\<close>

definition holds_row :: "db \<Rightarrow> kernel_agent_binding \<Rightarrow> bool" where
  "holds_row s b \<longleftrightarrow> (\<exists>r\<in>set (db_kernels s). k_id r = bound_id b \<and> k_agent r = Some (bound_agent b) \<and> agent_occupying r \<and>
     slot_amt (k_occupied_slots r) = slot_amt (taken (db_actual_allocs s) b))"

definition creating :: "kernel_agent_binding list \<Rightarrow> db \<Rightarrow> db \<Rightarrow> bool" where
  "creating bs s0 s \<longleftrightarrow> db_agents s = db_agents s0 \<and> map k_id (db_kernels s) = map k_id (db_kernels s0) \<and> fin_kernels s \<and>
     good_allocs (db_actual_allocs s) \<and> (\<forall>b\<in>set bs. holds_row s b) \<and>
     (\<forall>j k. used_by (on_agent j) s k = used_by (on_agent j) s0 k + net (db_actual_allocs s) bs j k)"

text \<open>What the agents report: the kernel they were asked for, with allocations that can be read and are finite.\<close>

definition agent_reports :: "start_env \<Rightarrow> bool" where
  "agent_reports env \<longleftrightarrow> (\<forall>ag cl kid cfg info. st_create env ag cl kid cfg = Inr info \<longrightarrow> ci_id info = kid \<and>
     (\<exists>actual. convert_resource_spec_to_resource_slot (ci_allocations info) = Inr actual \<and> fin_slots actual))"

lemma convert_wf: "convert_resource_spec_to_resource_slot a = Inr sl \<Longrightarrow> wf_dict sl"
proof -
  have inner: "wf_dict sl'" if "foldE (\<lambda>sl (slot_name, by_device). bindE (sum_allocs by_device) (\<lambda>x. Inr (dset sl slot_name x))) sl m = Inr sl'" "wf_dict sl"
    for sl sl' and m :: "(string, (string, string) dict) dict"
    using that by (induction m arbitrary: sl) (auto simp: bindE_eq_Inr_iff)
  have "wf_dict sl'" if "foldE (\<lambda>sl alloc_map. foldE (\<lambda>sl (slot_name, by_device). bindE (sum_allocs by_device) (\<lambda>x. Inr (dset sl slot_name x))) sl alloc_map) sl ms = Inr sl'" "wf_dict sl"
    for sl sl' and ms :: "(string, (string, string) dict) dict list"
    using that by (induction ms arbitrary: sl) (auto simp: bindE_eq_Inr_iff dest: inner)
  then show "convert_resource_spec_to_resource_slot a = Inr sl \<Longrightarrow> wf_dict sl"
    unfolding convert_resource_spec_to_resource_slot_def by fastforce
qed

lemma running_values_simps [simp]:
  "k_id (running_values env ctx addr info x r) = k_id r" "k_agent (running_values env ctx addr info x r) = k_agent r"
  "k_status (running_values env ctx addr info x r) = RUNNING" "k_occupied_slots (running_values env ctx addr info x r) = x"
  by (simp_all add: running_values_def)

lemma running_occupying: "k_status r = RUNNING \<Longrightarrow> agent_occupying r"
  by (simp add: agent_occupying_def AGENT_RESOURCE_OCCUPYING_KERNEL_STATUSES_def all_kernel_statuses_def)

lemma post_create_creating:
  assumes c: "creating bs s0 s" and "distinct (map k_id (db_kernels s0))" and "distinct (map bound_id bs)" and "b \<in> set bs" and "ci_id info = bound_id b"
    and conv: "convert_resource_spec_to_resource_slot (ci_allocations info) = Inr actual" and "fin_slots actual"
  shows "creating bs s0 (post_create_kernel env ctx addr info s)"
proof (cases "st_started env (ci_id info)")
  case True
  let ?f = "running_values env ctx addr info actual"
  let ?s' = "post_create_kernel env ctx addr info s"
  have ks: "db_kernels ?s' = map (\<lambda>r. if k_id r = bound_id b then ?f r else r) (db_kernels s)"
    and al: "db_actual_allocs ?s' = dset (db_actual_allocs s) (bound_id b) actual" and ag: "db_agents ?s' = db_agents s"
    using True conv assms(5) by (simp_all add: post_create_kernel_def update_kernels_def)
  obtain r where r: "r \<in> set (db_kernels s)" "k_id r = bound_id b" "k_agent r = Some (bound_agent b)" "agent_occupying r"
    "slot_amt (k_occupied_slots r) = slot_amt (taken (db_actual_allocs s) b)"
    using c assms(4) unfolding creating_def holds_row_def by blast
  have dk: "distinct (map k_id (db_kernels s))" using c assms(2) unfolding creating_def by metis
  have occ: "agent_occupying (?f r)" by (rule running_occupying) simp
  have "used_by (on_agent j) ?s' k = used_by (on_agent j) s k + (if bound_agent b = j then slot_amt actual k - slot_amt (taken (db_actual_allocs s) b) k else 0)" for j k
    using sum_list_changed[of "db_kernels s" r "on_agent j" ?f "\<lambda>r. slot_amt (k_occupied_slots r) k", OF dk r(1)] r occ
    by (simp add: used_by_def ks on_agent_def)
  then have used: "used_by (on_agent j) ?s' k = used_by (on_agent j) s0 k + net (db_actual_allocs ?s') bs j k" for j k
    using c by (simp add: creating_def al net_dset[OF assms(3,4)])
  have rows: "holds_row ?s' c" if mem: "c \<in> set bs" for c
  proof -
    obtain q where q: "q \<in> set (db_kernels s)" "k_id q = bound_id c" "k_agent q = Some (bound_agent c)" "agent_occupying q"
      "slot_amt (k_occupied_slots q) = slot_amt (taken (db_actual_allocs s) c)"
      using c mem unfolding creating_def holds_row_def by blast
    let ?q = "if k_id q = bound_id b then ?f q else q"
    have "?q \<in> set (db_kernels ?s')" using q(1) by (simp add: ks rev_image_eqI)
    moreover have "agent_occupying ?q" using q(4) running_occupying[of "?f q"] by simp
    moreover have "slot_amt (k_occupied_slots ?q) = slot_amt (taken (db_actual_allocs ?s') c)" using q(2,5) by (simp add: taken_def al update_conv')
    ultimately show ?thesis unfolding holds_row_def using q(2,3) by (intro bexI[of _ ?q]) simp_all
  qed
  have "good_slots actual" using convert_wf[OF conv] assms(7) by (simp add: good_slots_def)
  then have "good_allocs (db_actual_allocs ?s')" using c by (auto simp: creating_def good_allocs_def al update_conv')
  moreover have "fin_kernels ?s'" using c assms(7) by (auto simp: creating_def fin_kernels_def ks list_all_iff)
  moreover have "map k_id (db_kernels ?s') = map k_id (db_kernels s)" by (simp add: ks comp_def if_distrib cong: if_cong)
  ultimately show ?thesis using c used rows ag by (simp add: creating_def)
qed (use c in \<open>simp add: post_create_kernel_def\<close>)

lemma create_kernels_infos:
  assumes "create_kernels create reqs = Inr infos" and "info \<in> set infos"
  shows "\<exists>kid cfg. (kid, cfg) \<in> set reqs \<and> create kid cfg = Inr info"
  using assms by (auto simp: create_kernels_def Let_def split: list.splits sum.splits prod.splits if_splits) blast

text \<open>An assertion that the finalisation of every reported kernel keeps survives the calls to all agents.\<close>

lemma create_in_agent_keeps:
  assumes "P s" and "\<And>s info kid cfg. P s \<Longrightarrow> kid \<in> bound_id ` set (snd g) \<Longrightarrow> st_create env (fst g) cl kid cfg = Inr info \<Longrightarrow>
      P (post_create_kernel env (kab_agent_alloc_ctx (hd (snd g))) (ki_agent_addr (kab_kernel (hd (snd g)))) info s)"
  shows "P (snd (create_kernels_in_one_agent env sess ii cl g s))"
proof -
  obtain ag items where g: "g = (ag, items)" by (cases g)
  let ?ctx = "kab_agent_alloc_ctx (hd items)" and ?addr = "ki_agent_addr (kab_kernel (hd items))"
  have fold: "P (fold (post_create_kernel env ?ctx ?addr) infos s)"
    if i: "\<And>info. info \<in> set infos \<Longrightarrow> \<exists>kid cfg. kid \<in> bound_id ` set items \<and> st_create env ag cl kid cfg = Inr info" for infos
    using assms(1) i
  proof (induction infos arbitrary: s)
    case (Cons x xs)
    from Cons.prems(2)[of x] obtain kid cfg where "kid \<in> bound_id ` set items" "st_create env ag cl kid cfg = Inr x" by auto
    with assms(2)[OF Cons.prems(1)] g have "P (post_create_kernel env ?ctx ?addr x s)" by simp
    from Cons.IH[OF this] Cons.prems(2) show ?case by simp
  qed simp
  have "P (fold (post_create_kernel env ?ctx ?addr) infos s)"
    if m: "create_kernels (st_create env ag cl) (zip (map bound_id items) configs) = Inr infos" for configs infos
  proof (rule fold)
    fix info assume "info \<in> set infos"
    from create_kernels_infos[OF m this] obtain kid cfg where "(kid, cfg) \<in> set (zip (map bound_id items) configs)" "st_create env ag cl kid cfg = Inr info" by auto
    moreover from this have "kid \<in> bound_id ` set items" by (metis set_zip_leftD set_map)
    ultimately show "\<exists>kid cfg. kid \<in> bound_id ` set items \<and> st_create env ag cl kid cfg = Inr info" by auto
  qed
  then show ?thesis using assms(1) g by (auto simp: create_kernels_in_one_agent_def Let_def split: sum.splits)
qed

lemma create_on_agents_creating:
  assumes "creating bs s0 s" and "distinct (map k_id (db_kernels s0))" and "distinct (map bound_id bs)" and "agent_reports env"
    and "\<forall>(i, items)\<in>set gs. bound_id ` set items \<subseteq> bound_id ` set bs" and "create_on_agents env sess ii cl gs s = (es, s1)"
  shows "creating bs s0 s1"
  using assms(1,5,6)
proof (induction gs arbitrary: s es)
  case (Cons g gs)
  obtain i items where g: "g = (i, items)" by (cases g)
  obtain r s2 where s2: "create_kernels_in_one_agent env sess ii cl g s = (r, s2)" by (cases "create_kernels_in_one_agent env sess ii cl g s")
  have "creating bs s0 (snd (create_kernels_in_one_agent env sess ii cl g s))"
  proof (rule create_in_agent_keeps)
    fix t info kid cfg
    assume t: "creating bs s0 t" and kid: "kid \<in> bound_id ` set (snd g)" and cr: "st_create env (fst g) cl kid cfg = Inr info"
    have "kid \<in> bound_id ` set bs" using kid Cons.prems(2) g by auto
    then obtain b where b: "b \<in> set bs" "kid = bound_id b" by auto
    obtain actual where "ci_id info = kid" "convert_resource_spec_to_resource_slot (ci_allocations info) = Inr actual" "fin_slots actual"
      using assms(4) cr unfolding agent_reports_def by blast
    with post_create_creating[OF t assms(2,3) b(1)] b(2)
    show "creating bs s0 (post_create_kernel env (kab_agent_alloc_ctx (hd (snd g))) (ki_agent_addr (kab_kernel (hd (snd g)))) info t)" by simp
  qed (rule Cons.prems(1))
  with s2 have "creating bs s0 s2" by simp
  with Cons.IH[of s2] Cons.prems(2,3) s2 show ?case by (auto split: prod.splits)
qed simp

lemma groupby_key: "(i, ys) \<in> set (groupby f xs) \<Longrightarrow> y \<in> set ys \<Longrightarrow> f y = i"
  by (induction f xs rule: groupby.induct) (auto dest: set_takeWhileD)

lemma groupby_mem: "(i, ys) \<in> set (groupby f xs) \<Longrightarrow> y \<in> set ys \<Longrightarrow> y \<in> set xs"
proof -
  assume "(i, ys) \<in> set (groupby f xs)" "y \<in> set ys"
  then have "y \<in> set (concat (map snd (groupby f xs)))" by force
  then show "y \<in> set xs" by (simp add: groupby_concat)
qed

end
