(* ===== verification/Starting.thy ===== *)
theory Starting
  imports Settlement
begin

text \<open>
  What a start of a session guarantees: the agents' occupied slots stay what their kernels use, the
  kernels run, and which sessions cannot start.
\<close>

section \<open>A started session is accounted for\<close>

lemma net_sorted: "net allocs (sort_key f bs) i k = net allocs bs i k"
  unfolding net_def by (simp flip: sum_mset_sum_list)

lemma taken_none: "map_of allocs (bound_id b) = None \<Longrightarrow> taken allocs b = ki_requested_slots (kab_kernel b)"
  by (simp add: taken_def)

lemma net_none: "\<forall>b\<in>set bs. map_of allocs (bound_id b) = None \<Longrightarrow> net allocs bs i k = 0"
  by (induction bs) (auto simp: net_def delta_def)

lemma binding_of_simps [simp]:
  "kab_kernel (binding_of sess ki) = ki" "ki_agent_id ki = Some a \<Longrightarrow> bound_agent (binding_of sess ki) = a"
  by (simp_all add: binding_of_def)

text \<open>The session as it is when it starts: its kernels are rows on their agents, holding what they requested.\<close>

definition ready_to_start :: "pending_session \<Rightarrow> db \<Rightarrow> bool" where
  "ready_to_start sess s \<longleftrightarrow> distinct (map ki_kernel_id (ps_kernels sess)) \<and>
     (\<forall>ki\<in>set (ps_kernels sess). map_of (db_actual_allocs s) (ki_kernel_id ki) = None \<and> good_slots (ki_requested_slots ki) \<and>
        (\<exists>r\<in>set (db_kernels s). k_id r = ki_kernel_id ki \<and> k_agent r = ki_agent_id ki \<and> agent_occupying r \<and>
           k_occupied_slots r = ki_requested_slots ki))"

lemma creating_start:
  assumes "base_inv s" and "good_allocs (db_actual_allocs s)" and rd: "ready_to_start sess s"
    and ag: "\<not> list_ex (\<lambda>k. ki_agent_id k = None) (ps_kernels sess)"
  shows "creating (map (binding_of sess) (ps_kernels sess)) s s"
proof -
  let ?bs = "map (binding_of sess) (ps_kernels sess)"
  have none: "\<forall>b\<in>set ?bs. map_of (db_actual_allocs s) (bound_id b) = None" using rd by (auto simp: ready_to_start_def)
  have "holds_row s b" if mem: "b \<in> set ?bs" for b
  proof -
    obtain ki where ki: "ki \<in> set (ps_kernels sess)" "b = binding_of sess ki" using mem by auto
    then obtain a where a: "ki_agent_id ki = Some a" using ag by (auto simp: list_ex_iff)
    obtain r where "r \<in> set (db_kernels s)" "k_id r = ki_kernel_id ki" "k_agent r = Some a" "agent_occupying r" "k_occupied_slots r = ki_requested_slots ki"
      using rd ki(1) a unfolding ready_to_start_def by metis
    moreover have "taken (db_actual_allocs s) b = ki_requested_slots ki" using taken_none[OF bspec[OF none mem]] ki(2) by simp
    ultimately show ?thesis unfolding holds_row_def using ki(2) a by (intro bexI[of _ r]) simp_all
  qed
  then show ?thesis using assms(1,2) net_none[OF none] by (simp add: creating_def base_inv_def)
qed

lemma distinct_sorted: "distinct (map f (sort_key g xs)) \<longleftrightarrow> distinct (map f xs)"
  by (metis mset_eq_imp_distinct_iff mset_map mset_sort)

lemma start_phases:
  assumes "registry_start_session env ct sess s = (Inr (), s')"
  obtains ii nw s1 s2 where "\<not> list_ex (\<lambda>k. ki_agent_id k = None) (ps_kernels sess)"
    and "create_on_agents env (with_environ sess) ii (cluster_info_of env sess nw)
           (groupby bound_agent (sort_key bound_agent (map (binding_of sess) (ps_kernels sess)))) s = ([], s1)"
    and "settle_agent_alloc (map (binding_of sess) (ps_kernels sess)) s1 = Inr s2"
    and "s' = produce_event (SessionStartedEvent (ps_session_id sess) (ps_session_creation_id sess)) s2"
  using assms by (auto simp: registry_start_session_def Let_def split: if_splits sum.splits prod.splits list.splits)

text \<open>
  C2: Starting a session keeps the books: when the occupied slots of every agent are what the
  kernels on it use, the session's kernels hold what they requested, and the agents report the
  kernels they were asked for with readable, finite allocations, then after a start that succeeds on all
  agents - in which the rows got the actual allocations, more or less than was requested - the
  occupied slots of every agent are again what its kernels use, and the kernels are the same.  A
  start that fails on some agent ends before the settlement and is not covered.
\<close>
theorem start_session_accounted:
  assumes inv: "base_inv s" "accounted s" and good: "good_allocs (db_actual_allocs s)" and rd: "ready_to_start sess s" and rep: "agent_reports env"
    and run: "registry_start_session env ct sess s = (Inr (), s')"
  shows "accounted s' \<and> base_inv s' \<and> map k_id (db_kernels s') = map k_id (db_kernels s)"
proof -
  let ?bs = "map (binding_of sess) (ps_kernels sess)"
  let ?gs = "groupby bound_agent (sort_key bound_agent ?bs)"
  obtain ii nw s1 s2 where ph: "\<not> list_ex (\<lambda>k. ki_agent_id k = None) (ps_kernels sess)"
    "create_on_agents env (with_environ sess) ii (cluster_info_of env sess nw) ?gs s = ([], s1)" "settle_agent_alloc ?bs s1 = Inr s2"
    and s': "s' = produce_event (SessionStartedEvent (ps_session_id sess) (ps_session_creation_id sess)) s2"
    by (rule start_phases[OF run])
  have db: "distinct (map bound_id ?bs)" using rd by (simp add: ready_to_start_def comp_def)
  have dk: "distinct (map k_id (db_kernels s))" using inv by (simp add: base_inv_def)
  have "\<forall>(i, items)\<in>set ?gs. bound_id ` set items \<subseteq> bound_id ` set ?bs"
    using groupby_mem[of _ _ bound_agent "sort_key bound_agent ?bs"] by fastforce
  from create_on_agents_creating[OF creating_start[OF inv(1) good rd ph(1)] dk db rep this ph(2)]
  have cr: "creating ?bs s s1" .
  have b1: "base_inv s1" using cr inv(1) by (simp add: creating_def base_inv_def)
  have "grown (net (db_actual_allocs s1) (concat (map snd ?gs))) s1 s2 \<and> db_kernels s2 = db_kernels s1"
  proof (rule settle_groups_grown[OF _ b1])
    show "foldE settle_agent s1 ?gs = Inr s2" using ph(3) by (simp add: settle_agent_alloc_def Let_def)
    show "distinct (map bound_id (concat (map snd ?gs)))" using db by (simp add: groupby_concat distinct_sorted)
    show "\<forall>b\<in>set (concat (map snd ?gs)). good_slots (ki_requested_slots (kab_kernel b))"
      using rd by (auto simp: groupby_concat ready_to_start_def)
    show "good_allocs (db_actual_allocs s1)" using cr by (simp add: creating_def)
    show "\<forall>(i, bs)\<in>set ?gs. \<forall>b\<in>set bs. bound_agent b = i" using groupby_key[of _ _ bound_agent] by fastforce
  qed
  then have gr: "grown (net (db_actual_allocs s1) ?bs) s1 s2" "db_kernels s2 = db_kernels s1"
    by (simp_all add: groupby_concat net_sorted[abs_def])
  have "accounted s2" unfolding accounted_def
  proof (intro ballI allI)
    fix a' k assume "a' \<in> set (db_agents s2)"
    then obtain a where a: "a \<in> set (db_agents s1)" "a_id a' = a_id a"
      "slot_amt (a_occupied_slots a') k = slot_amt (a_occupied_slots a) k + net (db_actual_allocs s1) ?bs (a_id a) k"
      using all2_ball[OF gr(1)[unfolded grown_def]] by blast
    moreover have "slot_amt (a_occupied_slots a) k = used_by (on_agent (a_id a)) s k" using inv(2) a(1) cr by (simp add: accounted_def creating_def)
    moreover have "used_by (on_agent (a_id a)) s2 k = used_by (on_agent (a_id a)) s1 k" using gr(2) by (simp add: used_by_def)
    ultimately show "slot_amt (a_occupied_slots a') k = used_by (on_agent (a_id a')) s2 k" using cr by (simp add: creating_def)
  qed
  moreover have "base_inv s2" by (rule grown_base[OF gr(1) b1 gr(2)])
  ultimately show ?thesis using cr gr(2) s' by (simp add: accounted_def base_inv_def fin_kernels_def used_by_def creating_def)
qed

section \<open>A started session runs\<close>

text \<open>
  \<open>started_row\<close>: the row is RUNNING and holds the container and the slots of a report some agent made
  for this very kernel.
\<close>

definition started_row :: "start_env \<Rightarrow> kernel_row \<Rightarrow> bool" where
  "started_row env r \<longleftrightarrow> k_status r = RUNNING \<and>
     (\<exists>ag cl cfg info. st_create env ag cl (k_id r) cfg = Inr info \<and> k_container_id r = Some (ci_container_id info) \<and>
        convert_resource_spec_to_resource_slot (ci_allocations info) = Inr (k_occupied_slots r))"

definition reported :: "start_env \<Rightarrow> created_info \<Rightarrow> bool" where
  "reported env info \<longleftrightarrow> (\<exists>ag cl cfg. st_create env ag cl (ci_id info) cfg = Inr info)"

definition runs :: "start_env \<Rightarrow> string \<Rightarrow> db \<Rightarrow> bool" where
  "runs env i s \<longleftrightarrow> (\<forall>r\<in>set (db_kernels s). k_id r = i \<longrightarrow> started_row env r)"

definition others_of :: "string set \<Rightarrow> db \<Rightarrow> kernel_row list" where
  "others_of ids s = filter (\<lambda>r. k_id r \<notin> ids) (db_kernels s)"

lemma running_started:
  "reported env info \<Longrightarrow> convert_resource_spec_to_resource_slot (ci_allocations info) = Inr actual \<Longrightarrow> k_id r = ci_id info \<Longrightarrow>
    started_row env (running_values env ctx addr info actual r)"
  by (auto simp: started_row_def reported_def running_values_def)

lemma running_id [simp]: "k_id (running_values env ctx addr info actual r) = k_id r"
  by (simp add: running_values_def)

lemma post_create_cases:
  "post_create_kernel env ctx addr info s = s \<or>
   (\<exists>actual. st_started env (ci_id info) \<and> convert_resource_spec_to_resource_slot (ci_allocations info) = Inr actual \<and>
      db_kernels (post_create_kernel env ctx addr info s) =
        map (\<lambda>r. if k_id r = ci_id info then running_values env ctx addr info actual r else r) (db_kernels s))"
  by (auto simp: post_create_kernel_def update_kernels_def split: sum.splits)

lemma post_create_keeps:
  assumes "reported env info"
  shows "runs env i s \<Longrightarrow> runs env i (post_create_kernel env ctx addr info s)"
    and "map k_id (db_kernels (post_create_kernel env ctx addr info s)) = map k_id (db_kernels s)"
    and "ci_id info \<in> ids \<Longrightarrow> others_of ids (post_create_kernel env ctx addr info s) = others_of ids s"
proof -
  have o: "filter (\<lambda>r. k_id r \<notin> ids) (map (\<lambda>r. if k_id r = ci_id info then running_values env ctx addr info actual r else r) rs) =
      filter (\<lambda>r. k_id r \<notin> ids) rs" if "ci_id info \<in> ids" for actual rs
    using that by (induction rs) auto
  show "runs env i s \<Longrightarrow> runs env i (post_create_kernel env ctx addr info s)"
    using post_create_cases[of env ctx addr info s] running_started[OF assms] by (auto simp: runs_def)
  show "map k_id (db_kernels (post_create_kernel env ctx addr info s)) = map k_id (db_kernels s)"
    using post_create_cases[of env ctx addr info s] by (auto simp: comp_def)
  show "ci_id info \<in> ids \<Longrightarrow> others_of ids (post_create_kernel env ctx addr info s) = others_of ids s"
    using post_create_cases[of env ctx addr info s] o by (auto simp: others_of_def)
qed

lemma post_create_runs:
  assumes "reported env info" and "st_started env (ci_id info)"
    and "convert_resource_spec_to_resource_slot (ci_allocations info) = Inr actual"
  shows "runs env (ci_id info) (post_create_kernel env ctx addr info s)"
  using assms running_started[OF assms(1,3)] by (auto simp: runs_def post_create_kernel_def update_kernels_def)

lemma fold_post_create:
  "\<forall>info\<in>set infos. reported env info \<and> ci_id info \<in> ids \<Longrightarrow>
   (runs env i s \<longrightarrow> runs env i (fold (post_create_kernel env ctx addr) infos s)) \<and>
   map k_id (db_kernels (fold (post_create_kernel env ctx addr) infos s)) = map k_id (db_kernels s) \<and>
   others_of ids (fold (post_create_kernel env ctx addr) infos s) = others_of ids s"
proof (induction infos arbitrary: s)
  case (Cons info infos)
  then have "reported env info" "ci_id info \<in> ids" by simp_all
  note keeps = post_create_keeps[OF this(1)] and mem = this(2)
  from keeps(1)[of i s ctx addr] keeps(2)[of ctx addr s] keeps(3)[OF mem, of ctx addr s]
    Cons.IH[of "post_create_kernel env ctx addr info s"] Cons.prems
  show ?case by auto
qed simp

lemma fold_post_create_runs:
  assumes "\<forall>info\<in>set infos. reported env info" and "info \<in> set infos" and "st_started env (ci_id info)"
    and "convert_resource_spec_to_resource_slot (ci_allocations info) = Inr actual"
  shows "runs env (ci_id info) (fold (post_create_kernel env ctx addr) infos s)"
proof -
  obtain xs ys where x: "infos = xs @ info # ys" using split_list[OF assms(2)] by auto
  let ?t = "fold (post_create_kernel env ctx addr) xs s"
  have "runs env (ci_id info) (post_create_kernel env ctx addr info ?t)" using post_create_runs[OF _ assms(3,4)] assms(1,2) by blast
  moreover have "\<forall>info\<in>set ys. reported env info \<and> ci_id info \<in> UNIV" using assms(1) x by simp
  ultimately show ?thesis using fold_post_create[of ys env UNIV "ci_id info" "post_create_kernel env ctx addr info ?t"] x by simp
qed

lemma create_kernels_reports:
  assumes "create_kernels create reqs = Inr infos"
  shows "infos = concat (map (\<lambda>r. case r of Inl _ \<Rightarrow> [] | Inr x \<Rightarrow> [x]) (map (\<lambda>(kid, cfg). create kid cfg) reqs))"
  using assms by (auto simp: create_kernels_def Let_def split: list.splits if_splits)

lemma create_kernels_all:
  assumes "create_kernels create reqs = Inr infos" and "(kid, cfg) \<in> set reqs"
  shows "\<exists>info\<in>set infos. create kid cfg = Inr info"
proof -
  have "\<not> (\<exists>e. create kid cfg = Inl e)" using assms
    by (auto simp: create_kernels_def Let_def split: list.splits sum.splits prod.splits if_splits)
  then obtain info where i: "create kid cfg = Inr info" by (cases "create kid cfg") auto
  then have "info \<in> set infos" using create_kernels_reports[OF assms(1)] assms(2) by (force intro: bexI[of _ "(kid, cfg)"])
  with i show ?thesis by blast
qed

lemma create_in_agent_ok:
  assumes "create_kernels_in_one_agent env sess ii cl (ag, items) s = (Inr (), s1)"
  obtains configs infos where "mapE (\<lambda>b. kernel_config_of env sess ii (kab_kernel b)) items = Inr configs"
    and "create_kernels (st_create env ag cl) (zip (map bound_id items) configs) = Inr infos"
    and "s1 = fold (post_create_kernel env (kab_agent_alloc_ctx (hd items)) (ki_agent_addr (kab_kernel (hd items)))) infos s"
  using assms by (auto simp: create_kernels_in_one_agent_def Let_def bindE_def split: sum.splits)

text \<open>A successful call to one agent, for the kernels it is asked for and for all others.\<close>

lemma create_in_agent_spec:
  assumes ok: "create_kernels_in_one_agent env sess ii cl (ag, items) s = (Inr (), s1)" and rep: "agent_reports env"
    and ids: "bound_id ` set items \<subseteq> ids"
  shows "\<And>i. runs env i s \<Longrightarrow> runs env i s1" and "map k_id (db_kernels s1) = map k_id (db_kernels s)"
    and "others_of ids s1 = others_of ids s"
    and "\<And>b. b \<in> set items \<Longrightarrow> st_started env (bound_id b) \<Longrightarrow> runs env (bound_id b) s1"
proof -
  obtain configs infos where c: "mapE (\<lambda>b. kernel_config_of env sess ii (kab_kernel b)) items = Inr configs"
    "create_kernels (st_create env ag cl) (zip (map bound_id items) configs) = Inr infos"
    "s1 = fold (post_create_kernel env (kab_agent_alloc_ctx (hd items)) (ki_agent_addr (kab_kernel (hd items)))) infos s"
    by (rule create_in_agent_ok[OF ok])
  have inf: "reported env info \<and> ci_id info \<in> ids" if mem: "info \<in> set infos" for info
  proof -
    obtain kid cfg where k: "(kid, cfg) \<in> set (zip (map bound_id items) configs)" "st_create env ag cl kid cfg = Inr info"
      using create_kernels_infos[OF c(2) mem] by blast
    have "ci_id info = kid" using rep k(2) unfolding agent_reports_def by blast
    moreover have "kid \<in> ids" using set_zip_leftD[OF k(1)] ids by auto
    ultimately show ?thesis using k(2) by (auto simp: reported_def)
  qed
  then have all: "\<forall>info\<in>set infos. reported env info \<and> ci_id info \<in> ids" by blast
  note f = fold_post_create[OF all, folded c(3)]
  show "\<And>i. runs env i s \<Longrightarrow> runs env i s1" "map k_id (db_kernels s1) = map k_id (db_kernels s)" "others_of ids s1 = others_of ids s"
    using fold_post_create[OF all] unfolding c(3) by blast+
  fix b assume b: "b \<in> set items" "st_started env (bound_id b)"
  have len: "length configs = length (map bound_id items)" using c(1)[unfolded mapE_Inr_iff] by (simp add: list_all2_lengthD)
  have "bound_id b \<in> set (map bound_id items)" using b(1) by simp
  then obtain cfg where "(bound_id b, cfg) \<in> set (zip (map bound_id items) configs)" using len by (metis in_set_impl_in_set_zip1)
  from create_kernels_all[OF c(2) this] obtain info where i: "info \<in> set infos" "st_create env ag cl (bound_id b) cfg = Inr info" by auto
  obtain actual where a: "ci_id info = bound_id b" "convert_resource_spec_to_resource_slot (ci_allocations info) = Inr actual"
    using rep i(2) unfolding agent_reports_def by blast
  show "runs env (bound_id b) s1" using fold_post_create_runs[OF _ i(1) _ a(2)] inf b(2) unfolding c(3) a(1) by blast
qed

lemma create_on_agents_spec:
  assumes rep: "agent_reports env"
  shows "create_on_agents env sess ii cl gs s = ([], s1) \<Longrightarrow> \<forall>(ag, items)\<in>set gs. bound_id ` set items \<subseteq> ids \<Longrightarrow>
    (\<forall>i. runs env i s \<longrightarrow> runs env i s1) \<and> map k_id (db_kernels s1) = map k_id (db_kernels s) \<and> others_of ids s1 = others_of ids s \<and>
    (\<forall>b\<in>set (concat (map snd gs)). st_started env (bound_id b) \<longrightarrow> runs env (bound_id b) s1)"
proof (induction gs arbitrary: s)
  case (Cons g gs)
  obtain ag items where g: "g = (ag, items)" by (cases g)
  obtain t where t: "create_kernels_in_one_agent env sess ii cl (ag, items) s = (Inr (), t)" "create_on_agents env sess ii cl gs t = ([], s1)"
    using Cons.prems(1) g by (auto split: prod.splits sum.splits)
  have "bound_id ` set items \<subseteq> ids" using Cons.prems(2) g by simp
  note a = create_in_agent_spec[OF t(1) rep this]
  from Cons.IH[OF t(2)] Cons.prems(2) have r: "\<forall>i. runs env i t \<longrightarrow> runs env i s1" "map k_id (db_kernels s1) = map k_id (db_kernels t)"
    "others_of ids s1 = others_of ids t" "\<forall>b\<in>set (concat (map snd gs)). st_started env (bound_id b) \<longrightarrow> runs env (bound_id b) s1" by auto
  show ?case using a r g by (auto simp: Ball_def)
qed simp

lemma settle_kernels_kept: "settle_agent_alloc bs s = Inr s' \<Longrightarrow> db_kernels s' = db_kernels s"
proof -
  have one: "db_kernels s' = db_kernels s" if st: "settle_agent s g = Inr s'" for s s' g
  proof -
    obtain i bs where g: "g = (i, bs)" by (cases g)
    obtain A R allocs where f: "foldE settle_kernel ([], [], db_actual_allocs s) bs = Inr (A, R, allocs)"
      using st g by (auto simp: settle_agent_def bindE_eq_Inr_iff)
    obtain d A' R' where "rs_ne A R = (d, A', R')" by (cases "rs_ne A R")
    with st g f show ?thesis by (auto simp: settle_agent_def Let_def bindE_eq_Inr_iff split: if_splits option.splits)
  qed
  have "foldE settle_agent s gs = Inr s' \<Longrightarrow> db_kernels s' = db_kernels s" for gs
    by (induction gs arbitrary: s) (auto simp: bindE_eq_Inr_iff dest: one)
  then show "settle_agent_alloc bs s = Inr s' \<Longrightarrow> db_kernels s' = db_kernels s" by (simp add: settle_agent_alloc_def Let_def)
qed

text \<open>
  C20: When starting a session succeeds, the agents reported the kernels they were asked for and the
  started events of the kernels arrived, every kernel of the session is RUNNING with the container and
  the slots an agent reported for it, the rows of all other kernels are as before, no row is added
  or removed, and the session is announced as started.
\<close>
theorem start_session_running:
  assumes run: "registry_start_session env ct sess s = (Inr (), s')" and rep: "agent_reports env"
    and ev: "\<forall>ki\<in>set (ps_kernels sess). st_started env (ki_kernel_id ki)"
  shows "(\<forall>r\<in>set (db_kernels s'). k_id r \<in> ki_kernel_id ` set (ps_kernels sess) \<longrightarrow> started_row env r) \<and>
    filter (\<lambda>r. k_id r \<notin> ki_kernel_id ` set (ps_kernels sess)) (db_kernels s') =
      filter (\<lambda>r. k_id r \<notin> ki_kernel_id ` set (ps_kernels sess)) (db_kernels s) \<and>
    map k_id (db_kernels s') = map k_id (db_kernels s) \<and>
    last (db_events s') = SessionStartedEvent (ps_session_id sess) (ps_session_creation_id sess)"
proof -
  let ?bs = "map (binding_of sess) (ps_kernels sess)"
  let ?gs = "groupby bound_agent (sort_key bound_agent ?bs)"
  let ?ids = "ki_kernel_id ` set (ps_kernels sess)"
  obtain ii nw s1 s2 where ph: "create_on_agents env (with_environ sess) ii (cluster_info_of env sess nw) ?gs s = ([], s1)"
    "settle_agent_alloc ?bs s1 = Inr s2" and s': "s' = produce_event (SessionStartedEvent (ps_session_id sess) (ps_session_creation_id sess)) s2"
    by (rule start_phases[OF run])
  have "bound_id ` set ?bs = ?ids" by (auto simp: image_image)
  then have "\<forall>(i, items)\<in>set ?gs. bound_id ` set items \<subseteq> ?ids"
    using groupby_mem[of _ _ bound_agent "sort_key bound_agent ?bs"] by fastforce
  note c = create_on_agents_spec[OF rep ph(1) this]
  have "runs env (ki_kernel_id ki) s1" if mem: "ki \<in> set (ps_kernels sess)" for ki
  proof -
    have "binding_of sess ki \<in> set (concat (map snd ?gs))" using mem unfolding groupby_concat by simp
    moreover have "bound_id (binding_of sess ki) = ki_kernel_id ki" by simp
    ultimately show ?thesis using c ev mem by metis
  qed
  moreover have "db_kernels s' = db_kernels s1" using settle_kernels_kept[OF ph(2)] s' by (simp add: produce_event_def)
  ultimately show ?thesis using c s' by (auto simp: runs_def others_of_def produce_event_def)
qed

section \<open>Sessions of several images\<close>

definition img_name :: "start_env \<Rightarrow> image_ref \<Rightarrow> string option" where
  "img_name env ref = (case parsed_image env ref of Inr p \<Rightarrow> Some (pi_name p) | Inl _ \<Rightarrow> None)"

lemma ImageRef_error: "ImageRef is_ip known arch v = Inl e \<Longrightarrow> e = ValueError"
proof -
  have 1: "parse_image_tag s d = Inl e \<Longrightarrow> e = ValueError" for s d e
    by (auto simp: parse_image_tag_def split: prod.splits if_splits)
  have "foldE (\<lambda>d t. bindE (platform_tag t) (\<lambda>(k, v). if k \<in> set (keys d) then Inl ValueError else Inr (dset d k v))) d ts = Inl e \<Longrightarrow> e = ValueError" for d ts e
    by (induction ts arbitrary: d) (auto simp: bindE_eq_Inl_iff platform_tag_def Let_def split: if_splits)
  then have 2: "tag_set_of t = Inl e \<Longrightarrow> e = ValueError" for t e
    by (auto simp: tag_set_of_def PlatformTagSet_def Let_def bindE_eq_Inl_iff)
  have 3: "registry_and_name is_ip known v = Inl e \<Longrightarrow> e = ValueError" for e
    by (auto simp: registry_and_name_def bindE_eq_Inl_iff dest: 1 split: prod.splits option.splits if_splits)
  show "ImageRef is_ip known arch v = Inl e \<Longrightarrow> e = ValueError"
    by (auto simp: ImageRef_def bindE_eq_Inl_iff dest: 2 3 split: if_splits)
qed

lemma image_ref_lt_error: "image_ref_lt env a b = Inl e \<Longrightarrow> e = ValueError"
  by (auto simp: image_ref_lt_def parsed_image_def bindE_eq_Inl_iff ref_lt_def dest: ImageRef_error split: if_splits)

lemma image_ref_lt_name: "image_ref_lt env a b = Inr r \<Longrightarrow> img_name env a = img_name env b"
  by (auto simp: image_ref_lt_def img_name_def bindE_eq_Inr_iff ref_lt_def ref_eq_def split: if_splits)

lemma insertE_spec: "insertE lt x ys = Inr zs \<Longrightarrow> set zs = insert x (set ys) \<and> (ys \<noteq> [] \<longrightarrow> (\<exists>b. lt x (hd ys) = Inr b))"
  by (induction ys arbitrary: zs) (auto simp: bindE_eq_Inr_iff split: if_splits)

lemma insertE_error: "insertE lt x ys = Inl e \<Longrightarrow> \<exists>y. lt x y = Inl e"
  by (induction ys) (auto simp: bindE_eq_Inl_iff split: if_splits)

lemma sortE_names:
  assumes "foldE (\<lambda>ys x. insertE (image_ref_lt env) x ys) ys xs = Inr zs" and "\<forall>a\<in>set ys. \<forall>b\<in>set ys. img_name env a = img_name env b"
  shows "\<forall>a\<in>set (ys @ xs). \<forall>b\<in>set (ys @ xs). img_name env a = img_name env b"
  using assms
proof (induction xs arbitrary: ys)
  case (Cons x xs)
  obtain ys1 where y: "insertE (image_ref_lt env) x ys = Inr ys1" "foldE (\<lambda>ys x. insertE (image_ref_lt env) x ys) ys1 xs = Inr zs"
    using Cons.prems(1) by (auto simp: bindE_eq_Inr_iff)
  note sp = insertE_spec[OF y(1)]
  have "img_name env a = img_name env x" if a: "a \<in> set ys" for a
  proof -
    have "ys \<noteq> []" using a by auto
    with sp obtain b where "image_ref_lt env x (hd ys) = Inr b" by blast
    then have "img_name env x = img_name env (hd ys)" by (rule image_ref_lt_name)
    moreover have "img_name env a = img_name env (hd ys)" using Cons.prems(2) a \<open>ys \<noteq> []\<close> hd_in_set by blast
    ultimately show ?thesis by simp
  qed
  moreover have "set ys1 = insert x (set ys)" using sp by simp
  ultimately have all: "img_name env a = img_name env x" if "a \<in> set ys1" for a using that by (metis insertE)
  have "\<forall>a\<in>set ys1. \<forall>b\<in>set ys1. img_name env a = img_name env b" by (intro ballI) (simp add: all)
  moreover have sets: "set (ys @ x # xs) = set (ys1 @ xs)" using sp by (simp add: Un_insert_right)
  ultimately show ?case using Cons.IH[OF y(2)] unfolding sets by blast
next
  case Nil
  then show ?case unfolding append_Nil2 by blast
qed

lemma sortE_error: "foldE (\<lambda>ys x. insertE (image_ref_lt env) x ys) ys xs = Inl e \<Longrightarrow> e = ValueError"
  by (induction xs arbitrary: ys) (auto simp: bindE_eq_Inl_iff dest!: insertE_error dest: image_ref_lt_error)

text \<open>
  A session whose kernels have images of different names never starts: the bindings are sorted
  by their image references, and references of different names cannot be compared.  Nothing is created.
\<close>
theorem mixed_images_never_start:
  assumes "k1 \<in> set (ps_kernels sess)" and "k2 \<in> set (ps_kernels sess)" and "st_hook env (ps_session_id sess)"
    and "parsed_image env (ki_image_ref k1) = Inr p1" and "parsed_image env (ki_image_ref k2) = Inr p2" and "pi_name p1 \<noteq> pi_name p2"
  shows "registry_start_session env ct sess s = (Inl ValueError, s)"
proof -
  let ?refs = "map ki_image_ref (ps_kernels sess)"
  have "\<not> (\<exists>zs. sortE (image_ref_lt env) ?refs = Inr zs)"
  proof
    assume "\<exists>zs. sortE (image_ref_lt env) ?refs = Inr zs"
    then have "img_name env (ki_image_ref k1) = img_name env (ki_image_ref k2)"
      using sortE_names[of env "[]" ?refs] assms(1,2) by (auto simp: sortE_def)
    with assms(4-6) show False by (simp add: img_name_def)
  qed
  then obtain e where "sortE (image_ref_lt env) ?refs = Inl e" by (cases "sortE (image_ref_lt env) ?refs") auto
  moreover from this have "e = ValueError" by (auto simp: sortE_def dest: sortE_error)
  ultimately show ?thesis using assms(3) by (simp add: registry_start_session_def collect_images_def)
qed

section \<open>Examples\<close>

text \<open>An agent that grants one unit of \<open>cpu\<close> whatever was requested, a session of one kernel that requests two.\<close>

definition demo_created :: "string \<Rightarrow> created_info" where
  "demo_created i =
     \<lparr>ci_id = i, ci_kernel_host = None, ci_repl_in_port = 2000, ci_repl_out_port = 2001, ci_stdin_port = 0, ci_stdout_port = 0,
      ci_service_ports = None, ci_container_id = ''c'', ci_allocations = [(''cpu'', [(''cpu'', [(''0'', ''1'')])])], ci_attached_devices = None\<rparr>"

definition demo_start :: start_env where
  "demo_start =
     \<lparr>st_now = 5, st_hook = (\<lambda>_. True), st_is_ip = (\<lambda>_. False), st_ver_lt = (\<lambda>_ _. False), st_ver_ne = (\<lambda>_ _. False),
      st_network = (\<lambda>_ _. Inr ()), st_ssh_keypair = ([], []), st_auto_pull = None, st_connect = (\<lambda>_ _. Inr ()),
      st_create = (\<lambda>_ _ i _. Inr (demo_created i)), st_started = (\<lambda>_. True), st_url_host = (\<lambda>_. None)\<rparr>"

definition demo_catalog :: catalog where
  "demo_catalog =
     \<lparr>ct_images = [\<lparr>im_name = ''python'', im_registry = ''r'', im_architecture = ''x86_64'', im_config_digest = ''sha'', im_labels = [],
        im_resources = [(''cpu'', (Some ''1'', None))]\<rparr>],
      ct_image_aliases = [], ct_registries = [(''r'', [([], ''http://r'')])], ct_users = [], ct_keypairs = [demo_keypair],
      ct_domains = [\<lparr>d_name = ''d'', d_is_active = True, d_allowed_docker_registries = [''r''], d_allowed_vfolder_hosts = [], d_dotfiles = []\<rparr>],
      ct_groups = [\<lparr>g_id = ''g'', g_name = ''default'', g_domain_name = ''d'', g_is_active = True, g_allowed_vfolder_hosts = [], g_dotfiles = []\<rparr>], ct_agus = [],
      ct_sgroups_for_domains = [(''default'', ''d'')], ct_sgroups_for_groups = [], ct_sgroups_for_keypairs = []\<rparr>"

definition demo_prepared :: kernel_row where
  "demo_prepared = demo_kernel ''a'' ''a'' ''main'' PREPARING [(''cpu'', Fin 2)] (Some ''i'')"

definition demo_starting :: pending_session where
  "demo_starting = (demo_session ''a'' ''AK'' None)\<lparr>ps_kernels := [kernel_info_from_row demo_prepared], ps_resource_policy := ''default''\<rparr>"

definition demo_before :: db where
  "demo_before = demo_db [demo_prepared] [demo_agent ''i'' ALIVE [(''cpu'', Fin 8)] [(''cpu'', Fin 2)]]"

lemma demo_reports: "agent_reports demo_start"
proof -
  have "convert_resource_spec_to_resource_slot (ci_allocations (demo_created i)) = Inr [(''cpu'', Fin 1)]" for i
    unfolding demo_created_def created_info.simps by code_simp
  then show ?thesis by (simp add: agent_reports_def demo_start_def fin_slots_def) (simp add: demo_created_def)
qed

lemma demo_started: "map_prod id (\<lambda>s. (map (\<lambda>r. (k_id r, k_status r, k_occupied_slots r)) (db_kernels s), map a_occupied_slots (db_agents s)))
    (registry_start_session demo_start demo_catalog demo_starting demo_before) =
  (Inr (), ([(''a'', RUNNING, [(''cpu'', Fin 1)])], [[(''cpu'', Fin 1)]]))"
  by code_simp

theorem start_session_accounted_witness:
  "\<exists>s'. registry_start_session demo_start demo_catalog demo_starting demo_before = (Inr (), s') \<and> accounted s'"
proof -
  obtain s' where s': "registry_start_session demo_start demo_catalog demo_starting demo_before = (Inr (), s')"
    using demo_started by (cases "registry_start_session demo_start demo_catalog demo_starting demo_before") auto
  have "accounted s' \<and> base_inv s' \<and> map k_id (db_kernels s') = map k_id (db_kernels demo_before)"
  proof (rule start_session_accounted[OF _ _ _ _ demo_reports s'])
    show "base_inv demo_before" by code_simp
    show "accounted demo_before"
      by (simp add: accounted_def demo_before_def demo_db_def demo_prepared_def demo_kernel_def demo_agent_def used_by_def on_agent_def
          agent_occupying_def AGENT_RESOURCE_OCCUPYING_KERNEL_STATUSES_def all_kernel_statuses_def)
    show "good_allocs (db_actual_allocs demo_before)" by (simp add: good_allocs_def demo_before_def demo_db_def)
    show "ready_to_start demo_starting demo_before" by code_simp
  qed
  with s' show ?thesis by blast
qed

theorem start_session_running_witness:
  "\<exists>s'. registry_start_session demo_start demo_catalog demo_starting demo_before = (Inr (), s') \<and>
     (\<exists>r\<in>set (db_kernels s'). k_id r = ''a'' \<and> started_row demo_start r)"
proof -
  obtain s' where s': "registry_start_session demo_start demo_catalog demo_starting demo_before = (Inr (), s')"
    using demo_started by (cases "registry_start_session demo_start demo_catalog demo_starting demo_before") auto
  have "\<forall>ki\<in>set (ps_kernels demo_starting). st_started demo_start (ki_kernel_id ki)" by code_simp
  note r = start_session_running[OF s' demo_reports this]
  have "''a'' \<in> set (map k_id (db_kernels demo_before))" "''a'' \<in> ki_kernel_id ` set (ps_kernels demo_starting)" by code_simp+
  moreover have "map k_id (db_kernels s') = map k_id (db_kernels demo_before)" using r by blast
  ultimately obtain q where "q \<in> set (db_kernels s')" "k_id q = ''a''" by (metis imageE set_map)
  moreover have "started_row demo_start q"
    using r \<open>q \<in> set (db_kernels s')\<close> \<open>''a'' \<in> ki_kernel_id ` set (ps_kernels demo_starting)\<close>
    by (metis \<open>k_id q = ''a''\<close>)
  ultimately show ?thesis using s' by blast
qed

theorem mixed_images_never_start_witness:
  "registry_start_session demo_start demo_catalog
     (demo_starting\<lparr>ps_kernels := [kernel_info_from_row demo_prepared, kernel_info_from_row (demo_prepared\<lparr>k_id := ''b'', k_image := ''r/lua:5.3''\<rparr>)]\<rparr>) demo_before =
   (Inl ValueError, demo_before)"
proof (rule mixed_images_never_start)
  show "st_hook demo_start (ps_session_id (demo_starting\<lparr>ps_kernels := [kernel_info_from_row demo_prepared,
    kernel_info_from_row (demo_prepared\<lparr>k_id := ''b'', k_image := ''r/lua:5.3''\<rparr>)]\<rparr>))" by (simp add: demo_start_def)
  show "parsed_image demo_start (ki_image_ref (kernel_info_from_row demo_prepared)) =
    Inr \<lparr>pi_registry = ''index.docker.io'', pi_name = ''lablup/python'', pi_tag = ''latest'', pi_arch = ''x86_64'', pi_tag_set = (''latest'', [])\<rparr>" by code_simp
  show "parsed_image demo_start (ki_image_ref (kernel_info_from_row (demo_prepared\<lparr>k_id := ''b'', k_image := ''r/lua:5.3''\<rparr>))) =
    Inr \<lparr>pi_registry = ''r'', pi_name = ''lua'', pi_tag = ''5.3'', pi_arch = ''x86_64'', pi_tag_set = (''5.3'', [])\<rparr>" by code_simp
qed simp_all

text \<open>
  The settlement is not safe against a recalculation in between: when the occupied slots of the
  agent are recalculated (another kernel on it ended) after the kernel row got its actual slots and
  before the settlement, the difference is applied twice.
\<close>
theorem settlement_counted_twice:
  "let b = binding_of demo_starting (kernel_info_from_row demo_prepared);
       s1 = post_create_kernel demo_start (kab_agent_alloc_ctx b) None (demo_created ''a'') demo_before
   in map_sum id (\<lambda>s. map a_occupied_slots (db_agents s)) (settle_agent_alloc [b] s1) = Inr [[(''cpu'', Fin 1)]] \<and>
      map_sum id (\<lambda>s. map a_occupied_slots (db_agents s)) (bindE (recalc_agent_resource_occupancy ''i'' s1) (settle_agent_alloc [b])) =
        Inr [[(''cpu'', Fin 0)]]"
  by code_simp

end
