(* ===== verification/VFolders.thy ===== *)
theory VFolders
  imports Images
begin

text \<open>
  Virtual folders (\<open>manager/models/vfolder.py\<close>, \<open>manager/models/dotfile.py\<close>): which folders a user may
  use, on which hosts, and how the folders requested for a session become mounts; the question the
  manager puts to the storage proxy for the place of a folder (\<open>manager/models/storage.py\<close>,
  \<open>storage/api/manager.py\<close>) and the check of the path there (\<open>storage/abc.py\<close>, \<open>storage/vfs\<close>).  The
  file system of the proxy is an argument: what a path resolves to and which directories exist.
\<close>

section \<open>Tables\<close>

datatype vfolder_ownership = OwnedByUser | OwnedByGroup

datatype vfolder_usage_mode = GENERAL | MODEL | DATA

datatype operation_status = FolderReady | FolderPerforming | FolderCloning | FolderDeleting | FolderMounted

datatype invitation_state = InvitationPending | InvitationCanceled | InvitationAccepted | InvitationRejected

record vfolder_row =
  vf_id :: string
  vf_host :: string
  vf_name :: string
  vf_permission :: vfolder_permission
  vf_ownership_type :: vfolder_ownership
  vf_user :: "string option"
  vf_group :: "string option"
  vf_usage_mode :: vfolder_usage_mode
  vf_max_size :: "int option"
  vf_creator :: string
  vf_unmanaged_path :: string
  vf_cloneable :: bool
  vf_status :: operation_status

record invitation_row =
  iv_id :: string
  iv_permission :: vfolder_permission
  iv_inviter :: string
  iv_invitee :: string
  iv_state :: invitation_state
  iv_vfolder :: string

text \<open>The tables of folders, of permissions (of which user on which folder) and of invitations, and the types of folders that are configured.\<close>

record folder_tables =
  ft_vfolders :: "vfolder_row list"
  ft_permissions :: "(vfolder_permission \<times> string \<times> string) list"
  ft_invitations :: "invitation_row list"
  ft_types :: "string list"

record vfolder_entry =
  ve_row :: vfolder_row
  ve_user_email :: "string option"
  ve_group_name :: "string option"
  ve_is_owner :: bool
  ve_permission :: vfolder_permission

text \<open>The check constraints of the table: a folder belongs to a user or to a group, as its type says.\<close>

definition folder_ok :: "vfolder_row \<Rightarrow> bool" where
  "folder_ok v \<longleftrightarrow>
     (vf_ownership_type v = OwnedByUser \<longrightarrow> vf_user v \<noteq> None) \<and> (vf_ownership_type v = OwnedByGroup \<longrightarrow> vf_group v \<noteq> None) \<and>
     (vf_user v = None) \<noteq> (vf_group v = None)"

section \<open>Accessible folders\<close>

definition owned_entries :: "catalog \<Rightarrow> folder_tables \<Rightarrow> string \<Rightarrow> (vfolder_row \<Rightarrow> bool) \<Rightarrow> vfolder_entry list" where
  "owned_entries ct ft user_uuid cond =
     [\<lparr>ve_row = v, ve_user_email = Some (u_email u), ve_group_name = None, ve_is_owner = True, ve_permission = vf_permission v\<rparr>.
        v \<leftarrow> ft_vfolders ft, u \<leftarrow> ct_users ct, vf_user v = Some (u_uuid u) \<and> vf_user v = Some user_uuid \<and> cond v]"

definition email_of :: "catalog \<Rightarrow> string option \<Rightarrow> string option" where
  "email_of ct user = Option.bind user (\<lambda>i. map_option u_email (List.find (\<lambda>u. u_uuid u = i) (ct_users ct)))"

definition shared_entries :: "catalog \<Rightarrow> folder_tables \<Rightarrow> string \<Rightarrow> (vfolder_row \<Rightarrow> bool) \<Rightarrow> vfolder_entry list" where
  "shared_entries ct ft user_uuid cond =
     [\<lparr>ve_row = v, ve_user_email = email_of ct (vf_user v), ve_group_name = None, ve_is_owner = False, ve_permission = p\<rparr>.
        v \<leftarrow> ft_vfolders ft, (p, i, u) \<leftarrow> ft_permissions ft, i = vf_id v \<and> u = user_uuid \<and> vf_ownership_type v = OwnedByUser \<and> cond v]"

definition user_groups :: "catalog \<Rightarrow> string \<Rightarrow> user_role option \<Rightarrow> string option \<Rightarrow> string list" where
  "user_groups ct user_uuid role domain_name =
     (if role = Some ADMIN then [g_id g. g \<leftarrow> ct_groups ct, Some (g_domain_name g) = domain_name]
      else [g. (u, g) \<leftarrow> ct_agus ct, u = user_uuid \<and> u \<in> set (map u_uuid (ct_users ct))])"

definition group_entries :: "catalog \<Rightarrow> folder_tables \<Rightarrow> string \<Rightarrow> user_role option \<Rightarrow> string option \<Rightarrow> (vfolder_row \<Rightarrow> bool) \<Rightarrow> vfolder_entry list" where
  "group_entries ct ft user_uuid role domain_name cond =
     (let group_ids = user_groups ct user_uuid role domain_name
      in [\<lparr>ve_row = v, ve_user_email = None, ve_group_name = Some (g_name g), ve_is_owner = (role \<in> {Some ADMIN, Some SUPERADMIN}),
            ve_permission = vf_permission v\<rparr>.
           v \<leftarrow> ft_vfolders ft, g \<leftarrow> ct_groups ct,
           vf_group v = Some (g_id g) \<and> (role = Some SUPERADMIN \<or> g_id g \<in> set group_ids) \<and> cond v])"

text \<open>A permission given to the user replaces that of a group's folder; the last row of a folder counts.\<close>

definition overriding_permissions :: "folder_tables \<Rightarrow> string \<Rightarrow> string list \<Rightarrow> (vfolder_row \<Rightarrow> bool) \<Rightarrow> (string, vfolder_permission) dict" where
  "overriding_permissions ft user_uuid group_ids cond =
     dict_merge [] [(vf_id v, p). v \<leftarrow> ft_vfolders ft, (p, i, u) \<leftarrow> ft_permissions ft,
       i = vf_id v \<and> u = user_uuid \<and> (\<exists>g\<in>set group_ids. vf_group v = Some g) \<and> cond v]"

definition override :: "(string, vfolder_permission) dict \<Rightarrow> vfolder_entry \<Rightarrow> vfolder_entry" where
  "override perms e =
     (case map_of perms (vf_id (ve_row e)) of
        Some p \<Rightarrow> if vf_ownership_type (ve_row e) = OwnedByGroup then e\<lparr>ve_permission := p\<rparr> else e
      | None \<Rightarrow> e)"

definition query_accessible_vfolders :: "catalog \<Rightarrow> folder_tables \<Rightarrow> string \<Rightarrow> user_role option \<Rightarrow> string option \<Rightarrow> string list option \<Rightarrow>
    (vfolder_row \<Rightarrow> bool) \<Rightarrow> vfolder_entry list" where
  "query_accessible_vfolders ct ft user_uuid role domain_name allowed_vfolder_types cond =
     (let types = (case allowed_vfolder_types of None \<Rightarrow> [''user''] | Some ts \<Rightarrow> ts);
          mine = (if ''user'' \<in> set types then owned_entries ct ft user_uuid cond @ shared_entries ct ft user_uuid cond else [])
      in if ''group'' \<in> set types then
           map (override (overriding_permissions ft user_uuid (user_groups ct user_uuid role domain_name) cond))
             (mine @ group_entries ct ft user_uuid role domain_name cond)
         else mine)"

section \<open>Allowed hosts\<close>

definition domain_hosts :: "catalog \<Rightarrow> string \<Rightarrow> string list" where
  "domain_hosts ct domain_name =
     (case List.find (\<lambda>d. d_name d = domain_name \<and> d_is_active d) (ct_domains ct) of None \<Rightarrow> [] | Some d \<Rightarrow> d_allowed_vfolder_hosts d)"

definition get_allowed_vfolder_hosts_by_group :: "catalog \<Rightarrow> policy_row \<Rightarrow> string \<Rightarrow> string option \<Rightarrow> bool \<Rightarrow> string set" where
  "get_allowed_vfolder_hosts_by_group ct policy domain_name group_id domain_admin =
     set (domain_hosts ct domain_name) \<union>
     set (case group_id of
            Some i \<Rightarrow> (case List.find (\<lambda>g. g_domain_name g = domain_name \<and> g_id g = i \<and> g_is_active g) (ct_groups ct) of
                       None \<Rightarrow> [] | Some g \<Rightarrow> g_allowed_vfolder_hosts g)
          | None \<Rightarrow> if domain_admin then concat [g_allowed_vfolder_hosts g. g \<leftarrow> ct_groups ct, g_domain_name g = domain_name \<and> g_is_active g] else []) \<union>
     set (p_allowed_vfolder_hosts policy)"

text \<open>The query over the user's groups names the domain but does not join it with the groups.\<close>

definition get_allowed_vfolder_hosts_by_user :: "catalog \<Rightarrow> policy_row \<Rightarrow> string \<Rightarrow> string \<Rightarrow> string option \<Rightarrow> string set" where
  "get_allowed_vfolder_hosts_by_user ct policy domain_name user_uuid group_id =
     set (domain_hosts ct domain_name) \<union>
     set (concat [g_allowed_vfolder_hosts g. g \<leftarrow> ct_groups ct, (u, i) \<leftarrow> ct_agus ct, d \<leftarrow> ct_domains ct,
       g_id g = i \<and> u = user_uuid \<and> (group_id = None \<or> group_id = Some (g_id g)) \<and> d_name d = domain_name \<and> g_is_active g]) \<union>
     set (p_allowed_vfolder_hosts policy)"

section \<open>The storage proxy\<close>

record storage =
  sv_proxies :: "string list"
  sv_volumes :: "(string, ppath) dict"
  sv_resolve :: "ppath \<Rightarrow> ppath"
  sv_is_dir :: "ppath \<Rightarrow> bool"
  sv_mkdir :: "ppath \<Rightarrow> bool"

definition hex_of :: "string \<Rightarrow> string" where
  "hex_of i = filter (\<lambda>c. c \<noteq> CHR ''-'') i"

definition mangle_vfpath :: "ppath \<Rightarrow> string \<Rightarrow> ppath" where
  "mangle_vfpath mount_path vfid =
     (let h = hex_of vfid in foldl (\<lambda>p t. path_join p (parse_path t)) mount_path [take 2 h, take 2 (drop 2 h), drop 4 h])"

definition sanitize_vfpath :: "storage \<Rightarrow> ppath \<Rightarrow> string \<Rightarrow> ppath \<Rightarrow> ppath res" where
  "sanitize_vfpath sv mount_path vfid relpath =
     (let vfpath = sv_resolve sv (mangle_vfpath mount_path vfid); target_path = sv_resolve sv (path_join vfpath relpath)
      in if \<not> sv_is_dir sv vfpath then Inl VFolderNotFound
         else if \<not> is_relative_to target_path vfpath then Inl InvalidArgument
         else Inr target_path)"

definition get_vfolder_mount :: "storage \<Rightarrow> ppath \<Rightarrow> string \<Rightarrow> string \<Rightarrow> ppath res" where
  "get_vfolder_mount sv mount_path vfid subpath =
     bindE (sanitize_vfpath sv mount_path vfid (parse_path subpath)) (\<lambda>_. Inr (sv_resolve sv (mangle_vfpath mount_path vfid)))"

text \<open>Every error of the proxy comes back as \<open>VFolderOperationFailed\<close>, which is turned into \<open>InvalidAPIParameters\<close>.\<close>

definition split_host :: "string \<Rightarrow> string \<times> string" where
  "split_host h = (case split_first CHR '':'' h of (p, None) \<Rightarrow> (p, []) | (p, Some v) \<Rightarrow> (p, v))"

definition proxy_volume :: "storage \<Rightarrow> string \<Rightarrow> ppath res" where
  "proxy_volume sv host =
     (if fst (split_host host) \<notin> set (sv_proxies sv) then Inl InvalidArgument
      else case map_of (sv_volumes sv) (snd (split_host host)) of None \<Rightarrow> Inl InvalidAPIParameters | Some m \<Rightarrow> Inr m)"

definition get_mount_path :: "storage \<Rightarrow> string \<Rightarrow> string \<Rightarrow> ppath \<Rightarrow> ppath res" where
  "get_mount_path sv host vfid subpath =
     (case proxy_volume sv host of
        Inl e \<Rightarrow> Inl e
      | Inr m \<Rightarrow> (case get_vfolder_mount sv m vfid (path_str subpath) of Inl _ \<Rightarrow> Inl InvalidAPIParameters | Inr p \<Rightarrow> Inr p))"

definition mkdir :: "storage \<Rightarrow> string \<Rightarrow> string \<Rightarrow> string \<Rightarrow> unit res" where
  "mkdir sv host vfid relpath =
     (case proxy_volume sv host of
        Inl e \<Rightarrow> Inl e
      | Inr m \<Rightarrow> (case sanitize_vfpath sv m vfid (parse_path relpath) of
                   Inl _ \<Rightarrow> Inl InvalidAPIParameters
                 | Inr t \<Rightarrow> if sv_mkdir sv t then Inr () else Inl InvalidAPIParameters))"

section \<open>Mounts\<close>

text \<open>The folder and the subpath of a requested mount.\<close>

definition check_subpath :: "string \<Rightarrow> (string \<times> string \<times> string) res" where
  "check_subpath key =
     (case split_first CHR ''/'' key of (name, sub) \<Rightarrow>
        if \<not> is_relative_to (parse_path (normpath key)) (parse_path name) then Inl InvalidAPIParameters
        else Inr (key, name, normpath (case sub of None \<Rightarrow> [] | Some t \<Rightarrow> t)))"

definition overlapping :: "string list \<Rightarrow> bool" where
  "overlapping ps \<longleftrightarrow> list_ex (\<lambda>p1. list_ex (\<lambda>p2. p1 \<noteq> p2 \<and> is_relative_to (parse_path p1) (parse_path p2)) ps) ps"

definition add_automount :: "(string, string \<times> string) dict \<Rightarrow> vfolder_entry \<Rightarrow> (string, string \<times> string) dict" where
  "add_automount requests e =
     (let nm = vf_name (ve_row e)
      in if take 1 nm = ''.'' \<and> map_of requests nm = None then requests @ [(nm, (nm, ''.''))] else requests)"

definition kernel_path_of :: "(string, string) dict \<Rightarrow> string \<Rightarrow> string \<Rightarrow> ppath" where
  "kernel_path_of mount_map key name =
     (case map_of mount_map key of
        None \<Rightarrow> parse_path (''/home/work/'' @ name)
      | Some raw \<Rightarrow> if is_absolute (parse_path raw) then parse_path raw else path_join (parse_path ''/home/work'') (parse_path raw))"

definition mount_at :: "user_scope \<Rightarrow> (string, string) dict \<Rightarrow> string \<Rightarrow> string \<Rightarrow> vfolder_entry \<Rightarrow> ppath \<Rightarrow> vfolder_mount" where
  "mount_at scope mount_map key subpath e base =
     (let v = ve_row e
      in if vf_name v = ''.local'' \<and> vf_group v \<noteq> None then
           \<lparr>vm_name = vf_name v, vm_vfid = vf_id v, vm_vfsubpath = parse_path (hex_of (us_user_uuid scope)),
            vm_host_path = path_join base (parse_path (hex_of (us_user_uuid scope))),
            vm_kernel_path = parse_path ''/home/work/.local'', vm_mount_perm = ve_permission e\<rparr>
         else
           \<lparr>vm_name = vf_name v, vm_vfid = vf_id v, vm_vfsubpath = parse_path subpath, vm_host_path = path_join base (parse_path subpath),
            vm_kernel_path = kernel_path_of mount_map key (vf_name v), vm_mount_perm = ve_permission e\<rparr>)"

definition mount_of :: "storage \<Rightarrow> user_scope \<Rightarrow> (string, string) dict \<Rightarrow> (string, vfolder_entry) dict \<Rightarrow> string \<times> string \<times> string \<Rightarrow> vfolder_mount option res" where
  "mount_of sv scope mount_map accessible rq =
     (case rq of (key, vfolder_name, subpath) \<Rightarrow>
        (case map_of accessible vfolder_name of
           None \<Rightarrow> Inl VFolderNotFound
         | Some e \<Rightarrow>
             if vf_group (ve_row e) \<noteq> None \<and> vf_group (ve_row e) \<noteq> Some (us_group_id scope) then Inr None
             else (case get_mount_path sv (vf_host (ve_row e)) (vf_id (ve_row e)) (parse_path subpath) of
                     Inl err \<Rightarrow> Inl err
                   | Inr base \<Rightarrow>
                       (case if vf_name (ve_row e) = ''.local'' \<and> vf_group (ve_row e) \<noteq> None
                             then mkdir sv (vf_host (ve_row e)) (vf_id (ve_row e)) (hex_of (us_user_uuid scope)) else Inr () of
                          Inl err \<Rightarrow> Inl err
                        | Inr _ \<Rightarrow> Inr (Some (mount_at scope mount_map key subpath e base))))))"

definition conflicting_targets :: "vfolder_mount list \<Rightarrow> bool" where
  "conflicting_targets ms \<longleftrightarrow> list_ex (\<lambda>a. list_ex (\<lambda>b. vm_name a \<noteq> vm_name b \<and> is_relative_to (vm_kernel_path a) (vm_kernel_path b)) ms) ms"

definition prepare_vfolder_mounts :: "catalog \<Rightarrow> folder_tables \<Rightarrow> storage \<Rightarrow> user_scope \<Rightarrow> string list \<Rightarrow> (string, string) dict \<Rightarrow> vfolder_mount list res" where
  "prepare_vfolder_mounts ct ft sv scope requested_mounts requested_mount_map =
     bindE (mapE check_subpath requested_mounts) (\<lambda>checked.
       if overlapping requested_mounts then Inl InvalidAPIParameters
       else
         let requests = dict_merge [] checked;
             accessible = query_accessible_vfolders ct ft (us_user_uuid scope) (Some (us_user_role scope)) (Some (us_domain_name scope)) (Some (ft_types ft))
               (\<lambda>v. vf_name v \<in> fst ` snd ` set requests \<or> take 1 (vf_name v) = ''.'')
         in if accessible = [] then (if requests \<noteq> [] then Inl VFolderNotFound else Inr [])
            else bindE (mapE (mount_of sv scope requested_mount_map (dict_merge [] (map (\<lambda>e. (vf_name (ve_row e), e)) accessible)))
                     (foldl add_automount requests accessible)) (\<lambda>found.
              let mounts = [m. Some m \<leftarrow> found]
              in if conflicting_targets mounts then Inl InvalidAPIParameters else Inr mounts))"

section \<open>Dotfiles\<close>

definition add_dotfile :: "dotfile list \<Rightarrow> dotfile \<Rightarrow> dotfile list" where
  "add_dotfile ds d = (if df_path d \<in> set (map df_path ds) then ds else ds @ [d])"

definition dotfile_target :: "dotfile \<Rightarrow> ppath" where
  "dotfile_target d =
     (if is_absolute (parse_path (df_path d)) then parse_path (df_path d) else path_join (parse_path ''/home/work'') (parse_path (df_path d)))"

definition collect_dotfiles :: "catalog \<Rightarrow> user_scope \<Rightarrow> keypair_row \<Rightarrow> dotfile list" where
  "collect_dotfiles ct scope kp =
     (let of_group = (case List.find (\<lambda>g. g_id g = us_group_id scope) (ct_groups ct) of None \<Rightarrow> [] | Some g \<Rightarrow> g_dotfiles g);
          of_domain = (case List.find (\<lambda>d. d_name d = us_domain_name scope) (ct_domains ct) of None \<Rightarrow> [] | Some d \<Rightarrow> d_dotfiles d)
      in rev (foldl add_dotfile (kp_dotfiles kp) (of_group @ of_domain)))"

definition dotfile_json :: "dotfile \<Rightarrow> json" where
  "dotfile_json d = JObj [(''path'', JStr (df_path d)), (''perm'', JStr (df_perm d)), (''data'', JStr (df_data d))]"

definition prepare_dotfiles :: "catalog \<Rightarrow> user_scope \<Rightarrow> string \<Rightarrow> vfolder_mount list \<Rightarrow> (string, json) dict res" where
  "prepare_dotfiles ct scope access_key mounts =
     (case List.find (\<lambda>k. kp_access_key k = access_key) (ct_keypairs ct) of
        None \<Rightarrow> Inl TypeError
      | Some kp \<Rightarrow>
          let dotfiles = collect_dotfiles ct scope kp;
              ssh = (case (kp_ssh_public_key kp, kp_ssh_private_key kp) of
                       (Some (a # as), Some (b # bs)) \<Rightarrow> [(''ssh_keypair'', JObj [(''public_key'', JStr (a # as)), (''private_key'', JStr (b # bs))])]
                     | _ \<Rightarrow> [])
          in if list_ex (\<lambda>d. dotfile_target d \<in> set (map vm_kernel_path mounts)) dotfiles then Inl BackendError
             else Inr ((''dotfiles'', JArr (map dotfile_json dotfiles)) # ssh))"

section \<open>Mounts stay inside their folders\<close>

lemma sanitizeD:
  assumes "sanitize_vfpath sv m vfid rel = Inr t"
  shows "t = sv_resolve sv (path_join (sv_resolve sv (mangle_vfpath m vfid)) rel) \<and> is_relative_to t (sv_resolve sv (mangle_vfpath m vfid))"
  using assms by (auto simp: sanitize_vfpath_def Let_def split: if_splits)

lemma proxy_volumeD: "proxy_volume sv host = Inr m \<Longrightarrow> map_of (sv_volumes sv) (snd (split_host host)) = Some m"
  by (auto simp: proxy_volume_def split: if_splits option.splits)

lemma get_mount_pathD:
  assumes "get_mount_path sv host vfid p = Inr base" and "wf_path p"
  shows "\<exists>m. map_of (sv_volumes sv) (snd (split_host host)) = Some m \<and> base = sv_resolve sv (mangle_vfpath m vfid) \<and>
    is_relative_to (sv_resolve sv (path_join base p)) base"
  using assms(1) path_str_roundtrip[OF assms(2)]
  by (auto simp: get_mount_path_def get_vfolder_mount_def bindE_eq_Inr_iff split: sum.splits dest!: proxy_volumeD sanitizeD)

lemma mkdirD:
  assumes "mkdir sv host vfid rel = Inr u" and "map_of (sv_volumes sv) (snd (split_host host)) = Some m"
  shows "is_relative_to (sv_resolve sv (path_join (sv_resolve sv (mangle_vfpath m vfid)) (parse_path rel))) (sv_resolve sv (mangle_vfpath m vfid))"
  using assms by (auto simp: mkdir_def split: sum.splits dest!: proxy_volumeD sanitizeD)

lemma mount_ofD:
  assumes "mount_of sv scope mm acc rq = Inr (Some vm)"
  obtains e where "map_of acc (fst (snd rq)) = Some e" "vm_vfid vm = vf_id (ve_row e)" "vm_name vm = vf_name (ve_row e)"
    "vm_mount_perm vm = ve_permission e" "vf_group (ve_row e) = None \<or> vf_group (ve_row e) = Some (us_group_id scope)"
    "\<exists>m. map_of (sv_volumes sv) (snd (split_host (vf_host (ve_row e)))) = Some m \<and>
       is_relative_to (sv_resolve sv (vm_host_path vm)) (sv_resolve sv (mangle_vfpath m (vf_id (ve_row e))))"
proof -
  obtain key nm sub where rq: "rq = (key, nm, sub)" by (cases rq)
  obtain e base where e: "map_of acc nm = Some e" and g: "vf_group (ve_row e) = None \<or> vf_group (ve_row e) = Some (us_group_id scope)"
    and b: "get_mount_path sv (vf_host (ve_row e)) (vf_id (ve_row e)) (parse_path sub) = Inr base" and vm: "vm = mount_at scope mm key sub e base"
    and mk: "vf_name (ve_row e) = ''.local'' \<and> vf_group (ve_row e) \<noteq> None \<longrightarrow> mkdir sv (vf_host (ve_row e)) (vf_id (ve_row e)) (hex_of (us_user_uuid scope)) = Inr ()"
    using assms unfolding mount_of_def rq by (auto split: option.splits if_splits sum.splits)
  obtain m where m: "map_of (sv_volumes sv) (snd (split_host (vf_host (ve_row e)))) = Some m" "base = sv_resolve sv (mangle_vfpath m (vf_id (ve_row e)))"
    "is_relative_to (sv_resolve sv (path_join base (parse_path sub))) base"
    using get_mount_pathD[OF b parse_path_wf] by blast
  have "is_relative_to (sv_resolve sv (vm_host_path vm)) base" using m mk mkdirD[OF _ m(1)] by (auto simp: vm mount_at_def Let_def)
  moreover have "vm_vfid vm = vf_id (ve_row e)" "vm_name vm = vf_name (ve_row e)" "vm_mount_perm vm = ve_permission e" by (simp_all add: vm mount_at_def Let_def)
  moreover have "map_of acc (fst (snd rq)) = Some e" by (simp add: e rq)
  ultimately show ?thesis using that g m(1,2) by blast
qed

definition may_use :: "catalog \<Rightarrow> folder_tables \<Rightarrow> user_scope \<Rightarrow> vfolder_row \<Rightarrow> vfolder_permission \<Rightarrow> bool" where
  "may_use ct ft scope v p \<longleftrightarrow>
     (let me = us_user_uuid scope; given = (p, vf_id v, me) \<in> set (ft_permissions ft)
      in vf_user v = Some me \<and> (p = vf_permission v \<or> given) \<or> vf_ownership_type v = OwnedByUser \<and> given \<or>
         (\<exists>g\<in>set (ct_groups ct). vf_group v = Some (g_id g) \<and> (p = vf_permission v \<or> given) \<and>
            (us_user_role scope = SUPERADMIN \<or> us_user_role scope = ADMIN \<and> g_domain_name g = us_domain_name scope \<or> (me, g_id g) \<in> set (ct_agus ct))))"

lemma dict_merge_in: "map_of (dict_merge a ps) k = Some v \<Longrightarrow> (k, v) \<in> set ps \<or> map_of a k = Some v"
proof (induction ps arbitrary: a)
  case (Cons p ps)
  then show ?case by (cases p) (auto simp: dict_merge_def update_conv split: if_splits dest!: Cons.IH[unfolded dict_merge_def])
qed (simp add: dict_merge_def)

lemma dict_merge_Nil_in: "map_of (dict_merge [] ps) k = Some v \<Longrightarrow> (k, v) \<in> set ps"
  using dict_merge_in[of "[]"] by fastforce

lemma override_perm:
  assumes "ve_permission (override (overriding_permissions ft uuid gs cond) e) = p"
  shows "ve_row (override (overriding_permissions ft uuid gs cond) e) = ve_row e \<and> (p = ve_permission e \<or> (p, vf_id (ve_row e), uuid) \<in> set (ft_permissions ft))"
  using assms by (auto simp: override_def overriding_permissions_def split: option.splits if_splits dest!: dict_merge_Nil_in)

lemma accessible_may_use:
  assumes "e \<in> set (query_accessible_vfolders ct ft (us_user_uuid scope) (Some (us_user_role scope)) (Some (us_domain_name scope)) types cond)"
  shows "ve_row e \<in> set (ft_vfolders ft) \<and> cond (ve_row e) \<and> may_use ct ft scope (ve_row e) (ve_permission e)"
proof -
  let ?me = "us_user_uuid scope" and ?role = "Some (us_user_role scope)" and ?dom = "Some (us_domain_name scope)"
  let ?es = "owned_entries ct ft ?me cond @ shared_entries ct ft ?me cond @ group_entries ct ft ?me ?role ?dom cond"
  have base: "ve_row x \<in> set (ft_vfolders ft) \<and> cond (ve_row x) \<and> may_use ct ft scope (ve_row x) p"
    if x: "x \<in> set ?es" and p: "p = ve_permission x \<or> (p, vf_id (ve_row x), ?me) \<in> set (ft_permissions ft)" for x p
  proof -
    from x consider "x \<in> set (owned_entries ct ft ?me cond)" | "x \<in> set (shared_entries ct ft ?me cond)" | "x \<in> set (group_entries ct ft ?me ?role ?dom cond)"
      by auto
    then show ?thesis
    proof cases
      case 1
      then have "ve_row x \<in> set (ft_vfolders ft)" "cond (ve_row x)" "vf_user (ve_row x) = Some ?me" "ve_permission x = vf_permission (ve_row x)"
        by (auto simp: owned_entries_def)
      with p show ?thesis by (auto simp: may_use_def)
    next
      case 2
      then have "ve_row x \<in> set (ft_vfolders ft)" "cond (ve_row x)" "vf_ownership_type (ve_row x) = OwnedByUser"
        "(ve_permission x, vf_id (ve_row x), ?me) \<in> set (ft_permissions ft)" by (auto simp: shared_entries_def)
      with p show ?thesis by (auto simp: may_use_def)
    next
      case 3
      then obtain g where "ve_row x \<in> set (ft_vfolders ft)" "cond (ve_row x)" "g \<in> set (ct_groups ct)" "vf_group (ve_row x) = Some (g_id g)"
        "ve_permission x = vf_permission (ve_row x)"
        "us_user_role scope = SUPERADMIN \<or> g_id g \<in> set (user_groups ct ?me ?role ?dom)" by (auto simp: group_entries_def Let_def)
      moreover from this obtain g' where "g' \<in> set (ct_groups ct)" "g_id g' = g_id g"
        "us_user_role scope = SUPERADMIN \<or> us_user_role scope = ADMIN \<and> g_domain_name g' = us_domain_name scope \<or> (?me, g_id g') \<in> set (ct_agus ct)"
        by (auto simp: user_groups_def split: if_splits)
      ultimately show ?thesis using p unfolding may_use_def Let_def by metis
    qed
  qed
  show ?thesis
  proof (cases "e \<in> set ?es")
    case True
    with base[of e "ve_permission e"] show ?thesis by simp
  next
    case False
    then obtain x gs where "x \<in> set ?es" "e = override (overriding_permissions ft ?me gs cond) x"
      using assms by (auto simp: query_accessible_vfolders_def Let_def split: if_splits)
    with override_perm[of ft ?me gs cond x "ve_permission e"] base[of x "ve_permission e"] show ?thesis by auto
  qed
qed

lemma prepared_mount:
  assumes "prepare_vfolder_mounts ct ft sv scope reqs mm = Inr ms" and "vm \<in> set ms"
  obtains rq acc where "mount_of sv scope mm acc rq = Inr (Some vm)"
    "\<forall>nm e. map_of acc nm = Some e \<longrightarrow> ve_row e \<in> set (ft_vfolders ft) \<and> may_use ct ft scope (ve_row e) (ve_permission e)"
proof -
  from assms(1) obtain checked where "mapE check_subpath reqs = Inr checked"
    by (auto simp: prepare_vfolder_mounts_def bindE_eq_Inr_iff)
  define requests where "requests = dict_merge [] checked"
  define accessible where "accessible = query_accessible_vfolders ct ft (us_user_uuid scope) (Some (us_user_role scope)) (Some (us_domain_name scope)) (Some (ft_types ft))
     (\<lambda>v. vf_name v \<in> fst ` snd ` set requests \<or> take 1 (vf_name v) = ''.'')"
  define acc where "acc = dict_merge [] (map (\<lambda>e. (vf_name (ve_row e), e)) accessible)"
  from assms obtain found where f: "mapE (mount_of sv scope mm acc) (foldl add_automount requests accessible) = Inr found" "Some vm \<in> set found"
    unfolding prepare_vfolder_mounts_def \<open>mapE check_subpath reqs = Inr checked\<close> bindE_Inr Let_def requests_def[symmetric] accessible_def[symmetric] acc_def[symmetric]
    by (auto simp: bindE_eq_Inr_iff split: if_splits option.splits)
  then obtain i where "i < length found" "found ! i = Some vm" by (auto simp: in_set_conv_nth)
  with f(1) have "mount_of sv scope mm acc (foldl add_automount requests accessible ! i) = Inr (Some vm)"
    by (auto simp: mapE_Inr_iff list_all2_conv_all_nth)
  moreover have "ve_row e \<in> set (ft_vfolders ft) \<and> may_use ct ft scope (ve_row e) (ve_permission e)" if "map_of acc nm = Some e" for nm e
    using dict_merge_Nil_in[OF that[unfolded acc_def]] accessible_may_use unfolding accessible_def by fastforce
  ultimately show ?thesis by (intro that) blast+
qed

text \<open>
  Every mount that is prepared for a session is of a folder its owner may use - the owner's own,
  one shared with him, or a folder of the session's group - with the permission that was granted, and
  whatever the requested subpath, the directory it resolves to on the storage lies inside the folder.
\<close>

lemma mounts_confined:
  assumes "prepare_vfolder_mounts ct ft sv scope reqs mm = Inr ms" and "vm \<in> set ms"
  shows "\<exists>v volume. v \<in> set (ft_vfolders ft) \<and> vf_id v = vm_vfid vm \<and> vf_name v = vm_name vm \<and> may_use ct ft scope v (vm_mount_perm vm) \<and>
    (vf_group v = None \<or> vf_group v = Some (us_group_id scope)) \<and>
    map_of (sv_volumes sv) (snd (split_host (vf_host v))) = Some volume \<and>
    is_relative_to (sv_resolve sv (vm_host_path vm)) (sv_resolve sv (mangle_vfpath volume (vf_id v)))"
proof -
  obtain rq acc where m: "mount_of sv scope mm acc rq = Inr (Some vm)"
    and acc: "\<forall>nm e. map_of acc nm = Some e \<longrightarrow> ve_row e \<in> set (ft_vfolders ft) \<and> may_use ct ft scope (ve_row e) (ve_permission e)"
    by (rule prepared_mount[OF assms])
  from m show ?thesis
  proof (rule mount_ofD)
    fix e assume e: "map_of acc (fst (snd rq)) = Some e" "vm_vfid vm = vf_id (ve_row e)" "vm_name vm = vf_name (ve_row e)"
      "vm_mount_perm vm = ve_permission e" "vf_group (ve_row e) = None \<or> vf_group (ve_row e) = Some (us_group_id scope)"
      "\<exists>m. map_of (sv_volumes sv) (snd (split_host (vf_host (ve_row e)))) = Some m \<and>
         is_relative_to (sv_resolve sv (vm_host_path vm)) (sv_resolve sv (mangle_vfpath m (vf_id (ve_row e))))"
    with acc[rule_format, OF e(1)] show ?thesis by metis
  qed
qed

text \<open>Mounts of different folders never have nested places in the container.\<close>

lemma mounts_apart:
  assumes "prepare_vfolder_mounts ct ft sv scope reqs mm = Inr ms" and "a \<in> set ms" "b \<in> set ms" "vm_name a \<noteq> vm_name b"
  shows "\<not> is_relative_to (vm_kernel_path a) (vm_kernel_path b)"
proof -
  have "\<not> conflicting_targets ms" if "ms \<noteq> []"
    using assms(1) that by (auto simp: prepare_vfolder_mounts_def bindE_eq_Inr_iff Let_def split: if_splits)
  with assms(2-4) show ?thesis by (fastforce simp: conflicting_targets_def list_ex_iff)
qed

text \<open>
  The subpath is checked as a text only and after normalisation of folder and subpath together: a
  subpath that leaves the folder and comes back through a sibling of the same name passes, and so
  does an absolute one, which replaces the folder's path when the two are joined.  The proxy's check,
  on which \<open>mounts_confined\<close> rests, stops both.
\<close>
theorem subpath_check_passes_escapes:
  "check_subpath ''data/../data/x'' = Inr (''data/../data/x'', ''data'', ''../data/x'') \<and>
   check_subpath ''data//etc'' = Inr (''data//etc'', ''data'', ''/etc'') \<and>
   path_join (parse_path ''/vfroot/ab'') (parse_path ''/etc'') = parse_path ''/etc''"
  by code_simp

text \<open>A user's groups count for the hosts whatever their domain is.\<close>

lemma hosts_of_any_domain:
  assumes "g \<in> set (ct_groups ct)" "g_is_active g" "(uuid, g_id g) \<in> set (ct_agus ct)" and "d \<in> set (ct_domains ct)"
  shows "set (g_allowed_vfolder_hosts g) \<subseteq> get_allowed_vfolder_hosts_by_user ct policy (d_name d) uuid None"
  using assms by (fastforce simp: get_allowed_vfolder_hosts_by_user_def)

section \<open>Priority of dotfiles\<close>

lemma add_dotfiles_keep:
  "filter (\<lambda>e. df_path e = p) (foldl add_dotfile ds es) = filter (\<lambda>e. df_path e = p) ds" if "p \<in> set (map df_path ds)"
  using that
proof (induction es arbitrary: ds)
  case (Cons e es)
  have "p \<in> set (map df_path (add_dotfile ds e))" using Cons.prems by (auto simp: add_dotfile_def)
  from Cons.IH[OF this] Cons.prems show ?case by (auto simp: add_dotfile_def)
qed simp

lemma filter_unique_path: "distinct (map df_path ds) \<Longrightarrow> d \<in> set ds \<Longrightarrow> filter (\<lambda>e. df_path e = df_path d) ds = [d]"
  by (induction ds) (auto simp: filter_empty_conv image_iff)

text \<open>
  A dotfile of the keypair wins over those of the group and the domain: of its path there is
  exactly one dotfile in the session, the keypair's.
\<close>
theorem dotfile_priority:
  assumes "distinct (map df_path (kp_dotfiles kp))" and "d \<in> set (kp_dotfiles kp)"
  shows "filter (\<lambda>e. df_path e = df_path d) (collect_dotfiles ct scope kp) = [d]"
proof -
  have "filter (\<lambda>e. df_path e = df_path d) (kp_dotfiles kp) = [d]"
    using assms by (rule filter_unique_path)
  moreover have "df_path d \<in> set (map df_path (kp_dotfiles kp))" using assms(2) by simp
  ultimately show ?thesis unfolding collect_dotfiles_def Let_def rev_filter[symmetric] by (simp only: add_dotfiles_keep) simp
qed

section \<open>Examples\<close>

definition demo_scope :: user_scope where
  "demo_scope = \<lparr>us_domain_name = ''d'', us_group_id = ''g'', us_user_uuid = ''u'', us_user_role = USER\<rparr>"

definition demo_folder :: "string \<Rightarrow> string \<Rightarrow> string option \<Rightarrow> string option \<Rightarrow> vfolder_row" where
  "demo_folder i nm usr grp = \<lparr>vf_id = i, vf_host = ''p:v'', vf_name = nm, vf_permission = READ_WRITE,
     vf_ownership_type = (if usr = None then OwnedByGroup else OwnedByUser), vf_user = usr, vf_group = grp, vf_usage_mode = GENERAL,
     vf_max_size = None, vf_creator = ''u@x'', vf_unmanaged_path = [], vf_cloneable = False, vf_status = FolderReady\<rparr>"

definition demo_folders :: "vfolder_row list \<Rightarrow> folder_tables" where
  "demo_folders vs = \<lparr>ft_vfolders = vs, ft_permissions = [], ft_invitations = [], ft_types = [''user'', ''group'']\<rparr>"

definition demo_storage :: storage where
  "demo_storage = \<lparr>sv_proxies = [''p''], sv_volumes = [(''v'', parse_path ''/vfroot'')], sv_resolve = (\<lambda>p. parse_path (normpath (path_str p))),
     sv_is_dir = (\<lambda>_. True), sv_mkdir = (\<lambda>_. True)\<rparr>"

definition demo_members :: catalog where
  "demo_members = \<lparr>ct_images = [], ct_image_aliases = [], ct_registries = [],
     ct_users = [\<lparr>u_uuid = ''u'', u_email = ''u@x'', u_domain_name = Some ''d'', u_role = USER, u_allowed_client_ip = None\<rparr>], ct_keypairs = [], ct_domains = [],
     ct_groups = [\<lparr>g_id = ''g'', g_name = ''default'', g_domain_name = ''d'', g_is_active = True, g_allowed_vfolder_hosts = [], g_dotfiles = []\<rparr>,
       \<lparr>g_id = ''h'', g_name = ''other'', g_domain_name = ''d'', g_is_active = True, g_allowed_vfolder_hosts = [], g_dotfiles = []\<rparr>],
     ct_agus = [(''u'', ''g''), (''u'', ''h'')], ct_sgroups_for_domains = [], ct_sgroups_for_groups = [], ct_sgroups_for_keypairs = []\<rparr>"

abbreviation demo_prepare :: "vfolder_row list \<Rightarrow> string list \<Rightarrow> (string \<times> string \<times> string) list res" where
  "demo_prepare vs reqs \<equiv> map_sum id (map (\<lambda>m. (vm_vfid m, path_str (vm_host_path m), path_str (vm_kernel_path m))))
     (prepare_vfolder_mounts demo_members (demo_folders vs) demo_storage demo_scope reqs [])"

lemma demo_mounted:
  "demo_prepare [demo_folder ''abcdef'' ''data'' (Some ''u'') None] [''data/x''] = Inr [(''abcdef'', ''/vfroot/ab/cd/ef/x'', ''/home/work/data'')]"
  by code_simp

theorem dotfile_priority_witness:
  "filter (\<lambda>e. df_path e = ''.vimrc'') (collect_dotfiles demo_members demo_scope
     \<lparr>kp_access_key = ''AK'', kp_user = ''u'', kp_user_id = ''u@x'', kp_is_active = True, kp_is_admin = False, kp_secret_key = [], kp_resource_policy = [], kp_bootstrap_script = [],
      kp_ssh_public_key = None, kp_ssh_private_key = None, kp_dotfiles = [\<lparr>df_path = ''.vimrc'', df_perm = ''644'', df_data = []\<rparr>]\<rparr>) =
   [\<lparr>df_path = ''.vimrc'', df_perm = ''644'', df_data = []\<rparr>]"
  by (rule dotfile_priority[of _ "\<lparr>df_path = ''.vimrc'', df_perm = ''644'', df_data = []\<rparr>", simplified]) simp_all

text \<open>
  A user's own folder is not mounted, without an error, when another group the user belongs to
  has a folder of the same name: folders are found by name, the group's entry comes later and replaces
  the user's, and is then skipped because the session runs in a different group.
\<close>
theorem own_folder_shadowed:
  "demo_prepare [demo_folder ''abcdef'' ''data'' (Some ''u'') None, demo_folder ''112233'' ''data'' None (Some ''h'')] [''data''] = Inr []"
  by code_simp

text \<open>Two subdirectories of one folder are mounted at the same place: mounts of one name are not compared.\<close>

lemma same_folder_twice:
  "demo_prepare [demo_folder ''abcdef'' ''data'' (Some ''u'') None] [''data/a'', ''data/b''] =
   Inr [(''abcdef'', ''/vfroot/ab/cd/ef/a'', ''/home/work/data''), (''abcdef'', ''/vfroot/ab/cd/ef/b'', ''/home/work/data'')]"
  by code_simp

lemma demo_escape_stopped:
  "demo_prepare [demo_folder ''abcdef'' ''data'' (Some ''u'') None] [''data//etc''] = Inl InvalidAPIParameters"
  by code_simp

end
