(* ===== verification/Enqueue.thy ===== *)
theory Enqueue
  imports SessionControl AgentLife Starting VFolders
begin

text \<open>
  Enqueueing a session (\<open>enqueue_session\<close> and \<open>check_scaling_group\<close> of \<open>manager/registry.py\<close>,
  \<open>query_allowed_sgroups\<close> of \<open>manager/models/scaling_group.py\<close>): the quota on containers, the scaling
  group, the replication of the kernel configuration, the slots of each kernel checked against its
  image, and the insertion of the rows with their dependencies.  The random ids, the hook plug-ins,
  the tables of virtual folders and the storage come from the record \<open>enqueue_env\<close>.  Kernels that were made from one
  configuration share its \<open>resource_opts\<close> object in the source; writing \<open>shmem\<close> into it twice writes
  the same size.
\<close>

section \<open>Requests\<close>

text \<open>\<open>cc_instance_memory\<close> is the text of the number; the GPU and TPU fields are only asked for their presence.
  A \<open>resources\<close> key may be absent (\<open>None\<close>) or present with a null value (\<open>Some None\<close>).\<close>

record creation_config =
  cc_environ :: "(string, string) dict"
  cc_mounts :: "string list"
  cc_mount_map :: "(string, string) dict option"
  cc_resources :: "(string, slot_value option) dict option option"
  cc_resource_opts :: "(string, opt_val) dict"
  cc_instance_cores :: "slot_value option"
  cc_instance_memory :: "string option"
  cc_instance_gpus :: bool
  cc_instance_tpus :: bool
  cc_preopen_ports :: "int list"

record kernel_enqueue_config =
  ke_image_ref :: image_ref
  ke_cluster_role :: string
  ke_cluster_idx :: int
  ke_creation_config :: creation_config
  ke_bootstrap_script :: "string option"
  ke_startup_command :: "string option"

record enqueue_request =
  er_session_creation_id :: string
  er_session_name :: string
  er_access_key :: string
  er_kernel_configs :: "kernel_enqueue_config list"
  er_scaling_group :: "string option"
  er_session_type :: session_types
  er_resource_policy :: policy_row
  er_user_scope :: user_scope
  er_cluster_mode :: cluster_mode
  er_cluster_size :: int
  er_session_tag :: "string option"
  er_internal_data :: "(string, json) dict"
  er_starts_at :: "int option"
  er_agent_list :: "string list"
  er_dependency_sessions :: "string list"
  er_callback_url :: "string option"

record enqueue_env =
  en_now :: int
  en_session_id :: string
  en_kernel_id :: "nat \<Rightarrow> string"
  en_hook :: "string \<Rightarrow> bool"
  en_folders :: folder_tables
  en_storage :: storage

section \<open>Scaling groups\<close>

definition resolve_group :: "catalog \<Rightarrow> string \<Rightarrow> string \<Rightarrow> string option" where
  "resolve_group ct domain_name group_id = map_option g_id (find (\<lambda>g. g_id g = group_id \<and> g_domain_name g = domain_name) (ct_groups ct))"

definition query_allowed_sgroups :: "catalog \<Rightarrow> string \<Rightarrow> string \<Rightarrow> string \<Rightarrow> db \<Rightarrow> (string \<times> sgroup_row) list" where
  "query_allowed_sgroups ct domain_name group_id access_key s =
     (let from_domain = map fst (filter (\<lambda>(_, d). d = domain_name) (ct_sgroups_for_domains ct));
          from_group = (case resolve_group ct domain_name group_id of
             None \<Rightarrow> [] | Some g \<Rightarrow> map fst (filter (\<lambda>(_, x). x = g) (ct_sgroups_for_groups ct)));
          from_keypair = map fst (filter (\<lambda>(_, k). k = access_key) (ct_sgroups_for_keypairs ct));
          sgroups = from_domain @ from_group @ from_keypair
      in sort_key fst (filter (\<lambda>(n, row). n \<in> set sgroups \<and> sg_is_active row) (db_scaling_groups s)))"

definition check_scaling_group :: "catalog \<Rightarrow> string option \<Rightarrow> session_types \<Rightarrow> string \<Rightarrow> string \<Rightarrow> string \<Rightarrow> db \<Rightarrow> string res" where
  "check_scaling_group ct scaling_group session_type access_key domain_name group_id s =
     (let candidates = query_allowed_sgroups ct domain_name group_id access_key s
      in if candidates = [] then Inl ScalingGroupNotFound
         else case scaling_group of
                None \<Rightarrow>
                  (case find (\<lambda>(_, row). session_type \<in> set (sg_allowed_session_types row)) candidates of
                     Some (n, _) \<Rightarrow> Inr n
                   | None \<Rightarrow> Inl ScalingGroupNotFound)
              | Some sg \<Rightarrow>
                  if list_ex (\<lambda>(n, row). n = sg \<and> session_type \<in> set (sg_allowed_session_types row)) candidates then Inr sg
                  else Inl ScalingGroupNotFound)"

section \<open>Replication\<close>

definition replicate_configs :: "int \<Rightarrow> kernel_enqueue_config list \<Rightarrow> kernel_enqueue_config list res" where
  "replicate_configs cluster_size configs =
     (if cluster_size > 1 then
        (case configs of
           [] \<Rightarrow> Inl InvalidAPIParameters
         | [c] \<Rightarrow>
             if ke_cluster_role c \<noteq> DEFAULT_ROLE then Inl AssertionError
             else Inr (c\<lparr>ke_cluster_idx := 1\<rparr> #
                 map (\<lambda>i. c\<lparr>ke_cluster_role := ''sub'', ke_cluster_idx := int i + 1\<rparr>) [0..<nat (cluster_size - 1)])
         | _ \<Rightarrow> if int (length configs) \<noteq> cluster_size then Inl InvalidAPIParameters else Inr configs)
      else Inr configs)"

section \<open>The slots of a kernel\<close>

definition known_slots :: "db \<Rightarrow> (string, string) dict" where
  "known_slots s = dict_merge INTRINSIC_SLOTS (db_slot_types s)"

definition shmem_of :: "(string, opt_val) dict \<Rightarrow> (string, string) dict \<Rightarrow> size_res res" where
  "shmem_of resource_opts labels =
     binsize_from_str (case map_of resource_opts ''shmem'' of
         Some (OInt n) \<Rightarrow> SInt n
       | Some (OStr t) \<Rightarrow> SStr t
       | None \<Rightarrow> SStr (dget_or labels ''ai.backend.resource.preferred.shmem'' ''64m''))"

definition size_amount :: "size_res \<Rightarrow> decimal" where
  "size_amount r = (case r of BSize n \<Rightarrow> Fin (of_int n) | BInf \<Rightarrow> PInf)"

text \<open>The values behind the numbers of \<open>from_user_input\<close>.\<close>

definition slots_of :: "nslots \<Rightarrow> slots res" where
  "slots_of d = mapE (\<lambda>(k, n). bindE (slot_number n) (\<lambda>v. Inr (k, v))) d"

definition fill_intrinsic :: "slots \<Rightarrow> slots \<Rightarrow> slots" where
  "fill_intrinsic image_min requested =
     map (\<lambda>(k, v). (k, if v = 0 \<and> k \<in> set (keys INTRINSIC_SLOTS) then slot_val image_min k else v)) requested"

definition requested_by_user :: "(string, string) dict \<Rightarrow> slots \<Rightarrow> (string, slot_value option) dict \<Rightarrow> slots res" where
  "requested_by_user types image_min resources =
     (if \<not> list_all (\<lambda>k. k \<in> set (keys types)) (keys resources) then Inl InvalidAPIParameters
      else case from_user_input resources (Some types) of
             Inl e \<Rightarrow> Inl (if e = ValueError then InvalidAPIParameters else e)
           | Inr d \<Rightarrow> bindE (slots_of d) (\<lambda>requested. Inr (fill_intrinsic image_min requested)))"

text \<open>A value of a legacy client, or the minimum of the image, normalised by \<open>from_user_input\<close>.\<close>

definition legacy_value :: "string \<Rightarrow> decimal \<Rightarrow> slot_value option \<Rightarrow> decimal res" where
  "legacy_value unit dflt v =
     (case v of None \<Rightarrow> normalize_dec dflt unit | Some x \<Rightarrow> bindE (normalize_value x unit) slot_number)"

definition requested_by_legacy :: "(string, string) dict \<Rightarrow> slots \<Rightarrow> creation_config \<Rightarrow> slots res" where
  "requested_by_legacy types image_min cc =
     bindE (dget types ''cpu'') (\<lambda>cpu_unit. bindE (dget types ''mem'') (\<lambda>mem_unit.
     bindE (legacy_value cpu_unit (slot_val image_min ''cpu'') (cc_instance_cores cc)) (\<lambda>cpu.
     bindE (legacy_value mem_unit (slot_val image_min ''mem'') (map_option (\<lambda>m. VStr (m @ ''g'')) (cc_instance_memory cc))) (\<lambda>mem.
       if cc_instance_gpus cc \<or> cc_instance_tpus cc then Inl InvalidAPIParameters
       else Inr (fill_slots types 0 [(''cpu'', cpu), (''mem'', mem)])))))"

definition check_image_range :: "slots \<Rightarrow> slots \<Rightarrow> decimal \<Rightarrow> slots \<Rightarrow> unit res" where
  "check_image_range image_min image_max shmem requested =
     (if slots_gt image_min requested then Inl InvalidAPIParameters
      else if \<not> slots_le requested image_max then Inl InvalidAPIParameters
      else if shmem \<ge> slot_val requested ''mem'' then Inl InvalidAPIParameters
      else Inr ())"

definition kernel_slots :: "(string, string) dict \<Rightarrow> image_row \<Rightarrow> creation_config \<Rightarrow> (slots \<times> (string, opt_val) dict) res" where
  "kernel_slots types image_row cc =
     bindE (get_slot_ranges types image_row) (\<lambda>(min0, image_max).
     bindE (parse_service_ports (dget_or (im_labels image_row) ''ai.backend.service-ports'' []) BackendError) (\<lambda>_.
     bindE (shmem_of (cc_resource_opts cc) (im_labels image_row)) (\<lambda>shmem.
     bindE (dget min0 ''mem'') (\<lambda>min_mem.
     bindE (dec_add min_mem (size_amount shmem)) (\<lambda>min_mem'.
       let image_min = dset min0 ''mem'' min_mem';
           resource_opts = dset (cc_resource_opts cc) ''shmem'' (case shmem of BSize n \<Rightarrow> OInt n | BInf \<Rightarrow> OStr ''Infinity'')
       in bindE (case cc_resources cc of
                   Some (Some resources) \<Rightarrow> requested_by_user types image_min resources
                 | Some None \<Rightarrow> Inl AttributeError
                 | None \<Rightarrow> requested_by_legacy types image_min cc) (\<lambda>requested.
          bindE (check_image_range image_min image_max (size_amount shmem) requested) (\<lambda>_.
            Inr (requested, resource_opts))))))))"

section \<open>The rows\<close>

definition new_kernel_row :: "enqueue_env \<Rightarrow> enqueue_request \<Rightarrow> string \<Rightarrow> vfolder_mount list \<Rightarrow> (string, json) dict \<Rightarrow> (string, string) dict \<Rightarrow>
    nat \<Rightarrow> string option \<Rightarrow> kernel_enqueue_config \<Rightarrow> slots \<Rightarrow> (string, opt_val) dict \<Rightarrow> kernel_row" where
  "new_kernel_row env rq sgroup mounts internal_data environ idx mapped_agent k requested resource_opts =
     \<lparr> k_id = (if ke_cluster_role k = DEFAULT_ROLE then en_session_id env else en_kernel_id env idx),
       k_session_id = en_session_id env, k_session_creation_id = er_session_creation_id rq, k_session_name = er_session_name rq,
       k_session_type = er_session_type rq, k_cluster_mode = er_cluster_mode rq, k_cluster_size = er_cluster_size rq,
       k_cluster_role = ke_cluster_role k, k_cluster_idx = ke_cluster_idx k,
       k_cluster_hostname = ke_cluster_role k @ show_int (ke_cluster_idx k), k_scaling_group = Some sgroup, k_agent = mapped_agent,
       k_agent_addr = None, k_domain_name = us_domain_name (er_user_scope rq), k_group_id = us_group_id (er_user_scope rq),
       k_user_uuid = us_user_uuid (er_user_scope rq), k_access_key = er_access_key rq, k_image = ir_image (ke_image_ref k),
       k_architecture = ir_architecture (ke_image_ref k), k_registry = ir_registry (ke_image_ref k), k_tag = er_session_tag rq,
       k_container_id = None, k_occupied_slots = requested, k_environ = map (\<lambda>(n, v). n @ ''='' @ v) environ,
       k_vfolder_mounts = mounts, k_attached_devices = JObj [], k_resource_opts = resource_opts,
       k_bootstrap_script = ke_bootstrap_script k, k_kernel_host = None, k_repl_in_port = 0, k_repl_out_port = 0, k_stdin_port = 0,
       k_stdout_port = 0, k_service_ports = None, k_preopen_ports = cc_preopen_ports (ke_creation_config k), k_created_at = en_now env,
       k_terminated_at = None, k_starts_at = er_starts_at rq, k_status = PENDING, k_status_changed = None, k_status_info = None,
       k_status_data = None, k_status_history = Some (JObj [(''PENDING'', JTime (en_now env))]), k_callback_url = er_callback_url rq,
       k_startup_command = ke_startup_command k, k_result = UNDEFINED, k_internal_data = Some (JObj internal_data), k_num_queries = 0,
       k_last_stat = None \<rparr>"

definition mapped_agent :: "string list \<Rightarrow> nat \<Rightarrow> string option res" where
  "mapped_agent agent_list idx =
     (if agent_list = [] then Inr None else if idx < length agent_list then Inr (Some (agent_list ! idx)) else Inl IndexError)"

definition enqueue_kernel :: "enqueue_env \<Rightarrow> catalog \<Rightarrow> enqueue_request \<Rightarrow> db \<Rightarrow> string \<Rightarrow> vfolder_mount list \<Rightarrow> (string, json) dict \<Rightarrow>
    (string, string) dict \<Rightarrow> nat \<times> kernel_enqueue_config \<Rightarrow> kernel_row res" where
  "enqueue_kernel env ct rq s sgroup mounts internal_data environ ik =
     (case ik of (idx, k) \<Rightarrow>
        bindE (image_resolve ct False [RefImage (ke_image_ref k)]) (\<lambda>row.
        bindE (kernel_slots (known_slots s) row (ke_creation_config k)) (\<lambda>(requested, resource_opts).
        bindE (mapped_agent (er_agent_list rq) idx) (\<lambda>ag.
          Inr (new_kernel_row env rq sgroup mounts internal_data environ idx ag k requested resource_opts)))))"

section \<open>Insertion\<close>

text \<open>
  The constraints of the \<open>kernels\<close> table: unique ids, unique names, and agents that exist, whose
  violation is turned into \<open>InvalidAPIParameters\<close>.
\<close>

definition insert_kernels :: "kernel_row list \<Rightarrow> db \<Rightarrow> db res" where
  "insert_kernels rows s =
     (let ks = db_kernels s @ rows
      in if \<not> distinct (map k_id ks) then Inl IntegrityError
         else if \<not> unique_sess_token ks then Inl IntegrityError
         else if \<not> list_all (\<lambda>r. case k_agent r of None \<Rightarrow> True | Some a \<Rightarrow> a \<in> set (map a_id (db_agents s))) rows then Inl InvalidAPIParameters
         else Inr (s\<lparr>db_kernels := ks\<rparr>))"

definition match_dependency :: "string \<Rightarrow> db \<Rightarrow> string \<Rightarrow> string res" where
  "match_dependency access_key s dependency_id =
     (case match_session_ids dependency_id access_key (\<lambda>_. True) s of
        info # _ \<Rightarrow> Inr (si_session_id info)
      | [] \<Rightarrow> Inl InvalidAPIParameters)"

definition insert_dependencies :: "string \<Rightarrow> string list \<Rightarrow> db \<Rightarrow> db res" where
  "insert_dependencies session_id deps s =
     (let rows = map (\<lambda>d. (session_id, d)) deps
      in if \<not> distinct rows \<or> set rows \<inter> set (db_dependencies s) \<noteq> {} then Inl IntegrityError
         else if \<not> list_all (\<lambda>i. i \<in> set (map k_id (db_kernels s))) (session_id # deps) then Inl InvalidAPIParameters
         else Inr (s\<lparr>db_dependencies := db_dependencies s @ rows\<rparr>))"

definition enqueue_transaction :: "enqueue_env \<Rightarrow> enqueue_request \<Rightarrow> kernel_row list \<Rightarrow> db \<Rightarrow> db res" where
  "enqueue_transaction env rq rows s =
     bindE (insert_kernels rows s) (\<lambda>s1.
       if er_dependency_sessions rq = [] then Inr s1
       else bindE (mapE (match_dependency (er_access_key rq) s1) (er_dependency_sessions rq)) (\<lambda>deps.
         insert_dependencies (en_session_id env) deps s1))"

section \<open>Enqueueing\<close>

definition enqueue_session :: "enqueue_env \<Rightarrow> catalog \<Rightarrow> enqueue_request \<Rightarrow> db \<Rightarrow> (string \<times> db) res" where
  "enqueue_session env ct rq s =
     (if er_cluster_size rq > p_max_containers_per_session (er_resource_policy rq) then Inl QuotaExceeded
      else bindE (check_scaling_group ct (er_scaling_group rq) (er_session_type rq) (er_access_key rq)
             (us_domain_name (er_user_scope rq)) (us_group_id (er_user_scope rq)) s) (\<lambda>sgroup.
        case er_kernel_configs rq of
          [] \<Rightarrow> Inl IndexError
        | c0 # _ \<Rightarrow>
            bindE (prepare_vfolder_mounts ct (en_folders env) (en_storage env) (er_user_scope rq) (cc_mounts (ke_creation_config c0))
                     (case cc_mount_map (ke_creation_config c0) of None \<Rightarrow> [] | Some m \<Rightarrow> m)) (\<lambda>mounts.
            bindE (prepare_dotfiles ct (er_user_scope rq) (er_access_key rq) mounts) (\<lambda>dotfiles.
            bindE (replicate_configs (er_cluster_size rq) (er_kernel_configs rq)) (\<lambda>configs.
              if \<not> en_hook env (en_session_id env) then Inl RejectedByHook
              else bindE (mapE (enqueue_kernel env ct rq s sgroup mounts (dict_merge (er_internal_data rq) dotfiles)
                       (cc_environ (ke_creation_config c0))) (zip [0..<length configs] configs)) (\<lambda>rows.
                   bindE (enqueue_transaction env rq rows s) (\<lambda>s1.
                     Inr (en_session_id env, produce_event (SessionEnqueuedEvent (en_session_id env) (er_session_creation_id rq)) s1))))))))"

end
