(* ===== verification/Enqueueing.thy ===== *)
theory Enqueueing
  imports Enqueue "HOL-Library.Code_Target_Nat"
begin

text \<open>
  What enqueueing guarantees: the rows it adds, the invariant of the scheduler it keeps, the slots it
  accepts, and the requests it should not accept.
\<close>

section \<open>What is enqueued\<close>

definition fresh_row :: "enqueue_env \<Rightarrow> enqueue_request \<Rightarrow> string \<Rightarrow> kernel_row \<Rightarrow> bool" where
  "fresh_row env rq sgroup r \<longleftrightarrow> k_status r = PENDING \<and> k_session_id r = en_session_id env \<and> k_session_name r = er_session_name rq \<and>
     k_access_key r = er_access_key rq \<and> k_domain_name r = us_domain_name (er_user_scope rq) \<and> k_group_id r = us_group_id (er_user_scope rq) \<and>
     k_user_uuid r = us_user_uuid (er_user_scope rq) \<and> k_scaling_group r = Some sgroup \<and> k_created_at r = en_now env \<and> k_cluster_size r = er_cluster_size rq \<and>
     k_container_id r = None \<and> k_result r = UNDEFINED \<and> k_cluster_hostname r = k_cluster_role r @ show_int (k_cluster_idx r) \<and>
     (k_cluster_role r = DEFAULT_ROLE \<longrightarrow> k_id r = en_session_id env) \<and> (er_agent_list rq = [] \<longrightarrow> k_agent r = None)"

lemma enqueue_kernel_row:
  assumes "enqueue_kernel env ct rq s sgroup mounts idata environ (idx, k) = Inr r"
  shows "fresh_row env rq sgroup r \<and> k_cluster_role r = ke_cluster_role k \<and> k_cluster_idx r = ke_cluster_idx k \<and>
    (\<exists>row opts. image_resolve ct False [RefImage (ke_image_ref k)] = Inr row \<and>
       kernel_slots (known_slots s) row (ke_creation_config k) = Inr (k_occupied_slots r, opts))"
  using assms by (auto simp: enqueue_kernel_def new_kernel_row_def fresh_row_def mapped_agent_def bindE_eq_Inr_iff split: if_splits)

lemma enqueue_transaction_spec:
  assumes "enqueue_transaction env rq rows s = Inr s1"
  shows "db_kernels s1 = db_kernels s @ rows \<and> distinct (map k_id (db_kernels s @ rows)) \<and> unique_sess_token (db_kernels s @ rows) \<and>
    db_agents s1 = db_agents s \<and> (er_dependency_sessions rq = [] \<longrightarrow> db_dependencies s1 = db_dependencies s)"
  using assms by (auto simp: enqueue_transaction_def insert_kernels_def insert_dependencies_def Let_def bindE_eq_Inr_iff split: if_splits)

text \<open>The parts a successful call went through.\<close>

lemma enqueue_phases:
  assumes "enqueue_session env ct rq s = Inr (sid, s')"
  obtains sgroup mounts idata environ configs rows s1 where "sid = en_session_id env"
    and "er_cluster_size rq \<le> p_max_containers_per_session (er_resource_policy rq)"
    and "check_scaling_group ct (er_scaling_group rq) (er_session_type rq) (er_access_key rq) (us_domain_name (er_user_scope rq))
           (us_group_id (er_user_scope rq)) s = Inr sgroup"
    and "replicate_configs (er_cluster_size rq) (er_kernel_configs rq) = Inr configs"
    and "mapE (enqueue_kernel env ct rq s sgroup mounts idata environ) (zip [0..<length configs] configs) = Inr rows"
    and "enqueue_transaction env rq rows s = Inr s1"
    and "s' = produce_event (SessionEnqueuedEvent (en_session_id env) (er_session_creation_id rq)) s1"
proof (cases "er_kernel_configs rq")
  case Nil
  with assms show ?thesis by (auto simp: enqueue_session_def bindE_eq_Inr_iff split: if_splits)
next
  case (Cons c0 cs)
  with assms show ?thesis
    by (auto simp: enqueue_session_def bindE_eq_Inr_iff split: if_splits intro!: that)
qed

lemma enqueued_rows:
  assumes "mapE (enqueue_kernel env ct rq s sgroup mounts idata environ) (zip [0..<length configs] configs) = Inr rows"
  shows "length rows = length configs \<and> list_all (fresh_row env rq sgroup) rows \<and>
    map (\<lambda>r. (k_cluster_role r, k_cluster_idx r)) rows = map (\<lambda>k. (ke_cluster_role k, ke_cluster_idx k)) configs"
proof -
  let ?z = "zip [0..<length configs] configs"
  have a: "list_all2 (\<lambda>x r. enqueue_kernel env ct rq s sgroup mounts idata environ x = Inr r) ?z rows"
    using assms by (simp add: mapE_Inr_iff)
  then have "list_all2 (\<lambda>x r. fresh_row env rq sgroup r \<and> (k_cluster_role r, k_cluster_idx r) = (ke_cluster_role (snd x), ke_cluster_idx (snd x))) ?z rows"
    by (rule list_all2_mono) (auto dest: enqueue_kernel_row)
  then have "length rows = length ?z" "list_all (fresh_row env rq sgroup) rows"
    "map (\<lambda>r. (k_cluster_role r, k_cluster_idx r)) rows = map (\<lambda>x. (ke_cluster_role (snd x), ke_cluster_idx (snd x))) ?z"
    by (auto simp: list_all2_conv_all_nth list_all_length intro!: nth_equalityI)
  moreover have "map (\<lambda>x. (ke_cluster_role (snd x), ke_cluster_idx (snd x))) ?z = map (\<lambda>k. (ke_cluster_role k, ke_cluster_idx k)) configs"
    by (intro nth_equalityI) auto
  ultimately show ?thesis by simp
qed

lemma replicate_length:
  assumes "replicate_configs n configs = Inr configs'" and "n > 1"
  shows "int (length configs') = n"
  using assms by (auto simp: replicate_configs_def split: list.splits if_splits)

lemma replicate_members:
  assumes "replicate_configs n configs = Inr configs'" and "k \<in> set configs'"
  shows "\<exists>c\<in>set configs. ke_image_ref k = ke_image_ref c \<and> ke_creation_config k = ke_creation_config c"
  using assms by (auto simp: replicate_configs_def split: list.splits if_splits)

text \<open>
  C4: A session that is enqueued adds exactly its own rows, at the end of the table: all PENDING, of
  the new session, named and owned as requested (keypair, user, group and domain), in the scaling group that was chosen, without
  container or agent, the main kernel carrying the session's id; a session of several containers has
  as many as the cluster size says, a session of one as many as there are kernel configurations; the
  cluster size is within the policy, and ids and names stay unique.
\<close>
theorem enqueue_session_rows:
  assumes "enqueue_session env ct rq s = Inr (sid, s')"
  shows "\<exists>rows sgroup. db_kernels s' = db_kernels s @ rows \<and> list_all (fresh_row env rq sgroup) rows \<and>
    check_scaling_group ct (er_scaling_group rq) (er_session_type rq) (er_access_key rq) (us_domain_name (er_user_scope rq))
      (us_group_id (er_user_scope rq)) s = Inr sgroup \<and>
    distinct (map k_id (db_kernels s')) \<and> unique_sess_token (db_kernels s') \<and>
    int (length rows) = (if er_cluster_size rq > 1 then er_cluster_size rq else int (length (er_kernel_configs rq))) \<and>
    er_cluster_size rq \<le> p_max_containers_per_session (er_resource_policy rq)"
proof -
  obtain sgroup mounts idata environ configs rows s1 where ph: "er_cluster_size rq \<le> p_max_containers_per_session (er_resource_policy rq)"
    "check_scaling_group ct (er_scaling_group rq) (er_session_type rq) (er_access_key rq) (us_domain_name (er_user_scope rq))
       (us_group_id (er_user_scope rq)) s = Inr sgroup"
    "replicate_configs (er_cluster_size rq) (er_kernel_configs rq) = Inr configs"
    "mapE (enqueue_kernel env ct rq s sgroup mounts idata environ) (zip [0..<length configs] configs) = Inr rows"
    "enqueue_transaction env rq rows s = Inr s1"
    "s' = produce_event (SessionEnqueuedEvent (en_session_id env) (er_session_creation_id rq)) s1"
    by (rule enqueue_phases[OF assms])
  note t = enqueue_transaction_spec[OF ph(5)]
  note r = enqueued_rows[OF ph(4)]
  have "int (length rows) = (if er_cluster_size rq > 1 then er_cluster_size rq else int (length (er_kernel_configs rq)))"
    using replicate_length[OF ph(3)] r ph(3) by (auto simp: replicate_configs_def)
  with t r ph show ?thesis by (intro exI[of _ rows] exI[of _ sgroup]) simp
qed

section \<open>Enqueueing and scheduling\<close>

lemma pending_not_occupying: "k_status r = PENDING \<Longrightarrow> \<not> on_agent i r"
  by (simp add: on_agent_def agent_occupying_def AGENT_RESOURCE_OCCUPYING_KERNEL_STATUSES_def)

text \<open>
  The slots of a new kernel are finite when the request names no infinite amount: no value of the
  resources (or of the fields of legacy clients) is read as an infinity in the unit of its slot, the
  shared memory is a size, and the image's minimum is finite.
\<close>

definition finite_amount :: "(string, string) dict \<Rightarrow> string \<Rightarrow> slot_value \<Rightarrow> bool" where
  "finite_amount types k v =
     (case map_of types k of
        None \<Rightarrow> True
      | Some u \<Rightarrow> (case normalize_value v u of Inr (Num (DInf _)) \<Rightarrow> False | _ \<Rightarrow> True))"

definition finite_request :: "(string, string) dict \<Rightarrow> image_row \<Rightarrow> creation_config \<Rightarrow> bool" where
  "finite_request types row cc \<longleftrightarrow>
     (case get_slot_ranges types row of Inr (image_min, _) \<Rightarrow> fin_slots image_min | Inl _ \<Rightarrow> True) \<and>
     shmem_of (cc_resource_opts cc) (im_labels row) \<noteq> Inr BInf \<and>
     (case cc_resources cc of
        Some (Some resources) \<Rightarrow> list_all (\<lambda>(k, v). case v of None \<Rightarrow> True | Some x \<Rightarrow> finite_amount types k x) resources
      | _ \<Rightarrow> True) \<and>
     (case cc_instance_cores cc of None \<Rightarrow> True | Some x \<Rightarrow> finite_amount types ''cpu'' x) \<and>
     (case cc_instance_memory cc of None \<Rightarrow> True | Some m \<Rightarrow> finite_amount types ''mem'' (VStr (m @ ''g'')))"

lemma finite_amount_value:
  assumes "finite_amount types k v" and "map_of types k = Some u" and "normalize_value v u = Inr n" and "num_val n = Some d"
  shows "is_finite d"
proof (cases n)
  case (Num r)
  with assms show ?thesis by (cases r) (auto simp: finite_amount_def)
qed (use assms(4) in simp_all)

abbreviation finite_nums :: "nslots \<Rightarrow> bool" where
  "finite_nums d \<equiv> \<forall>n\<in>set (values d). \<forall>x. num_val n = Some x \<longrightarrow> is_finite x"

lemma finite_nums_dset: "finite_nums d \<Longrightarrow> (\<And>x. num_val n = Some x \<Longrightarrow> is_finite x) \<Longrightarrow> finite_nums (dset d k n)"
  using set_dset_subset[of k n d] by fastforce

lemma collect_values_finite:
  assumes "collect_values (\<lambda>k v. bindE (dget types k) (normalize_value v)) obj = Inr d"
    and "list_all (\<lambda>(k, v). case v of None \<Rightarrow> True | Some x \<Rightarrow> finite_amount types k x) obj"
  shows "finite_nums d"
  using assms(1) unfolding collect_values_def
proof (rule foldE_invariant)
  fix s x s' assume "x \<in> set obj" and s: "finite_nums s"
    and st: "(case x of (k, v) \<Rightarrow> case v of None \<Rightarrow> Inr s | Some x \<Rightarrow> bindE (bindE (dget types k) (normalize_value x)) (\<lambda>n. Inr (dset s k n))) = Inr s'"
  obtain k v where x: "x = (k, v)" by (cases x)
  then have f: "case v of None \<Rightarrow> True | Some x \<Rightarrow> finite_amount types k x"
    using assms(2) \<open>x \<in> set obj\<close> by (auto simp: list_all_iff)
  show "finite_nums s'"
  proof (cases v)
    case (Some y)
    with st x obtain u n where n: "map_of types k = Some u" "normalize_value y u = Inr n" "s' = dset s k n"
      by (auto simp: bindE_eq_Inr_iff dget_Inr_iff)
    then show ?thesis using finite_nums_dset[OF s] finite_amount_value[of types k y u n] f Some by fastforce
  qed (use st x s in simp)
qed simp

lemma fill_missing_finite: "finite_nums d \<Longrightarrow> finite_nums (fill_missing types (Num (DFin False 0 0)) d)"
proof -
  assume d: "finite_nums d"
  have "finite_nums (fold (\<lambda>k d. if k \<in> set (keys d) then d else dset d k (Num (DFin False 0 0))) ks d)" for ks
    using d
  proof (induction ks arbitrary: d)
    case (Cons k ks)
    have "finite_nums (if k \<in> set (keys d) then d else dset d k (Num (DFin False 0 0)))"
      using Cons.prems finite_nums_dset[OF Cons.prems, of "Num (DFin False 0 0)" k] by simp
    from Cons.IH[OF this] show ?case by simp
  qed simp
  then show ?thesis by (simp add: fill_missing_def)
qed

lemma slots_of_finite: "slots_of d = Inr r \<Longrightarrow> finite_nums d \<Longrightarrow> fin_slots r"
  unfolding slots_of_def mapE_Inr_iff fin_slots_def list_all_iff
  by (induction d r rule: list_all2_induct) (auto simp: bindE_eq_Inr_iff slot_number_def split: option.splits)

lemma fin_slots_set: "fin_slots a \<Longrightarrow> is_finite v \<Longrightarrow> fin_slots (dset a k v)"
  using set_dset_subset[of k v a] by (fastforce simp: fin_slots_def list_all_iff)

lemma requested_by_user_finite:
  assumes "requested_by_user types image_min resources = Inr r" and "fin_slots image_min"
    and "list_all (\<lambda>(k, v). case v of None \<Rightarrow> True | Some x \<Rightarrow> finite_amount types k x) resources"
  shows "fin_slots r"
proof -
  obtain d r0 where d: "from_user_input resources (Some types) = Inr d" "slots_of d = Inr r0" "r = fill_intrinsic image_min r0"
    using assms(1) by (auto simp: requested_by_user_def bindE_eq_Inr_iff split: if_splits sum.splits)
  from d(1) obtain d0 where "collect_values (\<lambda>k v. bindE (dget types k) (normalize_value v)) resources = Inr d0"
    "d = fill_missing types (Num (DFin False 0 0)) d0"
    by (auto simp: from_user_input_def key_to_value_error_def bindE_eq_Inr_iff split: sum.splits py_exc.splits)
  with collect_values_finite[OF _ assms(3)] fill_missing_finite have "finite_nums d" by blast
  from slots_of_finite[OF d(2) this] fin_slots_val[OF assms(2)] show ?thesis
    by (auto simp: d(3) fill_intrinsic_def fin_slots_def list_all_iff)
qed

lemma legacy_value_finite:
  assumes "legacy_value u dflt v = Inr x" and "is_finite dflt" and "map_of types k = Some u"
    and "case v of None \<Rightarrow> True | Some y \<Rightarrow> finite_amount types k y"
  shows "is_finite x"
proof (cases v)
  case None
  with assms(1,2) show ?thesis by (cases dflt) (auto simp: legacy_value_def normalize_dec_def split: if_splits)
next
  case (Some y)
  with assms(1) obtain n where "normalize_value y u = Inr n" "num_val n = Some x"
    by (auto simp: legacy_value_def bindE_eq_Inr_iff slot_number_def split: option.splits)
  with finite_amount_value[of types k y u n x] assms(3,4) Some show ?thesis by simp
qed

lemma fill_slots_finite: "fin_slots d \<Longrightarrow> is_finite v \<Longrightarrow> fin_slots (fill_slots types v d)"
proof -
  assume v: "is_finite v"
  have "fin_slots d \<Longrightarrow> fin_slots (fold (\<lambda>k d. if k \<in> set (keys d) then d else dset d k v) ks d)" for ks
    by (induction ks arbitrary: d) (simp_all add: fin_slots_set v)
  then show "fin_slots d \<Longrightarrow> ?thesis" by (simp add: fill_slots_def)
qed

lemma kernel_slots_finite:
  assumes "kernel_slots types row cc = Inr (requested, opts)" and "finite_request types row cc"
  shows "fin_slots requested"
proof -
  from assms(1) obtain min0 image_max shmem min_mem min_mem' where
    g: "get_slot_ranges types row = Inr (min0, image_max)" and sh: "shmem_of (cc_resource_opts cc) (im_labels row) = Inr shmem"
    and m: "dget min0 ''mem'' = Inr min_mem" "dec_add min_mem (size_amount shmem) = Inr min_mem'"
    and rq: "(case cc_resources cc of Some (Some resources) \<Rightarrow> requested_by_user types (dset min0 ''mem'' min_mem') resources
        | Some None \<Rightarrow> Inl AttributeError | None \<Rightarrow> requested_by_legacy types (dset min0 ''mem'' min_mem') cc) = Inr requested"
    by (auto simp: kernel_slots_def Let_def bindE_eq_Inr_iff)
  have min0: "fin_slots min0" using assms(2) g by (simp add: finite_request_def)
  have "is_finite min_mem" using m(1) min0 by (auto simp: dget_Inr_iff fin_slots_def list_all_iff dest!: map_of_SomeD)
  moreover have "is_finite (size_amount shmem)" using assms(2) sh by (cases shmem) (auto simp: finite_request_def size_amount_def)
  ultimately have "is_finite min_mem'" using m(2) dec_add_finite by fastforce
  then have mn: "fin_slots (dset min0 ''mem'' min_mem')" using fin_slots_set[OF min0] by blast
  show ?thesis
  proof (cases "cc_resources cc")
    case None
    with rq obtain cpu_unit mem_unit cpu mem where l: "map_of types ''cpu'' = Some cpu_unit" "map_of types ''mem'' = Some mem_unit"
      "legacy_value cpu_unit (slot_val (dset min0 ''mem'' min_mem') ''cpu'') (cc_instance_cores cc) = Inr cpu"
      "legacy_value mem_unit (slot_val (dset min0 ''mem'' min_mem') ''mem'') (map_option (\<lambda>m. VStr (m @ ''g'')) (cc_instance_memory cc)) = Inr mem"
      "requested = fill_slots types 0 [(''cpu'', cpu), (''mem'', mem)]"
      by (auto simp: requested_by_legacy_def bindE_eq_Inr_iff dget_Inr_iff split: if_splits)
    have "is_finite cpu" using legacy_value_finite[OF l(3) fin_slots_val[OF mn] l(1)] assms(2) by (simp add: finite_request_def)
    moreover have "is_finite mem" using legacy_value_finite[OF l(4) fin_slots_val[OF mn] l(2)] assms(2)
      by (simp add: finite_request_def split: option.splits)
    ultimately show ?thesis unfolding l(5) by (intro fill_slots_finite) (simp_all add: fin_slots_def)
  next
    case (Some o')
    with rq obtain resources where r: "o' = Some resources" "requested_by_user types (dset min0 ''mem'' min_mem') resources = Inr requested"
      by (auto split: option.splits)
    from requested_by_user_finite[OF r(2) mn] show ?thesis using assms(2) Some r(1) by (simp add: finite_request_def)
  qed
qed

lemma enqueue_kernel_finite:
  assumes "enqueue_kernel env ct rq s sgroup mounts idata environ (i, k) = Inr r"
    and "\<forall>row. image_resolve ct False [RefImage (ke_image_ref k)] = Inr row \<longrightarrow> finite_request (known_slots s) row (ke_creation_config k)"
  shows "fin_slots (k_occupied_slots r)"
  using assms by (auto simp: enqueue_kernel_def bindE_eq_Inr_iff new_kernel_row_def dest: kernel_slots_finite)

text \<open>
  C3: Enqueueing a session with finite requests keeps the invariant the scheduler's safety rests on:
  ids unique, slots finite, the agents' occupied slots those of their kernels, the kernels of a
  pending session alike, and - when no agents are designated - no pending kernel bound to an agent and
  no agent overcommitted.  The new session's id must be new, and no amount of its request, no
  shared memory and no minimum of its images may be infinite: an infinite amount is accepted by the
  code.
\<close>
theorem enqueue_keeps_sched_inv:
  assumes "sched_inv d s" and "enqueue_session env ct rq s = Inr (sid, s')" and fresh: "\<forall>r\<in>set (db_kernels s). k_session_id r \<noteq> en_session_id env"
    and fin: "\<forall>k\<in>set (er_kernel_configs rq). \<forall>row. image_resolve ct False [RefImage (ke_image_ref k)] = Inr row \<longrightarrow>
      finite_request (known_slots s) row (ke_creation_config k)"
    and des: "d \<longrightarrow> er_agent_list rq = []"
  shows "sched_inv d s'"
proof -
  obtain sgroup mounts idata environ configs rows s1 where ph:
    "mapE (enqueue_kernel env ct rq s sgroup mounts idata environ) (zip [0..<length configs] configs) = Inr rows"
    "enqueue_transaction env rq rows s = Inr s1"
    "s' = produce_event (SessionEnqueuedEvent (en_session_id env) (er_session_creation_id rq)) s1"
    and rc: "replicate_configs (er_cluster_size rq) (er_kernel_configs rq) = Inr configs"
    by (rule enqueue_phases[OF assms(2)])
  have t: "db_kernels s' = db_kernels s @ rows" "distinct (map k_id (db_kernels s @ rows))" "db_agents s' = db_agents s"
    using enqueue_transaction_spec[OF ph(2)] ph(3) by auto
  have rows: "\<And>r. r \<in> set rows \<Longrightarrow> fresh_row env rq sgroup r" using enqueued_rows[OF ph(1)] by (auto simp: list_all_iff)
  have inv: "base_inv s" "accounted s" "uniform s" "d \<Longrightarrow> undesignated s" "d \<Longrightarrow> capacity_ok s" using assms(1) by (auto simp: sched_inv_def)
  have "filter (on_agent i) rows = []" for i using rows pending_not_occupying by (auto simp: filter_empty_conv fresh_row_def)
  then have "used_by (on_agent i) s' k = used_by (on_agent i) s k" for i k by (simp add: used_by_def t(1))
  then have acc: "accounted s'" using inv(2) t(3) by (simp add: accounted_def)
  have "fin_slots (k_occupied_slots r)" if mem: "r \<in> set rows" for r
  proof -
    obtain i k where e: "(i, k) \<in> set (zip [0..<length configs] configs)" "enqueue_kernel env ct rq s sgroup mounts idata environ (i, k) = Inr r"
      using ph(1) mem by (fastforce simp: mapE_Inr_iff list_all2_conv_all_nth in_set_conv_nth)
    obtain c where c: "c \<in> set (er_kernel_configs rq)" "ke_image_ref k = ke_image_ref c" "ke_creation_config k = ke_creation_config c"
      using replicate_members[OF rc set_zip_rightD[OF e(1)]] by blast
    show ?thesis by (rule enqueue_kernel_finite[OF e(2)]) (use fin c in auto)
  qed
  then have base: "base_inv s'" using inv(1) t by (auto simp: base_inv_def fin_kernels_def list_all_iff)
  have uni: "uniform s'" unfolding uniform_def t(1) set_append
  proof (intro ballI impI)
    fix r r' assume m: "r \<in> set (db_kernels s) \<union> set rows" "r' \<in> set (db_kernels s) \<union> set rows" and sid: "k_session_id r' = k_session_id r"
      and st: "k_status r = PENDING"
    show "k_status r' = PENDING \<and> k_scaling_group r' = k_scaling_group r \<and> k_created_at r' = k_created_at r \<and> k_access_key r' = k_access_key r"
    proof (cases "r \<in> set (db_kernels s)")
      case True
      then have "r' \<in> set (db_kernels s)" using m(2) rows fresh sid by (auto simp: fresh_row_def)
      from inv(3)[unfolded uniform_def, rule_format, OF True this sid st] show ?thesis .
    next
      case False
      then have r: "fresh_row env rq sgroup r" using m(1) rows by blast
      then have "r' \<in> set rows" using m(2) fresh sid by (auto simp: fresh_row_def)
      from rows[OF this] r show ?thesis by (simp add: fresh_row_def)
    qed
  qed
  have "k_agent r = None" if d "r \<in> set rows" for r using rows[OF that(2)] des that(1) by (simp add: fresh_row_def)
  note agentless = this
  have "undesignated s'" if d: d unfolding undesignated_def t(1) set_append
  proof (intro ballI impI)
    fix r assume r: "r \<in> set (db_kernels s) \<union> set rows" "k_status r = PENDING"
    show "k_agent r = None"
    proof (cases "r \<in> set rows")
      case False
      with r inv(4)[OF d] show ?thesis by (simp add: undesignated_def)
    qed (rule agentless[OF d])
  qed
  moreover have "capacity_ok s'" if d using inv(5)[OF that] by (simp add: capacity_ok_def t(3))
  ultimately show ?thesis using acc base uni by (simp add: sched_inv_def)
qed

section \<open>Enqueueing and virtual folders\<close>

lemma enqueued_mounts:
  assumes "enqueue_session env ct rq s = Inr (sid, s')" and "r \<in> set (db_kernels s')" "r \<notin> set (db_kernels s)"
  obtains c0 cs mm where "er_kernel_configs rq = c0 # cs"
    and "prepare_vfolder_mounts ct (en_folders env) (en_storage env) (er_user_scope rq) (cc_mounts (ke_creation_config c0)) mm = Inr (k_vfolder_mounts r)"
proof -
  obtain c0 cs where c: "er_kernel_configs rq = c0 # cs"
    using assms(1) by (cases "er_kernel_configs rq") (auto simp: enqueue_session_def bindE_eq_Inr_iff split: if_splits)
  obtain mm sgroup mounts idata configs rows s1 where e:
    "prepare_vfolder_mounts ct (en_folders env) (en_storage env) (er_user_scope rq) (cc_mounts (ke_creation_config c0)) mm = Inr mounts"
    "mapE (enqueue_kernel env ct rq s sgroup mounts idata (cc_environ (ke_creation_config c0))) (zip [0..<length configs] configs) = Inr rows"
    "enqueue_transaction env rq rows s = Inr s1" "db_kernels s' = db_kernels s1"
    using assms(1) c by (auto simp: enqueue_session_def bindE_eq_Inr_iff split: if_splits)
  have "r \<in> set rows" using assms(2,3) e(4) enqueue_transaction_spec[OF e(3)] by auto
  then obtain x where "enqueue_kernel env ct rq s sgroup mounts idata (cc_environ (ke_creation_config c0)) x = Inr r"
    using e(2) by (auto simp: mapE_Inr_iff list_all2_conv_all_nth in_set_conv_nth)
  then have "k_vfolder_mounts r = mounts" by (auto simp: enqueue_kernel_def new_kernel_row_def bindE_eq_Inr_iff split: prod.splits)
  with that[OF c] e(1) show ?thesis by simp
qed

text \<open>
  C8: Every folder that is mounted in a kernel of a new session is one the session's owner may use -
  the owner's own, one shared with him, or a folder of the session's group - with the permission that
  was granted, and whatever subpath was requested, the directory it resolves to on the storage lies
  inside the folder.
\<close>
theorem enqueued_mounts_confined:
  assumes "enqueue_session env ct rq s = Inr (sid, s')" and "r \<in> set (db_kernels s')" "r \<notin> set (db_kernels s)" and "vm \<in> set (k_vfolder_mounts r)"
  shows "\<exists>v volume. v \<in> set (ft_vfolders (en_folders env)) \<and> vf_id v = vm_vfid vm \<and> vf_name v = vm_name vm \<and>
    may_use ct (en_folders env) (er_user_scope rq) v (vm_mount_perm vm) \<and>
    (vf_group v = None \<or> vf_group v = Some (us_group_id (er_user_scope rq))) \<and>
    map_of (sv_volumes (en_storage env)) (snd (split_host (vf_host v))) = Some volume \<and>
    is_relative_to (sv_resolve (en_storage env) (vm_host_path vm)) (sv_resolve (en_storage env) (mangle_vfpath volume (vf_id v)))"
proof -
  obtain c0 cs mm where "er_kernel_configs rq = c0 # cs"
    and p: "prepare_vfolder_mounts ct (en_folders env) (en_storage env) (er_user_scope rq) (cc_mounts (ke_creation_config c0)) mm = Inr (k_vfolder_mounts r)"
    by (rule enqueued_mounts[OF assms(1-3)])
  show ?thesis by (rule mounts_confined[OF p assms(4)])
qed

section \<open>The slots that are accepted\<close>

lemma fill_intrinsic_keys: "keys (fill_intrinsic mn req) = keys req"
  by (simp add: fill_intrinsic_def case_prod_beta comp_def)

text \<open>
  C22: The slots a kernel is enqueued with: nothing above the image's maximum, more memory than
  shared memory, and not a request that is below the image's minimum everywhere - the minimum
  including the shared memory.
\<close>
theorem kernel_slots_bounds:
  assumes "kernel_slots types row cc = Inr (requested, opts)"
  shows "\<exists>mn mx shmem. get_slot_ranges types row = Inr (mn, mx) \<and> shmem_of (cc_resource_opts cc) (im_labels row) = Inr shmem \<and>
    (\<forall>k. slot_val requested k \<le> slot_val mx k) \<and> size_amount shmem < slot_val requested ''mem'' \<and>
    (\<exists>m. dec_add (slot_val mn ''mem'') (size_amount shmem) = Inr m \<and>
       ((\<exists>k. slot_val (dset mn ''mem'' m) k < slot_val requested k) \<or> slot_val requested = slot_val (dset mn ''mem'' m)))"
proof -
  obtain mn mx shmem mm m where k: "get_slot_ranges types row = Inr (mn, mx)" "shmem_of (cc_resource_opts cc) (im_labels row) = Inr shmem"
    "dget mn ''mem'' = Inr mm" "dec_add mm (size_amount shmem) = Inr m" "check_image_range (dset mn ''mem'' m) mx (size_amount shmem) requested = Inr ()"
    using assms by (auto simp: kernel_slots_def Let_def bindE_eq_Inr_iff)
  have "slot_val mn ''mem'' = mm" using k(3) by (auto simp: slot_val_def dget_def dget_or_def split: option.splits)
  moreover have c: "\<not> slots_gt (dset mn ''mem'' m) requested" "slots_le requested mx" "\<not> size_amount shmem \<ge> slot_val requested ''mem''"
    using k(5) by (auto simp: check_image_range_def split: if_splits)
  moreover have "(\<exists>k. slot_val (dset mn ''mem'' m) k < slot_val requested k) \<or> slot_val requested = slot_val (dset mn ''mem'' m)"
    using c(1) unfolding slots_gt_iff by (metis not_le)
  ultimately show ?thesis using k(1,2,4) by (auto simp: slots_le_iff not_le)
qed

section \<open>Examples\<close>

definition demo_config :: "(string, slot_value option) dict \<Rightarrow> kernel_enqueue_config" where
  "demo_config res =
     \<lparr>ke_image_ref = \<lparr>ir_image = ''python'', ir_registry = ''r'', ir_architecture = ''x86_64''\<rparr>, ke_cluster_role = ''main'', ke_cluster_idx = 1,
      ke_creation_config = \<lparr>cc_environ = [], cc_mounts = [], cc_mount_map = None, cc_resources = Some (Some res), cc_resource_opts = [], cc_instance_cores = None,
        cc_instance_memory = None, cc_instance_gpus = False, cc_instance_tpus = False, cc_preopen_ports = []\<rparr>,
      ke_bootstrap_script = None, ke_startup_command = None\<rparr>"

definition demo_enqueue :: "string \<Rightarrow> int \<Rightarrow> string list \<Rightarrow> (string, slot_value option) dict \<Rightarrow> enqueue_request" where
  "demo_enqueue nm csize deps res =
     \<lparr>er_session_creation_id = ''c'', er_session_name = nm, er_access_key = ''AK'', er_kernel_configs = [demo_config res], er_scaling_group = None,
      er_session_type = INTERACTIVE,
      er_resource_policy = \<lparr>p_default_for_unspecified = LIMITED, p_total_resource_slots = [], p_max_concurrent_sessions = 2, p_max_containers_per_session = 4,
        p_max_session_lifetime = 0, p_idle_timeout = 600, p_allowed_vfolder_hosts = [], p_max_vfolder_count = 0, p_max_vfolder_size = 0\<rparr>,
      er_user_scope = \<lparr>us_domain_name = ''d'', us_group_id = ''g'', us_user_uuid = ''u'', us_user_role = USER\<rparr>, er_cluster_mode = SINGLE_NODE, er_cluster_size = csize,
      er_session_tag = None, er_internal_data = [], er_starts_at = None, er_agent_list = [], er_dependency_sessions = deps, er_callback_url = None\<rparr>"

definition demo_enqueue_env :: enqueue_env where
  "demo_enqueue_env =
     \<lparr>en_now = 9, en_session_id = ''new'', en_kernel_id = (\<lambda>i. ''sub'' @ show_nat i), en_hook = (\<lambda>_. True), en_folders = demo_folders [], en_storage = demo_storage\<rparr>"

definition demo_wanted :: "(string, slot_value option) dict" where
  "demo_wanted = [(''cpu'', Some (VStr ''2'')), (''mem'', Some (VStr ''1g''))]"

definition demo_two_containers :: "(string \<times> db) res" where
  "demo_two_containers = enqueue_session demo_enqueue_env demo_catalog (demo_enqueue ''n'' 2 [] demo_wanted) (demo_db [] [])"

lemma demo_enqueued:
  "map_sum id (\<lambda>(sid, s). map (\<lambda>r. (k_id r, k_session_id r, k_cluster_hostname r, k_status r, k_occupied_slots r)) (db_kernels s)) demo_two_containers =
   Inr [(''new'', ''new'', ''main1'', PENDING, [(''cpu'', Fin 2), (''mem'', Fin 1073741824)]),
        (''sub1'', ''new'', ''sub1'', PENDING, [(''cpu'', Fin 2), (''mem'', Fin 1073741824)])]"
  by code_simp

theorem enqueue_session_rows_witness:
  "\<exists>sid s'. demo_two_containers = Inr (sid, s') \<and> length (db_kernels s') = 2 \<and> unique_sess_token (db_kernels s')"
proof -
  obtain sid s' where r: "enqueue_session demo_enqueue_env demo_catalog (demo_enqueue ''n'' 2 [] demo_wanted) (demo_db [] []) = Inr (sid, s')"
    using demo_enqueued unfolding demo_two_containers_def
    by (cases "enqueue_session demo_enqueue_env demo_catalog (demo_enqueue ''n'' 2 [] demo_wanted) (demo_db [] [])") auto
  from enqueue_session_rows[OF r] have "unique_sess_token (db_kernels s')" "length (db_kernels s') = 2"
    by (auto simp: demo_enqueue_def demo_db_def)
  with r show ?thesis unfolding demo_two_containers_def by blast
qed

theorem enqueue_keeps_sched_inv_witness:
  "\<exists>sid s'. demo_two_containers = Inr (sid, s') \<and> sched_inv True s'"
proof -
  have "\<exists>p. demo_two_containers = Inr p"
  proof (cases demo_two_containers)
    case (Inl e)
    have False using demo_enqueued unfolding Inl by simp
    then show ?thesis ..
  qed blast
  then obtain sid s' where r: "demo_two_containers = Inr (sid, s')" by auto
  have "\<forall>k\<in>set (er_kernel_configs (demo_enqueue ''n'' 2 [] demo_wanted)).
      case image_resolve demo_catalog False [RefImage (ke_image_ref k)] of
        Inr row \<Rightarrow> finite_request (known_slots (demo_db [] [])) row (ke_creation_config k) | Inl _ \<Rightarrow> True" by code_simp
  then have fin: "\<forall>k\<in>set (er_kernel_configs (demo_enqueue ''n'' 2 [] demo_wanted)). \<forall>row.
      image_resolve demo_catalog False [RefImage (ke_image_ref k)] = Inr row \<longrightarrow>
      finite_request (known_slots (demo_db [] [])) row (ke_creation_config k)" by fastforce
  have "sched_inv True s'"
    by (rule enqueue_keeps_sched_inv[OF _ r[unfolded demo_two_containers_def] _ fin])
      (auto simp: sched_inv_def base_inv_def accounted_def uniform_def undesignated_def capacity_ok_def fin_kernels_def demo_db_def demo_enqueue_def)
  with r show ?thesis by blast
qed

definition demo_with_folder :: "(string \<times> db) res" where
  "demo_with_folder = enqueue_session (demo_enqueue_env\<lparr>en_folders := demo_folders [demo_folder ''abcdef'' ''data'' (Some ''u'') None]\<rparr>)
     (demo_catalog\<lparr>ct_users := ct_users demo_members\<rparr>)
     ((demo_enqueue ''n'' 1 [] demo_wanted)\<lparr>er_kernel_configs := map (\<lambda>c. c\<lparr>ke_creation_config := (ke_creation_config c)\<lparr>cc_mounts := [''data/x'']\<rparr>\<rparr>) [demo_config demo_wanted]\<rparr>)
     (demo_db [] [])"

lemma demo_folder_mounted:
  "map_sum id (\<lambda>(sid, s). map (\<lambda>r. (k_id r, map (\<lambda>m. (vm_vfid m, path_str (vm_host_path m), path_str (vm_kernel_path m))) (k_vfolder_mounts r))) (db_kernels s))
     demo_with_folder = Inr [(''new'', [(''abcdef'', ''/vfroot/ab/cd/ef/x'', ''/home/work/data'')])]"
  by code_simp

theorem enqueued_mounts_confined_witness:
  "\<exists>sid s' r vm. demo_with_folder = Inr (sid, s') \<and> r \<in> set (db_kernels s') \<and> vm \<in> set (k_vfolder_mounts r) \<and>
     is_relative_to (sv_resolve demo_storage (vm_host_path vm)) (sv_resolve demo_storage (mangle_vfpath (parse_path ''/vfroot'') ''abcdef''))"
proof -
  have "\<exists>p. demo_with_folder = Inr p"
  proof (cases demo_with_folder)
    case (Inl e)
    have False using demo_folder_mounted unfolding Inl by simp
    then show ?thesis ..
  qed blast
  then obtain sid s' where r: "demo_with_folder = Inr (sid, s')" by auto
  obtain k vm where k: "db_kernels s' = [k]" "k_vfolder_mounts k = [vm]"
    using demo_folder_mounted unfolding r by (auto simp: map_eq_Cons_conv)
  have "sv_volumes demo_storage = [(''v'', parse_path ''/vfroot'')]" by (simp add: demo_storage_def)
  moreover have "snd (split_host ''p:v'') = ''v''" by code_simp
  moreover note enqueued_mounts_confined[OF r[unfolded demo_with_folder_def], of k vm]
  ultimately have "is_relative_to (sv_resolve demo_storage (vm_host_path vm)) (sv_resolve demo_storage (mangle_vfpath (parse_path ''/vfroot'') ''abcdef''))"
    using k by (auto simp: demo_folders_def demo_enqueue_env_def demo_db_def demo_folder_def)
  with r k show ?thesis by (intro exI[of _ sid] exI[of _ s'] exI[of _ k] exI[of _ vm]) simp
qed

theorem kernel_slots_bounds_witness:
  "\<exists>req opts. kernel_slots INTRINSIC_SLOTS (hd (ct_images demo_catalog)) (ke_creation_config (demo_config demo_wanted)) = Inr (req, opts) \<and>
     (\<exists>shmem. size_amount shmem < slot_val req ''mem'')"
proof -
  let ?k = "kernel_slots INTRINSIC_SLOTS (hd (ct_images demo_catalog)) (ke_creation_config (demo_config demo_wanted))"
  have "map_sum id fst ?k = Inr [(''cpu'', Fin 2), (''mem'', Fin 1073741824)]" by code_simp
  then obtain req opts where k: "?k = Inr (req, opts)" by (cases ?k) auto
  from kernel_slots_bounds[OF k] k show ?thesis by blast
qed

text \<open>
  The check against the image's minimum accepts requests below it: the image requires two units
  of \<open>cpu\<close>, a request for one is enqueued, because it asks for more memory than the minimum.
\<close>
theorem below_minimum_accepted:
  "map_sum id (\<lambda>p. fst p) (kernel_slots INTRINSIC_SLOTS
     \<lparr>im_name = ''python'', im_registry = ''r'', im_architecture = ''x86_64'', im_config_digest = ''sha'', im_labels = [],
      im_resources = [(''cpu'', (Some ''2'', None))]\<rparr>
     (ke_creation_config (demo_config [(''cpu'', Some (VStr ''1'')), (''mem'', Some (VStr ''1g''))]))) =
   Inr [(''cpu'', Fin 1), (''mem'', Fin 1073741824)]"
  by code_simp

text \<open>An infinite amount of memory is accepted when the image has no maximum.\<close>

lemma infinite_memory_accepted:
  "map_sum id (\<lambda>p. fst p) (kernel_slots INTRINSIC_SLOTS (hd (ct_images demo_catalog))
     (ke_creation_config (demo_config [(''cpu'', Some (VStr ''1'')), (''mem'', Some (VStr ''inf''))]))) =
   Inr [(''cpu'', Fin 1), (''mem'', PInf)]"
  by code_simp

text \<open>
  A session can be made to depend on itself: the dependencies are looked up after its own rows
  were inserted, so the name of an earlier session that the new session shares is resolved to the
  new session, the latest one of that name.  It then waits for its own success.
\<close>
theorem self_dependency:
  "map_sum id (\<lambda>(sid, s). (db_dependencies s, map_sum id (\<lambda>(r, _). pr_passed r) (check_dependencies (demo_session sid ''AK'' None) s)))
     (enqueue_session demo_enqueue_env demo_catalog (demo_enqueue ''train'' 1 [''train''] demo_wanted)
       (demo_db [(demo_kernel ''old'' ''old'' ''main'' TERMINATED [] None)\<lparr>k_session_name := ''train''\<rparr>] [])) =
   Inr ([(''new'', ''new'')], Inr False)"
  by code_simp

end
