(* ===== verification/CreateApi.thy ===== *)
theory CreateApi
  imports Auth Enqueueing
begin

text \<open>
  The request that creates a session (\<open>create_from_params\<close>, \<open>_create\<close>, \<open>_query_userinfo\<close> of
  \<open>manager/api/session.py\<close>): on whose behalf, in which group, under which image, with which mounts; an
  existing session is returned instead if there is one.  Times are in microseconds.  The ISO parser,
  the test for IP addresses in image names, the token, the wait for the start of the session (which
  lets the rest of the system change the database, or times out) are arguments (\<open>create_env\<close>).  The
  request has passed its schema.
\<close>

section \<open>Durations\<close>

text \<open>
  \<open>str_to_timedelta\<close> (\<open>common/utils.py\<close>): its regular expression reads an optional sign, then
  numbers of days, hours, minutes and seconds in this order, each optional and with one of its units.
  Floats are taken as the exact values of their texts; the result is in microseconds, rounded to even.
\<close>

definition take_number :: "string \<Rightarrow> (rat \<times> string) option" where
  "take_number s =
     (let whole = takeWhile is_digit s; r = dropWhile is_digit s
      in if whole = [] then None
         else case r of
                c # d # ds \<Rightarrow>
                  if c = CHR ''.'' \<and> is_digit d then
                    (let frac = takeWhile is_digit (d # ds)
                     in map_option (\<lambda>n. (of_nat n / 10 ^ length frac, dropWhile is_digit (d # ds))) (parse_nat (whole @ frac)))
                  else map_option (\<lambda>n. (of_nat n, r)) (parse_nat whole)
              | _ \<Rightarrow> map_option (\<lambda>n. (of_nat n, r)) (parse_nat whole))"

definition time_units :: "(rat \<times> string list) list" where
  "time_units =
     [(86400, [''d'', ''day'', ''days'']), (3600, [''h'', ''hr'', ''hrs'', ''hour'', ''hours'']),
      (60, [''m'', ''min'', ''mins'', ''minute'', ''minutes'']), (1, [''s'', ''sec'', ''secs'', ''second'', ''seconds''])]"

fun take_groups :: "(rat \<times> string list) list \<Rightarrow> string \<Rightarrow> rat list \<times> string" where
  "take_groups [] s = ([], s)"
| "take_groups ((secs, units) # gs) s0 =
     (let s = dropWhile is_space s0; skip = (case take_groups gs s of (vs, r) \<Rightarrow> (vs, r))
      in case take_number s of
           None \<Rightarrow> skip
         | Some (x, r) \<Rightarrow>
             if takeWhile ascii_alpha r \<in> set units then
               (case take_groups gs (dropWhile ascii_alpha r) of (vs, r') \<Rightarrow> (x * secs # vs, r'))
             else skip)"

definition round_half_even :: "rat \<Rightarrow> int" where
  "round_half_even x = (let f = floor x; d = x - of_int f in if d < 1/2 then f else if d > 1/2 then f + 1 else if even f then f else f + 1)"

definition str_to_timedelta :: "string \<Rightarrow> int res" where
  "str_to_timedelta tstr =
     (let (sign, s) = (case tstr of c # cs \<Rightarrow> if c \<in> set ''+|-'' then ([c], cs) else ([], tstr) | [] \<Rightarrow> ([], []));
          (vs, r) = take_groups time_units s
      in if drop_newline r = [] then
           (if vs = [] then Inl ValueError else Inr (round_half_even (10 ^ 6 * (if sign = ''-'' then - sum_list vs else sum_list vs))))
         else case parse_decimal tstr of
                Inr (Num d) \<Rightarrow> (case dvalue d of Fin x \<Rightarrow> Inr (round_half_even (10 ^ 6 * x)) | _ \<Rightarrow> Inl OverflowError)
              | _ \<Rightarrow> Inl ValueError)"

lemma str_to_timedelta_examples:
  "str_to_timedelta ''30min'' = Inr (1800 * 10 ^ 6)" "str_to_timedelta ''1d1hr'' = Inr (90000 * 10 ^ 6)"
  "str_to_timedelta ''2hours 15min'' = Inr (8100 * 10 ^ 6)" "str_to_timedelta ''20sec'' = Inr (20 * 10 ^ 6)"
  "str_to_timedelta ''300'' = Inr (300 * 10 ^ 6)" "str_to_timedelta ''-1day'' = Inr (- 86400 * 10 ^ 6)"
  by code_simp+

section \<open>Mount aliases\<close>

definition RESERVED_VFOLDERS :: "string list" where
  "RESERVED_VFOLDERS =
     [''.terminfo'', ''.jupyter'', ''.tmux.conf'', ''.ssh'', ''/bin'', ''/boot'', ''/dev'', ''/etc'', ''/lib'', ''/lib64'', ''/media'', ''/mnt'',
      ''/opt'', ''/proc'', ''/root'', ''/run'', ''/sbin'', ''/srv'', ''/sys'', ''/tmp'', ''/usr'', ''/var'', ''/home'']"

text \<open>A point, lower-case letters and digits, and the suf.\<close>

definition reserved_pattern :: "string \<Rightarrow> string \<Rightarrow> bool" where
  "reserved_pattern suf s0 \<longleftrightarrow>
     (let s = drop_newline s0; n = length s - length suf
      in n > 1 \<and> hd s = CHR ''.'' \<and> drop n s = suf \<and>
         list_all (\<lambda>c. CHR ''a'' \<le> c \<and> c \<le> CHR ''z'' \<or> is_digit c) (take (n - 1) (tl s)))"

definition verify_vfolder_name :: "string \<Rightarrow> bool" where
  "verify_vfolder_name folder \<longleftrightarrow>
     folder \<notin> set RESERVED_VFOLDERS \<and> \<not> reserved_pattern ''rc'' folder \<and> \<not> reserved_pattern ''_profile'' folder"

text \<open>\<open>s.replace(p, "")\<close> for a non-empty \<open>p\<close>.\<close>

function remove_all :: "string \<Rightarrow> string \<Rightarrow> string" where
  "remove_all p [] = []"
| "remove_all p (c # cs) = (if p \<noteq> [] \<and> take (length p) (c # cs) = p then remove_all p (drop (length p) (c # cs)) else c # remove_all p cs)"
  by pat_completeness auto
termination by (relation "measure (\<lambda>(_, s). length s)") (auto simp: neq_Nil_conv)

definition alias_folder :: "string \<Rightarrow> string" where
  "alias_folder a = (if take 11 a = ''/home/work/'' then remove_all ''/home/work/'' a else a)"

definition check_mount_map :: "(string, string) dict option \<Rightarrow> unit res" where
  "check_mount_map mount_map =
     (case mount_map of
        None \<Rightarrow> Inr ()
      | Some m \<Rightarrow>
          if \<not> distinct (map snd m) then Inl InvalidAPIParameters
          else if list_all (\<lambda>a. alias_folder a \<noteq> [] \<and> verify_vfolder_name (alias_folder a) \<and> alias_folder a \<notin> set (keys m)) (map snd m)
          then Inr () else Inl InvalidAPIParameters)"

section \<open>Domain, group and policy\<close>

definition find_group :: "catalog \<Rightarrow> string option \<Rightarrow> string \<Rightarrow> (group_row \<Rightarrow> bool) \<Rightarrow> string option" where
  "find_group ct domain_name group_name extra =
     map_option g_id (List.find (\<lambda>g. Some (g_domain_name g) = domain_name \<and> g_name g = group_name \<and> g_is_active g \<and> extra g) (ct_groups ct))"

definition owner_info :: "catalog \<Rightarrow> db \<Rightarrow> auth_state \<Rightarrow> string \<Rightarrow> string \<Rightarrow> (string option \<times> string \<times> user_role \<times> policy_row option) res" where
  "owner_info ct s st requester owner =
     (if requester \<noteq> owner then
        (case Option.bind (List.find (\<lambda>k. kp_access_key k = owner) (ct_keypairs ct)) (\<lambda>k.
                map_option (\<lambda>u. (k, u)) (List.find (\<lambda>u. u_uuid u = kp_user k) (ct_users ct))) of
           None \<Rightarrow> Inl TypeError
         | Some (k, u) \<Rightarrow> Inr (u_domain_name u, kp_user k, u_role u, map_of (db_policies s) (kp_resource_policy k)))
      else (case as_user st of None \<Rightarrow> Inl TypeError | Some u \<Rightarrow> Inr (u_domain_name u, u_uuid u, USER, as_resource_policy st)))"

definition query_userinfo :: "catalog \<Rightarrow> db \<Rightarrow> auth_state \<Rightarrow> string option \<Rightarrow> string \<Rightarrow> string option \<Rightarrow> (string \<times> string \<times> policy_row option) res" where
  "query_userinfo ct s st domain group_name owner_access_key =
     bindE (get_access_key_scopes ct st owner_access_key) (\<lambda>(requester, owner).
     bindE (owner_info ct s st requester owner) (\<lambda>(owner_domain, owner_uuid, owner_role, resource_policy).
       if \<not> list_ex (\<lambda>d. Some (d_name d) = owner_domain \<and> d_is_active d) (ct_domains ct) then Inl InvalidAPIParameters
       else bindE (if owner_role = SUPERADMIN then Inr (find_group ct domain group_name (\<lambda>_. True))
                   else if domain \<noteq> owner_domain then Inl InvalidAPIParameters
                   else if owner_role = ADMIN then Inr (find_group ct owner_domain group_name (\<lambda>_. True))
                   else Inr (find_group ct owner_domain group_name (\<lambda>g. (owner_uuid, g_id g) \<in> set (ct_agus ct)))) (\<lambda>group_id.
         case group_id of None \<Rightarrow> Inl InvalidAPIParameters | Some g \<Rightarrow> Inr (owner_uuid, g, resource_policy))))"

section \<open>Creating\<close>

record create_params =
  cp_session_name :: string
  cp_image :: string
  cp_architecture :: string
  cp_session_type :: session_types
  cp_group :: string
  cp_domain :: "string option"
  cp_cluster_size :: int
  cp_cluster_mode :: cluster_mode
  cp_config :: creation_config
  cp_scaling_group :: "string option"
  cp_agent_list :: "string list option"
  cp_tag :: "string option"
  cp_enqueue_only :: bool
  cp_starts_at :: "string option"
  cp_reuse :: bool
  cp_startup_command :: "string option"
  cp_bootstrap_script :: "string option"
  cp_dependencies :: "string list option"
  cp_callback_url :: "string option"
  cp_owner_access_key :: "string option"

record create_env =
  ce_enqueue :: enqueue_env
  ce_token :: string
  ce_is_ip :: "string \<Rightarrow> bool"
  ce_isoparse :: "string \<Rightarrow> int res"
  ce_wait :: "db \<Rightarrow> db option"

record create_response =
  cr_session_id :: string
  cr_session_name :: string
  cr_status :: string
  cr_service_ports :: json
  cr_created :: bool

definition image_ref_of :: "parsed_ref \<Rightarrow> image_ref" where
  "image_ref_of r = \<lparr>ir_image = canonical r, ir_registry = pi_registry r, ir_architecture = pi_arch r\<rparr>"

text \<open>The image of the request, which must come from a registry its domain allows.\<close>

definition requested_image :: "create_env \<Rightarrow> catalog \<Rightarrow> create_params \<Rightarrow> string option \<Rightarrow> parsed_ref res" where
  "requested_image env ct p domain =
     bindE (ImageRef (ce_is_ip env) (Some [''*'']) (cp_architecture p) (cp_image p)) (\<lambda>ref.
     bindE (image_resolve ct False [RefImage (image_ref_of ref), RefAlias (cp_image p)]) (\<lambda>row.
     bindE (ImageRef (ce_is_ip env) (Some [im_registry row]) (im_architecture row) (im_name row)) (\<lambda>requested.
       case List.find (\<lambda>d. Some (d_name d) = domain) (ct_domains ct) of
         None \<Rightarrow> Inl TypeError
       | Some d \<Rightarrow> if pi_registry requested \<in> set (d_allowed_docker_registries d) then Inr requested else Inl ImageNotFound)))"

text \<open>A session that the name finds is reused, or reported as existing; \<open>None\<close> when there is none.\<close>

definition reused_session :: "create_env \<Rightarrow> create_params \<Rightarrow> string \<Rightarrow> parsed_ref \<Rightarrow> db \<Rightarrow> create_response option res" where
  "reused_session env p owner requested s =
     (case get_session (cp_session_name p) owner False s of
        Inl e \<Rightarrow> if e = SessionNotFound then Inr None else Inl e
      | Inr kern \<Rightarrow>
          bindE (ImageRef (ce_is_ip env) (Some [k_registry kern]) (k_architecture kern) (k_image kern)) (\<lambda>running.
            if \<not> ref_eq running requested \<or> \<not> cp_reuse p then Inl SessionAlreadyExists
            else Inr (Some \<lparr>cr_session_id = k_id kern, cr_session_name = k_session_name kern, cr_status = status_name (k_status kern),
                   cr_service_ports = (case k_service_ports kern of None \<Rightarrow> JNull | Some j \<Rightarrow> j), cr_created = False\<rparr>)))"

definition starts_at_of :: "create_env \<Rightarrow> create_params \<Rightarrow> int option res" where
  "starts_at_of env p =
     (if cp_session_type p = BATCH \<and> \<not> truthy (cp_startup_command p) then Inl InvalidAPIParameters
      else if cp_session_type p \<noteq> BATCH \<and> truthy (cp_starts_at p) then Inl InvalidAPIParameters
      else if \<not> truthy (cp_starts_at p) then Inr None
      else case ce_isoparse env (the (cp_starts_at p)) of
             Inr t \<Rightarrow> Inr (Some t)
           | Inl e \<Rightarrow>
               if e = ValueError then bindE (str_to_timedelta (the (cp_starts_at p))) (\<lambda>td. Inr (Some (en_now (ce_enqueue env) + td)))
               else Inl e)"

definition bootstrap_of :: "catalog \<Rightarrow> create_params \<Rightarrow> string \<Rightarrow> string option res" where
  "bootstrap_of ct p owner =
     (if truthy (cp_bootstrap_script p) then Inr (cp_bootstrap_script p)
      else case List.find (\<lambda>k. kp_access_key k = owner) (ct_keypairs ct) of
             None \<Rightarrow> Inl TypeError | Some k \<Rightarrow> Inr (Some (kp_bootstrap_script k)))"

definition enqueue_request_of :: "create_env \<Rightarrow> create_params \<Rightarrow> string \<Rightarrow> parsed_ref \<Rightarrow> int option \<Rightarrow> string option \<Rightarrow>
    string \<Rightarrow> string \<Rightarrow> policy_row \<Rightarrow> user_role \<Rightarrow> string \<Rightarrow> enqueue_request" where
  "enqueue_request_of env p owner requested starts_at script owner_uuid group_id policy role domain =
     \<lparr>er_session_creation_id = ce_token env, er_session_name = cp_session_name p, er_access_key = owner,
      er_kernel_configs = [\<lparr>ke_image_ref = image_ref_of requested, ke_cluster_role = DEFAULT_ROLE, ke_cluster_idx = 1,
        ke_creation_config = cp_config p, ke_bootstrap_script = script, ke_startup_command = cp_startup_command p\<rparr>],
      er_scaling_group = cp_scaling_group p, er_session_type = cp_session_type p, er_resource_policy = policy,
      er_user_scope = \<lparr>us_domain_name = domain, us_group_id = group_id, us_user_uuid = owner_uuid, us_user_role = role\<rparr>,
      er_cluster_mode = cp_cluster_mode p, er_cluster_size = cp_cluster_size p, er_session_tag = cp_tag p, er_internal_data = [],
      er_starts_at = starts_at, er_agent_list = (case cp_agent_list p of None \<Rightarrow> [] | Some l \<Rightarrow> l),
      er_dependency_sessions = (case cp_dependencies p of None \<Rightarrow> [] | Some l \<Rightarrow> l), er_callback_url = cp_callback_url p\<rparr>"

text \<open>The service ports of a running kernel as the client sees them.\<close>

definition port_item :: "json \<Rightarrow> json res" where
  "port_item item =
     (case item of
        JObj ob \<Rightarrow>
          bindE (dget ob ''name'') (\<lambda>nm. bindE (dget ob ''protocol'') (\<lambda>proto. bindE (dget ob ''container_ports'') (\<lambda>ports.
            Inr (JObj ([(''name'', nm), (''protocol'', proto), (''ports'', ports)] @
              filter (\<lambda>(k, _). k \<in> {''url_template'', ''allowed_arguments'', ''allowed_envs''}) ob)))))
      | _ \<Rightarrow> Inl TypeError)"

definition started_response :: "db \<Rightarrow> string \<Rightarrow> create_response \<Rightarrow> create_response res" where
  "started_response s kernel_id resp =
     (case find (\<lambda>r. k_id r = kernel_id) (db_kernels s) of
        None \<Rightarrow> Inl TypeError
      | Some row \<Rightarrow>
          if k_status row = RUNNING then
            (case k_service_ports row of
               Some (JArr items) \<Rightarrow> bindE (mapE port_item items) (\<lambda>ports. Inr (resp\<lparr>cr_status := ''RUNNING'', cr_service_ports := JArr ports\<rparr>))
             | _ \<Rightarrow> Inl TypeError)
          else Inr (resp\<lparr>cr_status := status_name (k_status row)\<rparr>))"

text \<open>The \<open>except\<close> clauses around the enqueueing.\<close>

definition create_error :: "py_exc \<Rightarrow> py_exc" where
  "create_error e = (if is_backend_error e then e else if e = UnknownImageReference then UnknownImageReferenceError else InternalServerError)"

definition enqueue_and_wait :: "create_env \<Rightarrow> catalog \<Rightarrow> create_params \<Rightarrow> enqueue_request \<Rightarrow> db \<Rightarrow> create_response res \<times> db" where
  "enqueue_and_wait env ct p rq s =
     (case enqueue_session (ce_enqueue env) ct rq s of
        Inl e \<Rightarrow> (Inl (create_error e), s)
      | Inr (kernel_id, s1) \<Rightarrow>
          let resp = \<lparr>cr_session_id = kernel_id, cr_session_name = cp_session_name p, cr_status = ''PENDING'', cr_service_ports = JArr [], cr_created = True\<rparr>
          in if cp_enqueue_only p then (Inr resp, s1)
             else (case ce_wait env s1 of
                     None \<Rightarrow> (Inr (resp\<lparr>cr_status := ''TIMEOUT''\<rparr>), s1)
                   | Some s2 \<Rightarrow> (case started_response s2 kernel_id resp of Inl e \<Rightarrow> (Inl (create_error e), s2) | Inr r \<Rightarrow> (Inr r, s2))))"

text \<open>
  The whole request.  The second component is the tracker of sessions that are being created, as
  it is when the request ends: the entry is removed in the \<open>finally\<close> clause of the enqueueing.
\<close>

definition create_checks :: "create_env \<Rightarrow> catalog \<Rightarrow> auth_state \<Rightarrow> create_params \<Rightarrow> string option \<Rightarrow> db \<Rightarrow> (string \<times> parsed_ref \<times> create_response option) res" where
  "create_checks env ct st p domain s =
     bindE (get_access_key_scopes ct st (cp_owner_access_key p)) (\<lambda>(requester, owner).
     bindE (check_mount_map (cc_mount_map (cp_config p))) (\<lambda>_.
     bindE (requested_image env ct p domain) (\<lambda>requested.
     bindE (reused_session env p owner requested s) (\<lambda>existing. Inr (owner, requested, existing)))))"

definition create_owner :: "catalog \<Rightarrow> auth_state \<Rightarrow> create_params \<Rightarrow> string option \<Rightarrow> string \<Rightarrow> db \<Rightarrow> (string \<times> string \<times> policy_row option \<times> string option) res" where
  "create_owner ct st p domain owner s =
     bindE (query_userinfo ct s st domain (cp_group p) (cp_owner_access_key p)) (\<lambda>(owner_uuid, group_id, policy).
     bindE (bootstrap_of ct p owner) (\<lambda>script. Inr (owner_uuid, group_id, policy, script)))"

definition create_session :: "create_env \<Rightarrow> catalog \<Rightarrow> auth_state \<Rightarrow> create_params \<Rightarrow> string list \<times> db \<Rightarrow> create_response res \<times> string list \<times> db" where
  "create_session env ct st p ts =
     (case ts of (tracker, s) \<Rightarrow>
        let domain = (case cp_domain p of Some d \<Rightarrow> Some d | None \<Rightarrow> Option.bind (as_user st) u_domain_name)
        in (case create_checks env ct st p domain s of
              Inl e \<Rightarrow> (Inl e, tracker, s)
            | Inr (owner, requested, Some resp) \<Rightarrow> (Inr resp, tracker, s)
            | Inr (owner, requested, None) \<Rightarrow>
                (case starts_at_of env p of
                   Inl e \<Rightarrow> (Inl e, tracker, s)
                 | Inr starts_at \<Rightarrow>
                     (case create_owner ct st p domain owner s of
                        Inl e \<Rightarrow> (Inl e, ce_token env # tracker, s)
                      | Inr (owner_uuid, group_id, policy, script) \<Rightarrow>
                          (case (domain, policy, as_user st) of
                             (Some d, Some pol, Some me) \<Rightarrow>
                               (case enqueue_and_wait env ct p
                                      (enqueue_request_of env p owner requested starts_at script owner_uuid group_id pol (u_role me) d) s of
                                  (r, s1) \<Rightarrow> (r, tracker, s1))
                           | _ \<Rightarrow> (Inl InternalServerError, tracker, s))))))"

text \<open>\<open>create_from_params\<close>: only the schema of version 6 has the key \<open>agent_list\<close>.\<close>

definition check_agent_list :: "user_role \<Rightarrow> create_params \<Rightarrow> unit res" where
  "check_agent_list role p =
     (if cp_agent_list p \<noteq> None \<and> role \<noteq> SUPERADMIN then Inl InsufficientPrivilege
      else case cp_agent_list p of
             Some (a # as) \<Rightarrow>
               if role = SUPERADMIN \<and>
                  (if cp_cluster_mode p = MULTI_NODE then int (length (a # as)) \<noteq> cp_cluster_size p else length (a # as) \<noteq> 1)
               then Inl InvalidAPIParameters else Inr ()
           | _ \<Rightarrow> Inr ())"

definition create_from_params :: "create_env \<Rightarrow> catalog \<Rightarrow> auth_state \<Rightarrow> int \<Rightarrow> create_params \<Rightarrow> string list \<times> db \<Rightarrow> create_response res \<times> string list \<times> db" where
  "create_from_params env ct st api_major p ts =
     (if cp_session_name p = ''from-template'' \<or> api_major < 1 then (Inl InvalidAPIParameters, ts)
      else if api_major < 6 then (Inl KeyError, ts)
      else case as_user st of
             None \<Rightarrow> (Inl TypeError, ts)
           | Some me \<Rightarrow> (case check_agent_list (u_role me) p of Inl e \<Rightarrow> (Inl e, ts) | Inr _ \<Rightarrow> create_session env ct st p ts))"

section \<open>What is created\<close>

lemma create_phases:
  assumes "create_session env ct st p (tracker, s) = (Inr resp, tracker', s')" and "cr_created resp"
  obtains requester owner requested starts_at script owner_uuid group_id pol me d where
    "get_access_key_scopes ct st (cp_owner_access_key p) = Inr (requester, owner)"
    "reused_session env p owner requested s = Inr None" "requested_image env ct p (Some d) = Inr requested"
    "query_userinfo ct s st (Some d) (cp_group p) (cp_owner_access_key p) = Inr (owner_uuid, group_id, Some pol)"
    "enqueue_and_wait env ct p (enqueue_request_of env p owner requested starts_at script owner_uuid group_id pol (u_role me) d) s = (Inr resp, s')"
    "tracker' = tracker" "as_user st = Some me" "check_mount_map (cc_mount_map (cp_config p)) = Inr ()"
proof -
  define dom where "dom = (case cp_domain p of Some d \<Rightarrow> Some d | None \<Rightarrow> Option.bind (as_user st) u_domain_name)"
  have old: "\<not> cr_created r" if "reused_session env p owner requested t = Inr (Some r)" for owner requested r t
    using that by (auto simp: reused_session_def bindE_eq_Inr_iff split: sum.splits if_splits)
  from assms obtain owner requested starts_at owner_uuid group_id pol me d script where
    c: "create_checks env ct st p dom s = Inr (owner, requested, None)" and o: "create_owner ct st p dom owner s = Inr (owner_uuid, group_id, Some pol, script)"
    and d: "dom = Some d" and me: "as_user st = Some me" and t: "tracker' = tracker"
    and e: "enqueue_and_wait env ct p (enqueue_request_of env p owner requested starts_at script owner_uuid group_id pol (u_role me) d) s = (Inr resp, s')"
    unfolding create_session_def dom_def[symmetric] Let_def prod.case
    by (auto split: sum.splits prod.splits option.splits simp: create_checks_def bindE_eq_Inr_iff dest!: old)
  show ?thesis using that[OF _ _ _ _ e t me] c o unfolding create_checks_def create_owner_def d by (auto simp: bindE_eq_Inr_iff)
qed

text \<open>The rows an enqueued request adds, when the client does not wait for the start.\<close>

lemma enqueue_and_wait_rows:
  assumes "enqueue_and_wait env ct p rq s = (Inr resp, s')" and "cp_enqueue_only p" and "er_kernel_configs rq \<noteq> []"
  shows "\<exists>rows sgroup. rows \<noteq> [] \<and> db_kernels s' = db_kernels s @ rows \<and> list_all (fresh_row (ce_enqueue env) rq sgroup) rows"
proof -
  from assms(1,2) obtain sid where e: "enqueue_session (ce_enqueue env) ct rq s = Inr (sid, s')"
    by (auto simp: enqueue_and_wait_def Let_def split: sum.splits)
  obtain sgroup mounts idata environ configs rows s1 where ph:
    "replicate_configs (er_cluster_size rq) (er_kernel_configs rq) = Inr configs"
    "mapE (enqueue_kernel (ce_enqueue env) ct rq s sgroup mounts idata environ) (zip [0..<length configs] configs) = Inr rows"
    "enqueue_transaction (ce_enqueue env) rq rows s = Inr s1"
    "s' = produce_event (SessionEnqueuedEvent (en_session_id (ce_enqueue env)) (er_session_creation_id rq)) s1"
    by (rule enqueue_phases[OF e])
  have "configs \<noteq> []" using ph(1) assms(3) by (auto simp: replicate_configs_def split: if_splits list.splits)
  then show ?thesis using enqueued_rows[OF ph(2)] enqueue_transaction_spec[OF ph(3)] ph(4)
    by (intro exI[of _ rows] exI[of _ sgroup]) auto
qed

lemma requested_image_allowed:
  assumes "requested_image env ct p (Some d) = Inr ref"
  shows "\<exists>dr. dr \<in> set (ct_domains ct) \<and> d_name dr = d \<and> pi_registry ref \<in> set (d_allowed_docker_registries dr)"
proof -
  from assms obtain r where r: "(case List.find (\<lambda>x. Some (d_name x) = Some d) (ct_domains ct) of None \<Rightarrow> Inl TypeError
      | Some x \<Rightarrow> if pi_registry r \<in> set (d_allowed_docker_registries x) then Inr r else Inl ImageNotFound) = Inr ref"
    unfolding requested_image_def bindE_eq_Inr_iff by blast
  show ?thesis
  proof (cases "List.find (\<lambda>x. Some (d_name x) = Some d) (ct_domains ct)")
    case (Some x)
    with r have "pi_registry ref \<in> set (d_allowed_docker_registries x)" by (auto split: if_splits)
    moreover from Some have "x \<in> set (ct_domains ct) \<and> d_name x = d" by (auto simp: find_Some_iff)
    ultimately show ?thesis by blast
  qed (use r in simp)
qed

lemma find_group_member:
  assumes "find_group ct odom nm P = Some i"
  shows "\<exists>g\<in>set (ct_groups ct). g_id g = i \<and> Some (g_domain_name g) = odom \<and> g_name g = nm \<and> g_is_active g \<and> P g"
  using assms by (auto simp: find_group_def find_Some_iff)

lemma query_userinfoD:
  assumes "query_userinfo ct s st (Some d) nm owner_key = Inr (uuid, gid, pol)"
    and "get_access_key_scopes ct st owner_key = Inr (requester, owner)"
  shows "\<exists>g\<in>set (ct_groups ct). g_id g = gid \<and> g_domain_name g = d \<and> g_name g = nm \<and> g_is_active g \<and>
    (\<exists>odom role. owner_info ct s st requester owner = Inr (odom, uuid, role, pol) \<and>
       (\<exists>dr\<in>set (ct_domains ct). Some (d_name dr) = odom \<and> d_is_active dr) \<and> (role \<noteq> SUPERADMIN \<longrightarrow> odom = Some d) \<and> (role \<notin> {SUPERADMIN, ADMIN} \<longrightarrow> (uuid, gid) \<in> set (ct_agus ct)))"
proof -
  obtain odom role where o: "owner_info ct s st requester owner = Inr (odom, uuid, role, pol)"
    and act: "\<exists>dr\<in>set (ct_domains ct). Some (d_name dr) = odom \<and> d_is_active dr"
    and q: "(if role = SUPERADMIN then Inr (find_group ct (Some d) nm (\<lambda>_. True)) else if Some d \<noteq> odom then Inl InvalidAPIParameters
       else if role = ADMIN then Inr (find_group ct odom nm (\<lambda>_. True))
       else Inr (find_group ct odom nm (\<lambda>g. (uuid, g_id g) \<in> set (ct_agus ct)))) = (Inr (Some gid) :: string option res)"
  proof (cases "owner_info ct s st requester owner")
    case (Inr x)
    obtain a b c e where x: "x = (a, b, c, e)" by (cases x)
    with Inr assms show ?thesis
      unfolding query_userinfo_def assms(2) by (cases "c = SUPERADMIN"; cases "Some d = a"; cases "c = ADMIN") (auto simp: list_ex_iff intro!: that split: if_splits option.splits)
  qed (use assms in \<open>simp add: query_userinfo_def\<close>)
  then have odom: "role \<noteq> SUPERADMIN \<longrightarrow> odom = Some d" and
    g: "(if role = SUPERADMIN then find_group ct (Some d) nm (\<lambda>_. True) else if role = ADMIN then find_group ct odom nm (\<lambda>_. True)
       else find_group ct odom nm (\<lambda>g. (uuid, g_id g) \<in> set (ct_agus ct))) = Some gid" by (auto split: if_splits)
  show ?thesis
  proof (cases "role = SUPERADMIN")
    case True
    with g find_group_member[of ct "Some d" nm "\<lambda>_. True" gid] o act show ?thesis by auto
  next
    case False
    with odom g have "\<exists>g\<in>set (ct_groups ct). g_id g = gid \<and> g_domain_name g = d \<and> g_name g = nm \<and> g_is_active g \<and> (role \<noteq> ADMIN \<longrightarrow> (uuid, gid) \<in> set (ct_agus ct))"
      by (auto split: if_splits dest!: find_group_member)
    with False odom o act show ?thesis by blast
  qed
qed

text \<open>
  C5: A session that a request creates (and does not wait for) belongs to the keypair the requester
  may act for: all its rows carry that keypair, the keypair's user, and an active group of the
  requested name in the session's domain.  The owner's domain is active, and it is the session's domain
  unless the owner is a superadmin (then the session's own domain is not checked to be active); an
  owner who is no administrator is a member of the group.  Its image comes from a registry the domain
  allows, no live session of the keypair answered to the requested name, and the tracker is as before.
\<close>
theorem created_session_owned:
  assumes "create_session env ct st p (tracker, s) = (Inr resp, tracker', s')" and "cr_created resp" and "cp_enqueue_only p"
  shows "\<exists>requester owner uuid d g rows. get_access_key_scopes ct st (cp_owner_access_key p) = Inr (requester, owner) \<and>
    get_session (cp_session_name p) owner False s = Inl SessionNotFound \<and>
    rows \<noteq> [] \<and> db_kernels s' = db_kernels s @ rows \<and> tracker' = tracker \<and>
    list_all (\<lambda>r. k_status r = PENDING \<and> k_access_key r = owner \<and> k_user_uuid r = uuid \<and> k_domain_name r = d \<and> k_group_id r = g_id g \<and>
      k_session_name r = cp_session_name p) rows \<and>
    g \<in> set (ct_groups ct) \<and> g_domain_name g = d \<and> g_name g = cp_group p \<and> g_is_active g \<and>
    (\<exists>odom role pol. owner_info ct s st requester owner = Inr (odom, uuid, role, pol) \<and>
       (\<exists>dr\<in>set (ct_domains ct). Some (d_name dr) = odom \<and> d_is_active dr) \<and> (role \<noteq> SUPERADMIN \<longrightarrow> odom = Some d) \<and>
       (role \<notin> {SUPERADMIN, ADMIN} \<longrightarrow> (uuid, g_id g) \<in> set (ct_agus ct))) \<and>
    (\<exists>ref dr. requested_image env ct p (Some d) = Inr ref \<and> dr \<in> set (ct_domains ct) \<and> d_name dr = d \<and> pi_registry ref \<in> set (d_allowed_docker_registries dr))"
proof -
  obtain requester owner requested starts_at script uuid gid pol me d where ph:
    "get_access_key_scopes ct st (cp_owner_access_key p) = Inr (requester, owner)"
    "reused_session env p owner requested s = Inr None" "requested_image env ct p (Some d) = Inr requested"
    "query_userinfo ct s st (Some d) (cp_group p) (cp_owner_access_key p) = Inr (uuid, gid, Some pol)"
    "enqueue_and_wait env ct p (enqueue_request_of env p owner requested starts_at script uuid gid pol (u_role me) d) s = (Inr resp, s')"
    "tracker' = tracker" "as_user st = Some me" "check_mount_map (cc_mount_map (cp_config p)) = Inr ()"
    by (rule create_phases[OF assms(1,2)])
  let ?rq = "enqueue_request_of env p owner requested starts_at script uuid gid pol (u_role me) d"
  obtain rows sgroup where r: "rows \<noteq> []" "db_kernels s' = db_kernels s @ rows" "list_all (fresh_row (ce_enqueue env) ?rq sgroup) rows"
    using enqueue_and_wait_rows[OF ph(5) assms(3)] by (auto simp: enqueue_request_of_def)
  obtain g where g: "g \<in> set (ct_groups ct)" "g_id g = gid" "g_domain_name g = d" "g_name g = cp_group p" "g_is_active g"
    "\<exists>odom role. owner_info ct s st requester owner = Inr (odom, uuid, role, Some pol) \<and>
       (\<exists>dr\<in>set (ct_domains ct). Some (d_name dr) = odom \<and> d_is_active dr) \<and> (role \<noteq> SUPERADMIN \<longrightarrow> odom = Some d) \<and> (role \<notin> {SUPERADMIN, ADMIN} \<longrightarrow> (uuid, gid) \<in> set (ct_agus ct))"
    using query_userinfoD[OF ph(4,1)] by auto
  have rows: "list_all (\<lambda>r. k_status r = PENDING \<and> k_access_key r = owner \<and> k_user_uuid r = uuid \<and> k_domain_name r = d \<and> k_group_id r = g_id g \<and>
      k_session_name r = cp_session_name p) rows"
    using r(3) by (rule list.pred_mono_strong) (simp add: fresh_row_def enqueue_request_of_def g(2))
  have new: "get_session (cp_session_name p) owner False s = Inl SessionNotFound"
    using ph(2) by (auto simp: reused_session_def bindE_eq_Inr_iff split: sum.splits if_splits)
  have own: "\<exists>odom role pol. owner_info ct s st requester owner = Inr (odom, uuid, role, pol) \<and>
       (\<exists>dr\<in>set (ct_domains ct). Some (d_name dr) = odom \<and> d_is_active dr) \<and> (role \<noteq> SUPERADMIN \<longrightarrow> odom = Some d) \<and>
       (role \<notin> {SUPERADMIN, ADMIN} \<longrightarrow> (uuid, g_id g) \<in> set (ct_agus ct))" using g(6)[folded g(2)] by blast
  have img: "\<exists>ref dr. requested_image env ct p (Some d) = Inr ref \<and> dr \<in> set (ct_domains ct) \<and> d_name dr = d \<and> pi_registry ref \<in> set (d_allowed_docker_registries dr)"
    using requested_image_allowed[OF ph(3)] ph(3) by blast
  show ?thesis
    by (intro exI[of _ requester] exI[of _ owner] exI[of _ uuid] exI[of _ d] exI[of _ g] exI[of _ rows] conjI)
      (fact ph(1) new r(1) r(2) ph(6) rows g(1) g(3) g(4) g(5) own img)+
qed

section \<open>What is never created\<close>

lemma created_kernels:
  assumes "create_session env ct st p (tracker, s) = (Inr resp, tracker', s')" and "cr_created resp"
  obtains rq configs rows sgroup mounts idata environ where
    "list_all2 (\<lambda>x r. enqueue_kernel (ce_enqueue env) ct rq s sgroup mounts idata environ x = Inr r) (zip [0..<length configs] configs) rows"
    "configs \<noteq> []" "\<forall>k\<in>set configs. ke_creation_config k = cp_config p" "cp_cluster_size p > 1 \<longrightarrow> int (length configs) = cp_cluster_size p"
    "er_agent_list rq = (case cp_agent_list p of None \<Rightarrow> [] | Some l \<Rightarrow> l)"
proof -
  obtain requester owner requested starts_at script uuid gid pol me d where
    "get_access_key_scopes ct st (cp_owner_access_key p) = Inr (requester, owner)"
    "reused_session env p owner requested s = Inr None" "requested_image env ct p (Some d) = Inr requested"
    "query_userinfo ct s st (Some d) (cp_group p) (cp_owner_access_key p) = Inr (uuid, gid, Some pol)"
    and e: "enqueue_and_wait env ct p (enqueue_request_of env p owner requested starts_at script uuid gid pol (u_role me) d) s = (Inr resp, s')"
    and "tracker' = tracker" "as_user st = Some me" "check_mount_map (cc_mount_map (cp_config p)) = Inr ()"
    by (rule create_phases[OF assms])
  define rq where "rq = enqueue_request_of env p owner requested starts_at script uuid gid pol (u_role me) d"
  from e obtain sid s1 where "enqueue_session (ce_enqueue env) ct rq s = Inr (sid, s1)"
    by (auto simp: rq_def enqueue_and_wait_def split: sum.splits)
  then obtain sgroup mounts idata environ configs rows where c: "replicate_configs (er_cluster_size rq) (er_kernel_configs rq) = Inr configs"
    and m: "mapE (enqueue_kernel (ce_enqueue env) ct rq s sgroup mounts idata environ) (zip [0..<length configs] configs) = Inr rows"
    by (rule enqueue_phases)
  have "configs \<noteq> []" "\<forall>k\<in>set configs. ke_creation_config k = cp_config p"
    using c by (auto simp: rq_def enqueue_request_of_def replicate_configs_def split: if_splits)
  moreover have "cp_cluster_size p > 1 \<longrightarrow> int (length configs) = cp_cluster_size p"
    using replicate_length[OF c] by (simp add: rq_def enqueue_request_of_def)
  moreover have "er_agent_list rq = (case cp_agent_list p of None \<Rightarrow> [] | Some l \<Rightarrow> l)" by (simp add: rq_def enqueue_request_of_def)
  ultimately show ?thesis using that m[unfolded mapE_Inr_iff] by blast
qed

text \<open>
  A request that leaves the resources out creates nothing: the schema of the configuration puts a
  null value under \<open>resources\<close>, and enqueueing tests for the key only before it reads the value.
\<close>
theorem null_resources_never_created:
  assumes "cc_resources (cp_config p) = Some None" and "create_session env ct st p (tracker, s) = (Inr resp, tracker', s')"
  shows "\<not> cr_created resp"
proof
  assume "cr_created resp"
  with assms(2) obtain rq configs rows sgroup mounts idata environ where
    l: "list_all2 (\<lambda>x r. enqueue_kernel (ce_enqueue env) ct rq s sgroup mounts idata environ x = Inr r) (zip [0..<length configs] configs) rows"
    and c: "configs \<noteq> []" "\<forall>k\<in>set configs. ke_creation_config k = cp_config p"
    by (rule created_kernels)
  from c(1) l have "enqueue_kernel (ce_enqueue env) ct rq s sgroup mounts idata environ (0, hd configs) = Inr (rows ! 0)"
    by (auto simp: list_all2_conv_all_nth hd_conv_nth)
  moreover have "cc_resources (ke_creation_config (hd configs)) = Some None" using c assms(1) by simp
  ultimately show False by (auto simp: enqueue_kernel_def kernel_slots_def Let_def bindE_eq_Inr_iff)
qed

text \<open>
  A single-node cluster session cannot be bound to an agent: the request must name exactly one
  agent (\<open>create_from_params\<close>), and enqueueing looks for one agent per kernel.
\<close>
theorem designated_cluster_never_created:
  assumes "cp_cluster_mode p \<noteq> MULTI_NODE" and "cp_cluster_size p > 1" and "cp_agent_list p \<noteq> None" "cp_agent_list p \<noteq> Some []"
    and "create_from_params env ct st api p (tracker, s) = (Inr resp, tracker', s')"
  shows "\<not> cr_created resp"
proof
  assume cr: "cr_created resp"
  from assms(5) obtain me :: user_row where chk: "check_agent_list (u_role me) p = Inr ()" and cs: "create_session env ct st p (tracker, s) = (Inr resp, tracker', s')"
    unfolding create_from_params_def by (cases "as_user st") (fastforce split: if_splits sum.splits)+
  from chk assms(1,3,4) obtain a where a: "cp_agent_list p = Some [a]"
    by (auto simp: check_agent_list_def length_Suc_conv split: if_splits option.splits list.splits)
  from cs cr obtain rq configs rows sgroup mounts idata environ where
    l: "list_all2 (\<lambda>x r. enqueue_kernel (ce_enqueue env) ct rq s sgroup mounts idata environ x = Inr r) (zip [0..<length configs] configs) rows"
    and n: "cp_cluster_size p > 1 \<longrightarrow> int (length configs) = cp_cluster_size p" and al: "er_agent_list rq = (case cp_agent_list p of None \<Rightarrow> [] | Some l \<Rightarrow> l)"
    by (rule created_kernels)
  from n assms(2) have "1 < length configs" by simp
  with l have "enqueue_kernel (ce_enqueue env) ct rq s sgroup mounts idata environ (1, configs ! 1) = Inr (rows ! 1)"
    by (auto simp: list_all2_conv_all_nth)
  with al a show False by (auto simp: enqueue_kernel_def mapped_agent_def bindE_eq_Inr_iff)
qed

section \<open>Mount aliases\<close>

text \<open>
  Accepted mount aliases are pairwise different, and none is empty, a reserved path, or the name
  of a mounted folder, once the prefix of the work directory is taken off.
\<close>
theorem mount_aliases_checked:
  assumes "check_mount_map (Some m) = Inr ()" and "map_of m folder = Some a"
  shows "alias_folder a \<noteq> [] \<and> alias_folder a \<notin> set RESERVED_VFOLDERS \<and> \<not> reserved_pattern ''rc'' (alias_folder a) \<and>
    map_of m (alias_folder a) = None \<and> (\<forall>other. map_of m other = Some a \<longrightarrow> other = folder)"
proof -
  have ok: "distinct (map snd m)" "\<forall>a\<in>set (map snd m). alias_folder a \<noteq> [] \<and> verify_vfolder_name (alias_folder a) \<and> alias_folder a \<notin> set (keys m)"
    using assms(1) by (auto simp: check_mount_map_def list_all_iff simp del: set_map split: if_splits)
  have "a \<in> set (map snd m)" using map_of_SomeD[OF assms(2)] by force
  with ok(2) have "alias_folder a \<noteq> []" "verify_vfolder_name (alias_folder a)" "alias_folder a \<notin> set (keys m)" by blast+
  moreover have "other = folder" if "map_of m other = Some a" for other
    using ok(1) map_of_SomeD[OF assms(2)] map_of_SomeD[OF that] by (fastforce simp: distinct_map inj_on_def)
  ultimately show ?thesis by (simp add: verify_vfolder_name_def map_of_eq_None_iff)
qed

text \<open>Aliases that differ only in the prefix of the work directory are accepted together, though they name one directory.\<close>

lemma mount_alias_collision:
  "check_mount_map (Some [(''a'', ''/home/work/x''), (''b'', ''x'')]) = Inr () \<and> alias_folder ''/home/work/x'' = alias_folder ''x''"
  by code_simp

section \<open>Examples\<close>

definition demo_create_catalog :: catalog where
  "demo_create_catalog = demo_catalog\<lparr>ct_images := [\<lparr>im_name = ''r/python:3'', im_registry = ''r'', im_architecture = ''x86_64'', im_config_digest = ''sha'',
       im_labels = [], im_resources = [(''cpu'', (Some ''1'', None))]\<rparr>],
     ct_users := [demo_user], ct_keypairs := [demo_keypair], ct_agus := [(''u'', ''g'')]\<rparr>"

definition demo_caller :: auth_state where
  "demo_caller = authorized (demo_keypair, demo_user, snd (hd (db_policies demo_state)))"

definition demo_create_env :: create_env where
  "demo_create_env = \<lparr>ce_enqueue = demo_enqueue_env, ce_token = ''tok'', ce_is_ip = (\<lambda>_. False), ce_isoparse = (\<lambda>_. Inl ValueError), ce_wait = (\<lambda>_. None)\<rparr>"

definition demo_params :: "string \<Rightarrow> string \<Rightarrow> create_params" where
  "demo_params nm grp = \<lparr>cp_session_name = nm, cp_image = ''r/python:3'', cp_architecture = ''x86_64'', cp_session_type = INTERACTIVE, cp_group = grp,
     cp_domain = Some ''d'', cp_cluster_size = 1, cp_cluster_mode = SINGLE_NODE, cp_config = ke_creation_config (demo_config demo_wanted),
     cp_scaling_group = None, cp_agent_list = None, cp_tag = None, cp_enqueue_only = True, cp_starts_at = None, cp_reuse = True,
     cp_startup_command = None, cp_bootstrap_script = None, cp_dependencies = None, cp_callback_url = None, cp_owner_access_key = None\<rparr>"

definition demo_train2 :: kernel_row where
  "demo_train2 = (demo_kernel ''t2'' ''t2'' ''main'' RUNNING [] None)\<lparr>k_session_name := ''train2'', k_image := ''r/python:3'', k_registry := ''r''\<rparr>"

lemma demo_created:
  "case create_session demo_create_env demo_create_catalog demo_caller (demo_params ''train'' ''default'') ([], demo_state) of
     (Inr r, t, s) \<Rightarrow> cr_created r \<and> cr_session_id r = ''new'' \<and> t = [] | _ \<Rightarrow> False"
  by code_simp

theorem created_session_owned_witness:
  "\<exists>resp tracker' s'. create_session demo_create_env demo_create_catalog demo_caller (demo_params ''train'' ''default'') ([], demo_state) = (Inr resp, tracker', s') \<and>
     cr_created resp \<and> tracker' = [] \<and> (\<exists>rows. rows \<noteq> [] \<and> db_kernels s' = db_kernels demo_state @ rows)"
proof -
  obtain resp tracker' s' where c: "create_session demo_create_env demo_create_catalog demo_caller (demo_params ''train'' ''default'') ([], demo_state) = (Inr resp, tracker', s')"
    "cr_created resp" using demo_created by (auto split: prod.splits sum.splits)
  have "cp_enqueue_only (demo_params ''train'' ''default'')" by (simp add: demo_params_def)
  from created_session_owned[OF c this] c show ?thesis by blast
qed

text \<open>
  Asking for a session by a name that begins another live session's name does not create it but
  returns the other one: here \<open>train\<close> is asked for and \<open>train2\<close> is returned.
\<close>
theorem other_session_returned:
  "case create_session demo_create_env demo_create_catalog demo_caller (demo_params ''train'' ''default'') ([], demo_db [demo_train2] []) of
     (Inr r, t, s) \<Rightarrow> \<not> cr_created r \<and> cr_session_id r = ''t2'' \<and> cr_session_name r = ''train2'' \<and> length (db_kernels s) = 1 | _ \<Rightarrow> False"
  by code_simp

text \<open>A request that fails over its group leaves its entry in the tracker for good.\<close>

lemma tracker_leaks:
  "case create_session demo_create_env demo_create_catalog demo_caller (demo_params ''train'' ''unknown'') ([], demo_state) of
     (Inl e, t, s) \<Rightarrow> e = InvalidAPIParameters \<and> t = [''tok''] | _ \<Rightarrow> False"
  by code_simp

theorem null_resources_never_created_witness:
  "\<exists>resp tracker' s'. create_session demo_create_env demo_create_catalog demo_caller
       ((demo_params ''train'' ''default'')\<lparr>cp_config := (ke_creation_config (demo_config []))\<lparr>cc_resources := Some None\<rparr>\<rparr>) ([], demo_db [demo_train2] []) = (Inr resp, tracker', s') \<and>
     \<not> cr_created resp"
proof -
  let ?p = "(demo_params ''train'' ''default'')\<lparr>cp_config := (ke_creation_config (demo_config []))\<lparr>cc_resources := Some None\<rparr>\<rparr>"
  have "case create_session demo_create_env demo_create_catalog demo_caller ?p ([], demo_db [demo_train2] []) of (Inr r, t, s) \<Rightarrow> True | _ \<Rightarrow> False"
    by code_simp
  then obtain resp tracker' s' where c: "create_session demo_create_env demo_create_catalog demo_caller ?p ([], demo_db [demo_train2] []) = (Inr resp, tracker', s')"
    by (auto split: prod.splits sum.splits)
  have "cc_resources (cp_config ?p) = Some None" by simp
  from null_resources_never_created[OF this c] c show ?thesis by blast
qed

definition demo_superadmin :: auth_state where
  "demo_superadmin = authorized (demo_keypair, demo_user\<lparr>u_role := SUPERADMIN\<rparr>, snd (hd (db_policies demo_state)))"

theorem designated_cluster_never_created_witness:
  "\<exists>resp tracker' s'. create_from_params demo_create_env demo_create_catalog demo_superadmin 6
       ((demo_params ''train'' ''default'')\<lparr>cp_cluster_size := 2, cp_agent_list := Some [''i'']\<rparr>) ([], demo_db [demo_train2] []) = (Inr resp, tracker', s') \<and>
     \<not> cr_created resp"
proof -
  let ?p = "(demo_params ''train'' ''default'')\<lparr>cp_cluster_size := 2, cp_agent_list := Some [''i'']\<rparr>"
  have "case create_from_params demo_create_env demo_create_catalog demo_superadmin 6 ?p ([], demo_db [demo_train2] []) of (Inr r, t, s) \<Rightarrow> True | _ \<Rightarrow> False"
    by code_simp
  then obtain resp tracker' s' where c: "create_from_params demo_create_env demo_create_catalog demo_superadmin 6 ?p ([], demo_db [demo_train2] []) = (Inr resp, tracker', s')"
    by (auto split: prod.splits sum.splits)
  have "\<not> cr_created resp" by (rule designated_cluster_never_created[OF _ _ _ _ c]) (simp_all add: demo_params_def)
  with c show ?thesis by blast
qed

theorem mount_aliases_checked_witness:
  "check_mount_map (Some [(''data'', ''/home/work/x'')]) = Inr () \<and> alias_folder ''/home/work/x'' \<noteq> [] \<and> alias_folder ''/home/work/x'' \<notin> set RESERVED_VFOLDERS"
proof -
  have c: "check_mount_map (Some [(''data'', ''/home/work/x'')]) = Inr ()" by code_simp
  with mount_aliases_checked[OF c, of "''data''" "''/home/work/x''"] show ?thesis by simp
qed

end
