(* ===== verification/FolderApi.thy ===== *)
theory FolderApi
  imports CreateApi
begin

text \<open>
  The requests about virtual folders (\<open>manager/api/vfolder.py\<close>): creation, deletion, renaming,
  options, cloning, sharing and invitations, with the decorators that guard them.  A request returns
  its result with the tables, the calls made to the storage proxies and the clones under way; a
  transaction that raises leaves the tables alone, but not the calls.  The decorator
  \<open>server_status_required\<close> is left out (the manager is running), parameters have passed their schema.
\<close>

section \<open>State\<close>

datatype file_op =
    MakeDir string bool bool
  | Download string bool "string option"
  | Upload string int
  | RenameFile string string
  | MoveFile string string
  | DeleteFiles "string list" bool
  | ListFiles string

datatype storage_call =
    CreateFolder string string "int option"
  | DeleteFolder string string
  | CloneFolder string string string string
  | FolderQuota string string int
  | FileCall string string file_op

record clone_task =
  cl_host :: string
  cl_source_volume :: string
  cl_source_id :: string
  cl_target_volume :: string
  cl_target_id :: string
  cl_name :: string

record folder_state =
  fs_tables :: folder_tables
  fs_calls :: "storage_call list"
  fs_clones :: "clone_task list"

text \<open>
  What comes from outside: fresh identifiers, the configured default host, the storage proxies with
  the calls they carry out, and the order in which a set is iterated.
\<close>

record folder_env =
  fv_folder_id :: string
  fv_invitation_id :: "string \<Rightarrow> string"
  fv_default_host :: "string option"
  fv_proxies :: "string list"
  fv_storage :: "storage_call \<Rightarrow> bool"
  fv_set_order :: "string list \<Rightarrow> string list"

abbreviation fs_folders :: "folder_state \<Rightarrow> vfolder_row list" where
  "fs_folders s \<equiv> ft_vfolders (fs_tables s)"

definition update_folders :: "(vfolder_row \<Rightarrow> bool) \<Rightarrow> (vfolder_row \<Rightarrow> vfolder_row) \<Rightarrow> folder_tables \<Rightarrow> folder_tables" where
  "update_folders c f t = t\<lparr>ft_vfolders := map (\<lambda>v. if c v then f v else v) (ft_vfolders t)\<rparr>"

text \<open>Rows of permissions and invitations are deleted with their folder.\<close>

definition delete_folder :: "string \<Rightarrow> folder_tables \<Rightarrow> folder_tables" where
  "delete_folder i t =
     t\<lparr>ft_vfolders := filter (\<lambda>v. vf_id v \<noteq> i) (ft_vfolders t), ft_permissions := filter (\<lambda>(_, f, _). f \<noteq> i) (ft_permissions t),
       ft_invitations := filter (\<lambda>r. iv_vfolder r \<noteq> i) (ft_invitations t)\<rparr>"

definition insert_folder :: "vfolder_row \<Rightarrow> folder_tables \<Rightarrow> folder_tables res" where
  "insert_folder v t = (if vf_id v \<in> set (map vf_id (ft_vfolders t)) then Inl IntegrityError else Inr (t\<lparr>ft_vfolders := ft_vfolders t @ [v]\<rparr>))"

definition storage_request :: "folder_env \<Rightarrow> string \<Rightarrow> storage_call \<Rightarrow> folder_state \<Rightarrow> unit res \<times> folder_state" where
  "storage_request env host call s =
     (if fst (split_host host) \<notin> set (fv_proxies env) then (Inl InvalidArgument, s)
      else let s1 = s\<lparr>fs_calls := fs_calls s @ [call]\<rparr>
           in if fv_storage env call then (Inr (), s1) else (Inl VFolderOperationFailed, s1))"

section \<open>Guards\<close>

text \<open>The user, the keypair and the policy of an authorized request.\<close>

definition with_caller :: "(auth_state \<Rightarrow> unit res) \<Rightarrow> auth_state \<Rightarrow> folder_state \<Rightarrow>
    (user_row \<Rightarrow> keypair_row \<Rightarrow> policy_row \<Rightarrow> 'a res \<times> folder_state) \<Rightarrow> 'a res \<times> folder_state" where
  "with_caller guard st s f =
     (case guard st of
        Inl e \<Rightarrow> (Inl e, s)
      | Inr _ \<Rightarrow> (case (as_user st, as_keypair st, as_resource_policy st) of
                   (Some me, Some kp, Some pol) \<Rightarrow> f me kp pol
                 | _ \<Rightarrow> (Inl TypeError, s)))"

definition accessible :: "catalog \<Rightarrow> folder_tables \<Rightarrow> user_row \<Rightarrow> (vfolder_row \<Rightarrow> bool) \<Rightarrow> vfolder_entry list" where
  "accessible ct ft me cond = query_accessible_vfolders ct ft (u_uuid me) (Some (u_role me)) (u_domain_name me) (Some (ft_types ft)) cond"

datatype access_status = READABLE | UPDATABLE

fun status_ok :: "access_status \<Rightarrow> operation_status \<Rightarrow> bool" where
  "status_ok READABLE _ = True"
| "status_ok UPDATABLE x = (x = FolderReady)"

text \<open>The name is read from the path of the request, which raises \<open>KeyError\<close> for routes without one.\<close>

definition status_required :: "catalog \<Rightarrow> folder_tables \<Rightarrow> user_row \<Rightarrow> access_status \<Rightarrow> string option \<Rightarrow> unit res" where
  "status_required ct ft me perm name =
     (case name of
        None \<Rightarrow> Inl KeyError
      | Some n \<Rightarrow> if accessible ct ft me (\<lambda>v. vf_name v = n \<and> status_ok perm (vf_status v)) = [] then Inl VFolderFilterStatusFailed else Inr ())"

definition perm_accepts :: "vfolder_permission \<Rightarrow> vfolder_permission \<Rightarrow> bool" where
  "perm_accepts perm given =
     (case perm of READ_ONLY \<Rightarrow> True | READ_WRITE \<Rightarrow> given \<in> {READ_WRITE, RW_DELETE} | RW_DELETE \<Rightarrow> given = RW_DELETE)"

text \<open>
  \<open>query_accessible_vfolders\<close> has parameters for conditions on the permission of a share and on the
  folder of a group, which it never looks at.
\<close>

definition accessible_with :: "catalog \<Rightarrow> folder_tables \<Rightarrow> user_row \<Rightarrow> (vfolder_row \<Rightarrow> bool) \<Rightarrow>
    (vfolder_permission \<Rightarrow> bool) \<Rightarrow> (vfolder_row \<Rightarrow> bool) option \<Rightarrow> vfolder_entry list" where
  "accessible_with ct ft me extra_vf_conds extra_vfperm_conds extra_vf_group_conds = accessible ct ft me extra_vf_conds"

definition permission_required :: "catalog \<Rightarrow> folder_tables \<Rightarrow> auth_state \<Rightarrow> user_row \<Rightarrow> vfolder_permission \<Rightarrow> string \<Rightarrow> vfolder_entry res" where
  "permission_required ct ft st me perm name =
     (case accessible_with ct ft me (\<lambda>v. vf_name v = name) (perm_accepts perm)
             (if as_is_admin st then None else Some (\<lambda>v. perm_accepts perm (vf_permission v))) of
        [] \<Rightarrow> Inl VFolderNotFound
      | e # _ \<Rightarrow> Inr e)"

text \<open>A handler behind \<open>vfolder_filter_by_status_required\<close>, and one behind both decorators.\<close>

definition with_status :: "catalog \<Rightarrow> user_row \<Rightarrow> access_status \<Rightarrow> string option \<Rightarrow> folder_state \<Rightarrow> (unit \<Rightarrow> 'a res \<times> folder_state) \<Rightarrow> 'a res \<times> folder_state" where
  "with_status ct me perm name s f = (case status_required ct (fs_tables s) me perm name of Inl e \<Rightarrow> (Inl e, s) | Inr _ \<Rightarrow> f ())"

definition with_entry :: "catalog \<Rightarrow> auth_state \<Rightarrow> user_row \<Rightarrow> access_status \<Rightarrow> vfolder_permission \<Rightarrow> string \<Rightarrow> folder_state \<Rightarrow>
    (vfolder_entry \<Rightarrow> 'a res \<times> folder_state) \<Rightarrow> 'a res \<times> folder_state" where
  "with_entry ct st me access perm name s f =
     with_status ct me access (Some name) s (\<lambda>_.
       case permission_required ct (fs_tables s) st me perm name of Inl e \<Rightarrow> (Inl e, s) | Inr e \<Rightarrow> f e)"

section \<open>Creation\<close>

datatype group_ref = GroupByName string | GroupById string

record new_folder =
  nf_name :: string
  nf_host :: "string option"
  nf_usage_mode :: "vfolder_usage_mode option"
  nf_permission :: "vfolder_permission option"
  nf_unmanaged_path :: "string option"
  nf_group :: "group_ref option"
  nf_quota :: "int option"
  nf_cloneable :: bool

definition resolve_host :: "folder_env \<Rightarrow> string option \<Rightarrow> string res" where
  "resolve_host env host =
     (if truthy host then Inr (the host)
      else if truthy (fv_default_host env) then Inr (the (fv_default_host env)) else Inl InvalidAPIParameters)"

definition check_types :: "folder_tables \<Rightarrow> unit res" where
  "check_types ft = (if list_all (\<lambda>t. t = ''user'' \<or> t = ''group'') (ft_types ft) then Inr () else Inl ServerMisconfiguredError)"

definition group_of_ref :: "catalog \<Rightarrow> user_row \<Rightarrow> group_ref option \<Rightarrow> string option" where
  "group_of_ref ct me g =
     (case g of
        None \<Rightarrow> None
      | Some (GroupById i) \<Rightarrow> Some i
      | Some (GroupByName n) \<Rightarrow> map_option g_id (List.find (\<lambda>r. Some (g_domain_name r) = u_domain_name me \<and> g_name r = n) (ct_groups ct)))"

definition allowed_hosts :: "catalog \<Rightarrow> policy_row \<Rightarrow> user_row \<Rightarrow> string option \<Rightarrow> string set" where
  "allowed_hosts ct pol me group_id =
     (case u_domain_name me of
        None \<Rightarrow> set (p_allowed_vfolder_hosts pol)
      | Some d \<Rightarrow> (case group_id of
                    Some g \<Rightarrow> get_allowed_vfolder_hosts_by_group ct pol d (Some g) False
                  | None \<Rightarrow> get_allowed_vfolder_hosts_by_user ct pol d (u_uuid me) None))"

definition owned_count :: "folder_tables \<Rightarrow> string \<Rightarrow> int" where
  "owned_count ft user_uuid = int (length (filter (\<lambda>v. vf_user v = Some user_uuid) (ft_vfolders ft)))"

definition check_count :: "policy_row \<Rightarrow> folder_tables \<Rightarrow> user_row \<Rightarrow> unit res" where
  "check_count pol ft me =
     (if p_max_vfolder_count pol > 0 \<and> owned_count ft (u_uuid me) \<ge> p_max_vfolder_count pol then Inl InvalidAPIParameters else Inr ())"

definition limit_quota :: "policy_row \<Rightarrow> int option \<Rightarrow> int option" where
  "limit_quota pol quota =
     (let m = p_max_vfolder_size pol
      in if m > 0 \<and> (case quota of None \<Rightarrow> True | Some q \<Rightarrow> q \<le> 0 \<or> q > m) then Some m else quota)"

text \<open>In megabytes; \<open>int\<close> cuts off towards zero.\<close>

definition quota_mbytes :: "int option \<Rightarrow> int option" where
  "quota_mbytes quota =
     (case quota of None \<Rightarrow> None
      | Some q \<Rightarrow> if q = 0 then None else if q < 0 then Some (- (- q div 2 ^ 20)) else Some (q div 2 ^ 20))"

definition check_group :: "catalog \<Rightarrow> folder_tables \<Rightarrow> auth_state \<Rightarrow> user_row \<Rightarrow> group_ref option \<Rightarrow> string option \<Rightarrow> unit res" where
  "check_group ct ft st me ref group_id =
     (if group_id = None \<and> ref \<noteq> None \<and> ref \<noteq> Some (GroupByName []) then Inl GroupNotFound
      else case group_id of
             Some g \<Rightarrow>
               if ''group'' \<notin> set (ft_types ft) then Inl InvalidAPIParameters
               else if \<not> as_is_admin st then Inl GenericForbidden
               else if \<not> list_ex (\<lambda>r. Some (g_domain_name r) = u_domain_name me \<and> g_id r = g) (ct_groups ct) then Inl InvalidAPIParameters
               else Inr ()
           | None \<Rightarrow> if ''user'' \<notin> set (ft_types ft) then Inl InvalidAPIParameters else Inr ())"

definition new_row :: "folder_env \<Rightarrow> user_row \<Rightarrow> new_folder \<Rightarrow> string \<Rightarrow> string option \<Rightarrow> vfolder_usage_mode \<Rightarrow> vfolder_permission \<Rightarrow> int option \<Rightarrow> vfolder_row" where
  "new_row env me p host group_id mode perm quota =
     \<lparr>vf_id = fv_folder_id env, vf_host = (if truthy (nf_unmanaged_path p) then [] else host), vf_name = nf_name p, vf_permission = perm,
      vf_ownership_type = (if group_id = None then OwnedByUser else OwnedByGroup),
      vf_user = (if group_id = None then Some (u_uuid me) else None), vf_group = group_id, vf_usage_mode = mode,
      vf_max_size = quota_mbytes quota, vf_creator = u_email me,
      vf_unmanaged_path = (if truthy (nf_unmanaged_path p) then the (nf_unmanaged_path p) else []),
      vf_cloneable = nf_cloneable p, vf_status = FolderReady\<rparr>"

text \<open>The checks before the folder is made; the result is its host, its group and its quota.\<close>

definition create_folder_checks :: "folder_env \<Rightarrow> catalog \<Rightarrow> folder_tables \<Rightarrow> auth_state \<Rightarrow> user_row \<Rightarrow> policy_row \<Rightarrow> new_folder \<Rightarrow>
    (string \<times> string option \<times> int option) res" where
  "create_folder_checks env ct ft st me pol p =
     bindE (if truthy (nf_unmanaged_path p)
            then (if u_role me \<in> {ADMIN, SUPERADMIN} then Inr (case nf_host p of None \<Rightarrow> [] | Some h \<Rightarrow> h) else Inl GenericForbidden)
            else resolve_host env (nf_host p)) (\<lambda>host.
     bindE (check_types ft) (\<lambda>_.
       if \<not> verify_vfolder_name (nf_name p) then Inl InvalidAPIParameters
       else if take 1 (nf_name p) = ''.'' \<and> nf_name p \<noteq> ''.local'' \<and> nf_group p \<noteq> None then Inl InvalidAPIParameters
       else let group_id = group_of_ref ct me (nf_group p)
            in if \<not> truthy (nf_unmanaged_path p) \<and> host \<notin> allowed_hosts ct pol me group_id then Inl InvalidAPIParameters
               else bindE (check_count pol ft me) (\<lambda>_.
                 if accessible ct ft me (\<lambda>v. vf_name v = nf_name p \<and> (truthy (nf_unmanaged_path p) \<or> vf_host v = host)) \<noteq> []
                 then Inl VFolderAlreadyExists
                 else bindE (check_group ct ft st me (nf_group p) group_id) (\<lambda>_. Inr (host, group_id, limit_quota pol (nf_quota p))))))"

definition create_folder :: "folder_env \<Rightarrow> catalog \<Rightarrow> auth_state \<Rightarrow> new_folder \<Rightarrow> folder_state \<Rightarrow> vfolder_row res \<times> folder_state" where
  "create_folder env ct st p s = with_caller auth_required st s (\<lambda>me kp pol.
     case (nf_usage_mode p, nf_permission p) of
       (Some mode, Some perm) \<Rightarrow>
         (case create_folder_checks env ct (fs_tables s) st me pol p of
            Inl e \<Rightarrow> (Inl e, s)
          | Inr (host, group_id, quota) \<Rightarrow>
              (case if truthy (nf_unmanaged_path p) then (Inr (), s)
                    else storage_request env host (CreateFolder (snd (split_host host)) (fv_folder_id env) quota) s of
                 (Inl e, s1) \<Rightarrow> (Inl e, s1)
               | (Inr _, s1) \<Rightarrow>
                   (case insert_folder (new_row env me p host group_id mode perm quota) (fs_tables s1) of
                      Inl e \<Rightarrow> (Inl e, s1)
                    | Inr t \<Rightarrow> (Inr (new_row env me p host group_id mode perm quota), s1\<lparr>fs_tables := t\<rparr>))))
     | _ \<Rightarrow> (Inl AttributeError, s))"

section \<open>Deletion, renaming and options\<close>

text \<open>The status is set on every folder of that name before the one row is deleted.\<close>

definition delete :: "folder_env \<Rightarrow> catalog \<Rightarrow> auth_state \<Rightarrow> string \<Rightarrow> folder_state \<Rightarrow> unit res \<times> folder_state" where
  "delete env ct st name s = with_caller auth_required st s (\<lambda>me kp pol. with_status ct me UPDATABLE (Some name) s (\<lambda>_.
     case accessible ct (fs_tables s) me (\<lambda>v. vf_name v = name) of
       [] \<Rightarrow> (Inl InvalidAPIParameters, s)
     | [e] \<Rightarrow>
         if \<not> ve_is_owner e \<and> ve_permission e \<noteq> RW_DELETE then (Inl InvalidAPIParameters, s)
         else storage_request env (vf_host (ve_row e)) (DeleteFolder (snd (split_host (vf_host (ve_row e)))) (vf_id (ve_row e)))
                (s\<lparr>fs_tables := delete_folder (vf_id (ve_row e))
                     (update_folders (\<lambda>v. vf_name v = name) (\<lambda>v. v\<lparr>vf_status := FolderDeleting\<rparr>) (fs_tables s))\<rparr>)
     | _ \<Rightarrow> (Inl TooManyVFoldersFound, s)))"

text \<open>The route of \<open>delete_by_id\<close> has no folder name.\<close>

definition delete_by_id :: "folder_env \<Rightarrow> catalog \<Rightarrow> auth_state \<Rightarrow> string \<Rightarrow> folder_state \<Rightarrow> unit res \<times> folder_state" where
  "delete_by_id env ct st i s = with_caller superadmin_required st s (\<lambda>me kp pol. with_status ct me UPDATABLE None s (\<lambda>_.
     let s1 = s\<lparr>fs_tables := delete_folder i (update_folders (\<lambda>v. vf_id v = i) (\<lambda>v. v\<lparr>vf_status := FolderDeleting\<rparr>) (fs_tables s))\<rparr>
     in (case List.find (\<lambda>v. vf_id v = i) (fs_folders s) of
           None \<Rightarrow> (Inl AttributeError, s1)
         | Some v \<Rightarrow> storage_request env (vf_host v) (DeleteFolder (snd (split_host (vf_host v))) i) s1)))"

definition rename_vfolder :: "catalog \<Rightarrow> auth_state \<Rightarrow> string \<Rightarrow> string \<Rightarrow> folder_state \<Rightarrow> unit res \<times> folder_state" where
  "rename_vfolder ct st old_name new_name s = with_caller auth_required st s (\<lambda>me kp pol. with_entry ct st me UPDATABLE RW_DELETE old_name s (\<lambda>row.
     let entries = accessible ct (fs_tables s) me (\<lambda>_. True)
     in if list_ex (\<lambda>e. vf_name (ve_row e) = new_name) entries then (Inl InvalidAPIParameters, s)
        else (case List.find (\<lambda>e. vf_name (ve_row e) = old_name) entries of
                None \<Rightarrow> (Inr (), s)
              | Some e \<Rightarrow>
                  if \<not> ve_is_owner e then (Inl InvalidAPIParameters, s)
                  else (Inr (), s\<lparr>fs_tables := update_folders (\<lambda>v. vf_id v = vf_id (ve_row e)) (\<lambda>v. v\<lparr>vf_name := new_name\<rparr>) (fs_tables s)\<rparr>))))"

definition updated_fields :: "vfolder_entry \<Rightarrow> bool option \<Rightarrow> vfolder_permission option \<Rightarrow> vfolder_row \<Rightarrow> vfolder_row" where
  "updated_fields row cloneable perm v =
     (let v1 = (case cloneable of Some c \<Rightarrow> if c \<noteq> vf_cloneable (ve_row row) then v\<lparr>vf_cloneable := c\<rparr> else v | None \<Rightarrow> v)
      in case perm of Some q \<Rightarrow> if q \<noteq> ve_permission row then v1\<lparr>vf_permission := q\<rparr> else v1 | None \<Rightarrow> v1)"

definition update_vfolder_options :: "catalog \<Rightarrow> auth_state \<Rightarrow> string \<Rightarrow> bool option \<Rightarrow> vfolder_permission option \<Rightarrow> folder_state \<Rightarrow> unit res \<times> folder_state" where
  "update_vfolder_options ct st name cloneable perm s = with_caller auth_required st s (\<lambda>me kp pol. with_entry ct st me UPDATABLE RW_DELETE name s (\<lambda>row.
     if \<not> ve_is_owner row then (Inl InvalidAPIParameters, s)
     else (Inr (), s\<lparr>fs_tables := update_folders (\<lambda>v. vf_id v = vf_id (ve_row row)) (updated_fields row cloneable perm) (fs_tables s)\<rparr>)))"

text \<open>The route of \<open>update_quota\<close> has no folder name; the check of the folder's accessibility compares a length with less than zero.\<close>

definition update_quota :: "folder_env \<Rightarrow> catalog \<Rightarrow> auth_state \<Rightarrow> string \<Rightarrow> string \<Rightarrow> int \<Rightarrow> folder_state \<Rightarrow> int res \<times> folder_state" where
  "update_quota env ct st folder_host i quota s = with_caller auth_required st s (\<lambda>me kp pol. with_status ct me UPDATABLE None s (\<lambda>_.
     let q = the (limit_quota pol (Some quota))
     in (case storage_request env folder_host (FolderQuota (snd (split_host folder_host)) i q) s of
           (Inl e, s1) \<Rightarrow> (Inl e, s1)
         | (Inr _, s1) \<Rightarrow>
             if i \<notin> set (map vf_id (fs_folders s1)) then (Inl AssertionError, s1)
             else (Inr q, s1\<lparr>fs_tables := update_folders (\<lambda>v. vf_id v = i) (\<lambda>v. v\<lparr>vf_max_size := Some (- (- q div 2 ^ 20))\<rparr>) (fs_tables s1)\<rparr>))))"

section \<open>Invitations\<close>

definition pending_invitation :: "string \<Rightarrow> invitation_row list \<Rightarrow> invitation_row option" where
  "pending_invitation i rs = List.find (\<lambda>r. iv_id r = i \<and> iv_state r = InvitationPending) rs"

definition set_invitation :: "string \<Rightarrow> invitation_state \<Rightarrow> folder_tables \<Rightarrow> folder_tables" where
  "set_invitation i x t = t\<lparr>ft_invitations := map (\<lambda>r. if iv_id r = i then r\<lparr>iv_state := x\<rparr> else r) (ft_invitations t)\<rparr>"

definition invite_one :: "folder_env \<Rightarrow> string \<Rightarrow> string \<Rightarrow> vfolder_permission \<Rightarrow> string list \<times> folder_tables \<Rightarrow> string \<Rightarrow> string list \<times> folder_tables" where
  "invite_one env inviter vfid perm acc invitee =
     (case acc of (invited, t) \<Rightarrow>
        if list_ex (\<lambda>r. iv_inviter r = inviter \<and> iv_invitee r = invitee \<and> iv_vfolder r = vfid \<and> iv_state r = InvitationPending) (ft_invitations t)
        then (invited, t)
        else (invited @ [invitee], t\<lparr>ft_invitations := ft_invitations t @
               [\<lparr>iv_id = fv_invitation_id env invitee, iv_permission = perm, iv_inviter = inviter, iv_invitee = invitee,
                 iv_state = InvitationPending, iv_vfolder = vfid\<rparr>]\<rparr>))"

text \<open>Whether one of the users has a permission, or has given one, for a folder of that name.\<close>

definition already_shared :: "folder_tables \<Rightarrow> string list \<Rightarrow> string \<Rightarrow> bool" where
  "already_shared ft uuids name \<longleftrightarrow>
     list_ex (\<lambda>v. list_ex (\<lambda>(_, i, u). i = vf_id v \<and> vf_name v = name \<and> (vf_user v \<in> Some ` set uuids \<or> u \<in> set uuids)) (ft_permissions ft)) (ft_vfolders ft)"

definition invite :: "folder_env \<Rightarrow> catalog \<Rightarrow> auth_state \<Rightarrow> string \<Rightarrow> vfolder_permission \<Rightarrow> string list \<Rightarrow> folder_state \<Rightarrow> string list res \<times> folder_state" where
  "invite env ct st name perm emails s = with_caller auth_required st s (\<lambda>me kp pol. with_status ct me UPDATABLE (Some name) s (\<lambda>_.
     if take 1 name = ''.'' then (Inl GenericForbidden, s)
     else (case List.find (\<lambda>v. vf_user v = Some (u_uuid me) \<and> vf_name v = name) (fs_folders s) of
             None \<Rightarrow> (Inl VFolderNotFound, s)
           | Some vf \<Rightarrow>
               let kps = filter (\<lambda>k. kp_user_id k \<in> set emails \<and> kp_user_id k \<noteq> u_email me) (ct_keypairs ct)
               in if kps = [] then (Inl ObjectNotFound, s)
                  else if already_shared (fs_tables s) (map kp_user kps) name then (Inl VFolderAlreadyExists, s)
                  else (case foldl (invite_one env (kp_user_id kp) (vf_id vf) perm) ([], fs_tables s) (fv_set_order env (map kp_user_id kps)) of
                          (invited, t) \<Rightarrow> (Inr invited, s\<lparr>fs_tables := t\<rparr>)))))"

text \<open>The routes of the remaining requests about invitations have no folder name.\<close>

definition update_invitation :: "catalog \<Rightarrow> auth_state \<Rightarrow> string \<Rightarrow> vfolder_permission \<Rightarrow> folder_state \<Rightarrow> unit res \<times> folder_state" where
  "update_invitation ct st inv_id perm s = with_caller auth_required st s (\<lambda>me kp pol. with_status ct me UPDATABLE None s (\<lambda>_.
     (Inr (), s\<lparr>fs_tables := (fs_tables s)\<lparr>ft_invitations := map (\<lambda>r.
        if iv_id r = inv_id \<and> iv_inviter r = u_email me \<and> iv_state r = InvitationPending then r\<lparr>iv_permission := perm\<rparr> else r)
        (ft_invitations (fs_tables s))\<rparr>\<rparr>)))"

definition has_folder_named :: "folder_tables \<Rightarrow> string \<Rightarrow> string \<Rightarrow> bool" where
  "has_folder_named ft user_uuid name \<longleftrightarrow>
     list_ex (\<lambda>v. vf_name v = name \<and> (vf_user v = Some user_uuid \<or> list_ex (\<lambda>(_, i, u). i = vf_id v \<and> u = user_uuid) (ft_permissions ft))) (ft_vfolders ft)"

definition accept_body :: "user_row \<Rightarrow> string \<Rightarrow> folder_tables \<Rightarrow> folder_tables res" where
  "accept_body me inv_id t =
     (case pending_invitation inv_id (ft_invitations t) of
        None \<Rightarrow> Inl ObjectNotFound
      | Some r \<Rightarrow>
          (case List.find (\<lambda>v. vf_id v = iv_vfolder r) (ft_vfolders t) of
             None \<Rightarrow> Inl VFolderNotFound
           | Some v \<Rightarrow>
               if has_folder_named t (u_uuid me) (vf_name v) then Inl VFolderAlreadyExists
               else Inr (set_invitation inv_id InvitationAccepted
                      (t\<lparr>ft_permissions := ft_permissions t @ [(iv_permission r, iv_vfolder r, u_uuid me)]\<rparr>))))"

definition accept_invitation :: "catalog \<Rightarrow> auth_state \<Rightarrow> string \<Rightarrow> folder_state \<Rightarrow> unit res \<times> folder_state" where
  "accept_invitation ct st inv_id s = with_caller auth_required st s (\<lambda>me kp pol. with_status ct me UPDATABLE None s (\<lambda>_.
     case accept_body me inv_id (fs_tables s) of Inl e \<Rightarrow> (Inl e, s) | Inr t \<Rightarrow> (Inr (), s\<lparr>fs_tables := t\<rparr>)))"

text \<open>Every exception of the body becomes \<open>InternalServerError\<close>.\<close>

definition delete_invitation :: "catalog \<Rightarrow> auth_state \<Rightarrow> string \<Rightarrow> folder_state \<Rightarrow> unit res \<times> folder_state" where
  "delete_invitation ct st inv_id s = with_caller auth_required st s (\<lambda>me kp pol. with_status ct me UPDATABLE None s (\<lambda>_.
     case pending_invitation inv_id (ft_invitations (fs_tables s)) of
       None \<Rightarrow> (Inl InternalServerError, s)
     | Some r \<Rightarrow>
         if u_email me = iv_inviter r then (Inr (), s\<lparr>fs_tables := set_invitation inv_id InvitationCanceled (fs_tables s)\<rparr>)
         else if u_email me = iv_invitee r then (Inr (), s\<lparr>fs_tables := set_invitation inv_id InvitationRejected (fs_tables s)\<rparr>)
         else (Inl InternalServerError, s)))"

section \<open>Sharing\<close>

definition group_folder :: "string \<Rightarrow> folder_tables \<Rightarrow> vfolder_row res" where
  "group_folder name t =
     (case filter (\<lambda>v. vf_ownership_type v = OwnedByGroup \<and> vf_name v = name) (ft_vfolders t) of
        [] \<Rightarrow> Inl VFolderNotFound | [v] \<Rightarrow> Inr v | _ \<Rightarrow> Inl InternalServerError)"

definition members_to_share :: "catalog \<Rightarrow> user_row \<Rightarrow> vfolder_row \<Rightarrow> string list \<Rightarrow> user_row list" where
  "members_to_share ct me vf emails =
     [u. u \<leftarrow> ct_users ct, (i, g) \<leftarrow> ct_agus ct, i = u_uuid u \<and> Some g = vf_group vf \<and> u_email u \<in> set emails \<and> u_email u \<noteq> u_email me]"

definition share_with :: "folder_env \<Rightarrow> string \<Rightarrow> vfolder_permission \<Rightarrow> string list \<Rightarrow> folder_tables \<Rightarrow> folder_tables" where
  "share_with env vfid perm uuids t =
     (let has = (\<lambda>u. list_ex (\<lambda>(_, i, x). i = vfid \<and> x = u) (ft_permissions t));
          added = filter (\<lambda>u. \<not> has u) (fv_set_order env uuids)
      in t\<lparr>ft_permissions := map (\<lambda>(p, i, u). (if i = vfid \<and> u \<in> set uuids then perm else p, i, u))
             (ft_permissions t @ map (\<lambda>u. (perm, vfid, u)) added)\<rparr>)"

definition share :: "folder_env \<Rightarrow> catalog \<Rightarrow> auth_state \<Rightarrow> string \<Rightarrow> vfolder_permission \<Rightarrow> string list \<Rightarrow> folder_state \<Rightarrow> string list res \<times> folder_state" where
  "share env ct st name perm emails s = with_caller admin_required st s (\<lambda>me kp pol. with_status ct me UPDATABLE (Some name) s (\<lambda>_.
     case group_folder name (fs_tables s) of
       Inl e \<Rightarrow> (Inl e, s)
     | Inr vf \<Rightarrow>
         let user_info = members_to_share ct me vf emails
         in if user_info = [] \<or> length user_info < length emails then (Inl ObjectNotFound, s)
            else (Inr (map u_email user_info), s\<lparr>fs_tables := share_with env (vf_id vf) perm (map u_uuid user_info) (fs_tables s)\<rparr>)))"

definition drop_permissions :: "string \<Rightarrow> string list \<Rightarrow> folder_tables \<Rightarrow> folder_tables" where
  "drop_permissions vfid uuids t = t\<lparr>ft_permissions := filter (\<lambda>(_, i, u). \<not> (i = vfid \<and> u \<in> set uuids)) (ft_permissions t)\<rparr>"

definition unshare :: "catalog \<Rightarrow> auth_state \<Rightarrow> string \<Rightarrow> string list \<Rightarrow> folder_state \<Rightarrow> string list res \<times> folder_state" where
  "unshare ct st name emails s = with_caller admin_required st s (\<lambda>me kp pol. with_status ct me UPDATABLE (Some name) s (\<lambda>_.
     case group_folder name (fs_tables s) of
       Inl e \<Rightarrow> (Inl e, s)
     | Inr vf \<Rightarrow>
         let uuids = map u_uuid (filter (\<lambda>u. u_email u \<in> set emails) (ct_users ct))
         in if uuids = [] then (Inl ObjectNotFound, s) else (Inr emails, s\<lparr>fs_tables := drop_permissions (vf_id vf) uuids (fs_tables s)\<rparr>)))"

text \<open>The identifier in the parameters is a text, the requester's is not: the two never compare as equal.\<close>

definition leave :: "catalog \<Rightarrow> auth_state \<Rightarrow> string \<Rightarrow> string option \<Rightarrow> folder_state \<Rightarrow> unit res \<times> folder_state" where
  "leave ct st name shared_user_uuid s = with_caller auth_required st s (\<lambda>me kp pol. with_entry ct st me UPDATABLE READ_ONLY name s (\<lambda>row.
     if vf_ownership_type (ve_row row) = OwnedByGroup then (Inl InvalidAPIParameters, s)
     else if truthy shared_user_uuid then
       (if u_role me \<noteq> SUPERADMIN then (Inl InsufficientPrivilege, s)
        else (Inr (), s\<lparr>fs_tables := drop_permissions (vf_id (ve_row row)) [the shared_user_uuid] (fs_tables s)\<rparr>))
     else if ve_is_owner row then (Inl InvalidAPIParameters, s)
     else (Inr (), s\<lparr>fs_tables := drop_permissions (vf_id (ve_row row)) [u_uuid me] (fs_tables s)\<rparr>)))"

definition update_shared_vfolder :: "catalog \<Rightarrow> auth_state \<Rightarrow> string \<Rightarrow> string \<Rightarrow> vfolder_permission option \<Rightarrow> folder_state \<Rightarrow> unit res \<times> folder_state" where
  "update_shared_vfolder ct st vfid user_uuid perm s = with_caller auth_required st s (\<lambda>me kp pol. with_status ct me UPDATABLE None s (\<lambda>_.
     (Inr (), s\<lparr>fs_tables := (case perm of
        Some q \<Rightarrow> (fs_tables s)\<lparr>ft_permissions := map (\<lambda>(p, i, u). (if i = vfid \<and> u = user_uuid then q else p, i, u)) (ft_permissions (fs_tables s))\<rparr>
      | None \<Rightarrow> drop_permissions vfid [user_uuid] (fs_tables s))\<rparr>)))"

section \<open>Cloning\<close>

record clone_params =
  cn_target_name :: string
  cn_host :: "string option"
  cn_usage_mode :: "vfolder_usage_mode option"
  cn_permission :: "vfolder_permission option"
  cn_cloneable :: bool

definition clone_checks :: "folder_env \<Rightarrow> catalog \<Rightarrow> folder_tables \<Rightarrow> user_row \<Rightarrow> keypair_row \<Rightarrow> policy_row \<Rightarrow> vfolder_entry \<Rightarrow> clone_params \<Rightarrow> string \<Rightarrow> string res" where
  "clone_checks env ct ft me kp pol row p requested_host =
     (if \<not> vf_cloneable (ve_row row) then Inl GenericForbidden
      else bindE (resolve_host env (Some requested_host)) (\<lambda>host. bindE (check_types ft) (\<lambda>_.
        if \<not> verify_vfolder_name (cn_target_name p) then Inl InvalidAPIParameters
        else if fst (split_host (vf_host (ve_row row))) \<noteq> fst (split_host requested_host) then Inl InvalidAPIParameters
        else if host \<notin> allowed_hosts ct pol me None then Inl InvalidAPIParameters
        else bindE (check_count pol ft me) (\<lambda>_.
          if accessible ct ft me (\<lambda>v. vf_name v = cn_target_name p \<and> vf_host v = host) \<noteq> [] then Inl VFolderAlreadyExists
          else if take 1 (cn_target_name p) = ''.'' \<and> cn_target_name p \<in> set (map df_path (kp_dotfiles kp)) then Inl InvalidAPIParameters
          else if ''user'' \<notin> set (ft_types ft) then Inl InvalidAPIParameters
          else Inr host))))"

definition clone_row :: "folder_env \<Rightarrow> user_row \<Rightarrow> clone_params \<Rightarrow> string \<Rightarrow> vfolder_usage_mode \<Rightarrow> vfolder_permission \<Rightarrow> vfolder_row" where
  "clone_row env me p host mode perm =
     \<lparr>vf_id = fv_folder_id env, vf_host = host, vf_name = cn_target_name p, vf_permission = perm, vf_ownership_type = OwnedByUser,
      vf_user = Some (u_uuid me), vf_group = None, vf_usage_mode = mode, vf_max_size = None, vf_creator = u_email me,
      vf_unmanaged_path = [], vf_cloneable = cn_cloneable p, vf_status = FolderReady\<rparr>"

text \<open>
  The permission is checked before the status here.  The host is split before its default is looked
  up, so a request without one raises \<open>AttributeError\<close>.
\<close>

definition clone :: "folder_env \<Rightarrow> catalog \<Rightarrow> auth_state \<Rightarrow> string \<Rightarrow> clone_params \<Rightarrow> folder_state \<Rightarrow> vfolder_row res \<times> folder_state" where
  "clone env ct st name p s = with_caller auth_required st s (\<lambda>me kp pol.
     case permission_required ct (fs_tables s) st me READ_ONLY name of
       Inl e \<Rightarrow> (Inl e, s)
     | Inr row \<Rightarrow> with_status ct me UPDATABLE (Some name) s (\<lambda>_.
         case (cn_usage_mode p, cn_permission p, cn_host p) of
           (Some mode, Some perm, Some requested_host) \<Rightarrow>
             (case clone_checks env ct (fs_tables s) me kp pol row p requested_host of
                Inl e \<Rightarrow> (Inl e, s)
              | Inr host \<Rightarrow>
                  (case storage_request env host (CreateFolder (snd (split_host requested_host)) (fv_folder_id env) None) s of
                     (Inl e, s1) \<Rightarrow> (Inl e, s1)
                   | (Inr _, s1) \<Rightarrow>
                       (case insert_folder (clone_row env me p host mode perm)
                               (update_folders (\<lambda>v. vf_name v = vf_name (ve_row row)) (\<lambda>v. v\<lparr>vf_status := FolderCloning\<rparr>) (fs_tables s1)) of
                          Inl e \<Rightarrow> (Inl e, s1)
                        | Inr t \<Rightarrow> (Inr (clone_row env me p host mode perm), s1\<lparr>fs_tables := t, fs_clones := fs_clones s1 @
                            [\<lparr>cl_host = vf_host (ve_row row), cl_source_volume = snd (split_host (vf_host (ve_row row))), cl_source_id = vf_id (ve_row row),
                              cl_target_volume = snd (split_host requested_host), cl_target_id = fv_folder_id env, cl_name = vf_name (ve_row row)\<rparr>]\<rparr>))))
         | _ \<Rightarrow> (Inl AttributeError, s)))"

text \<open>The background task of a clone; when the storage fails the status stays.\<close>

definition clone_bgtask :: "folder_env \<Rightarrow> clone_task \<Rightarrow> folder_state \<Rightarrow> unit res \<times> folder_state" where
  "clone_bgtask env c s =
     (case storage_request env (cl_host c) (CloneFolder (cl_source_volume c) (cl_source_id c) (cl_target_volume c) (cl_target_id c))
             (s\<lparr>fs_clones := remove1 c (fs_clones s)\<rparr>) of
        (Inl e, s1) \<Rightarrow> (Inl e, s1)
      | (Inr _, s1) \<Rightarrow> (Inr (), s1\<lparr>fs_tables := update_folders (\<lambda>v. vf_name v = cl_name c) (\<lambda>v. v\<lparr>vf_status := FolderReady\<rparr>) (fs_tables s1)\<rparr>))"

section \<open>Files\<close>

text \<open>The requests about files check status and permission and are passed on to the storage proxy.\<close>

definition file_request :: "folder_env \<Rightarrow> catalog \<Rightarrow> auth_state \<Rightarrow> access_status \<Rightarrow> vfolder_permission \<Rightarrow> string \<Rightarrow> (vfolder_row \<Rightarrow> file_op) \<Rightarrow> folder_state \<Rightarrow> unit res \<times> folder_state" where
  "file_request env ct st access perm name op s = with_caller auth_required st s (\<lambda>me kp pol. with_entry ct st me access perm name s (\<lambda>row.
     storage_request env (vf_host (ve_row row)) (FileCall (snd (split_host (vf_host (ve_row row)))) (vf_id (ve_row row)) (op (ve_row row))) s))"

definition make_dir :: "folder_env \<Rightarrow> catalog \<Rightarrow> auth_state \<Rightarrow> string \<Rightarrow> string \<Rightarrow> bool \<Rightarrow> bool \<Rightarrow> folder_state \<Rightarrow> unit res \<times> folder_state" where
  "make_dir env ct st name path parents exist_ok = file_request env ct st UPDATABLE READ_WRITE name (\<lambda>_. MakeDir path parents exist_ok)"

definition create_download_session :: "folder_env \<Rightarrow> catalog \<Rightarrow> auth_state \<Rightarrow> string \<Rightarrow> string \<Rightarrow> bool \<Rightarrow> folder_state \<Rightarrow> unit res \<times> folder_state" where
  "create_download_session env ct st name path archive = file_request env ct st UPDATABLE READ_ONLY name
     (\<lambda>v. Download path archive (if vf_unmanaged_path v = [] then None else Some (vf_unmanaged_path v)))"

definition create_upload_session :: "folder_env \<Rightarrow> catalog \<Rightarrow> auth_state \<Rightarrow> string \<Rightarrow> string \<Rightarrow> int \<Rightarrow> folder_state \<Rightarrow> unit res \<times> folder_state" where
  "create_upload_session env ct st name path sz = file_request env ct st UPDATABLE READ_WRITE name (\<lambda>_. Upload path sz)"

definition rename_file :: "folder_env \<Rightarrow> catalog \<Rightarrow> auth_state \<Rightarrow> string \<Rightarrow> string \<Rightarrow> string \<Rightarrow> folder_state \<Rightarrow> unit res \<times> folder_state" where
  "rename_file env ct st name target_path new_name = file_request env ct st UPDATABLE READ_WRITE name (\<lambda>_. RenameFile target_path new_name)"

definition move_file :: "folder_env \<Rightarrow> catalog \<Rightarrow> auth_state \<Rightarrow> string \<Rightarrow> string \<Rightarrow> string \<Rightarrow> folder_state \<Rightarrow> unit res \<times> folder_state" where
  "move_file env ct st name src dst = file_request env ct st UPDATABLE READ_WRITE name (\<lambda>_. MoveFile src dst)"

definition delete_files :: "folder_env \<Rightarrow> catalog \<Rightarrow> auth_state \<Rightarrow> string \<Rightarrow> string list \<Rightarrow> bool \<Rightarrow> folder_state \<Rightarrow> unit res \<times> folder_state" where
  "delete_files env ct st name files recursive = file_request env ct st UPDATABLE READ_WRITE name (\<lambda>_. DeleteFiles files recursive)"

definition list_files :: "folder_env \<Rightarrow> catalog \<Rightarrow> auth_state \<Rightarrow> string \<Rightarrow> string \<Rightarrow> folder_state \<Rightarrow> unit res \<times> folder_state" where
  "list_files env ct st name path = file_request env ct st READABLE READ_ONLY name (\<lambda>_. ListFiles path)"

end
