(* ===== verification/FolderSafety.thy ===== *)
theory FolderSafety
  imports FolderApi
begin

text \<open>
  What the requests about virtual folders guarantee: the constraints of the tables along every
  sequence of requests, who can make a folder disappear, what becomes of a created folder, and the
  requests that do what they should not.
\<close>

section \<open>Requests as steps\<close>

text \<open>A set is iterated in some order, each element once.\<close>

definition orderly :: "folder_env \<Rightarrow> bool" where
  "orderly env \<longleftrightarrow> (\<forall>xs. set (fv_set_order env xs) = set xs \<and> distinct (fv_set_order env xs))"

inductive folder_step :: "catalog \<Rightarrow> auth_state option \<Rightarrow> folder_state \<Rightarrow> folder_state \<Rightarrow> bool" for ct where
  step_create: "folder_step ct (Some st) s (snd (create_folder env ct st p s))"
| step_delete: "folder_step ct (Some st) s (snd (delete env ct st name s))"
| step_delete_by_id: "folder_step ct (Some st) s (snd (delete_by_id env ct st i s))"
| step_rename: "folder_step ct (Some st) s (snd (rename_vfolder ct st name new_name s))"
| step_options: "folder_step ct (Some st) s (snd (update_vfolder_options ct st name cloneable perm s))"
| step_quota: "folder_step ct (Some st) s (snd (update_quota env ct st host i quota s))"
| step_invite: "orderly env \<Longrightarrow> folder_step ct (Some st) s (snd (invite env ct st name perm' emails s))"
| step_update_invitation: "folder_step ct (Some st) s (snd (update_invitation ct st i perm' s))"
| step_accept: "folder_step ct (Some st) s (snd (accept_invitation ct st i s))"
| step_delete_invitation: "folder_step ct (Some st) s (snd (delete_invitation ct st i s))"
| step_share: "orderly env \<Longrightarrow> folder_step ct (Some st) s (snd (share env ct st name perm' emails s))"
| step_unshare: "folder_step ct (Some st) s (snd (unshare ct st name emails s))"
| step_leave: "folder_step ct (Some st) s (snd (leave ct st name who s))"
| step_update_shared: "folder_step ct (Some st) s (snd (update_shared_vfolder ct st i u perm s))"
| step_clone: "folder_step ct (Some st) s (snd (clone env ct st name q s))"
| step_cloned: "c \<in> set (fs_clones s) \<Longrightarrow> folder_step ct None s (snd (clone_bgtask env c s))"
| step_file: "folder_step ct (Some st) s (snd (file_request env ct st access perm' name op s))"

definition folder_run :: "catalog \<Rightarrow> folder_state \<Rightarrow> folder_state \<Rightarrow> bool" where
  "folder_run ct = (\<lambda>s s'. \<exists>who. folder_step ct who s s')\<^sup>*\<^sup>*"

lemma run_step: "folder_step ct who s s' \<Longrightarrow> folder_run ct s s'"
  unfolding folder_run_def by blast

section \<open>What a request does to the tables\<close>

lemma storage_request_simps [simp]:
  "fs_tables (snd (storage_request env host call s)) = fs_tables s"
  "fs_clones (snd (storage_request env host call s)) = fs_clones s"
  by (simp_all add: storage_request_def Let_def)

lemma storage_requestD: "storage_request env host call s = (r, s1) \<Longrightarrow> fs_tables s1 = fs_tables s"
  by (metis snd_conv storage_request_simps(1))

lemma with_status_None [simp]: "with_status ct me perm None s f = (Inl KeyError, s)"
  by (simp add: with_status_def status_required_def)

text \<open>A guarded request either fails and changes nothing, or its body runs.\<close>

lemma with_caller_cases:
  "(\<exists>e. with_caller guard st s f = (Inl e, s)) \<or>
   (\<exists>me kp pol. guard st = Inr () \<and> as_user st = Some me \<and> as_keypair st = Some kp \<and> as_resource_policy st = Some pol \<and>
      with_caller guard st s f = f me kp pol)"
  by (auto simp: with_caller_def split: sum.splits option.splits)

lemma with_status_cases:
  "(\<exists>e. with_status ct me access (Some n) s f = (Inl e, s)) \<or>
   accessible ct (fs_tables s) me (\<lambda>v. vf_name v = n \<and> status_ok access (vf_status v)) \<noteq> [] \<and> with_status ct me access (Some n) s f = f ()"
  by (auto simp: with_status_def status_required_def)

lemma with_entry_cases:
  "(\<exists>e. with_entry ct st me access perm name s f = (Inl e, s)) \<or>
   (\<exists>row\<in>set (accessible ct (fs_tables s) me (\<lambda>v. vf_name v = name)). with_entry ct st me access perm name s f = f row)"
  by (auto simp: with_entry_def with_status_def permission_required_def accessible_with_def split: sum.splits list.splits)

text \<open>
  An entry of the query comes from a row of the table; its owner flag is set for the user's own
  folder, and for folders of groups if the user is an administrator.
\<close>

lemma accessible_row:
  assumes "e \<in> set (accessible ct ft me cond)"
  shows "ve_row e \<in> set (ft_vfolders ft) \<and> cond (ve_row e) \<and>
    (ve_is_owner e \<longrightarrow> vf_user (ve_row e) = Some (u_uuid me) \<or> vf_group (ve_row e) \<noteq> None \<and> u_role me \<in> {ADMIN, SUPERADMIN})"
proof -
  have b: "ve_row x \<in> set (ft_vfolders ft) \<and> cond (ve_row x) \<and>
      (ve_is_owner x \<longrightarrow> vf_user (ve_row x) = Some (u_uuid me) \<or> vf_group (ve_row x) \<noteq> None \<and> u_role me \<in> {ADMIN, SUPERADMIN})"
    if "x \<in> set (owned_entries ct ft (u_uuid me) cond) \<or> x \<in> set (shared_entries ct ft (u_uuid me) cond) \<or>
        x \<in> set (group_entries ct ft (u_uuid me) (Some (u_role me)) (u_domain_name me) cond)" for x
    using that by (auto simp: owned_entries_def shared_entries_def group_entries_def Let_def)
  have o: "ve_row (override perms x) = ve_row x \<and> ve_is_owner (override perms x) = ve_is_owner x" for perms x
    by (simp add: override_def split: option.splits)
  from assms obtain x perms where x: "x \<in> set (owned_entries ct ft (u_uuid me) cond) \<or> x \<in> set (shared_entries ct ft (u_uuid me) cond) \<or>
        x \<in> set (group_entries ct ft (u_uuid me) (Some (u_role me)) (u_domain_name me) cond)" and "e = x \<or> e = override perms x"
    unfolding accessible_def query_accessible_vfolders_def Let_def by (auto split: if_splits)
  with b[OF x] o[of perms x] show ?thesis by auto
qed


lemma new_row_ok: "folder_ok (new_row env me p host grp mode perm quota)"
  by (simp add: folder_ok_def new_row_def)

lemma create_folder_cases:
  assumes "create_folder env ct st p s = (r, s')"
  shows "(\<exists>e. r = Inl e) \<and> fs_tables s' = fs_tables s \<or>
    (\<exists>me pol host grp mode perm quota. as_user st = Some me \<and> as_resource_policy st = Some pol \<and> nf_permission p = Some perm \<and>
       create_folder_checks env ct (fs_tables s) st me pol p = Inr (host, grp, quota) \<and> r = Inr (new_row env me p host grp mode perm quota) \<and>
       insert_folder (new_row env me p host grp mode perm quota) (fs_tables s) = Inr (fs_tables s'))"
  using assms unfolding create_folder_def
  by (auto simp: with_caller_def split: sum.splits option.splits prod.splits if_splits dest!: storage_requestD)

lemma delete_cases:
  assumes "delete env ct st name s = (r, s')"
  shows "s' = s \<and> r \<noteq> Inr () \<or>
    (\<exists>me e. as_user st = Some me \<and> accessible ct (fs_tables s) me (\<lambda>v. vf_name v = name) = [e] \<and> (ve_is_owner e \<or> ve_permission e = RW_DELETE) \<and>
       fs_tables s' = delete_folder (vf_id (ve_row e)) (update_folders (\<lambda>v. vf_name v = name) (\<lambda>v. v\<lparr>vf_status := FolderDeleting\<rparr>) (fs_tables s)))"
  using assms unfolding delete_def
  by (auto simp: with_caller_def with_status_def split: sum.splits option.splits prod.splits list.splits if_splits dest!: storage_requestD)

lemma clone_row_ok: "folder_ok (clone_row env me p host mode perm)"
  by (simp add: folder_ok_def clone_row_def)

lemma clone_cases:
  assumes "clone env ct st name p s = (r, s')"
  shows "(\<exists>e. r = Inl e) \<and> fs_tables s' = fs_tables s \<or>
    (\<exists>me kp pol row host requested mode perm. as_user st = Some me \<and> as_resource_policy st = Some pol \<and>
       clone_checks env ct (fs_tables s) me kp pol row p requested = Inr host \<and> r = Inr (clone_row env me p host mode perm) \<and>
       insert_folder (clone_row env me p host mode perm)
         (update_folders (\<lambda>v. vf_name v = vf_name (ve_row row)) (\<lambda>v. v\<lparr>vf_status := FolderCloning\<rparr>) (fs_tables s)) = Inr (fs_tables s'))"
  (is "?failed \<or> ?cloned")
proof (cases r)
  case (Inl e)
  with assms have ?failed unfolding clone_def
    by (auto simp: with_caller_def with_status_def split: sum.splits option.splits prod.splits if_splits dest!: storage_requestD)
  then show ?thesis ..
next
  case (Inr v)
  with assms have ?cloned unfolding clone_def
    by (auto simp: with_caller_def with_status_def split: sum.splits option.splits prod.splits if_splits dest!: storage_requestD) metis
  then show ?thesis ..
qed

lemma invite_cases:
  assumes "invite env ct st name perm emails s = (r, s')"
  shows "fs_tables s' = fs_tables s \<or> (\<exists>vf x ys. vf \<in> set (fs_folders s) \<and>
    fs_tables s' = snd (foldl (invite_one env x (vf_id vf) perm) ([], fs_tables s) ys))"
proof -
  have m: "vf \<in> set (fs_folders s)" if "List.find c (fs_folders s) = Some vf" for c vf
    using find_SomeD[OF that] by simp
  show ?thesis using assms unfolding invite_def
    by (auto simp: with_caller_def with_status_def Let_def case_prod_beta split: sum.splits option.splits if_splits dest!: m) blast
qed

lemma share_cases:
  assumes "share env ct st name perm emails s = (r, s')"
  shows "fs_tables s' = fs_tables s \<or> (\<exists>me vf. as_is_admin st \<and> as_user st = Some me \<and> vf \<in> set (fs_folders s) \<and> vf_name vf = name \<and> vf_ownership_type vf = OwnedByGroup \<and>
    fs_tables s' = share_with env (vf_id vf) perm (map u_uuid (members_to_share ct me vf emails)) (fs_tables s))"
proof -
  have g: "vf \<in> set (fs_folders s) \<and> vf_name vf = name \<and> vf_ownership_type vf = OwnedByGroup" if "group_folder name (fs_tables s) = Inr vf" for vf
    using that by (auto simp: group_folder_def filter_eq_Cons_iff split: list.splits)
  show ?thesis using assms unfolding share_def
    by (auto simp: with_caller_def with_status_def Let_def admin_required_def split: sum.splits option.splits prod.splits if_splits dest!: g)
qed

lemma unshare_cases:
  assumes "unshare ct st name emails s = (r, s')"
  shows "fs_tables s' = fs_tables s \<or> (\<exists>i us. fs_tables s' = drop_permissions i us (fs_tables s))"
  using assms unfolding unshare_def
  by (auto simp: with_caller_def with_status_def Let_def split: sum.splits option.splits prod.splits if_splits) blast+

lemma leave_cases:
  assumes "leave ct st name who s = (r, s')"
  shows "fs_tables s' = fs_tables s \<or> (\<exists>i us. fs_tables s' = drop_permissions i us (fs_tables s))"
  using assms unfolding leave_def
  by (auto simp: with_caller_def with_entry_def with_status_def Let_def split: sum.splits option.splits prod.splits if_splits) blast+

lemma rename_cases:
  assumes "rename_vfolder ct st name new_name s = (r, s')"
  shows "fs_tables s' = fs_tables s \<or> (\<exists>i. fs_tables s' = update_folders (\<lambda>v. vf_id v = i) (\<lambda>v. v\<lparr>vf_name := new_name\<rparr>) (fs_tables s))"
  using assms unfolding rename_vfolder_def
  by (auto simp: with_caller_def with_entry_def with_status_def Let_def split: sum.splits option.splits prod.splits if_splits)

lemma options_cases:
  assumes "update_vfolder_options ct st name cloneable perm s = (r, s')"
  shows "fs_tables s' = fs_tables s \<or> (\<exists>c row. fs_tables s' = update_folders c (updated_fields row cloneable perm) (fs_tables s))"
  using assms unfolding update_vfolder_options_def
  by (auto simp: with_caller_def with_entry_def with_status_def split: sum.splits option.splits prod.splits if_splits) blast

lemma bgtask_cases:
  assumes "clone_bgtask env c s = (r, s')"
  shows "fs_tables s' = fs_tables s \<or> fs_tables s' = update_folders (\<lambda>v. vf_name v = cl_name c) (\<lambda>v. v\<lparr>vf_status := FolderReady\<rparr>) (fs_tables s)"
  using assms unfolding clone_bgtask_def by (auto split: sum.splits prod.splits dest!: storage_requestD)

text \<open>The requests that are routed without a folder name, and those about files, leave the tables alone.\<close>

lemma unrouted [simp]:
  "snd (delete_by_id env ct st i s) = s" "snd (update_quota env ct st host i quota s) = s" "snd (update_invitation ct st i perm s) = s"
  "snd (accept_invitation ct st i s) = s" "snd (delete_invitation ct st i s) = s" "snd (update_shared_vfolder ct st i u perm' s) = s"
  by (simp_all add: delete_by_id_def update_quota_def update_invitation_def accept_invitation_def delete_invitation_def update_shared_vfolder_def
      with_caller_def split: sum.splits option.splits)

lemma file_request_tables [simp]: "fs_tables (snd (file_request env ct st access perm name op s)) = fs_tables s"
  by (simp add: file_request_def with_caller_def with_entry_def with_status_def split: sum.splits option.splits)

section \<open>Invariants of the tables\<close>

text \<open>
  The requests change the tables only through a few primitive operations: an invariant of the
  tables that these keep holds along every run.
\<close>

definition keeps_owner :: "(vfolder_row \<Rightarrow> vfolder_row) \<Rightarrow> bool" where
  "keeps_owner f \<longleftrightarrow> (\<forall>v. vf_id (f v) = vf_id v \<and> vf_user (f v) = vf_user v \<and> vf_group (f v) = vf_group v \<and> vf_ownership_type (f v) = vf_ownership_type v)"

locale folder_property =
  fixes ct :: catalog and P :: "folder_tables \<Rightarrow> bool"
  assumes update: "P t \<Longrightarrow> keeps_owner f \<Longrightarrow> P (update_folders c f t)"
    and insert: "P t \<Longrightarrow> insert_folder v t = Inr t' \<Longrightarrow> folder_ok v \<Longrightarrow> P t'"
    and invite: "P t \<Longrightarrow> i \<in> set (map vf_id (ft_vfolders t)) \<Longrightarrow> P (snd (invite_one env x i p (ys, t) y))"
    and share: "P t \<Longrightarrow> orderly env \<Longrightarrow> vf \<in> set (ft_vfolders t) \<Longrightarrow> vf_ownership_type vf = OwnedByGroup \<Longrightarrow>
      \<forall>u\<in>set us. \<exists>g. vf_group vf = Some g \<and> (u, g) \<in> set (ct_agus ct) \<Longrightarrow> P (share_with env (vf_id vf) p us t)"
    and drop: "P t \<Longrightarrow> P (drop_permissions i us t)"
begin

lemma create_keeps: "P (fs_tables s) \<Longrightarrow> P (fs_tables (snd (create_folder env ct st p s)))"
  using create_folder_cases[OF surjective_pairing, of env ct st p s] insert[OF _ _ new_row_ok] by auto

lemma clone_keeps:
  assumes P: "P (fs_tables s)" shows "P (fs_tables (snd (clone env ct st name p s)))"
proof -
  have "keeps_owner (\<lambda>v. v\<lparr>vf_status := FolderCloning\<rparr>)" by (simp add: keeps_owner_def)
  from insert[OF update[OF P this] _ clone_row_ok] clone_cases[OF surjective_pairing, of env ct st name p s] P show ?thesis by auto
qed

lemma invite_keeps:
  assumes P: "P (fs_tables s)" shows "P (fs_tables (snd (invite env ct st name perm emails s)))"
proof -
  have "P (snd (foldl (invite_one env x i perm) acc ys))" if "P (snd acc)" "i \<in> set (map vf_id (ft_vfolders (snd acc)))" for x i ys acc
    using that
  proof (induction ys arbitrary: acc)
    case (Cons y ys)
    have "P (snd (invite_one env x i perm acc y))" using invite[OF Cons.prems, of env x perm "fst acc" y] by simp
    moreover have "ft_vfolders (snd (invite_one env x i perm acc y)) = ft_vfolders (snd acc)" by (simp add: invite_one_def split: prod.splits)
    ultimately show ?case using Cons.IH Cons.prems(2) by simp
  qed simp
  from this[of "([], fs_tables s)"] P invite_cases[OF surjective_pairing, of env ct st name perm emails s] show ?thesis by fastforce
qed

lemma share_keeps:
  assumes P: "P (fs_tables s)" and "orderly env" shows "P (fs_tables (snd (share env ct st name perm emails s)))"
proof -
  have "\<forall>u\<in>set (map u_uuid (members_to_share ct me vf emails)). \<exists>g. vf_group vf = Some g \<and> (u, g) \<in> set (ct_agus ct)" for me vf
    by (auto simp: members_to_share_def eq_commute[of "Some _" "vf_group vf"])
  from share[OF P assms(2) _ _ this] P share_cases[OF surjective_pairing, of env ct st name perm emails s] show ?thesis by auto
qed

lemma rest_keeps:
  assumes P: "P (fs_tables s)"
  shows "P (fs_tables (snd (rename_vfolder ct st name new_name s)))" "P (fs_tables (snd (update_vfolder_options ct st name cloneable perm s)))"
    "P (fs_tables (snd (unshare ct st name emails s)))" "P (fs_tables (snd (leave ct st name who s)))" "P (fs_tables (snd (clone_bgtask env c s)))"
proof -
  have k: "keeps_owner (\<lambda>v. v\<lparr>vf_name := new_name\<rparr>)" "keeps_owner (updated_fields row cloneable perm)" "keeps_owner (\<lambda>v. v\<lparr>vf_status := FolderReady\<rparr>)" for row
    by (simp_all add: keeps_owner_def updated_fields_def split: option.splits)
  show "P (fs_tables (snd (rename_vfolder ct st name new_name s)))"
    using rename_cases[OF surjective_pairing, of ct st name new_name s] update[OF P k(1)] P by auto
  show "P (fs_tables (snd (update_vfolder_options ct st name cloneable perm s)))"
    using options_cases[OF surjective_pairing, of ct st name cloneable perm s] update[OF P k(2)] P by auto
  show "P (fs_tables (snd (unshare ct st name emails s)))"
    using unshare_cases[OF surjective_pairing, of ct st name emails s] drop[OF P] P by auto
  show "P (fs_tables (snd (leave ct st name who s)))"
    using leave_cases[OF surjective_pairing, of ct st name who s] drop[OF P] P by auto
  show "P (fs_tables (snd (clone_bgtask env c s)))"
    using bgtask_cases[OF surjective_pairing, of env c s] update[OF P k(3)] P by auto
qed

lemma step_keeps_or_deletes:
  "folder_step ct who s s' \<Longrightarrow> P (fs_tables s) \<Longrightarrow> P (fs_tables s') \<or> (\<exists>st env name. who = Some st \<and> s' = snd (delete env ct st name s))"
  by (induction rule: folder_step.induct) (auto intro: create_keeps invite_keeps share_keeps clone_keeps rest_keeps)

end

text \<open>A property of the tables that the deletion of a folder keeps too is an invariant.\<close>

locale folder_invariant = folder_property +
  assumes delete: "P t \<Longrightarrow> P (delete_folder i t)"
begin

lemma delete_keeps:
  assumes P: "P (fs_tables s)" shows "P (fs_tables (snd (delete env ct st name s)))"
proof -
  have "keeps_owner (\<lambda>v. v\<lparr>vf_status := FolderDeleting\<rparr>)" by (simp add: keeps_owner_def)
  from delete[OF update[OF P this]] delete_cases[OF surjective_pairing, of env ct st name s] P show ?thesis by auto
qed

lemma step_keeps: "folder_step ct who s s' \<Longrightarrow> P (fs_tables s) \<Longrightarrow> P (fs_tables s')"
  using step_keeps_or_deletes delete_keeps by blast

lemma run_keeps: "folder_run ct s s' \<Longrightarrow> P (fs_tables s) \<Longrightarrow> P (fs_tables s')"
  unfolding folder_run_def by (induction rule: rtranclp_induct) (auto intro: step_keeps)

end

section \<open>The constraints of the tables\<close>

definition folder_inv :: "folder_tables \<Rightarrow> bool" where
  "folder_inv t \<longleftrightarrow> distinct (map vf_id (ft_vfolders t)) \<and> (\<forall>v\<in>set (ft_vfolders t). folder_ok v) \<and>
     (\<forall>(p, i, u)\<in>set (ft_permissions t). i \<in> set (map vf_id (ft_vfolders t))) \<and> distinct (map snd (ft_permissions t)) \<and>
     (\<forall>r\<in>set (ft_invitations t). iv_vfolder r \<in> set (map vf_id (ft_vfolders t)))"

lemma keeps_owner_ok: "keeps_owner f \<Longrightarrow> folder_ok (f v) = folder_ok v"
  by (simp add: keeps_owner_def folder_ok_def)

lemma update_folders_ids: "keeps_owner f \<Longrightarrow> map vf_id (ft_vfolders (update_folders c f t)) = map vf_id (ft_vfolders t)"
  by (simp add: update_folders_def keeps_owner_def)

lemma delete_folder_ids: "map vf_id (ft_vfolders (delete_folder i t)) = filter (\<lambda>x. x \<noteq> i) (map vf_id (ft_vfolders t))"
  by (simp add: delete_folder_def filter_map comp_def)

lemma share_with_pairs:
  "map snd (ft_permissions (share_with env i p us t)) =
     map snd (ft_permissions t) @ map (Pair i) (filter (\<lambda>u. (i, u) \<notin> set (map snd (ft_permissions t))) (fv_set_order env us))"
  by (simp add: share_with_def Let_def case_prod_beta comp_def list_ex_iff) (auto intro!: arg_cong[of _ _ "map (Pair i)"] filter_cong; force)

interpretation inv: folder_invariant ct folder_inv for ct
proof
  fix t c f assume t: "folder_inv t" and k: "keeps_owner f"
  then show "folder_inv (update_folders c f t)"
    unfolding folder_inv_def update_folders_ids[OF k] by (auto simp: update_folders_def keeps_owner_ok[OF k])
next
  fix t t' v assume "folder_inv t" "insert_folder v t = Inr t'" "folder_ok v"
  then show "folder_inv t'" by (auto simp: folder_inv_def insert_folder_def split: if_splits)
next
  fix t i env x p ys y assume "folder_inv t" "i \<in> set (map vf_id (ft_vfolders t))"
  then show "folder_inv (snd (invite_one env x i p (ys, t) y))" by (auto simp: folder_inv_def invite_one_def)
next
  fix t env vf us p
  assume t: "folder_inv t" and o: "orderly env" and vf: "vf \<in> set (ft_vfolders t)"
  have d: "distinct (fv_set_order env us)" using o by (simp add: orderly_def)
  have "ft_vfolders (share_with env (vf_id vf) p us t) = ft_vfolders t" "ft_invitations (share_with env (vf_id vf) p us t) = ft_invitations t"
    by (simp_all add: share_with_def Let_def)
  moreover have "distinct (map snd (ft_permissions (share_with env (vf_id vf) p us t)))"
    unfolding share_with_pairs using t d by (auto simp: folder_inv_def distinct_map inj_on_def)
  moreover have "\<forall>(q, i, u)\<in>set (ft_permissions (share_with env (vf_id vf) p us t)). i \<in> set (map vf_id (ft_vfolders t))"
    using t vf by (auto simp: folder_inv_def share_with_def Let_def)
  ultimately show "folder_inv (share_with env (vf_id vf) p us t)" using t by (simp add: folder_inv_def)
next
  fix t i us assume "folder_inv t"
  then show "folder_inv (drop_permissions i us t)"
    by (auto simp: folder_inv_def drop_permissions_def distinct_map_filter)
next
  fix t i assume "folder_inv t"
  then show "folder_inv (delete_folder i t)"
    by (auto simp: folder_inv_def delete_folder_def distinct_map_filter)
qed

text \<open>
  C10: Whatever requests are made, in whatever order: identifiers of folders stay unique, every folder
  belongs to a user or to a group as its type says, permissions and invitations refer to folders that
  exist, and a user holds at most one permission for a folder.
\<close>
theorem folder_constraints_kept:
  assumes "folder_run ct s s'" and "folder_inv (fs_tables s)"
  shows "folder_inv (fs_tables s')"
  using assms by (rule inv.run_keeps)

section \<open>Who is given a permission\<close>




section \<open>Who makes a folder disappear\<close>

interpretation stays: folder_property ct "\<lambda>t. i \<in> set (map vf_id (ft_vfolders t))" for ct i
proof
  fix t :: folder_tables and c f assume "i \<in> set (map vf_id (ft_vfolders t))" "keeps_owner f"
  then show "i \<in> set (map vf_id (ft_vfolders (update_folders c f t)))" by (simp only: update_folders_ids)
qed (auto simp: insert_folder_def invite_one_def share_with_def drop_permissions_def Let_def split: if_splits)

text \<open>
  C9: By the requests of the folder API, and the tasks that finish clones, a folder disappears only
  through a request to delete a folder of its name, from an authorized user to whom it is accessible and
  who owns it, or administrates the domain or the system if it is a group's, or holds the permission to
  delete.  (The removal of users and groups, which deletes their folders, is not part of this API.)
\<close>
theorem folder_deleted_by_permitted:
  assumes "folder_step ct who s s'" and "folder_inv (fs_tables s)" and v: "v \<in> set (fs_folders s)" "vf_id v \<notin> set (map vf_id (fs_folders s'))"
  shows "\<exists>st me e. who = Some st \<and> as_is_authorized st \<and> as_user st = Some me \<and> e \<in> set (accessible ct (fs_tables s) me (\<lambda>w. vf_name w = vf_name v)) \<and> ve_row e = v \<and>
    (vf_user v = Some (u_uuid me) \<or> vf_group v \<noteq> None \<and> u_role me \<in> {ADMIN, SUPERADMIN} \<or> ve_permission e = RW_DELETE)"
proof -
  have "vf_id v \<in> set (map vf_id (fs_folders s))" using v(1) by simp
  from stays.step_keeps_or_deletes[OF assms(1) this] v(2) obtain st env name where w: "who = Some st" "s' = snd (delete env ct st name s)" by blast
  with v have "snd (delete env ct st name s) \<noteq> s" by auto
  with w delete_cases[OF surjective_pairing, of env ct st name s] obtain me e where me: "as_user st = Some me"
    and e: "accessible ct (fs_tables s) me (\<lambda>w. vf_name w = name) = [e]" "ve_is_owner e \<or> ve_permission e = RW_DELETE"
    and t: "fs_tables s' = delete_folder (vf_id (ve_row e)) (update_folders (\<lambda>v. vf_name v = name) (\<lambda>v. v\<lparr>vf_status := FolderDeleting\<rparr>) (fs_tables s))" by auto
  have "as_is_authorized st"
    using \<open>snd (delete env ct st name s) \<noteq> s\<close> by (auto simp: delete_def with_caller_def auth_required_def split: if_splits)
  moreover have "e \<in> set (accessible ct (fs_tables s) me (\<lambda>w. vf_name w = name))" by (simp add: e(1))
  from accessible_row[OF this] have row: "ve_row e \<in> set (fs_folders s)" "vf_name (ve_row e) = name"
    "ve_is_owner e \<longrightarrow> vf_user (ve_row e) = Some (u_uuid me) \<or> vf_group (ve_row e) \<noteq> None \<and> u_role me \<in> {ADMIN, SUPERADMIN}" by blast+
  moreover have "vf_id v = vf_id (ve_row e)"
    using v unfolding t delete_folder_ids by (simp add: update_folders_ids keeps_owner_def)
  then have "v = ve_row e" using v(1) row(1) assms(2) by (auto simp: folder_inv_def distinct_map inj_on_def)
  ultimately show ?thesis using w(1) me e by auto
qed

section \<open>Created folders\<close>

lemma storage_call_made: "storage_request env host call s = (Inr (), s1) \<Longrightarrow> fs_calls s1 = fs_calls s @ [call]"
  by (auto simp: storage_request_def Let_def split: if_splits)

lemma accessible_empty:
  assumes "accessible ct ft me cond = []"
  shows "''user'' \<in> set (ft_types ft) \<Longrightarrow> owned_entries ct ft (u_uuid me) cond = [] \<and> shared_entries ct ft (u_uuid me) cond = []"
    and "''group'' \<in> set (ft_types ft) \<Longrightarrow> group_entries ct ft (u_uuid me) (Some (u_role me)) (u_domain_name me) cond = []"
  using assms by (auto simp: accessible_def query_accessible_vfolders_def Let_def split: if_splits)

lemma create_checksD:
  assumes "create_folder_checks env ct ft st me pol p = Inr (host, grp, quota)"
  shows "check_count pol ft me = Inr () \<and> verify_vfolder_name (nf_name p) \<and> grp = group_of_ref ct me (nf_group p) \<and> quota = limit_quota pol (nf_quota p) \<and>
    accessible ct ft me (\<lambda>v. vf_name v = nf_name p \<and> (truthy (nf_unmanaged_path p) \<or> vf_host v = host)) = [] \<and>
    check_group ct ft st me (nf_group p) grp = Inr () \<and> (truthy (nf_unmanaged_path p) \<or> host \<in> allowed_hosts ct pol me grp)"
  using assms unfolding create_folder_checks_def by (auto simp: bindE_eq_Inr_iff Let_def split: if_splits)

lemma owner_entry:
  assumes "me \<in> set (ct_users ct)" "distinct (map u_uuid (ct_users ct))"
  shows "concat (map (\<lambda>u. if u_uuid me = u_uuid u then [f u] else []) (ct_users ct)) = [f me]"
proof -
  have "concat (map (\<lambda>u. if u_uuid me = u_uuid u then [f u] else []) us) = (if me \<in> set us then [f me] else [])"
    if "set us \<subseteq> set (ct_users ct)" "distinct (map u_uuid us)" for us
    using that
  proof (induction us)
    case (Cons u us)
    have "u_uuid me = u_uuid u \<longleftrightarrow> me = u" using Cons.prems(1) assms by (auto simp: distinct_map inj_on_def)
    moreover have "me \<notin> set us" if "me = u" using Cons.prems(2) that by auto
    ultimately show ?case using Cons by auto
  qed simp
  from this[of "ct_users ct"] assms show ?thesis by simp
qed

text \<open>
  C37: A folder that its owner creates on a host is the one and only folder the owner then finds under
  that name on that host, as its owner and with the requested permission.  (The manual says that the owner
  always has the permission to write and delete; the folder is listed with the requested one.)
\<close>
theorem created_folder_found:
  assumes "create_folder env ct st p s = (Inr v, s')" and me: "as_user st = Some me" "me \<in> set (ct_users ct)" "distinct (map u_uuid (ct_users ct))"
    and "folder_inv (fs_tables s)" and grp: "group_of_ref ct me (nf_group p) = None" and managed: "\<not> truthy (nf_unmanaged_path p)"
  shows "accessible ct (fs_tables s') me (\<lambda>w. vf_name w = nf_name p \<and> vf_host w = vf_host v) =
      [\<lparr>ve_row = v, ve_user_email = Some (u_email me), ve_group_name = None, ve_is_owner = True, ve_permission = the (nf_permission p)\<rparr>] \<and>
    vf_name v = nf_name p \<and> vf_status v = FolderReady \<and> vf_user v = Some (u_uuid me)"
proof -
  let ?cond = "\<lambda>w. vf_name w = nf_name p \<and> vf_host w = vf_host v"
  obtain pol host mode perm quota where perm: "nf_permission p = Some perm" and c: "create_folder_checks env ct (fs_tables s) st me pol p = Inr (host, None, quota)"
    and v: "v = new_row env me p host None mode perm quota" and i: "insert_folder v (fs_tables s) = Inr (fs_tables s')"
    using create_folder_cases[OF assms(1)] me(1) create_checksD grp by fastforce
  have f: "vf_name v = nf_name p" "vf_host v = host" "vf_user v = Some (u_uuid me)" "vf_group v = None" "vf_ownership_type v = OwnedByUser"
    "vf_permission v = perm" "vf_status v = FolderReady" using managed by (simp_all add: v new_row_def)
  have user: "''user'' \<in> set (ft_types (fs_tables s))" and none: "accessible ct (fs_tables s) me ?cond = []"
    using create_checksD[OF c] managed f(2) by (auto simp: check_group_def split: if_splits)
  have t: "fs_tables s' = (fs_tables s)\<lparr>ft_vfolders := fs_folders s @ [v]\<rparr>" "vf_id v \<notin> set (map vf_id (fs_folders s))"
    using i by (auto simp: insert_folder_def split: if_splits)
  have "owned_entries ct (fs_tables s') (u_uuid me) ?cond = owned_entries ct (fs_tables s) (u_uuid me) ?cond @
      concat (map (\<lambda>u. if u_uuid me = u_uuid u then [\<lparr>ve_row = v, ve_user_email = Some (u_email u), ve_group_name = None, ve_is_owner = True, ve_permission = vf_permission v\<rparr>] else []) (ct_users ct))"
    by (simp add: owned_entries_def t(1) f)
  then have "owned_entries ct (fs_tables s') (u_uuid me) ?cond = [\<lparr>ve_row = v, ve_user_email = Some (u_email me), ve_group_name = None, ve_is_owner = True, ve_permission = vf_permission v\<rparr>]"
    using accessible_empty(1)[OF none user] by (simp add: owner_entry[OF me(2,3)])
  moreover have "concat (map (\<lambda>(p, i, u). if i = vf_id v \<and> c u then [g p] else []) (ft_permissions (fs_tables s))) = []" for c :: "string \<Rightarrow> bool" and g :: "vfolder_permission \<Rightarrow> vfolder_entry"
    using assms(5) t(2) by (fastforce simp: folder_inv_def)
  then have "shared_entries ct (fs_tables s') (u_uuid me) ?cond = shared_entries ct (fs_tables s) (u_uuid me) ?cond"
    by (simp add: shared_entries_def t(1) f)
  then have "shared_entries ct (fs_tables s') (u_uuid me) ?cond = []" using accessible_empty(1)[OF none user] by simp
  moreover have "group_entries ct (fs_tables s') (u_uuid me) r d ?cond = group_entries ct (fs_tables s) (u_uuid me) r d ?cond" for r d
    by (simp add: group_entries_def Let_def t(1) f)
  ultimately show ?thesis using accessible_empty(2)[OF none] user f perm
    by (auto simp: accessible_def query_accessible_vfolders_def Let_def t(1) override_def split: option.splits)
qed

text \<open>
  With a limit on the number of folders in the policy, a user who creates or clones one owns at
  most that many afterwards.
\<close>
theorem folder_count_bounded:
  assumes "create_folder env ct st p s = (Inr v, s') \<or> clone env ct st name q s = (Inr v, s')"
    and "as_user st = Some me" "as_resource_policy st = Some pol" "p_max_vfolder_count pol > 0"
  shows "owned_count (fs_tables s') (u_uuid me) \<le> p_max_vfolder_count pol"
proof -
  have upd: "owned_count (update_folders c f t) u = owned_count t u" if "keeps_owner f" for c f t u
    using that by (simp add: owned_count_def update_folders_def keeps_owner_def filter_map comp_def if_distrib cong: if_cong)
  have "\<exists>t w. insert_folder w t = Inr (fs_tables s') \<and> owned_count t (u_uuid me) = owned_count (fs_tables s) (u_uuid me) \<and> check_count pol (fs_tables s) me = Inr ()"
    using assms(1)
  proof
    assume "create_folder env ct st p s = (Inr v, s')"
    with create_folder_cases[OF this] assms(2,3) show ?thesis by (auto dest: create_checksD)
  next
    assume c: "clone env ct st name q s = (Inr v, s')"
    have "check_count pol (fs_tables s) me = Inr ()" if "clone_checks env ct (fs_tables s) me kp pol row q h = Inr h'" for kp row h h'
      using that by (auto simp: clone_checks_def bindE_eq_Inr_iff split: if_splits)
    moreover have "keeps_owner (\<lambda>v. v\<lparr>vf_status := FolderCloning\<rparr>)" by (simp add: keeps_owner_def)
    ultimately show ?thesis using clone_cases[OF c] assms(2,3) upd by fastforce
  qed
  then obtain t w where "insert_folder w t = Inr (fs_tables s')" "owned_count t (u_uuid me) < p_max_vfolder_count pol"
    using assms(4) by (auto simp: check_count_def split: if_splits)
  moreover from this(1) have "fs_folders s' = ft_vfolders t @ [w]" by (auto simp: insert_folder_def split: if_splits dest: sym)
  ultimately show ?thesis by (simp add: owned_count_def)
qed

section \<open>Requests that do what they should not\<close>

text \<open>The request fails and leaves everything as it was: no row is written and the storage is not called.\<close>

definition refused :: "'a res \<times> folder_state \<Rightarrow> folder_state \<Rightarrow> bool" where
  "refused x s \<longleftrightarrow> (\<exists>e. x = (Inl e, s))"

definition none_ready :: "string \<Rightarrow> folder_state \<Rightarrow> bool" where
  "none_ready name s \<longleftrightarrow> (\<forall>w\<in>set (fs_folders s). vf_name w = name \<longrightarrow> vf_status w \<noteq> FolderReady)"

lemma none_ready_status: "none_ready name s \<Longrightarrow> with_status ct me UPDATABLE (Some name) s f = (Inl VFolderFilterStatusFailed, s)"
proof -
  assume n: "none_ready name s"
  have "accessible ct (fs_tables s) me (\<lambda>v. vf_name v = name \<and> vf_status v = FolderReady) = []"
  proof (rule ccontr)
    assume "accessible ct (fs_tables s) me (\<lambda>v. vf_name v = name \<and> vf_status v = FolderReady) \<noteq> []"
    then obtain x where "x \<in> set (accessible ct (fs_tables s) me (\<lambda>v. vf_name v = name \<and> vf_status v = FolderReady))" by (meson last_in_set)
    from accessible_row[OF this] n show False by (auto simp: none_ready_def)
  qed
  then show ?thesis by (simp add: with_status_def status_required_def)
qed

lemma refused_caller: "(\<And>me kp pol. refused (f me kp pol) s) \<Longrightarrow> refused (with_caller guard st s f) s"
  using with_caller_cases[of guard st s f] by (auto simp: refused_def)

lemma refused_status: "none_ready name s \<Longrightarrow> refused (with_status ct me UPDATABLE (Some name) s f) s"
  by (simp add: refused_def none_ready_status)

lemma refused_entry: "none_ready name s \<Longrightarrow> refused (with_entry ct st me UPDATABLE perm name s f) s"
  by (simp add: with_entry_def refused_status)

lemma refused_file: "none_ready name s \<Longrightarrow> refused (file_request env ct st UPDATABLE perm name op s) s"
  by (simp add: file_request_def refused_caller refused_entry)

lemma refused_clone: "none_ready name s \<Longrightarrow> refused (clone env ct st name q s) s"
  unfolding clone_def by (rule refused_caller) (auto simp: none_ready_status refused_def split: sum.splits)

text \<open>
  C39: Deleting one folder disables all others of its name, whoever owns them: they remain, marked as
  being deleted, and every request of any user that needs the folder of that name to be ready is refused
  without effect.  So it can not be deleted, renamed, cloned or left, its options not be changed,
  nobody be invited to it, it not be shared or unshared, and no directory made in it, no file uploaded,
  downloaded, renamed, moved or deleted.
\<close>
theorem delete_blocks_namesakes:
  assumes "delete env ct st name s = (Inr (), s')"
  shows "(\<exists>v\<in>set (fs_folders s). vf_name v = name \<and>
      (\<forall>w\<in>set (fs_folders s). vf_name w = name \<and> vf_id w \<noteq> vf_id v \<longrightarrow> w\<lparr>vf_status := FolderDeleting\<rparr> \<in> set (fs_folders s'))) \<and>
    refused (delete env' ct you name s') s' \<and> refused (rename_vfolder ct you name new_name s') s' \<and>
    refused (update_vfolder_options ct you name cloneable perm s') s' \<and> refused (leave ct you name shared_user s') s' \<and>
    refused (clone env' ct you name q s') s' \<and> refused (invite env' ct you name perm' emails s') s' \<and>
    refused (share env' ct you name perm' emails s') s' \<and> refused (unshare ct you name emails s') s' \<and>
    refused (make_dir env' ct you name path parents exist_ok s') s' \<and> refused (create_upload_session env' ct you name path sz s') s' \<and>
    refused (create_download_session env' ct you name path archive s') s' \<and> refused (rename_file env' ct you name path new_name s') s' \<and>
    refused (move_file env' ct you name path dst s') s' \<and> refused (delete_files env' ct you name files recursive s') s'"
proof -
  obtain e where e: "e \<in> set (accessible ct (fs_tables s) (the (as_user st)) (\<lambda>v. vf_name v = name))" and
    t: "fs_tables s' = delete_folder (vf_id (ve_row e)) (update_folders (\<lambda>v. vf_name v = name) (\<lambda>v. v\<lparr>vf_status := FolderDeleting\<rparr>) (fs_tables s))"
    using delete_cases[OF assms] by force
  have row: "ve_row e \<in> set (fs_folders s)" "vf_name (ve_row e) = name" using accessible_row[OF e] by auto
  have "w\<lparr>vf_status := FolderDeleting\<rparr> \<in> set (fs_folders s')"
    if "w \<in> set (fs_folders s)" "vf_name w = name" "vf_id w \<noteq> vf_id (ve_row e)" for w
    using that by (auto simp: t delete_folder_def update_folders_def intro!: image_eqI[of _ _ w])
  with row have remain: "\<exists>v\<in>set (fs_folders s). vf_name v = name \<and>
      (\<forall>w\<in>set (fs_folders s). vf_name w = name \<and> vf_id w \<noteq> vf_id v \<longrightarrow> w\<lparr>vf_status := FolderDeleting\<rparr> \<in> set (fs_folders s'))" by blast
  have "none_ready name s'" unfolding none_ready_def
  proof (intro ballI impI)
    fix w assume "w \<in> set (fs_folders s')" and n: "vf_name w = name"
    then have "w \<in> (\<lambda>x. if vf_name x = name then x\<lparr>vf_status := FolderDeleting\<rparr> else x) ` set (fs_folders s)"
      by (simp add: t delete_folder_def update_folders_def)
    then obtain x where "w = (if vf_name x = name then x\<lparr>vf_status := FolderDeleting\<rparr> else x)" by (rule imageE)
    with n show "vf_status w \<noteq> FolderReady" by (cases "vf_name x = name") simp_all
  qed
  note n = refused_status[OF this] refused_entry[OF this] refused_file[OF this] refused_clone[OF this]
  note defs = delete_def rename_vfolder_def update_vfolder_options_def leave_def invite_def share_def unshare_def make_dir_def
    create_upload_session_def create_download_session_def rename_file_def move_file_def delete_files_def
  show ?thesis by (intro conjI remain) (unfold defs, (rule n refused_caller[OF n(1)] refused_caller[OF n(2)])+)
qed

text \<open>
  C40: The permission a request about files requires is not enforced: a user with read-only access to a
  folder deletes its files.
\<close>
theorem read_only_deletes_files:
  assumes "as_is_authorized st" "as_user st = Some me" "as_keypair st = Some kp" "as_resource_policy st = Some pol"
    and e: "accessible ct (fs_tables s) me (\<lambda>v. vf_name v = name) = e # es" "ve_permission e = READ_ONLY" "\<not> ve_is_owner e"
    and "accessible ct (fs_tables s) me (\<lambda>v. vf_name v = name \<and> vf_status v = FolderReady) \<noteq> []"
    and "fst (split_host (vf_host (ve_row e))) \<in> set (fv_proxies env)"
  shows "fs_calls (snd (delete_files env ct st name files recursive s)) =
    fs_calls s @ [FileCall (snd (split_host (vf_host (ve_row e)))) (vf_id (ve_row e)) (DeleteFiles files recursive)]"
  using assms
  by (simp add: delete_files_def file_request_def with_caller_def auth_required_def with_entry_def with_status_def status_required_def
      permission_required_def accessible_with_def storage_request_def Let_def)

section \<open>Examples\<close>

definition demo_person :: "string \<Rightarrow> string \<Rightarrow> user_role \<Rightarrow> user_row" where
  "demo_person i email role = \<lparr>u_uuid = i, u_email = email, u_domain_name = Some ''d'', u_role = role, u_allowed_client_ip = None\<rparr>"

definition demo_people :: catalog where
  "demo_people = demo_members\<lparr>ct_users := [demo_person ''u'' ''u@x'' USER, demo_person ''w'' ''w@x'' USER, demo_person ''a'' ''a@x'' ADMIN],
     ct_agus := [(''u'', ''g''), (''w'', ''g'')]\<rparr>"

definition demo_signed :: "user_row \<Rightarrow> auth_state" where
  "demo_signed u = authorized (demo_keypair\<lparr>kp_user := u_uuid u, kp_user_id := u_email u, kp_is_admin := (u_role u = ADMIN)\<rparr>, u,
     (snd (hd (db_policies demo_state)))\<lparr>p_allowed_vfolder_hosts := [''p:v''], p_max_vfolder_count := 1\<rparr>)"

definition demo_folder_env :: folder_env where
  "demo_folder_env = \<lparr>fv_folder_id = ''new'', fv_invitation_id = (\<lambda>e. e), fv_default_host = None, fv_proxies = [''p''],
     fv_storage = (\<lambda>_. True), fv_set_order = remdups\<rparr>"

definition demo_with :: "vfolder_row list \<Rightarrow> folder_state" where
  "demo_with vs = \<lparr>fs_tables = demo_folders vs, fs_calls = [], fs_clones = []\<rparr>"

definition demo_new :: "string \<Rightarrow> new_folder" where
  "demo_new nm = \<lparr>nf_name = nm, nf_host = Some ''p:v'', nf_usage_mode = Some GENERAL, nf_permission = Some READ_WRITE, nf_unmanaged_path = None,
     nf_group = None, nf_quota = None, nf_cloneable = False\<rparr>"

abbreviation demo_mine :: vfolder_row where
  "demo_mine \<equiv> demo_folder ''f1'' ''data'' (Some ''u'') None"

abbreviation demo_theirs :: vfolder_row where
  "demo_theirs \<equiv> demo_folder ''f2'' ''data'' (Some ''w'') None"

abbreviation demo_group :: vfolder_row where
  "demo_group \<equiv> demo_folder ''f3'' ''data'' None (Some ''g'')"


lemma demo_inv: "folder_inv (fs_tables (demo_with vs))" if "distinct (map vf_id vs)" "\<forall>v\<in>set vs. folder_ok v"
  using that by (simp add: folder_inv_def demo_with_def demo_folders_def)

lemma demo_create:
  "case create_folder demo_folder_env demo_people (demo_signed (demo_person ''u'' ''u@x'' USER)) (demo_new ''data'') (demo_with []) of
     (Inr v, s) \<Rightarrow> fs_folders s = [v] \<and> fs_calls s = [CreateFolder ''v'' ''new'' None] | _ \<Rightarrow> False"
  by code_simp

lemma demo_delete:
  "case delete demo_folder_env demo_people (demo_signed (demo_person ''u'' ''u@x'' USER)) ''data'' (demo_with [demo_mine, demo_theirs]) of
     (Inr _, s) \<Rightarrow> map (\<lambda>v. (vf_id v, vf_status v)) (fs_folders s) = [(''f2'', FolderDeleting)] | _ \<Rightarrow> False"
  by code_simp


theorem folder_constraints_kept_witness:
  "\<exists>s'. folder_run demo_people (demo_with []) s' \<and> folder_inv (fs_tables s') \<and> fs_folders s' \<noteq> []"
proof -
  let ?s' = "snd (create_folder demo_folder_env demo_people (demo_signed (demo_person ''u'' ''u@x'' USER)) (demo_new ''data'') (demo_with []))"
  have r: "folder_run demo_people (demo_with []) ?s'" by (rule run_step[OF step_create])
  have "fs_folders ?s' \<noteq> []" using demo_create by (auto split: prod.splits sum.splits)
  with r folder_constraints_kept[OF r demo_inv] show ?thesis by auto
qed


theorem folder_deleted_by_permitted_witness:
  "\<exists>s' st me. folder_step demo_people (Some st) (demo_with [demo_mine, demo_theirs]) s' \<and> vf_id demo_mine \<notin> set (map vf_id (fs_folders s')) \<and>
     as_user st = Some me \<and> (vf_user demo_mine = Some (u_uuid me))"
proof -
  let ?st = "demo_signed (demo_person ''u'' ''u@x'' USER)"
  let ?s' = "snd (delete demo_folder_env demo_people ?st ''data'' (demo_with [demo_mine, demo_theirs]))"
  have st: "folder_step demo_people (Some ?st) (demo_with [demo_mine, demo_theirs]) ?s'" by (rule step_delete)
  have "map vf_id (fs_folders ?s') = [''f2'']" using demo_delete by (auto split: prod.splits sum.splits)
  then have gone: "vf_id demo_mine \<notin> set (map vf_id (fs_folders ?s'))" by (simp add: demo_folder_def)
  have "folder_inv (fs_tables (demo_with [demo_mine, demo_theirs]))" by (rule demo_inv) (simp_all add: demo_folder_def folder_ok_def)
  from folder_deleted_by_permitted[OF st this _ gone] obtain me where "as_user ?st = Some me" by (auto simp: demo_with_def demo_folders_def)
  moreover have "as_user ?st = Some (demo_person ''u'' ''u@x'' USER)" by (simp add: demo_signed_def authorized_def)
  ultimately show ?thesis using st gone by (intro exI[of _ ?s'] exI[of _ ?st] exI[of _ me]) (simp add: demo_folder_def demo_person_def)
qed

theorem created_folder_found_witness:
  "\<exists>v s'. create_folder demo_folder_env demo_people (demo_signed (demo_person ''u'' ''u@x'' USER)) (demo_new ''data'') (demo_with []) = (Inr v, s') \<and>
     map ve_row (accessible demo_people (fs_tables s') (demo_person ''u'' ''u@x'' USER) (\<lambda>w. vf_name w = ''data'' \<and> vf_host w = vf_host v)) = [v]"
proof -
  let ?me = "demo_person ''u'' ''u@x'' USER"
  obtain v s' where c: "create_folder demo_folder_env demo_people (demo_signed ?me) (demo_new ''data'') (demo_with []) = (Inr v, s')"
    using demo_create by (auto split: prod.splits sum.splits)
  have "as_user (demo_signed ?me) = Some ?me" "?me \<in> set (ct_users demo_people)" "distinct (map u_uuid (ct_users demo_people))"
    "group_of_ref demo_people ?me (nf_group (demo_new ''data'')) = None" "\<not> truthy (nf_unmanaged_path (demo_new ''data''))" "nf_name (demo_new ''data'') = ''data''"
    by (simp_all add: demo_signed_def authorized_def demo_people_def demo_person_def demo_new_def group_of_ref_def truthy_def)
  from created_folder_found[OF c this(1-3) demo_inv this(4,5)] this(6) c show ?thesis by simp
qed

theorem folder_count_bounded_witness:
  "\<exists>v s'. create_folder demo_folder_env demo_people (demo_signed (demo_person ''u'' ''u@x'' USER)) (demo_new ''data'') (demo_with []) = (Inr v, s') \<and>
     owned_count (fs_tables s') ''u'' \<le> 1"
proof -
  let ?me = "demo_person ''u'' ''u@x'' USER"
  obtain v s' where c: "create_folder demo_folder_env demo_people (demo_signed ?me) (demo_new ''data'') (demo_with []) = (Inr v, s')"
    using demo_create by (auto split: prod.splits sum.splits)
  define pol where "pol = (snd (hd (db_policies demo_state)))\<lparr>p_allowed_vfolder_hosts := [''p:v''], p_max_vfolder_count := 1\<rparr>"
  have "as_user (demo_signed ?me) = Some ?me" "as_resource_policy (demo_signed ?me) = Some pol" "p_max_vfolder_count pol > 0" "p_max_vfolder_count pol = 1" "u_uuid ?me = ''u''"
    by (simp_all add: demo_signed_def authorized_def pol_def demo_person_def)
  from folder_count_bounded[OF disjI1[OF c] this(1-3)] this(4,5) c show ?thesis by simp
qed

theorem delete_blocks_namesakes_witness:
  "\<exists>s'. delete demo_folder_env demo_people (demo_signed (demo_person ''u'' ''u@x'' USER)) ''data'' (demo_with [demo_mine, demo_theirs]) = (Inr (), s') \<and>
     map vf_user (fs_folders s') = [Some ''w''] \<and>
     refused (delete demo_folder_env demo_people (demo_signed (demo_person ''w'' ''w@x'' USER)) ''data'' s') s' \<and>
     refused (rename_vfolder demo_people (demo_signed (demo_person ''w'' ''w@x'' USER)) ''data'' ''x'' s') s'"
proof -
  have d: "case delete demo_folder_env demo_people (demo_signed (demo_person ''u'' ''u@x'' USER)) ''data'' (demo_with [demo_mine, demo_theirs]) of
     (Inr _, s) \<Rightarrow> map vf_user (fs_folders s) = [Some ''w''] | _ \<Rightarrow> False" by code_simp
  then obtain s' where "delete demo_folder_env demo_people (demo_signed (demo_person ''u'' ''u@x'' USER)) ''data'' (demo_with [demo_mine, demo_theirs]) = (Inr (), s')"
    by (auto split: prod.splits sum.splits)
  with d delete_blocks_namesakes[OF this, of demo_folder_env "demo_signed (demo_person ''w'' ''w@x'' USER)" "''x''"] show ?thesis by auto
qed

theorem read_only_deletes_files_witness:
  "fs_calls (snd (delete_files demo_folder_env demo_people (demo_signed (demo_person ''u'' ''u@x'' USER)) ''data'' [''x''] True
     ((demo_with [demo_theirs])\<lparr>fs_tables := (demo_folders [demo_theirs])\<lparr>ft_permissions := [(READ_ONLY, ''f2'', ''u'')]\<rparr>\<rparr>))) =
   [FileCall ''v'' ''f2'' (DeleteFiles [''x''] True)]"
proof -
  let ?me = "demo_person ''u'' ''u@x'' USER" and ?s = "(demo_with [demo_theirs])\<lparr>fs_tables := (demo_folders [demo_theirs])\<lparr>ft_permissions := [(READ_ONLY, ''f2'', ''u'')]\<rparr>\<rparr>"
  define e where "e = \<lparr>ve_row = demo_theirs, ve_user_email = Some ''w@x'', ve_group_name = None, ve_is_owner = False, ve_permission = READ_ONLY\<rparr>"
  have "accessible demo_people (fs_tables ?s) ?me (\<lambda>v. vf_name v = ''data'') = [e]" unfolding e_def by code_simp
  moreover have "accessible demo_people (fs_tables ?s) ?me (\<lambda>v. vf_name v = ''data'' \<and> vf_status v = FolderReady) \<noteq> []" by code_simp
  moreover have "split_host (vf_host (ve_row e)) = (''p'', ''v'')" unfolding e_def by code_simp
  ultimately show ?thesis
    using read_only_deletes_files[of "demo_signed ?me" ?me _ _ demo_people ?s "''data''" e "[]" demo_folder_env "[''x'']" True]
    by (simp add: demo_signed_def authorized_def e_def demo_folder_env_def demo_with_def) (simp add: demo_folder_def)
qed

text \<open>
  A folder can be renamed to a name that is reserved for creation; such folders are mounted in every
  session of the owner.
\<close>

lemma rename_to_reserved:
  "case rename_vfolder demo_people (demo_signed (demo_person ''u'' ''u@x'' USER)) ''data'' ''.ssh'' (demo_with [demo_mine]) of
     (Inr _, s) \<Rightarrow> map vf_name (fs_folders s) = [''.ssh''] \<and> \<not> verify_vfolder_name ''.ssh'' | _ \<Rightarrow> False"
  by code_simp

text \<open>
  An administrator who has a folder of that name shares the folder of a group in another domain.
\<close>

lemma share_other_domain:
  "case share demo_folder_env (demo_people\<lparr>ct_groups := [\<lparr>g_id = ''g'', g_name = ''default'', g_domain_name = ''other'', g_is_active = True, g_allowed_vfolder_hosts = [], g_dotfiles = []\<rparr>]\<rparr>)
     (demo_signed (demo_person ''a'' ''a@x'' ADMIN)) ''data'' RW_DELETE [''u@x''] (demo_with [demo_folder ''f4'' ''data'' (Some ''a'') None, demo_group]) of
     (Inr _, s) \<Rightarrow> ft_permissions (fs_tables s) = [(RW_DELETE, ''f3'', ''u'')] | _ \<Rightarrow> False"
  by code_simp

text \<open>When the storage fails to clone a folder it keeps the status of being cloned.\<close>

lemma failed_clone_stuck:
  "map_prod id (\<lambda>s. map (\<lambda>v. (vf_id v, vf_status v)) (fs_folders s)) (clone_bgtask (demo_folder_env\<lparr>fv_storage := (\<lambda>_. False)\<rparr>)
     \<lparr>cl_host = ''p:v'', cl_source_volume = ''v'', cl_source_id = ''f1'', cl_target_volume = ''v'', cl_target_id = ''new'', cl_name = ''data''\<rparr>
     (demo_with [demo_mine\<lparr>vf_status := FolderCloning\<rparr>])) = (Inl VFolderOperationFailed, [(''f1'', FolderCloning)])"
  by code_simp

text \<open>The request to accept an invitation does not look at who was invited.\<close>

lemma accept_ignores_invitee:
  "map_sum id ft_permissions (accept_body (demo_person ''u'' ''u@x'' USER) ''i'' ((demo_folders [demo_theirs])\<lparr>ft_invitations :=
     [\<lparr>iv_id = ''i'', iv_permission = READ_WRITE, iv_inviter = ''w@x'', iv_invitee = ''a@x'', iv_state = InvitationPending, iv_vfolder = ''f2''\<rparr>]\<rparr>)) =
   Inr [(READ_WRITE, ''f2'', ''u'')]"
  by code_simp

text \<open>A request to leave a folder that names a user, even oneself, is for super-administrators only.\<close>

lemma leave_by_own_id:
  "fst (leave demo_people (demo_signed (demo_person ''u'' ''u@x'' USER)) ''data'' (Some ''u'')
     ((demo_with [demo_theirs])\<lparr>fs_tables := (demo_folders [demo_theirs])\<lparr>ft_permissions := [(READ_ONLY, ''f2'', ''u'')]\<rparr>\<rparr>)) = Inl InsufficientPrivilege"
  by code_simp

end
