(* ===== verification/Spec2Isabelle.thy ===== *)
theory Spec2Isabelle
  imports FractionAlloc IdleCheckers FolderSafety
begin

text \<open>
  The resource management of Backend.AI, a platform that runs computing sessions in containers on a
  cluster.  A \<^emph>\<open>session\<close> consists of one or more \<^emph>\<open>kernels\<close> (containers).  The manager keeps sessions,
  agents and quotas in a database; its scheduler picks pending sessions, checks them against quotas
  and dependencies, reserves slots on agents and has the kernels created there; each agent divides
  its devices among the kernels it hosts; events of the agents bring kernels and sessions to their
  end.  Amounts of resources are maps from slot names to decimals throughout (\<open>ResourceSlot\<close>).

  \<^bold>\<open>Parts and theories\<close> (sources are under \<open>src/src/ai/backend/\<close>).

  \<^item> \<open>Prelude\<close>: exceptions as values (\<open>py_exc\<close>, \<open>'a res\<close> with \<open>Inl\<close> the exception), insertion-ordered
    dictionaries, \<open>sorted\<close>, \<open>min\<close> and \<open>max\<close> on partial orders, folds that may raise.
  \<^item> \<open>Decimals\<close>, \<open>ResourceSlots\<close>: \<open>decimal.Decimal\<close> as extended rationals, and the arithmetic and order
    of \<open>ResourceSlot\<close> (\<open>common/types.py\<close>), whose binary operators add missing keys to both operands:
    every operator returns the changed operands too.  Shown: the operators are the pointwise ones.
  \<^item> \<open>PyStrings\<close>, \<open>BinarySizes\<close>, \<open>SlotInput\<close>: number parsing and printing, \<open>BinarySize\<close>, and the conversions
    of \<open>ResourceSlot\<close> from user input, from policies and from and to JSON (\<open>common/types.py\<close>).  Shown:
    round trips, and that \<open>from_policy\<close> computes the limits the quota checks compare with.
  \<^item> \<open>AllocMaps\<close>, \<open>DiscreteAlloc\<close>, \<open>FractionAlloc\<close>: the device allocation maps of \<open>agent/resources.py\<close>
    (discrete and fractional devices, strategies FILL and EVENLY).  Shown: a successful allocation
    gives exactly what was asked (up to the rounding of the fractional map), never more than a
    device has; when it succeeds; freeing undoes it; when EVENLY ends and when it does not.
  \<^item> \<open>Json\<close>, \<open>Database\<close>: JSONB columns with \<open>sql_json_merge\<close> and \<open>sql_json_increment\<close>
    (\<open>manager/models/utils.py\<close>), the rows of the tables, the counters and statistics in Redis, and the
    events produced, in one record \<open>db\<close>.
  \<^item> \<open>Sessions\<close>, \<open>Schedulers\<close>: \<open>manager/scheduler/types.py\<close> (grouping of rows into sessions) and the FIFO,
    LIFO, DRF and MOF schedulers.  Shown: totals of sessions, which session each scheduler picks, and
    that an assigned agent has room for the request.
  \<^item> \<open>Occupancy\<close>, \<open>Predicates\<close>: occupancy queries and recalculation (\<open>manager/registry.py\<close>,
    \<open>manager/models/agent.py\<close>, \<open>manager/models/kernel.py\<close>) and the checks of
    \<open>manager/scheduler/predicates.py\<close>.  Shown: recalculation restores the accounting, quota,
    concurrency and dependency checks decide what they promise.  The locales \<open>occupancy_query\<close> and
    \<open>quota_check\<close> state the contracts between the two and are interpreted for keypairs, groups and
    domains.
  \<^item> \<open>Dispatcher\<close>, \<open>SchedulingSafety\<close>, \<open>SchedulingFailures\<close>: \<open>schedule\<close> of
    \<open>manager/scheduler/dispatcher.py\<close>.  Shown: a whole run keeps the accounting exact and agents
    within capacity, failed attempts are undone, and two ways in which they are not.
  \<^item> \<open>Preparation\<close>: \<open>prepare\<close>, \<open>start_session\<close> of the dispatcher and the clean-up after a failed start.
    Shown: what the clean-up establishes, and the counter it leaves behind.
  \<^item> \<open>ImageRefs\<close>, \<open>ServicePorts\<close>, \<open>Images\<close>: image references with their tags, aliases and order
    (\<open>common/docker.py\<close>), the declaration of service ports (\<open>common/service_ports.py\<close>), and the resolution of
    images and their slot ranges (\<open>manager/models/image.py\<close>).  Shown: a reference survives printing and
    parsing, accepted ports are distinct, in range and not reserved.
  \<^item> \<open>Creation\<close>, \<open>Settlement\<close>, \<open>Starting\<close>: \<open>start_session\<close> of \<open>manager/registry.py\<close>, which sends the kernels of a
    session to their agents, records what they allocated and corrects the occupied slots.  Shown: a
    successful start whose reports are readable and finite keeps the accounting exact whatever was
    allocated, what it establishes for the rows of the session, and the sessions that can never start.
  \<^item> \<open>Enqueue\<close>, \<open>Enqueueing\<close>: \<open>enqueue_session\<close> and \<open>check_scaling_group\<close> of \<open>manager/registry.py\<close>.  Shown: the
    shape of the rows of an accepted session, that finite requests keep the invariant of the scheduler, and the
    bounds on the requested slots.
  \<^item> \<open>Paths\<close>, \<open>VFolders\<close>: \<open>PurePosixPath\<close>, the folders a user may use and on which hosts
    (\<open>manager/models/vfolder.py\<close>), their mounts and the dotfiles of a session
    (\<open>manager/models/dotfile.py\<close>), and the path check of the storage proxy (\<open>storage/abc.py\<close>).  Shown: what
    is mounted is permitted and lies inside its folder; which dotfile wins; folders that hide others.
  \<^item> \<open>ClientIps\<close>, \<open>Auth\<close>: allowed networks (\<open>ReadableCIDR\<close> of \<open>common/types.py\<close>), the authorization
    middleware and the guards of handlers (\<open>manager/api/auth.py\<close>), and acting for others
    (\<open>manager/api/utils.py\<close>).  Shown: a guarded handler runs for authentic requests only, on behalf of whom.
  \<^item> \<open>CreateApi\<close>: the requests that create sessions (\<open>manager/api/session.py\<close>), from the parameters to
    enqueueing.  Shown: to whom a new session belongs, and requests that can never succeed.
  \<^item> \<open>FolderApi\<close>, \<open>FolderSafety\<close>: the requests about virtual folders (\<open>manager/api/vfolder.py\<close>) over the tables of
    folders, permissions and invitations, with their decorators and the calls to the storage.  Shown, over
    all sequences of these requests (the relation \<open>folder_step\<close>): the constraints of the tables, who can
    make a folder disappear and who is given access; what a creation establishes; invitations that can
    not be accepted, a deletion that disables other folders, and permissions that are not enforced.
    The removal of users and groups, which deletes folders too, is not modelled.  The locales \<open>folder_property\<close> and \<open>folder_invariant\<close> state what a property of the tables has
    to survive, and are interpreted for the three properties.
  \<^item> \<open>SessionControl\<close>: finding sessions by id, name or prefix (\<open>manager/models/kernel.py\<close>,
    \<open>manager/registry.py\<close>), renaming, restarting and cleaning up.  Shown: a session that is found has a
    kernel of the keypair that asks and matches the text; a renamed session is found under its new name; how restarts fail silently.
  \<^item> \<open>Lifecycle\<close>, \<open>Destruction\<close>, \<open>AgentLife\<close>: the end of kernels and sessions, \<open>destroy_session\<close>, heartbeats
    and lost agents (\<open>manager/registry.py\<close>) with their event handlers (\<open>manager/api/session.py\<close>).
    Shown: a terminated kernel gives back exactly what it held, dead kernels stay dead and a
    session's end is announced once along every sequence of the guarded operations (the relation
    \<open>life_step\<close>), what destroying a running session does, what a heartbeat establishes.
  \<^item> \<open>IdleCheckers\<close>: the idle checkers of \<open>manager/idle.py\<close>.  Shown: for which sessions a round requests
    termination, and the window in which an idle session is noticed.

  \<^bold>\<open>How the code is rendered.\<close>  A transaction is a function on \<open>db\<close>; one that raises leaves the
  database as it was, so an operation of several transactions returns its result together with the
  database.  Writes to Redis and etcd are not undone by a transaction around them.  Coroutines run one
  after another, as the locks around scheduling and heartbeats have it.  Clock, iteration order of
  sets, printed forms, hooks, message authentication codes, the file system and the answers of agents
  are arguments; \<open>Preparation\<close> takes the registry's
  start of a session as its argument \<open>reg_start\<close>, which \<open>Creation\<close> provides.

  \<^bold>\<open>Termination.\<close>  All loops of the model are total functions, but for the EVENLY loop of the discrete
  allocation map: it is a \<open>partial_function (option)\<close>, shown to return on whole amounts and shown to
  run forever on certain fractional ones.  The scheduling loop is measured by the pending sessions left.
  No fuel is used.

  \<^bold>\<open>Not modelled.\<close>  Code execution, file transfer and streaming (requests forwarded to agents), the
  remaining HTTP and GraphQL layers, the agent's container drivers and code runners, the file
  operations of the storage proxy, client, web server and plug-ins: they are input and output around the state above.  Retries of
  database transactions (\<open>execute_with_retry\<close>) and the short-lived caches of the shared configuration are
  left out too, as are tasks and trackers that wait for kernel creation, and the time-outs and agent
  errors that \<open>handle_kernel_exception\<close> translates, which \<open>destroy_session\<close> does not let through.
\<close>

end
